(* ===== verification/Prelude.thy ===== *)
theory Prelude
  imports Complex_Main "HOL-Library.Multiset" "HOL-Library.AList"
begin

text \<open>
  Generic vocabulary shared by every component: Python truthiness and default look-ups,
  clamping of scores to the unit interval, stable sorting by a descending key, and the
  \<open>named_theorems\<close> collections the component proofs extend.

  Python floats are modelled as \<open>real\<close>: the theorems are about the arithmetic the code
  writes down, not about IEEE rounding.  Python integers are \<open>int\<close> or \<open>nat\<close>,
  strings are \<open>string\<close>, and dictionaries are maps, or association lists where the
  iteration order of the dictionary matters.
\<close>

named_theorems effect_intros \<open>rules that build effect facts of composed transactions\<close>
named_theorems graph_simps \<open>how the primitive graph operations act on the graph's parts\<close>

section \<open>Python truthiness\<close>

text \<open>\<open>if s:\<close> for a value that is a string or \<open>None\<close>.\<close>

definition truthy :: "string option \<Rightarrow> bool" where
  "truthy s = (case s of None \<Rightarrow> False | Some x \<Rightarrow> x \<noteq> [])"

lemma truthy_None [simp]: "\<not> truthy None"
  by (simp add: truthy_def)

lemma truthy_Some [simp]: "truthy (Some x) \<longleftrightarrow> x \<noteq> []"
  by (simp add: truthy_def)

lemma truthyE:
  assumes "truthy s"
  obtains x where "s = Some x" "x \<noteq> []"
  using assms by (cases s) auto

text \<open>\<open>s or d\<close> for a string or \<open>None\<close>.\<close>

definition or_else :: "string option \<Rightarrow> string \<Rightarrow> string" where
  "or_else s d = (case s of None \<Rightarrow> d | Some x \<Rightarrow> if x = [] then d else x)"

text \<open>\<open>m.get(k, d)\<close>.\<close>

definition get_default :: "('k \<rightharpoonup> 'v) \<Rightarrow> 'k \<Rightarrow> 'v \<Rightarrow> 'v" where
  "get_default m k d = (case m k of None \<Rightarrow> d | Some v \<Rightarrow> v)"

lemma get_default_upd [simp]:
  "get_default (m(k \<mapsto> v)) k' d = (if k' = k then v else get_default m k' d)"
  by (simp add: get_default_def)

lemma get_default_empty [simp]: "get_default Map.empty k d = d"
  by (simp add: get_default_def)

section \<open>Strings\<close>

text \<open>\<open>s.lower()\<close>, \<open>s.upper()\<close> (ASCII letters), \<open>s.strip()\<close>, \<open>s.replace(c, d)\<close> for single characters.\<close>

definition lower_char :: "char \<Rightarrow> char" where
  "lower_char c = (let k = of_char c :: nat in if 65 \<le> k \<and> k \<le> 90 then char_of (k + 32) else c)"

definition upper_char :: "char \<Rightarrow> char" where
  "upper_char c = (let k = of_char c :: nat in if 97 \<le> k \<and> k \<le> 122 then char_of (k - 32) else c)"

definition is_space :: "char \<Rightarrow> bool" where
  "is_space c = (let k = of_char c :: nat in 9 \<le> k \<and> k \<le> 13 \<or> 28 \<le> k \<and> k \<le> 32 \<or> k = 133 \<or> k = 160)"

definition strip :: "string \<Rightarrow> string" where
  "strip s = rev (dropWhile is_space (rev (dropWhile is_space s)))"

definition replace_char :: "char \<Rightarrow> char \<Rightarrow> string \<Rightarrow> string" where
  "replace_char a b = map (\<lambda>c. if c = a then b else c)"

section \<open>Python dictionaries\<close>

text \<open>
  A dictionary whose iteration order or size matters is an association list changed by
  \<open>AList.update\<close>, which keeps the place of a key that is already there.  \<open>dict(pairs)\<close>: a repeated
  key keeps its first place and its last value.
\<close>

definition dict_of :: "('k \<times> 'v) list \<Rightarrow> ('k \<times> 'v) list" where
  "dict_of kvs = fold (\<lambda>(k, v). AList.update k v) kvs []"

lemma map_of_dict_of: "map_of (dict_of kvs) = map_of (rev kvs)"
proof -
  have "map_of (fold (\<lambda>(k, v). AList.update k v) kvs d) = map_of d ++ map_of (rev kvs)" for d
    by (induction kvs arbitrary: d) (auto simp: update_conv' map_add_upd_left map_add_def fun_eq_iff
        split: option.split)
  from this [of "[]"] show ?thesis by (simp add: dict_of_def)
qed

lemma distinct_dict_of [simp]: "distinct (map fst (dict_of kvs))"
proof -
  have "distinct (map fst d) \<Longrightarrow> distinct (map fst (fold (\<lambda>(k, v). AList.update k v) kvs d))" for d
    by (induction kvs arbitrary: d) (auto simp: distinct_update)
  then show ?thesis by (simp add: dict_of_def)
qed

lemma map_of_dict_of_entry: "(k, v) \<in> set (dict_of kvs) \<longleftrightarrow> map_of (dict_of kvs) k = Some v"
  using distinct_dict_of by (metis map_of_eq_Some_iff)

lemma dict_of_value: "map_of (dict_of kvs) k = Some v \<Longrightarrow> (k, v) \<in> set kvs"
  unfolding map_of_dict_of by (metis map_of_SomeD set_rev)

section \<open>Lists\<close>

text \<open>The list without repetitions, every element at its first place.\<close>

definition dedup :: "'a list \<Rightarrow> 'a list" where
  "dedup xs = rev (remdups (rev xs))"

lemma set_dedup [simp]: "set (dedup xs) = set xs"
  by (simp add: dedup_def)

lemma distinct_dedup [simp]: "distinct (dedup xs)"
  by (simp add: dedup_def)

section \<open>Scores in the unit interval\<close>

text \<open>\<open>max(0.0, min(1.0, x))\<close>.\<close>

definition clamp01 :: "real \<Rightarrow> real" where
  "clamp01 x = max 0 (min 1 x)"

lemma clamp01_bounds [simp, intro]: "0 \<le> clamp01 x" "clamp01 x \<le> 1"
  by (auto simp: clamp01_def)

lemma clamp01_id [simp]: "0 \<le> x \<Longrightarrow> x \<le> 1 \<Longrightarrow> clamp01 x = x"
  by (simp add: clamp01_def)

lemma clamp01_mono: "x \<le> y \<Longrightarrow> clamp01 x \<le> clamp01 y"
  by (auto simp: clamp01_def)

lemma clamp01_lipschitz: "\<bar>clamp01 x - clamp01 y\<bar> \<le> \<bar>x - y\<bar>"
  by (auto simp: clamp01_def)

section \<open>Lists\<close>

text \<open>
  \<open>xs.sort(key=f, reverse=True)\<close>: Python keeps the original order of elements with equal
  keys also when \<open>reverse\<close> is set, so this is the stable sort by the negated key.
\<close>

definition sort_desc :: "('a \<Rightarrow> real) \<Rightarrow> 'a list \<Rightarrow> 'a list" where
  "sort_desc f xs = sort_key (\<lambda>x. - f x) xs"

lemma set_sort_desc [simp]: "set (sort_desc f xs) = set xs"
  by (simp add: sort_desc_def)

lemma length_sort_desc [simp]: "length (sort_desc f xs) = length xs"
  by (simp add: sort_desc_def)

lemma mset_sort_desc [simp]: "mset (sort_desc f xs) = mset xs"
  by (simp add: sort_desc_def)

lemma distinct_sort_desc [simp]: "distinct (map g (sort_desc f xs)) = distinct (map g xs)"
proof -
  have "mset (map g (sort_desc f xs)) = mset (map g xs)"
    by (simp add: sort_desc_def)
  then show ?thesis by (metis mset_eq_imp_distinct_iff)
qed

lemma sort_desc_sorted:
  assumes "i \<le> j" "j < length xs"
  shows "f (sort_desc f xs ! j) \<le> f (sort_desc f xs ! i)"
proof -
  have "sorted (map (\<lambda>x. - f x) (sort_desc f xs))"
    by (simp add: sort_desc_def)
  from sorted_nth_mono [OF this, of i j] assms show ?thesis
    by simp
qed

lemma sorted_wrt_sort_desc: "sorted_wrt (\<lambda>x y. f y \<le> f x) (sort_desc f xs)"
proof -
  have "sorted (map (\<lambda>x. - f x) (sort_desc f xs))" by (simp add: sort_desc_def)
  then show ?thesis unfolding sorted_map by simp
qed

lemma sum_list_nonneg_map: "(\<And>x. x \<in> set xs \<Longrightarrow> 0 \<le> f x) \<Longrightarrow> 0 \<le> sum_list (map f xs)"
  for f :: "'a \<Rightarrow> real"
  by (induction xs) auto

lemma sum_list_le_map:
  fixes f g :: "'a \<Rightarrow> real"
  shows "(\<And>x. x \<in> set xs \<Longrightarrow> f x \<le> g x) \<Longrightarrow> sum_list (map f xs) \<le> sum_list (map g xs)"
  by (induction xs) (auto intro: add_mono)

lemma sum_list_abs_le: "\<bar>sum_list (map f xs)\<bar> \<le> sum_list (map (\<lambda>x. \<bar>f x\<bar>) xs)"
  for f :: "'a \<Rightarrow> real"
  by (induction xs) (auto intro: order_trans [OF abs_triangle_ineq])

end
