(* ===== verification/PropertyGraph.thy ===== *)
theory PropertyGraph
  imports Prelude
begin

text \<open>
  The Memgraph property graph as the transactions see it through
  \<open>execute_query\<close> / \<open>execute_write\<close>: nodes with an internal identity (\<open>vid\<close>), labels,
  the identifying properties \<open>id\<close> and \<open>silo_id\<close>, the other top-level properties
  (\<open>attrs\<close>) and the nested map \<open>n.properties\<close> (\<open>props\<close>); directed typed edges between
  internal identities.  A Cypher pattern \<open>(n {id: $i, silo_id: $s})\<close> may match any number
  of nodes, exactly as in the database: nothing here assumes that ids are unique.

  \<open>null\<close> is an absent key, so \<open>SET n.x = null\<close> removes a key and a comparison with
  an absent key never holds.
\<close>

section \<open>Values, nodes, edges\<close>

datatype val =
    VBool bool
  | VInt int
  | VNum real
  | VStr string
  | VTime int
  | VStrs "string list"
  | VNums "real list"
  | VDict "(string \<times> val) list"

type_synonym pymap = "string \<rightharpoonup> val"

record node =
  vid :: nat
  labels :: "string list"
  nid :: string
  silo :: "string option"
  attrs :: pymap
  props :: pymap

record edge =
  esrc :: nat
  edst :: nat
  etype :: string
  eprops :: pymap

record graph =
  nodes :: "node list"
  edges :: "edge list"
  next_vid :: nat

definition empty_graph :: graph where
  "empty_graph = \<lparr>nodes = [], edges = [], next_vid = 0\<rparr>"

text \<open>Reading a value as Python does after \<open>row.get(...)\<close>.\<close>

definition str_of :: "val option \<Rightarrow> string option" where
  "str_of v = (case v of Some (VStr s) \<Rightarrow> Some s | _ \<Rightarrow> None)"

definition num_of :: "val option \<Rightarrow> real option" where
  "num_of v = (case v of Some (VNum x) \<Rightarrow> Some x | Some (VInt i) \<Rightarrow> Some (of_int i) | _ \<Rightarrow> None)"

definition int_of :: "val option \<Rightarrow> int option" where
  "int_of v = (case v of Some (VInt i) \<Rightarrow> Some i | _ \<Rightarrow> None)"

definition time_of :: "val option \<Rightarrow> int option" where
  "time_of v = (case v of Some (VTime t) \<Rightarrow> Some t | _ \<Rightarrow> None)"

definition strs_of :: "val option \<Rightarrow> string list" where
  "strs_of v = (case v of Some (VStrs xs) \<Rightarrow> xs | _ \<Rightarrow> [])"

lemmas val_readers = str_of_def num_of_def int_of_def time_of_def strs_of_def

lemma val_readers_simps [simp]:
  "str_of None = None" "str_of (Some (VStr s)) = Some s"
  "num_of None = None" "num_of (Some (VNum x)) = Some x" "num_of (Some (VInt i)) = Some (of_int i)"
  "int_of None = None" "int_of (Some (VInt i)) = Some i"
  "time_of None = None" "time_of (Some (VTime t)) = Some t"
  "strs_of None = []" "strs_of (Some (VStrs xs)) = xs"
  by (simp_all add: val_readers)

lemma str_of_eq_Some [simp]: "str_of v = Some s \<longleftrightarrow> v = Some (VStr s)"
  by (auto simp: str_of_def split: option.splits val.splits)

abbreviation pstate :: "node \<Rightarrow> string option" where
  "pstate n \<equiv> str_of (props n ''state'')"

abbreviation player :: "node \<Rightarrow> string option" where
  "player n \<equiv> str_of (props n ''layer'')"

section \<open>Matching\<close>

text \<open>\<open>(n {id: $i, silo_id: $s})\<close>.\<close>

definition is_node :: "string \<Rightarrow> string \<Rightarrow> node \<Rightarrow> bool" where
  "is_node i s n \<longleftrightarrow> nid n = i \<and> silo n = Some s"

definition match_id :: "graph \<Rightarrow> string \<Rightarrow> string \<Rightarrow> node list" where
  "match_id g i s = filter (is_node i s) (nodes g)"

text \<open>\<open>(n:Label {silo_id: $s})\<close> and \<open>(n:Label {id: $i, silo_id: $s})\<close>.\<close>

definition has_label :: "string \<Rightarrow> node \<Rightarrow> bool" where
  "has_label l n \<longleftrightarrow> l \<in> set (labels n)"

definition match_label :: "graph \<Rightarrow> string \<Rightarrow> string \<Rightarrow> node list" where
  "match_label g l s = filter (\<lambda>n. has_label l n \<and> silo n = Some s) (nodes g)"

definition match_label_id :: "graph \<Rightarrow> string \<Rightarrow> string \<Rightarrow> string \<Rightarrow> node list" where
  "match_label_id g l i s = filter (has_label l) (match_id g i s)"

text \<open>The node of an internal identity, and the nodes one edge away.\<close>

definition node_at :: "graph \<Rightarrow> nat \<Rightarrow> node option" where
  "node_at g v = find (\<lambda>n. vid n = v) (nodes g)"

definition out_nodes :: "graph \<Rightarrow> string \<Rightarrow> node \<Rightarrow> node list" where
  "out_nodes g t n =
     concat (map (\<lambda>e. case node_at g (edst e) of None \<Rightarrow> [] | Some m \<Rightarrow> [m])
       (filter (\<lambda>e. etype e = t \<and> esrc e = vid n) (edges g)))"

definition in_nodes :: "graph \<Rightarrow> string list \<Rightarrow> node \<Rightarrow> node list" where
  "in_nodes g ts n =
     concat (map (\<lambda>e. case node_at g (esrc e) of None \<Rightarrow> [] | Some m \<Rightarrow> [m])
       (filter (\<lambda>e. etype e \<in> set ts \<and> edst e = vid n) (edges g)))"

lemma match_id_iff: "n \<in> set (match_id g i s) \<longleftrightarrow> n \<in> set (nodes g) \<and> nid n = i \<and> silo n = Some s"
  by (auto simp: match_id_def is_node_def)

lemma node_at_SomeD: "node_at g v = Some n \<Longrightarrow> n \<in> set (nodes g) \<and> vid n = v"
  by (auto simp: node_at_def find_Some_iff)

section \<open>Primitive writes\<close>

definition add_node ::
  "string list \<Rightarrow> string \<Rightarrow> string option \<Rightarrow> pymap \<Rightarrow> pymap \<Rightarrow> graph \<Rightarrow> graph" where
  "add_node ls i s fs ps g =
     g\<lparr>nodes := nodes g @ [\<lparr>vid = next_vid g, labels = ls, nid = i, silo = s,
                             attrs = fs, props = ps\<rparr>],
       next_vid := Suc (next_vid g)\<rparr>"

definition update_where :: "(node \<Rightarrow> bool) \<Rightarrow> (node \<Rightarrow> node) \<Rightarrow> graph \<Rightarrow> graph" where
  "update_where P f g = g\<lparr>nodes := map (\<lambda>n. if P n then f n else n) (nodes g)\<rparr>"

definition set_prop :: "string \<Rightarrow> val option \<Rightarrow> node \<Rightarrow> node" where
  "set_prop k v n = n\<lparr>props := (props n)(k := v)\<rparr>"

definition set_field :: "string \<Rightarrow> val option \<Rightarrow> node \<Rightarrow> node" where
  "set_field k v n = n\<lparr>attrs := (attrs n)(k := v)\<rparr>"

text \<open>\<open>CREATE (a)-[:T {..}]->(b)\<close> for every pair of matched nodes.\<close>

definition add_edges ::
  "string \<Rightarrow> pymap \<Rightarrow> node list \<Rightarrow> node list \<Rightarrow> graph \<Rightarrow> graph" where
  "add_edges t ps as bs g =
     g\<lparr>edges := edges g @
        concat (map (\<lambda>a. map (\<lambda>b. \<lparr>esrc = vid a, edst = vid b, etype = t, eprops = ps\<rparr>) bs) as)\<rparr>"

text \<open>\<open>SET e.k = v\<close>.\<close>

definition update_edges :: "(edge \<Rightarrow> bool) \<Rightarrow> (pymap \<Rightarrow> pymap) \<Rightarrow> graph \<Rightarrow> graph" where
  "update_edges P f g = g\<lparr>edges := map (\<lambda>e. if P e then e\<lparr>eprops := f (eprops e)\<rparr> else e) (edges g)\<rparr>"

text \<open>
  \<open>MERGE (a)-[:T {..}]->(b)\<close>: an edge is created only when there is none of the type
  between the two nodes that has the listed properties.
\<close>

definition edge_matches :: "string \<Rightarrow> (string \<times> val) list \<Rightarrow> nat \<Rightarrow> nat \<Rightarrow> edge \<Rightarrow> bool" where
  "edge_matches t kvs a b e \<longleftrightarrow>
     etype e = t \<and> esrc e = a \<and> edst e = b \<and> list_all (\<lambda>(k, v). eprops e k = Some v) kvs"

definition merge_edge :: "string \<Rightarrow> (string \<times> val) list \<Rightarrow> nat \<Rightarrow> nat \<Rightarrow> graph \<Rightarrow> graph" where
  "merge_edge t kvs a b g =
     (if list_ex (edge_matches t kvs a b) (edges g) then g
      else g\<lparr>edges := edges g @ [\<lparr>esrc = a, edst = b, etype = t, eprops = map_of kvs\<rparr>]\<rparr>)"

definition merge_edges ::
  "string \<Rightarrow> (string \<times> val) list \<Rightarrow> node list \<Rightarrow> node list \<Rightarrow> graph \<Rightarrow> graph" where
  "merge_edges t kvs as bs g =
     fold (\<lambda>(a, b). merge_edge t kvs (vid a) (vid b)) (List.product as bs) g"

definition del_edges :: "(edge \<Rightarrow> bool) \<Rightarrow> graph \<Rightarrow> graph" where
  "del_edges P g = g\<lparr>edges := filter (\<lambda>e. \<not> P e) (edges g)\<rparr>"

definition del_nodes :: "(node \<Rightarrow> bool) \<Rightarrow> graph \<Rightarrow> graph" where
  "del_nodes P g = g\<lparr>nodes := filter (\<lambda>n. \<not> P n) (nodes g)\<rparr>"

definition touches :: "node list \<Rightarrow> edge \<Rightarrow> bool" where
  "touches ns e \<longleftrightarrow> esrc e \<in> vid ` set ns \<or> edst e \<in> vid ` set ns"

text \<open>\<open>DETACH DELETE\<close>: the nodes and every edge at them.\<close>

definition detach_delete :: "node list \<Rightarrow> graph \<Rightarrow> graph" where
  "detach_delete ns g = del_nodes (\<lambda>n. vid n \<in> vid ` set ns) (del_edges (touches ns) g)"

lemma nodes_simps [graph_simps]:
  "nodes (update_where P f g) = map (\<lambda>n. if P n then f n else n) (nodes g)"
  "nodes (add_edges t ps as bs g) = nodes g"
  "nodes (merge_edge t kvs a b g) = nodes g"
  "nodes (del_edges Q g) = nodes g"
  "nodes (del_nodes P g) = filter (\<lambda>n. \<not> P n) (nodes g)"
  "nodes (update_edges Q F g) = nodes g"
  by (simp_all add: update_edges_def update_where_def add_edges_def merge_edge_def del_edges_def del_nodes_def)

lemma edges_simps [graph_simps]:
  "edges (update_where P f g) = edges g"
  "edges (add_node ls i s fs ps g) = edges g"
  "edges (del_nodes P g) = edges g"
  "edges (del_edges Q g) = filter (\<lambda>e. \<not> Q e) (edges g)"
  "edges (update_edges Q F g) = map (\<lambda>e. if Q e then e\<lparr>eprops := F (eprops e)\<rparr> else e) (edges g)"
  by (simp_all add: update_edges_def update_where_def add_node_def del_edges_def del_nodes_def)

lemma next_vid_simps [graph_simps]:
  "next_vid (update_where P f g) = next_vid g"
  "next_vid (add_node ls i s fs ps g) = Suc (next_vid g)"
  "next_vid (add_edges t ps as bs g) = next_vid g"
  "next_vid (merge_edge t kvs a b g) = next_vid g"
  "next_vid (del_edges Q g) = next_vid g"
  "next_vid (del_nodes P g) = next_vid g"
  "next_vid (update_edges Q F g) = next_vid g"
  by (simp_all add: update_edges_def update_where_def add_node_def add_edges_def merge_edge_def del_edges_def
      del_nodes_def)

lemma merge_edges_nodes [graph_simps]:
  "nodes (merge_edges t kvs as bs g) = nodes g"
  "next_vid (merge_edges t kvs as bs g) = next_vid g"
proof -
  have "nodes (fold (\<lambda>(a, b). merge_edge t kvs (vid a) (vid b)) xs g) = nodes g \<and>
        next_vid (fold (\<lambda>(a, b). merge_edge t kvs (vid a) (vid b)) xs g) = next_vid g"
    for xs :: "(node \<times> node) list"
    by (induction xs arbitrary: g) (auto simp: graph_simps)
  then show "nodes (merge_edges t kvs as bs g) = nodes g"
    and "next_vid (merge_edges t kvs as bs g) = next_vid g"
    by (auto simp: merge_edges_def)
qed

lemma set_prop_simps [simp]:
  "vid (set_prop k v n) = vid n" "nid (set_prop k v n) = nid n" "silo (set_prop k v n) = silo n"
  "labels (set_prop k v n) = labels n" "attrs (set_prop k v n) = attrs n"
  "props (set_prop k v n) = (props n)(k := v)"
  by (simp_all add: set_prop_def)

lemma set_field_simps [simp]:
  "vid (set_field k v n) = vid n" "nid (set_field k v n) = nid n" "silo (set_field k v n) = silo n"
  "labels (set_field k v n) = labels n" "props (set_field k v n) = props n"
  "attrs (set_field k v n) = (attrs n)(k := v)"
  by (simp_all add: set_field_def)

text \<open>A node after an update is an updated one, or an old one the update does not concern.\<close>

lemma update_whereE:
  assumes "n \<in> set (nodes (update_where P f g))"
  obtains m where "m \<in> set (nodes g)" "P m" "n = f m" | "n \<in> set (nodes g)" "\<not> P n"
proof -
  from assms obtain m where m: "m \<in> set (nodes g)" "n = (if P m then f m else m)"
    by (auto simp: nodes_simps)
  show ?thesis using m that by (cases "P m") simp_all
qed

text \<open>Updates that keep labels and identity commute with matching.\<close>

lemma match_label_id_update:
  assumes "\<And>n. labels (f n) = labels n \<and> nid (f n) = nid n \<and> silo (f n) = silo n"
  shows "match_label_id (update_where P f g) l i s =
     map (\<lambda>n. if P n then f n else n) (match_label_id g l i s)"
proof -
  have "filter (has_label l) (filter (is_node i s) (map (\<lambda>n. if P n then f n else n) ns)) =
     map (\<lambda>n. if P n then f n else n) (filter (has_label l) (filter (is_node i s) ns))" for ns
    by (induction ns) (use assms in \<open>auto simp: has_label_def is_node_def\<close>)
  then show ?thesis by (simp add: match_label_id_def match_id_def nodes_simps)
qed

section \<open>What merging an edge does\<close>

lemma merge_edge_edges:
  "set (edges (merge_edge t kvs a b g)) \<subseteq> insert \<lparr>esrc = a, edst = b, etype = t, eprops = map_of kvs\<rparr> (set (edges g))"
  "set (edges g) \<subseteq> set (edges (merge_edge t kvs a b g))"
  by (auto simp: merge_edge_def)

lemma merge_edge_there:
  assumes "distinct (map fst kvs)"
  shows "\<exists>e \<in> set (edges (merge_edge t kvs a b g)). edge_matches t kvs a b e"
proof (cases "list_ex (edge_matches t kvs a b) (edges g)")
  case True
  then show ?thesis by (auto simp: merge_edge_def list_ex_iff)
next
  case False
  have "edge_matches t kvs a b \<lparr>esrc = a, edst = b, etype = t, eprops = map_of kvs\<rparr>"
    using assms by (auto simp: edge_matches_def list_all_iff)
  with False show ?thesis by (auto simp: merge_edge_def)
qed

lemma merge_edges_edges:
  "set (edges g) \<subseteq> set (edges (merge_edges t kvs as bs g))"
  "e \<in> set (edges (merge_edges t kvs as bs g)) \<Longrightarrow> e \<in> set (edges g) \<or>
     (\<exists>a \<in> set as. \<exists>b \<in> set bs. e = \<lparr>esrc = vid a, edst = vid b, etype = t, eprops = map_of kvs\<rparr>)"
  "distinct (map fst kvs) \<Longrightarrow> a \<in> set as \<Longrightarrow> b \<in> set bs \<Longrightarrow>
     \<exists>e \<in> set (edges (merge_edges t kvs as bs g)). edge_matches t kvs (vid a) (vid b) e"
proof -
  let ?f = "\<lambda>(a, b). merge_edge t kvs (vid a) (vid b)"
  have 1: "set (edges g) \<subseteq> set (edges (fold ?f ps g))" for ps :: "(node \<times> node) list" and g
    by (induction ps arbitrary: g) (use merge_edge_edges(2) in \<open>fastforce\<close>)+
  have 2: "e \<in> set (edges g) \<or> (\<exists>(a, b) \<in> set ps. e = \<lparr>esrc = vid a, edst = vid b, etype = t, eprops = map_of kvs\<rparr>)"
    if "e \<in> set (edges (fold ?f ps g))" for ps :: "(node \<times> node) list" and g
    using that
  proof (induction ps arbitrary: g)
    case (Cons p ps)
    obtain a b where p: "p = (a, b)" by (cases p)
    from Cons.IH [of "merge_edge t kvs (vid a) (vid b) g"] Cons.prems
    show ?case using merge_edge_edges(1) [of t kvs "vid a" "vid b" g] by (auto simp: p)
  qed simp
  have 3: "\<exists>e \<in> set (edges (fold ?f ps g)). edge_matches t kvs (vid a) (vid b) e"
    if "distinct (map fst kvs)" "(a, b) \<in> set ps" for ps :: "(node \<times> node) list" and g a b
    using that(2)
  proof (induction ps arbitrary: g)
    case (Cons p ps)
    show ?case
    proof (cases "p = (a, b)")
      case True
      with merge_edge_there [OF that(1)] 1 [of "merge_edge t kvs (vid a) (vid b) g" ps] show ?thesis by fastforce
    next
      case False
      with Cons show ?thesis by simp
    qed
  qed simp
  show "set (edges g) \<subseteq> set (edges (merge_edges t kvs as bs g))" unfolding merge_edges_def by (rule 1)
  show "e \<in> set (edges g) \<or> (\<exists>a \<in> set as. \<exists>b \<in> set bs. e = \<lparr>esrc = vid a, edst = vid b, etype = t, eprops = map_of kvs\<rparr>)"
    if "e \<in> set (edges (merge_edges t kvs as bs g))"
    using 2 [of "List.product as bs" g] that unfolding merge_edges_def by auto
  show "\<exists>e \<in> set (edges (merge_edges t kvs as bs g)). edge_matches t kvs (vid a) (vid b) e"
    if "distinct (map fst kvs)" "a \<in> set as" "b \<in> set bs"
    unfolding merge_edges_def by (rule 3) (use that in auto)
qed

lemma merge_edges_noop:
  assumes "\<And>a b. a \<in> set as \<Longrightarrow> b \<in> set bs \<Longrightarrow> \<exists>e \<in> set (edges g). edge_matches t kvs (vid a) (vid b) e"
  shows "merge_edges t kvs as bs g = g"
proof -
  have "fold (\<lambda>(a, b). merge_edge t kvs (vid a) (vid b)) ps g = g"
    if "\<And>a b. (a, b) \<in> set ps \<Longrightarrow> \<exists>e \<in> set (edges g). edge_matches t kvs (vid a) (vid b) e" for ps
    using that by (induction ps) (fastforce simp: merge_edge_def list_ex_iff)+
  from this [of "List.product as bs"] show ?thesis using assms by (simp add: merge_edges_def)
qed

lemma match_label_id_add_node:
  "match_label_id (add_node ls i s fs ps g) l j r =
     match_label_id g l j r @ (if l \<in> set ls \<and> i = j \<and> s = Some r
       then [\<lparr>vid = next_vid g, labels = ls, nid = i, silo = s, attrs = fs, props = ps\<rparr>] else [])"
  by (auto simp: match_label_id_def match_id_def add_node_def is_node_def has_label_def)

end
