(* ===== verification/TxMonad.thy ===== *)
theory TxMonad
  imports PropertyGraph
begin

text \<open>
  The world a brain transaction runs in (the graph, the Postgres shadow table, the vector
  store, the dead-letter queue and the reaction events handed to the broker), the errors of
  \<open>sage/transactions.py\<close>, and the transactions themselves: state transformers that either
  return or raise.  A raise keeps every write made before it, as in the code, where each
  \<open>execute_write\<close> commits on its own.

  Everything the code obtains from outside is an environment indexed by the number of
  effectful calls made so far: the clock, \<open>uuid4\<close>, the LLM, the embedding service, and the
  oracle \<open>fault\<close>, which decides for every call to the graph store (and to the services)
  whether it raises (\<open>fault_msg\<close> is then the text of the error).  Times are in seconds.
\<close>

section \<open>Errors\<close>

text \<open>
  \<open>BrainError\<close> and its subclasses; \<open>InvariantViolation\<close> carries its code.  \<open>StoreError\<close>
  is an exception of a store or service call, \<open>ValueError\<close> one of \<open>uuid.UUID\<close> and
  \<open>TypeError\<close> one of arithmetic on \<open>None\<close>,
  \<open>AttributeError\<close> one of a method call on \<open>None\<close>.
\<close>

datatype exn =
    BrainError string
  | InvariantViolation string
  | ContradictionRejected "string list"
  | NeighborhoodInconsistent "string list"
  | CrossSiloViolation string string
  | CycleError string string string
  | ValueError
  | TypeError
  | AttributeError
  | StoreError

section \<open>Reaction events\<close>

datatype ReactionEventType =
    COMPUTE_EMBEDDING | BATCH_COMPUTE_EMBEDDING | CASCADE_STALENESS
  | CASCADE_STALENESS_COMPLETE | UPDATE_HEAT | FLAG_CONTRADICTION | CONFLICT_DETECTED
  | CHECK_EXTRACTION_TRIGGER | PROPAGATE_CONFIDENCE | CONSOLIDATE | PROPOSAL_READY
  | TRACE_REASONING | CHECK_CONSENSUS | CHAIN_TOMBSTONED

record ReactionEvent =
  event_type :: ReactionEventType
  ev_node :: string
  ev_silo :: string
  payload :: "(string \<times> val) list"

definition reaction :: "ReactionEventType \<Rightarrow> string \<Rightarrow> string \<Rightarrow> (string \<times> val) list \<Rightarrow> ReactionEvent" where
  "reaction t n s p = \<lparr>event_type = t, ev_node = n, ev_silo = s, payload = p\<rparr>"

section \<open>World and environment\<close>

record shadow_row =
  sh_silo :: string
  sh_layer :: string
  sh_content :: string
  sh_state :: string
  sh_agent :: "string option"
  sh_session :: "string option"
  sh_owner :: "string option"
  sh_model :: "string option"

record world =
  gr :: graph
  shadow :: "(string \<rightharpoonup> shadow_row) option"
  vectors :: "(string \<times> string) list"
  dead_letters :: "(string \<times> string) list"
  emitted :: "ReactionEvent list"
  tick :: nat

datatype llm_outcome = LlmText string | LlmTimeout | LlmError

record env =
  clock :: "nat \<Rightarrow> int"
  uuid4 :: "nat \<Rightarrow> string"
  fault :: "nat \<Rightarrow> bool"
  fault_msg :: "nat \<Rightarrow> string"
  llm_out :: "nat \<Rightarrow> llm_outcome"
  embed :: "string \<Rightarrow> real list"
  contradiction_enforcement_enabled :: bool
  ncb_enforcement_enabled :: bool
  set_sequential :: bool

type_synonym 'a tx = "env \<Rightarrow> world \<Rightarrow> (exn + 'a) \<times> world"

section \<open>The monad\<close>

definition ret :: "'a \<Rightarrow> 'a tx" where
  "ret a = (\<lambda>e w. (Inr a, w))"

definition raise :: "exn \<Rightarrow> 'a tx" where
  "raise x = (\<lambda>e w. (Inl x, w))"

definition tbind :: "'a tx \<Rightarrow> ('a \<Rightarrow> 'b tx) \<Rightarrow> 'b tx" where
  "tbind m f = (\<lambda>e w. case m e w of (Inl x, w') \<Rightarrow> (Inl x, w') | (Inr a, w') \<Rightarrow> f a e w')"

definition tcatch :: "'a tx \<Rightarrow> (exn \<Rightarrow> 'a tx) \<Rightarrow> 'a tx" where
  "tcatch m h = (\<lambda>e w. case m e w of (Inl x, w') \<Rightarrow> h x e w' | (Inr a, w') \<Rightarrow> (Inr a, w'))"

definition twhen :: "bool \<Rightarrow> unit tx \<Rightarrow> unit tx" where
  "twhen b m = (if b then m else ret ())"

definition asks :: "(env \<Rightarrow> 'a) \<Rightarrow> 'a tx" where
  "asks f = (\<lambda>e w. (Inr (f e), w))"

fun tfor :: "'a list \<Rightarrow> ('a \<Rightarrow> 'b tx) \<Rightarrow> 'b list tx" where
  "tfor [] f = ret []"
| "tfor (x # xs) f = tbind (f x) (\<lambda>y. tbind (tfor xs f) (\<lambda>ys. ret (y # ys)))"

text \<open>Calls to the outside: each takes the next index of the environment.\<close>

definition execute_query :: "(graph \<Rightarrow> 'a) \<Rightarrow> 'a tx" where
  "execute_query q = (\<lambda>e w. (if fault e (tick w) then Inl StoreError else Inr (q (gr w)),
                             w\<lparr>tick := Suc (tick w)\<rparr>))"

definition execute_write :: "(graph \<Rightarrow> graph \<times> 'a) \<Rightarrow> 'a tx" where
  "execute_write q = (\<lambda>e w. if fault e (tick w) then (Inl StoreError, w\<lparr>tick := Suc (tick w)\<rparr>)
      else (Inr (snd (q (gr w))), w\<lparr>gr := fst (q (gr w)), tick := Suc (tick w)\<rparr>))"

text \<open>A write the database may refuse (a plain \<open>DELETE\<close> of a node that still has edges).\<close>

definition execute_write_checked :: "(graph \<Rightarrow> (graph \<times> 'a) option) \<Rightarrow> 'a tx" where
  "execute_write_checked q = (\<lambda>e w.
      if fault e (tick w) then (Inl StoreError, w\<lparr>tick := Suc (tick w)\<rparr>)
      else (case q (gr w) of
              None \<Rightarrow> (Inl StoreError, w\<lparr>tick := Suc (tick w)\<rparr>)
            | Some (g, r) \<Rightarrow> (Inr r, w\<lparr>gr := g, tick := Suc (tick w)\<rparr>)))"

definition datetime_now :: "int tx" where
  "datetime_now = (\<lambda>e w. (Inr (clock e (tick w)), w\<lparr>tick := Suc (tick w)\<rparr>))"

definition new_uuid :: "string tx" where
  "new_uuid = (\<lambda>e w. (Inr (uuid4 e (tick w)), w\<lparr>tick := Suc (tick w)\<rparr>))"

definition emit_reaction :: "ReactionEvent \<Rightarrow> unit tx" where
  "emit_reaction ev = (\<lambda>e w. (Inr (), w\<lparr>emitted := emitted w @ [ev]\<rparr>))"

definition emit_all :: "bool \<Rightarrow> ReactionEvent list \<Rightarrow> unit tx" where
  "emit_all emit evs = twhen emit (tbind (tfor evs emit_reaction) (\<lambda>_. ret ()))"

definition embed_all :: "string list \<Rightarrow> real list list tx" where
  "embed_all xs = (\<lambda>e w. (if fault e (tick w) then Inl StoreError else Inr (map (embed e) xs),
                          w\<lparr>tick := Suc (tick w)\<rparr>))"

definition llm_call :: "llm_outcome tx" where
  "llm_call = (\<lambda>e w. (Inr (llm_out e (tick w)), w\<lparr>tick := Suc (tick w)\<rparr>))"

lemmas tx_prims = ret_def raise_def tbind_def tcatch_def twhen_def asks_def execute_query_def
  execute_write_def execute_write_checked_def datetime_now_def new_uuid_def emit_reaction_def emit_all_def embed_all_def
  llm_call_def

text \<open>
  \<open>uuid.UUID(s)\<close> accepts 32 hexadecimal digits with optional hyphens, braces and URN prefix;
  the model covers digits, hyphens and braces.
\<close>

definition hex_digits :: string where
  "hex_digits = ''0123456789abcdefABCDEF''"

definition uuid_ok :: "string \<Rightarrow> bool" where
  "uuid_ok s = (let h = filter (\<lambda>c. c \<notin> {CHR ''-'', CHR ''{'', CHR ''}''}) s
                in length h = 32 \<and> list_all (\<lambda>c. c \<in> set hex_digits) h)"

definition parse_uuid :: "string \<Rightarrow> string tx" where
  "parse_uuid s = (if uuid_ok s then ret s else raise ValueError)"

section \<open>Weakest preconditions\<close>

text \<open>
  \<open>wp e m E Q w\<close>: run in \<open>w\<close>, the transaction either returns with \<open>Q\<close> or raises with \<open>E\<close>.
  The equations \<open>wp_simps\<close> compute it through the combinators and the calls.
\<close>

definition wp ::
  "env \<Rightarrow> 'a tx \<Rightarrow> (exn \<Rightarrow> world \<Rightarrow> bool) \<Rightarrow> ('a \<Rightarrow> world \<Rightarrow> bool) \<Rightarrow> world \<Rightarrow> bool" where
  "wp e m E Q w = (case m e w of (Inl x, w') \<Rightarrow> E x w' | (Inr a, w') \<Rightarrow> Q a w')"

lemma wp_bind: "wp e (tbind m f) E Q = wp e m E (\<lambda>a. wp e (f a) E Q)"
  by (simp add: fun_eq_iff wp_def tbind_def split: prod.splits sum.splits)

lemma wp_catch: "wp e (tcatch m h) E Q = wp e m (\<lambda>x. wp e (h x) E Q) Q"
  by (simp add: fun_eq_iff wp_def tcatch_def split: prod.splits sum.splits)

lemma wp_ret: "wp e (ret a) E Q = Q a"
  by (simp add: fun_eq_iff wp_def ret_def)

lemma wp_raise: "wp e (raise x) E Q = E x"
  by (simp add: fun_eq_iff wp_def raise_def)

lemma wp_calls:
  "wp e (asks f) E Q'' w = Q'' (f e) w"
  "wp e (twhen b m) E QU w = (if b then wp e m E QU w else QU () w)"
  "wp e datetime_now E QI w = QI (clock e (tick w)) (w\<lparr>tick := Suc (tick w)\<rparr>)"
  "wp e new_uuid E QS w = QS (uuid4 e (tick w)) (w\<lparr>tick := Suc (tick w)\<rparr>)"
  "wp e (emit_reaction ev) E QU w = QU () (w\<lparr>emitted := emitted w @ [ev]\<rparr>)"
  "wp e llm_call E QL w = QL (llm_out e (tick w)) (w\<lparr>tick := Suc (tick w)\<rparr>)"
  "wp e (parse_uuid s) E QS w = (if uuid_ok s then QS s w else E ValueError w)"
  by (simp_all add: wp_def ret_def raise_def asks_def twhen_def datetime_now_def new_uuid_def
      emit_reaction_def llm_call_def parse_uuid_def)

lemma wp_store:
  "wp e (execute_query q) E Q w =
     (if fault e (tick w) then E StoreError (w\<lparr>tick := Suc (tick w)\<rparr>)
      else Q (q (gr w)) (w\<lparr>tick := Suc (tick w)\<rparr>))"
  "wp e (execute_write u) E Q' w =
     (if fault e (tick w) then E StoreError (w\<lparr>tick := Suc (tick w)\<rparr>)
      else Q' (snd (u (gr w))) (w\<lparr>gr := fst (u (gr w)), tick := Suc (tick w)\<rparr>))"
  "wp e (execute_write_checked c) E Q'' w =
     (if fault e (tick w) then E StoreError (w\<lparr>tick := Suc (tick w)\<rparr>)
      else (case c (gr w) of None \<Rightarrow> E StoreError (w\<lparr>tick := Suc (tick w)\<rparr>)
            | Some (g, r) \<Rightarrow> Q'' r (w\<lparr>gr := g, tick := Suc (tick w)\<rparr>)))"
  "wp e (embed_all xs) E QE w =
     (if fault e (tick w) then E StoreError (w\<lparr>tick := Suc (tick w)\<rparr>)
      else QE (map (embed e) xs) (w\<lparr>tick := Suc (tick w)\<rparr>))"
  by (simp_all add: wp_def execute_query_def execute_write_def execute_write_checked_def
      embed_all_def split: option.splits)

lemma wp_emit_all:
  "wp e (emit_all b evs) E Q w = Q () (if b then w\<lparr>emitted := emitted w @ evs\<rparr> else w)"
proof -
  have "tfor evs emit_reaction e w = (Inr (map (\<lambda>_. ()) evs), w\<lparr>emitted := emitted w @ evs\<rparr>)" for w
    by (induction evs arbitrary: w) (simp_all add: ret_def tbind_def emit_reaction_def)
  then show ?thesis by (simp add: wp_def emit_all_def twhen_def tbind_def ret_def)
qed

lemmas wp_simps = wp_bind wp_catch wp_ret wp_raise wp_calls wp_store wp_emit_all

lemma wp_mono:
  "wp e m E Q w \<Longrightarrow> (\<And>x w'. E x w' \<Longrightarrow> E' x w') \<Longrightarrow> (\<And>a w'. Q a w' \<Longrightarrow> Q' a w') \<Longrightarrow> wp e m E' Q' w"
  by (auto simp: wp_def split: prod.splits sum.splits)

lemma wp_returns: "wp e m E Q w \<Longrightarrow> m e w = (Inr a, w') \<Longrightarrow> Q a w'"
  by (simp add: wp_def)

lemma wp_raises: "wp e m E Q w \<Longrightarrow> m e w = (Inl x, w') \<Longrightarrow> E x w'"
  by (simp add: wp_def)

text \<open>A transaction known to return, and known never to raise.\<close>

lemma wp_eqI: "wp e m (\<lambda>_ _. False) (\<lambda>a w'. a = r \<and> w' = v) w \<Longrightarrow> m e w = (Inr r, v)"
  by (auto simp: wp_def split: prod.splits sum.splits)

lemma wp_conj:
  "wp e m E Q w \<Longrightarrow> wp e m E' Q' w \<Longrightarrow>
   wp e m (\<lambda>x w. E x w \<and> E' x w) (\<lambda>a w. Q a w \<and> Q' a w) w"
  by (auto simp: wp_def split: prod.splits sum.splits)

lemma wp_weaken_raise: "wp e m (\<lambda>_ _. False) Q w \<Longrightarrow> wp e m E Q w"
  by (auto simp: wp_def split: prod.splits sum.splits)

text \<open>
  Partial correctness: what holds when the transaction returns.  One rule per construct, so that
  \<open>(intro returns_intros)\<close> walks through a transaction without splitting on the faults.
\<close>

abbreviation returns :: "env \<Rightarrow> 'a tx \<Rightarrow> ('a \<Rightarrow> world \<Rightarrow> bool) \<Rightarrow> world \<Rightarrow> bool" where
  "returns e m Q w \<equiv> wp e m (\<lambda>_ _. True) Q w"

lemma returnsD: "returns e m Q w \<Longrightarrow> m e w = (Inr a, w') \<Longrightarrow> Q a w'"
  by (rule wp_returns)

lemma returns_intros:
  "returns e mb (\<lambda>a. returns e (fb a) Q) w \<Longrightarrow> returns e (tbind mb fb) Q w"
  "Q a w \<Longrightarrow> returns e (ret a) Q w"
  "returns e (raise x) Q w"
  "Q' (f' e) w \<Longrightarrow> returns e (asks f') Q' w"
  "(b \<Longrightarrow> returns e mu QU w) \<Longrightarrow> (\<not> b \<Longrightarrow> QU () w) \<Longrightarrow> returns e (twhen b mu) QU w"
  "QI (clock e (tick w)) (w\<lparr>tick := Suc (tick w)\<rparr>) \<Longrightarrow> returns e datetime_now QI w"
  "QS (uuid4 e (tick w)) (w\<lparr>tick := Suc (tick w)\<rparr>) \<Longrightarrow> returns e new_uuid QS w"
  "QR (q (gr w)) (w\<lparr>tick := Suc (tick w)\<rparr>) \<Longrightarrow> returns e (execute_query q) QR w"
  "QW (snd (u (gr w))) (w\<lparr>gr := fst (u (gr w)), tick := Suc (tick w)\<rparr>) \<Longrightarrow>
     returns e (execute_write u) QW w"
  "(uuid_ok s \<Longrightarrow> QS s w) \<Longrightarrow> returns e (parse_uuid s) QS w"
  "(b \<Longrightarrow> returns e m Q w) \<Longrightarrow> (\<not> b \<Longrightarrow> returns e m' Q w) \<Longrightarrow> returns e (if b then m else m') Q w"
  by (auto simp: wp_simps)

lemma returns_emit_all:
  "(\<And>evs'. Q () (w\<lparr>emitted := emitted w @ evs'\<rparr>)) \<Longrightarrow> returns e (emit_all b evs) Q w"
proof -
  assume a: "\<And>evs'. Q () (w\<lparr>emitted := emitted w @ evs'\<rparr>)"
  have "Q () w" using a [of "[]"] by simp
  with a show ?thesis by (simp add: wp_emit_all)
qed

text \<open>A loop: an invariant on the world kept by every round.\<close>

lemma wp_for_inv:
  assumes "\<And>x v. x \<in> set xs \<Longrightarrow> I v \<Longrightarrow> wp e (f x) E (\<lambda>_. I) v" "I w"
  shows "wp e (tfor xs f) E (\<lambda>_. I) w"
  using assms
proof (induction xs arbitrary: w)
  case (Cons x xs)
  have "wp e (f x) E (\<lambda>_. I) w" using Cons.prems by simp
  then have "wp e (f x) E (\<lambda>_ v. wp e (tfor xs f) E (\<lambda>_. I) v) w"
    by (rule wp_mono) (use Cons in auto)
  then have "wp e (f x) E (\<lambda>y v. wp e (tfor xs f) E (\<lambda>ys. I) v) w" .
  then show ?case by (simp add: wp_simps)
qed (simp add: wp_simps)

section \<open>What a transaction does to the graph\<close>

definition geffect :: "(graph \<Rightarrow> graph \<Rightarrow> bool) \<Rightarrow> 'a tx \<Rightarrow> bool" where
  "geffect G m \<longleftrightarrow> (\<forall>e w. G (gr w) (gr (snd (m e w))))"

lemma geffectD: "geffect G m \<Longrightarrow> G (gr w) (gr (snd (m e w)))"
  by (simp add: geffect_def)

lemma wp_geffect:
  "geffect G m \<Longrightarrow> wp e m (\<lambda>_ v. G (gr w) (gr v)) (\<lambda>_ v. G (gr w) (gr v)) w"
  using geffectD [of G m w e] by (auto simp: wp_def split: prod.splits sum.splits)

lemma returns_geffect:
  "geffect G m \<Longrightarrow> (\<And>a v. G (gr w) (gr v) \<Longrightarrow> Q a v) \<Longrightarrow> returns e m Q w"
  by (erule wp_mono [OF wp_geffect]) auto

lemma geffect_if [effect_intros]:
  "(b \<Longrightarrow> geffect G m) \<Longrightarrow> (\<not> b \<Longrightarrow> geffect G m') \<Longrightarrow> geffect G (if b then m else m')"
  by simp

lemma geffect_option [effect_intros]:
  "(x = None \<Longrightarrow> geffect G m) \<Longrightarrow> (\<And>a. x = Some a \<Longrightarrow> geffect G (f a)) \<Longrightarrow>
   geffect G (case x of None \<Rightarrow> m | Some a \<Rightarrow> f a)"
  by (cases x) auto

lemma geffect_list [effect_intros]:
  "(xs = [] \<Longrightarrow> geffect G m) \<Longrightarrow> (\<And>y ys. xs = y # ys \<Longrightarrow> geffect G (f y ys)) \<Longrightarrow>
   geffect G (case xs of [] \<Rightarrow> m | y # ys \<Rightarrow> f y ys)"
  by (cases xs) auto

lemma geffect_sum [effect_intros]:
  "(\<And>a. x = Inl a \<Longrightarrow> geffect G (f a)) \<Longrightarrow> (\<And>b. x = Inr b \<Longrightarrow> geffect G (h b)) \<Longrightarrow>
   geffect G (case x of Inl a \<Rightarrow> f a | Inr b \<Rightarrow> h b)"
  by (cases x) auto

lemma geffect_prod [effect_intros]:
  "(\<And>a b. x = (a, b) \<Longrightarrow> geffect G (f a b)) \<Longrightarrow> geffect G (case x of (a, b) \<Rightarrow> f a b)"
  by (cases x) auto

lemma geffect_llm [effect_intros]:
  "(\<And>s. x = LlmText s \<Longrightarrow> geffect G (f s)) \<Longrightarrow> geffect G m \<Longrightarrow> geffect G m' \<Longrightarrow>
   geffect G (case x of LlmText s \<Rightarrow> f s | LlmTimeout \<Rightarrow> m | LlmError \<Rightarrow> m')"
  by (cases x) auto

lemma geffect_let [effect_intros]: "geffect G (f x) \<Longrightarrow> geffect G (let y = x in f y)"
  by simp

text \<open>
  The interface of an effect: a preorder on graphs.  Its clients are the combinators of the
  monad, so whatever is proved of the single writes holds of every composed transaction, on
  the normal and on the raising paths.
\<close>

locale graph_effect =
  fixes G :: "graph \<Rightarrow> graph \<Rightarrow> bool"
  assumes refl: "G g g"
    and trans: "G g h \<Longrightarrow> G h k \<Longrightarrow> G g k"
begin

lemma eff_ret [effect_intros]: "geffect G (ret a)"
  by (simp add: geffect_def ret_def refl)

lemma eff_raise [effect_intros]: "geffect G (raise x)"
  by (simp add: geffect_def raise_def refl)

lemma eff_asks [effect_intros]: "geffect G (asks f)"
  by (simp add: geffect_def asks_def refl)

lemma eff_bind [effect_intros]:
  assumes "geffect G m" and "\<And>a. geffect G (f a)"
  shows "geffect G (tbind m f)"
  using assms unfolding geffect_def tbind_def
  by (auto split: prod.splits sum.splits intro: trans) (metis snd_conv trans)+

lemma eff_catch [effect_intros]:
  assumes "geffect G m" and "\<And>x. geffect G (h x)"
  shows "geffect G (tcatch m h)"
  using assms unfolding geffect_def tcatch_def
  by (auto split: prod.splits sum.splits intro: trans) (metis snd_conv trans)+

lemma eff_when [effect_intros]: "geffect G m \<Longrightarrow> geffect G (twhen b m)"
  by (simp add: twhen_def eff_ret)

lemma eff_for [effect_intros]: "(\<And>x. geffect G (f x)) \<Longrightarrow> geffect G (tfor xs f)"
  by (induction xs) (simp_all add: eff_ret eff_bind)

lemma eff_for_in: "(\<And>x. x \<in> set xs \<Longrightarrow> geffect G (f x)) \<Longrightarrow> geffect G (tfor xs f)"
  by (induction xs) (simp_all add: eff_ret eff_bind)

lemma eff_query [effect_intros]: "geffect G (execute_query q)"
  by (simp add: geffect_def execute_query_def refl)

lemma eff_write: "(\<And>g. G g (fst (q g))) \<Longrightarrow> geffect G (execute_write q)"
  by (simp add: geffect_def execute_write_def refl)

lemma eff_write_checked:
  "(\<And>g h r. q g = Some (h, r) \<Longrightarrow> G g h) \<Longrightarrow> geffect G (execute_write_checked q)"
  by (auto simp: geffect_def execute_write_checked_def refl split: option.splits)

lemma eff_calls [effect_intros]:
  "geffect G datetime_now" "geffect G new_uuid" "geffect G (emit_reaction ev)"
  "geffect G (embed_all xs)" "geffect G llm_call"
  by (simp_all add: geffect_def datetime_now_def new_uuid_def emit_reaction_def embed_all_def
      llm_call_def refl)

lemma eff_emit_all [effect_intros]: "geffect G (emit_all b evs)"
  by (simp add: emit_all_def eff_when eff_bind eff_for eff_calls eff_ret)

lemma eff_parse_uuid [effect_intros]: "geffect G (parse_uuid s)"
  by (simp add: parse_uuid_def eff_ret eff_raise)

end

text \<open>Read-only transactions: the interface at equality of graphs.\<close>

interpretation read_only: graph_effect "(=)"
  by unfold_locales auto

lemma geffect_weaken:
  assumes "geffect (=) m" and "\<And>g. G g g"
  shows "geffect G m"
  unfolding geffect_def
proof (intro allI)
  fix e w
  have "gr w = gr (snd (m e w))" using geffectD [OF assms(1)] .
  then show "G (gr w) (gr (snd (m e w)))" using assms(2) by simp
qed

end
