(* ===== verification/GraphSteps.thy ===== *)
theory GraphSteps
  imports TxMonad
begin

text \<open>
  The abstract contract of every brain transaction: seen from outside, a transaction called
  with a silo id only performs the steps of \<open>gstep\<close> for that silo (it creates nodes of the
  silo, changes properties of its nodes, connects and disconnects them, and removes them).
  Silo isolation, referential integrity and the absence of cross-silo edges (INV5) are
  invariants of these steps, proved by rule induction, and hold of every transaction whose
  effect refines them.
\<close>

section \<open>Steps of one silo\<close>

definition silo_vids :: "graph \<Rightarrow> string \<Rightarrow> nat set" where
  "silo_vids g s = vid ` {n \<in> set (nodes g). silo n = Some s}"

definition agent_vids :: "graph \<Rightarrow> nat set" where
  "agent_vids g = vid ` {n \<in> set (nodes g). has_label ''Agent'' n}"

definition identity_kept :: "(node \<Rightarrow> node) \<Rightarrow> bool" where
  "identity_kept f \<longleftrightarrow> (\<forall>n. vid (f n) = vid n \<and> nid (f n) = nid n \<and> silo (f n) = silo n
      \<and> (has_label ''Agent'' n \<longrightarrow> has_label ''Agent'' (f n)))"

inductive gstep :: "string \<Rightarrow> graph \<Rightarrow> graph \<Rightarrow> bool" for s :: string where
  create: "gstep s g (add_node ls i (Some s) fs ps g)"
| agent: "gstep s g (add_node [''Agent''] i None fs ps g)"
| update: "(\<And>n. P n \<Longrightarrow> silo n = Some s) \<Longrightarrow> identity_kept f \<Longrightarrow> gstep s g (update_where P f g)"
| connect: "esrc e \<in> silo_vids g s \<Longrightarrow>
     edst e \<in> silo_vids g s \<or> etype e = ''DECLARED_BY'' \<and> edst e \<in> agent_vids g \<Longrightarrow>
     gstep s g (g\<lparr>edges := edges g @ [e]\<rparr>)"
| disconnect: "(\<And>e. P e \<Longrightarrow> esrc e \<in> silo_vids g s \<or> edst e \<in> silo_vids g s) \<Longrightarrow>
     gstep s g (del_edges P g)"
| remove: "(\<And>n. P n \<Longrightarrow> silo n = Some s) \<Longrightarrow>
     (\<And>e n. e \<in> set (edges g) \<Longrightarrow> n \<in> set (nodes g) \<Longrightarrow> P n \<Longrightarrow> esrc e \<noteq> vid n \<and> edst e \<noteq> vid n) \<Longrightarrow>
     gstep s g (del_nodes P g)"
| edge_update: "(\<And>e. P e \<Longrightarrow> esrc e \<in> silo_vids g s \<and> edst e \<in> silo_vids g s) \<Longrightarrow>
     gstep s g (update_edges P F g)"

abbreviation gsteps :: "string \<Rightarrow> graph \<Rightarrow> graph \<Rightarrow> bool" where
  "gsteps s \<equiv> (gstep s)\<^sup>*\<^sup>*"

text \<open>The interface of effects at the steps of one silo.\<close>

interpretation in_silo: graph_effect "gsteps s" for s
  by unfold_locales auto

section \<open>Invariants of the steps\<close>

text \<open>Internal identities are unique and bounded; every edge joins two nodes.\<close>

definition graph_wf :: "graph \<Rightarrow> bool" where
  "graph_wf g \<longleftrightarrow> distinct (map vid (nodes g)) \<and> (\<forall>n\<in>set (nodes g). vid n < next_vid g)
     \<and> (\<forall>e\<in>set (edges g). esrc e \<in> vid ` set (nodes g) \<and> edst e \<in> vid ` set (nodes g))"

text \<open>INV5: an edge joins two nodes of one silo, or a node and the agent that declared it.\<close>

definition no_cross_silo :: "graph \<Rightarrow> bool" where
  "no_cross_silo g \<longleftrightarrow> (\<forall>e\<in>set (edges g). \<forall>a\<in>set (nodes g). \<forall>b\<in>set (nodes g).
      vid a = esrc e \<longrightarrow> vid b = edst e \<longrightarrow>
      silo a = silo b \<or> etype e = ''DECLARED_BY'' \<and> has_label ''Agent'' b)"

text \<open>What another silo sees of the graph.\<close>

definition silo_view :: "string \<Rightarrow> graph \<Rightarrow> node list" where
  "silo_view s g = filter (\<lambda>n. silo n = Some s) (nodes g)"

definition silo_edges :: "string \<Rightarrow> graph \<Rightarrow> edge list" where
  "silo_edges s g = filter (\<lambda>e. esrc e \<in> silo_vids g s \<and> edst e \<in> silo_vids g s) (edges g)"

lemma silo_vids_view: "silo_vids g s = vid ` set (silo_view s g)"
  by (auto simp: silo_vids_def silo_view_def)

lemma empty_graph_wf: "graph_wf empty_graph"
  by (simp add: graph_wf_def empty_graph_def)

lemma vid_update_where:
  assumes "identity_kept f"
  shows "map vid (nodes (update_where P f g)) = map vid (nodes g)"
  using assms by (auto simp: update_where_def identity_kept_def)

lemma silo_view_add_node [graph_simps]:
  "silo_view s (add_node ls i t fs ps g) =
     silo_view s g @ (if t = Some s then [\<lparr>vid = next_vid g, labels = ls, nid = i, silo = t,
        attrs = fs, props = ps\<rparr>] else [])"
  by (simp add: silo_view_def add_node_def)

lemma silo_view_update:
  assumes "\<And>n. P n \<Longrightarrow> silo n = Some s" "identity_kept f" "t \<noteq> s"
  shows "silo_view t (update_where P f g) = silo_view t g"
proof -
  have "filter (\<lambda>n. silo n = Some t) (map (\<lambda>n. if P n then f n else n) ns) =
        filter (\<lambda>n. silo n = Some t) ns" for ns
    by (induction ns) (use assms in \<open>auto simp: identity_kept_def\<close>)
  then show ?thesis by (simp add: silo_view_def update_where_def)
qed

lemma silo_view_del_nodes:
  assumes "\<And>n. P n \<Longrightarrow> silo n = Some s" "t \<noteq> s"
  shows "silo_view t (del_nodes P g) = silo_view t g"
  using assms by (fastforce simp: silo_view_def del_nodes_def filter_filter intro!: filter_cong)

lemma gstep_view_other: "gstep s g h \<Longrightarrow> t \<noteq> s \<Longrightarrow> silo_view t h = silo_view t g"
proof (induction rule: gstep.induct)
  case (update P f g)
  then show ?case by (simp add: silo_view_update)
next
  case (remove P g)
  then show ?case by (simp add: silo_view_del_nodes)
next
  case (connect e g)
  then show ?case by (simp add: silo_view_def)
next
  case (disconnect P g)
  then show ?case by (simp add: silo_view_def graph_simps)
next
  case (edge_update P g F)
  then show ?case by (simp add: silo_view_def graph_simps)
qed (simp_all add: silo_view_add_node)

lemma gsteps_view_other: "gsteps s g h \<Longrightarrow> t \<noteq> s \<Longrightarrow> silo_view t h = silo_view t g"
  by (induction rule: rtranclp_induct) (auto dest: gstep_view_other)

lemma wf_vid_inj:
  "graph_wf g \<Longrightarrow> a \<in> set (nodes g) \<Longrightarrow> b \<in> set (nodes g) \<Longrightarrow> vid a = vid b \<Longrightarrow> a = b"
  unfolding graph_wf_def distinct_map inj_on_def by blast

lemma silo_vids_disjoint:
  assumes "graph_wf g" "t \<noteq> s" "v \<in> silo_vids g s"
  shows "v \<notin> silo_vids g t"
proof
  assume "v \<in> silo_vids g t"
  then obtain a where a: "a \<in> set (nodes g)" "silo a = Some t" "vid a = v"
    by (auto simp: silo_vids_def)
  from assms(3) obtain b where b: "b \<in> set (nodes g)" "silo b = Some s" "vid b = v"
    by (auto simp: silo_vids_def)
  have "a = b" using wf_vid_inj [OF assms(1) a(1) b(1)] a(3) b(3) by simp
  with a b assms(2) show False by simp
qed

lemma in_vids:
  "v \<in> silo_vids g s \<Longrightarrow> v \<in> vid ` set (nodes g)"
  "v \<in> agent_vids g \<Longrightarrow> v \<in> vid ` set (nodes g)"
  by (auto simp: silo_vids_def agent_vids_def)

lemma gstep_wf: "gstep s g h \<Longrightarrow> graph_wf g \<Longrightarrow> graph_wf h"
proof (induction rule: gstep.induct)
  case (update P f g)
  have v: "vid (f n) = vid n" for n using update.hyps(2) by (simp add: identity_kept_def)
  have m: "map vid (nodes (update_where P f g)) = map vid (nodes g)"
    using update.hyps(2) by (rule vid_update_where)
  then have "vid ` set (nodes (update_where P f g)) = vid ` set (nodes g)"
    by (metis list.set_map)
  moreover have "\<forall>n\<in>set (nodes (update_where P f g)). vid n < next_vid g"
    using update.prems v by (auto simp: graph_wf_def graph_simps)
  ultimately show ?case
    using update.prems unfolding graph_wf_def m edges_simps next_vid_simps by simp
next
  case (connect e g)
  then show ?case by (auto simp: graph_wf_def dest: in_vids)
next
  case (remove P g)
  have "v \<in> vid ` set (nodes (del_nodes P g))"
    if e: "e \<in> set (edges g)" and v: "v = esrc e \<or> v = edst e" for e v
  proof -
    from e v remove.prems obtain n where n: "n \<in> set (nodes g)" "vid n = v"
      by (auto simp: graph_wf_def)
    with remove.hyps(2) [OF e n(1)] v have "\<not> P n" by auto
    with n show ?thesis by (auto simp: graph_simps)
  qed
  moreover have "distinct (map vid (nodes (del_nodes P g)))"
    using remove.prems by (simp add: graph_wf_def graph_simps distinct_map_filter)
  ultimately show ?case
    using remove.prems unfolding graph_wf_def by (simp add: graph_simps)
qed (auto simp: graph_wf_def add_node_def del_edges_def update_edges_def)

lemma gsteps_wf: "gsteps s g h \<Longrightarrow> graph_wf g \<Longrightarrow> graph_wf h"
  by (induction rule: rtranclp_induct) (auto dest: gstep_wf)

lemma no_cross_silo_add_node:
  assumes "graph_wf g" "no_cross_silo g"
  shows "no_cross_silo (add_node ls i t fs ps g)"
proof -
  have fresh: "next_vid g = esrc e \<Longrightarrow> False" "next_vid g = edst e \<Longrightarrow> False"
    if "e \<in> set (edges g)" for e
    using that assms(1) by (force simp: graph_wf_def)+
  show ?thesis
    using assms(2) by (auto simp: no_cross_silo_def add_node_def dest: fresh)
qed

lemma gstep_no_cross_silo:
  "gstep s g h \<Longrightarrow> graph_wf g \<Longrightarrow> no_cross_silo g \<Longrightarrow> no_cross_silo h"
proof (induction rule: gstep.induct)
  case (create g ls i fs ps)
  then show ?case by (intro no_cross_silo_add_node)
next
  case (agent g i fs ps)
  then show ?case by (intro no_cross_silo_add_node)
next
  case (update P f g)
  have k: "vid (f n) = vid n" "silo (f n) = silo n"
    "has_label ''Agent'' n \<Longrightarrow> has_label ''Agent'' (f n)" for n
    using update.hyps(2) by (auto simp: identity_kept_def)
  show ?case unfolding no_cross_silo_def
  proof (intro ballI impI)
    fix e a b
    assume e: "e \<in> set (edges (update_where P f g))"
      and a: "a \<in> set (nodes (update_where P f g))" and b: "b \<in> set (nodes (update_where P f g))"
      and av: "vid a = esrc e" and bv: "vid b = edst e"
    from a obtain a' where a': "a' \<in> set (nodes g)" "a = (if P a' then f a' else a')"
      by (auto simp: graph_simps)
    from b obtain b' where b': "b' \<in> set (nodes g)" "b = (if P b' then f b' else b')"
      by (auto simp: graph_simps)
    have "vid a' = esrc e" "vid b' = edst e" using a' b' av bv k by (auto split: if_splits)
    with e a' b' update.prems(2)
    have "silo a' = silo b' \<or> etype e = ''DECLARED_BY'' \<and> has_label ''Agent'' b'"
      unfolding no_cross_silo_def by (auto simp: graph_simps)
    then show "silo a = silo b \<or> etype e = ''DECLARED_BY'' \<and> has_label ''Agent'' b"
      using a' b' k by auto
  qed
next
  case (connect e g)
  show ?case unfolding no_cross_silo_def
  proof (intro ballI impI)
    fix d a b
    assume d: "d \<in> set (edges (g\<lparr>edges := edges g @ [e]\<rparr>))"
      and a: "a \<in> set (nodes (g\<lparr>edges := edges g @ [e]\<rparr>))"
      and b: "b \<in> set (nodes (g\<lparr>edges := edges g @ [e]\<rparr>))"
      and av: "vid a = esrc d" and bv: "vid b = edst d"
    show "silo a = silo b \<or> etype d = ''DECLARED_BY'' \<and> has_label ''Agent'' b"
    proof (cases "d = e")
      case True
      from connect.hyps(1) a av True connect.prems(1) have "silo a = Some s"
        by (auto simp: silo_vids_def dest: wf_vid_inj)
      moreover have "silo b = Some s \<or> etype d = ''DECLARED_BY'' \<and> has_label ''Agent'' b"
        using connect.hyps(2) b bv True connect.prems(1)
        by (auto simp: silo_vids_def agent_vids_def dest: wf_vid_inj)
      ultimately show ?thesis by auto
    next
      case False
      with d a b av bv connect.prems(2) show ?thesis
        by (auto simp: no_cross_silo_def)
    qed
  qed
next
  case (edge_update P g F)
  show ?case unfolding no_cross_silo_def
  proof (intro ballI impI)
    fix d a b
    assume "d \<in> set (edges (update_edges P F g))" and a: "a \<in> set (nodes (update_edges P F g))"
      and b: "b \<in> set (nodes (update_edges P F g))" and ab: "vid a = esrc d" "vid b = edst d"
    then obtain d' where "d' \<in> set (edges g)" "esrc d' = esrc d" "edst d' = edst d" "etype d' = etype d"
      by (auto simp: graph_simps split: if_splits)
    moreover have "a \<in> set (nodes g)" "b \<in> set (nodes g)" using a b by (simp_all add: graph_simps)
    ultimately show "silo a = silo b \<or> etype d = ''DECLARED_BY'' \<and> has_label ''Agent'' b"
      using edge_update.prems(2) ab unfolding no_cross_silo_def by metis
  qed
qed (auto simp: no_cross_silo_def graph_simps)

lemma gsteps_invariant:
  "gsteps s g h \<Longrightarrow> graph_wf g \<Longrightarrow> no_cross_silo g \<Longrightarrow> graph_wf h \<and> no_cross_silo h"
  by (induction rule: rtranclp_induct) (auto dest: gstep_wf gstep_no_cross_silo)

text \<open>The edges inside another silo are untouched.\<close>

lemma silo_vids_other: "gstep s g h \<Longrightarrow> t \<noteq> s \<Longrightarrow> silo_vids h t = silo_vids g t"
  by (simp add: silo_vids_view gstep_view_other)

lemma gstep_edges_other:
  "gstep s g h \<Longrightarrow> graph_wf g \<Longrightarrow> t \<noteq> s \<Longrightarrow> silo_edges t h = silo_edges t g"
proof -
  assume st: "gstep s g h" and wf: "graph_wf g" and ne: "t \<noteq> s"
  have v: "silo_vids h t = silo_vids g t" using st ne by (rule silo_vids_other)
  have d: "x \<in> silo_vids g s \<Longrightarrow> x \<notin> silo_vids g t" for x
    using silo_vids_disjoint [OF wf ne] .
  from st v d show ?thesis
  proof (cases rule: gstep.cases)
    case (disconnect P)
    have "filter (\<lambda>e. esrc e \<in> silo_vids g t \<and> edst e \<in> silo_vids g t) (filter (\<lambda>e. \<not> P e) (edges g))
        = filter (\<lambda>e. esrc e \<in> silo_vids g t \<and> edst e \<in> silo_vids g t) (edges g)"
      unfolding filter_filter by (rule filter_cong) (use disconnect(2) d in auto)
    then show ?thesis using disconnect(1) v by (simp add: silo_edges_def graph_simps)
  next
    case (edge_update P F)
    have "filter (\<lambda>e. esrc e \<in> silo_vids g t \<and> edst e \<in> silo_vids g t)
        (map (\<lambda>e. if P e then e\<lparr>eprops := F (eprops e)\<rparr> else e) es) =
      filter (\<lambda>e. esrc e \<in> silo_vids g t \<and> edst e \<in> silo_vids g t) es" for es
      by (induction es) (use edge_update(2) d in auto)
    then show ?thesis using edge_update(1) v by (simp add: silo_edges_def graph_simps)
  qed (auto simp: silo_edges_def graph_simps)
qed

lemma gsteps_edges_other:
  assumes "gsteps s g h" "graph_wf g" "t \<noteq> s"
  shows "silo_edges t h = silo_edges t g"
proof -
  have "silo_edges t h = silo_edges t g \<and> graph_wf h"
    using assms(1) assms(2,3)
    by (induction rule: rtranclp_induct) (auto dest: gstep_wf gstep_edges_other)
  then show ?thesis by simp
qed

section \<open>Writes as steps\<close>

lemma gsteps_update:
  "(\<And>n. P n \<Longrightarrow> silo n = Some s) \<Longrightarrow> identity_kept f \<Longrightarrow> gsteps s g (update_where P f g)"
  by (blast intro: gstep.update)

lemma gsteps_update_edges:
  "(\<And>e. P e \<Longrightarrow> esrc e \<in> silo_vids g s \<and> edst e \<in> silo_vids g s) \<Longrightarrow> gsteps s g (update_edges P F g)"
  by (blast intro: gstep.edge_update)

lemma gsteps_create: "gsteps s g (add_node ls i (Some s) fs ps g)"
  by (blast intro: gstep.create)

lemma gsteps_connect:
  assumes "\<And>e. e \<in> set es \<Longrightarrow> esrc e \<in> silo_vids g s \<and>
     (edst e \<in> silo_vids g s \<or> etype e = ''DECLARED_BY'' \<and> edst e \<in> agent_vids g)"
  shows "gsteps s g (g\<lparr>edges := edges g @ es\<rparr>)"
  using assms
proof (induction es rule: rev_induct)
  case (snoc e es)
  let ?h = "g\<lparr>edges := edges g @ es\<rparr>"
  have "gstep s ?h (?h\<lparr>edges := edges ?h @ [e]\<rparr>)"
    using snoc.prems [of e] by (intro gstep.connect) (auto simp: silo_vids_def agent_vids_def)
  moreover have "gsteps s g ?h" using snoc by auto
  ultimately show ?case by (simp add: rtranclp.rtrancl_into_rtrancl)
qed simp

lemma gsteps_add_edges:
  assumes "\<And>a. a \<in> set as \<Longrightarrow> vid a \<in> silo_vids g s" "\<And>b. b \<in> set bs \<Longrightarrow> vid b \<in> silo_vids g s"
  shows "gsteps s g (add_edges t ps as bs g)"
  unfolding add_edges_def by (rule gsteps_connect) (use assms in auto)

lemma silo_vids_merge [graph_simps]: "silo_vids (merge_edge t kvs a b g) s = silo_vids g s"
  by (simp add: silo_vids_def graph_simps)

lemma gsteps_merge_edge:
  assumes "a \<in> silo_vids g s" "b \<in> silo_vids g s"
  shows "gsteps s g (merge_edge t kvs a b g)"
  using assms gsteps_connect [of "[\<lparr>esrc = a, edst = b, etype = t, eprops = map_of kvs\<rparr>]" g s]
  by (simp add: merge_edge_def)

lemma gsteps_merge_edges:
  assumes "\<And>a. a \<in> set as \<Longrightarrow> vid a \<in> silo_vids g s" "\<And>b. b \<in> set bs \<Longrightarrow> vid b \<in> silo_vids g s"
  shows "gsteps s g (merge_edges t kvs as bs g)"
proof -
  have "gsteps s g (fold (\<lambda>(a, b). merge_edge t kvs (vid a) (vid b)) xs g)"
    if "\<And>a b. (a, b) \<in> set xs \<Longrightarrow> vid a \<in> silo_vids g s \<and> vid b \<in> silo_vids g s" for xs
    using that
  proof (induction xs rule: rev_induct)
    case (snoc x xs)
    obtain a b where x: "x = (a, b)" by (cases x)
    let ?h = "fold (\<lambda>(a, b). merge_edge t kvs (vid a) (vid b)) xs g"
    have "nodes ?h = nodes g" by (induction xs rule: rev_induct) (auto simp: graph_simps)
    then have "gsteps s ?h (merge_edge t kvs (vid a) (vid b) ?h)"
      using snoc.prems [of a b] x by (intro gsteps_merge_edge) (auto simp: silo_vids_def)
    moreover have "gsteps s g ?h" using snoc by auto
    ultimately show ?case using x by (auto intro: rtranclp_trans)
  qed simp
  note fold_step = this
  show ?thesis
    unfolding merge_edges_def by (rule fold_step) (use assms in auto)
qed

lemma match_id_silo_vids: "n \<in> set (match_id g i s) \<Longrightarrow> vid n \<in> silo_vids g s"
  by (auto simp: match_id_iff silo_vids_def)

lemma match_label_id_silo_vids: "n \<in> set (match_label_id g l i s) \<Longrightarrow> vid n \<in> silo_vids g s"
  by (auto simp: match_label_id_def match_id_iff silo_vids_def)

lemma identity_kept_set [intro, simp]:
  "identity_kept (set_prop k v)" "identity_kept (set_field k v)" "identity_kept (\<lambda>n. n)"
  by (auto simp: identity_kept_def has_label_def)

lemma identity_kept_comp:
  "identity_kept f \<Longrightarrow> identity_kept h \<Longrightarrow> identity_kept (\<lambda>n. f (h n))"
  by (auto simp: identity_kept_def)

lemma is_node_silo: "is_node i s n \<Longrightarrow> silo n = Some s"
  by (simp add: is_node_def)

lemma silo_vids_update:
  assumes "identity_kept f"
  shows "silo_vids (update_where P f g) s = silo_vids g s"
proof -
  define F where "F n = (if P n then f n else n)" for n
  have k: "vid (F n) = vid n" "silo (F n) = silo n" for n
    using assms by (auto simp: F_def identity_kept_def)
  have "{n \<in> F ` set (nodes g). silo n = Some s} = F ` {n \<in> set (nodes g). silo n = Some s}"
    by (auto simp: k)
  then show ?thesis
    by (simp add: silo_vids_def graph_simps F_def [symmetric] image_image k)
qed

lemma silo_vids_merge_edges [graph_simps]: "silo_vids (merge_edges t kvs as bs g) s = silo_vids g s"
  by (simp add: silo_vids_def graph_simps)

lemma silo_vids_add_node: "v \<in> silo_vids g s \<Longrightarrow> v \<in> silo_vids (add_node ls i t fs ps g) s"
  unfolding silo_vids_def add_node_def by auto

lemma silo_vids_add_node_new: "next_vid g \<in> silo_vids (add_node ls i (Some s) fs ps g) s"
  unfolding silo_vids_def
  by (rule image_eqI [where x = "\<lparr>vid = next_vid g, labels = ls, nid = i, silo = Some s,
        attrs = fs, props = ps\<rparr>"]) (simp_all add: add_node_def)

lemma concat_match_silo_vids: "n \<in> set (concat (map (\<lambda>i. match_id g i s) is)) \<Longrightarrow> vid n \<in> silo_vids g s"
  by (auto dest: match_id_silo_vids)

text \<open>A change that leaves the graph alone.\<close>

lemma in_silo_unchanged: "geffect (=) m \<Longrightarrow> geffect (gsteps s) m"
  by (rule geffect_weaken) auto

section \<open>Steps that rely on the invariants\<close>

text \<open>
  A query that names no silo for a node it reaches over an edge stays within the silo only
  because of INV5: it refines the steps of the silo on graphs that satisfy the invariants.
\<close>

definition safe_steps :: "string \<Rightarrow> graph \<Rightarrow> graph \<Rightarrow> bool" where
  "safe_steps s g h \<longleftrightarrow> (graph_wf g \<and> no_cross_silo g \<longrightarrow> gsteps s g h)"

interpretation safe: graph_effect "safe_steps s" for s
  by unfold_locales (auto simp: safe_steps_def dest: gsteps_invariant intro: rtranclp_trans)

lemma geffect_safe: "geffect (gsteps s) m \<Longrightarrow> geffect (safe_steps s) m"
  by (simp add: geffect_def safe_steps_def)

lemma gsteps_detach_delete:
  assumes ns: "\<And>n. n \<in> set ns \<Longrightarrow> n \<in> set (nodes g) \<and> silo n = Some s" and wf: "graph_wf g"
  shows "gsteps s g (detach_delete ns g)"
proof -
  let ?P = "\<lambda>n. vid n \<in> vid ` set ns \<and> silo n = Some s"
  have v: "v \<in> silo_vids g s" if "v \<in> vid ` set ns" for v
    using that ns by (auto simp: silo_vids_def)
  have "gstep s g (del_edges (touches ns) g)"
    by (rule gstep.disconnect) (auto simp: touches_def intro: v)
  moreover have "gstep s (del_edges (touches ns) g) (del_nodes ?P (del_edges (touches ns) g))"
    by (rule gstep.remove) (auto simp: graph_simps touches_def)
  moreover have "del_nodes ?P (del_edges (touches ns) g) = detach_delete ns g"
  proof -
    have "silo n = Some s" if n: "n \<in> set (nodes g)" "vid n \<in> vid ` set ns" for n
    proof -
      obtain m where m: "m \<in> set ns" "vid m = vid n" using n(2) by auto
      have "m = n" using wf_vid_inj [OF wf _ n(1) m(2)] ns [OF m(1)] by blast
      with ns [OF m(1)] show ?thesis by blast
    qed
    then show ?thesis
      unfolding detach_delete_def del_nodes_def graph_simps
      by (intro arg_cong [where f = "\<lambda>x. (del_edges (touches ns) g)\<lparr>nodes := x\<rparr>"] filter_cong) auto
  qed
  ultimately show ?thesis by (metis (no_types, lifting) converse_rtranclp_into_rtranclp r_into_rtranclp)
qed

lemma out_nodes_in: "m \<in> set (out_nodes g t n) \<Longrightarrow>
    m \<in> set (nodes g) \<and> (\<exists>e\<in>set (edges g). etype e = t \<and> esrc e = vid n \<and> edst e = vid m)"
  by (force simp: out_nodes_def split: option.splits dest: node_at_SomeD [OF sym])

lemma out_nodes_silo:
  assumes "no_cross_silo g" "n \<in> set (nodes g)" "m \<in> set (out_nodes g t n)" "t \<noteq> ''DECLARED_BY''"
  shows "silo m = silo n"
  using out_nodes_in [OF assms(3)] assms unfolding no_cross_silo_def by metis

end
