(* ===== verification/Queries.thy ===== *)
theory Queries
  imports GraphSteps
begin

text \<open>
  The enumerations of \<open>sage/transactions.py\<close> and the Cypher queries of \<open>db/queries.py\<close> that
  the transactions run, under the names of the code.  A read query maps the graph to its rows,
  a write query to the new graph and its rows.  Row order is the order of creation (the queries
  fix none).

  openCypher leaves open whether a later item of one \<open>SET\<close> clause sees what an earlier item of
  that clause wrote.  Only \<open>TOMBSTONE_NODE\<close> depends on it, and takes the choice as its
  first argument (\<open>set_sequential\<close> of the environment).
\<close>

section \<open>Enumerations\<close>

datatype NodeState = ACTIVE | SUPERSEDED | TOMBSTONED | DELETED

fun state_value :: "NodeState \<Rightarrow> string" where
  "state_value ACTIVE = ''ACTIVE''"
| "state_value SUPERSEDED = ''SUPERSEDED''"
| "state_value TOMBSTONED = ''TOMBSTONED''"
| "state_value DELETED = ''DELETED''"

text \<open>\<open>NodeState(s)\<close>, which raises \<open>ValueError\<close> on any other string.\<close>

definition state_of_value :: "string \<Rightarrow> NodeState option" where
  "state_of_value s = (if s = ''ACTIVE'' then Some ACTIVE
     else if s = ''SUPERSEDED'' then Some SUPERSEDED
     else if s = ''TOMBSTONED'' then Some TOMBSTONED
     else if s = ''DELETED'' then Some DELETED else None)"

lemma state_of_value_round [simp]: "state_of_value (state_value st) = Some st"
  by (cases st) (simp_all add: state_of_value_def)

datatype SupersedeReason = CONTRADICTION | EVIDENCE_SHIFT | AUTHOR_UPDATE | EVIDENCE_ERASED

fun reason_value :: "SupersedeReason \<Rightarrow> string" where
  "reason_value CONTRADICTION = ''contradiction''"
| "reason_value EVIDENCE_SHIFT = ''evidence_shift''"
| "reason_value AUTHOR_UPDATE = ''author_update''"
| "reason_value EVIDENCE_ERASED = ''evidence_erased''"

datatype ConflictStatus =
  CS_NONE | UNRESOLVED | RESOLVED_SUPERSEDE | RESOLVED_MERGE | RESOLVED_COEXIST

fun conflict_value :: "ConflictStatus \<Rightarrow> string" where
  "conflict_value CS_NONE = ''none''"
| "conflict_value UNRESOLVED = ''unresolved''"
| "conflict_value RESOLVED_SUPERSEDE = ''resolved_supersede''"
| "conflict_value RESOLVED_MERGE = ''resolved_merge''"
| "conflict_value RESOLVED_COEXIST = ''resolved_coexist''"

datatype LinkType =
    RELATED_TO | CONTRADICTS | SUPPORTS | REFINES | GENERALIZES | CAUSED_BY | TEMPORAL_BEFORE
  | TEMPORAL_AFTER | REFERENCES | DERIVED_FROM | CAUSES | PREVENTS | SUPERSEDES

fun link_value :: "LinkType \<Rightarrow> string" where
  "link_value RELATED_TO = ''RELATED_TO''"
| "link_value CONTRADICTS = ''CONTRADICTS''"
| "link_value SUPPORTS = ''SUPPORTS''"
| "link_value REFINES = ''REFINES''"
| "link_value GENERALIZES = ''GENERALIZES''"
| "link_value CAUSED_BY = ''CAUSED_BY''"
| "link_value TEMPORAL_BEFORE = ''TEMPORAL_BEFORE''"
| "link_value TEMPORAL_AFTER = ''TEMPORAL_AFTER''"
| "link_value REFERENCES = ''REFERENCES''"
| "link_value DERIVED_FROM = ''DERIVED_FROM''"
| "link_value CAUSES = ''CAUSES''"
| "link_value PREVENTS = ''PREVENTS''"
| "link_value SUPERSEDES = ''SUPERSEDES''"

definition ACYCLIC_EDGE_TYPES :: "LinkType list" where
  "ACYCLIC_EDGE_TYPES = [SUPERSEDES, DERIVED_FROM, REFINES, GENERALIZES, CAUSED_BY]"

datatype SynthesisState = FRESH | STALE | INVALIDATED

fun synthesis_value :: "SynthesisState \<Rightarrow> string" where
  "synthesis_value FRESH = ''FRESH''"
| "synthesis_value STALE = ''STALE''"
| "synthesis_value INVALIDATED = ''INVALIDATED''"

definition PROMOTION_THRESHOLD :: nat where "PROMOTION_THRESHOLD = 3"
definition SYNTHESIS_THRESHOLD :: nat where "SYNTHESIS_THRESHOLD = 3"
definition SYNTHESIS_CONFIDENCE_THRESHOLD :: real where "SYNTHESIS_CONFIDENCE_THRESHOLD = 6 / 10"
definition SPO_SIMILARITY_THRESHOLD :: real where "SPO_SIMILARITY_THRESHOLD = 80 / 100"
definition CONTENT_SIMILARITY_THRESHOLD :: real where "CONTENT_SIMILARITY_THRESHOLD = 85 / 100"
definition CANCEL_WINDOW_DURATION_SECONDS :: int where "CANCEL_WINDOW_DURATION_SECONDS = 3600"
definition MAX_CASCADE_DEPTH :: nat where "MAX_CASCADE_DEPTH = 10"

lemmas tx_constants = PROMOTION_THRESHOLD_def SYNTHESIS_THRESHOLD_def
  SYNTHESIS_CONFIDENCE_THRESHOLD_def SPO_SIMILARITY_THRESHOLD_def
  CONTENT_SIMILARITY_THRESHOLD_def CANCEL_WINDOW_DURATION_SECONDS_def MAX_CASCADE_DEPTH_def

section \<open>Forgetting, restoring, deleting\<close>

record forget_row =
  fr_state :: "string option"
  fr_type :: "string option"
  fr_cancel :: "int option"

definition GET_NODE_FOR_FORGET :: "string \<Rightarrow> string \<Rightarrow> graph \<Rightarrow> forget_row list" where
  "GET_NODE_FOR_FORGET node_id silo_id g =
     map (\<lambda>n. \<lparr>fr_state = pstate n, fr_type = str_of (attrs n ''type''),
                fr_cancel = time_of (props n ''cancel_window_expires'')\<rparr>)
       (match_id g node_id silo_id)"

text \<open>The items of one \<open>SET\<close> clause over \<open>n.properties\<close>.\<close>

definition apply_sets :: "bool \<Rightarrow> (string \<times> (node \<Rightarrow> val option)) list \<Rightarrow> node \<Rightarrow> node" where
  "apply_sets sequential items n =
     fold (\<lambda>(k, rhs) m. set_prop k (rhs (if sequential then m else n)) m) items n"

definition tombstone_sets ::
  "int \<Rightarrow> string \<Rightarrow> string option \<Rightarrow> int \<Rightarrow> (string \<times> (node \<Rightarrow> val option)) list" where
  "tombstone_sets tombstoned_at agent_id reason cancel_window_expires =
     [(''state'', \<lambda>_. Some (VStr ''TOMBSTONED'')),
      (''tombstoned_at'', \<lambda>_. Some (VTime tombstoned_at)),
      (''forget_requested_at'', \<lambda>_. Some (VTime tombstoned_at)),
      (''forget_requested_by'', \<lambda>_. Some (VStr agent_id)),
      (''forget_reason'', \<lambda>_. map_option VStr reason),
      (''cancel_window_expires'', \<lambda>_. Some (VTime cancel_window_expires)),
      (''previous_state'', \<lambda>n. props n ''state'')]"

definition TOMBSTONE_NODE ::
  "bool \<Rightarrow> string \<Rightarrow> string \<Rightarrow> int \<Rightarrow> string \<Rightarrow> string option \<Rightarrow> int \<Rightarrow> graph \<Rightarrow> graph \<times> unit" where
  "TOMBSTONE_NODE sequential node_id silo_id tombstoned_at agent_id reason cancel_window_expires g =
     (update_where
        (\<lambda>n. is_node node_id silo_id n \<and> pstate n \<in> {Some ''ACTIVE'', Some ''SUPERSEDED''})
        (apply_sets sequential (tombstone_sets tombstoned_at agent_id reason cancel_window_expires)) g,
      ())"

definition restore_props :: "int \<Rightarrow> string \<Rightarrow> node \<Rightarrow> node" where
  "restore_props restored_at agent_id n = n\<lparr>props := (props n)
     (''state'' := props n ''previous_state'', ''tombstoned_at'' := None,
      ''forget_requested_at'' := None, ''forget_requested_by'' := None, ''forget_reason'' := None,
      ''cancel_window_expires'' := None, ''restored_at'' \<mapsto> VTime restored_at,
      ''restored_by'' \<mapsto> VStr agent_id)\<rparr>"

definition restorable :: "string \<Rightarrow> string \<Rightarrow> int \<Rightarrow> node \<Rightarrow> bool" where
  "restorable node_id silo_id now n \<longleftrightarrow> is_node node_id silo_id n \<and> pstate n = Some ''TOMBSTONED''
     \<and> (case time_of (props n ''cancel_window_expires'') of None \<Rightarrow> False | Some t \<Rightarrow> now < t)"

definition RESTORE_TOMBSTONED_NODE ::
  "string \<Rightarrow> string \<Rightarrow> int \<Rightarrow> int \<Rightarrow> string \<Rightarrow> graph \<Rightarrow> graph \<times> string option list" where
  "RESTORE_TOMBSTONED_NODE node_id silo_id now restored_at agent_id g =
     (update_where (restorable node_id silo_id now) (restore_props restored_at agent_id) g,
      map (\<lambda>n. str_of (props n ''previous_state'')) (filter (restorable node_id silo_id now) (nodes g)))"

definition GET_TOMBSTONED_FOR_GC :: "string \<Rightarrow> int \<Rightarrow> nat \<Rightarrow> graph \<Rightarrow> string list" where
  "GET_TOMBSTONED_FOR_GC silo_id now batch_size g =
     take batch_size (map nid (filter (\<lambda>n. silo n = Some silo_id \<and> pstate n = Some ''TOMBSTONED''
        \<and> (case time_of (props n ''cancel_window_expires'') of None \<Rightarrow> False | Some t \<Rightarrow> t < now))
       (nodes g)))"

definition DELETE_EDGES_FOR_NODE :: "string \<Rightarrow> string \<Rightarrow> graph \<Rightarrow> graph \<times> unit" where
  "DELETE_EDGES_FOR_NODE node_id silo_id g =
     (del_edges (touches (match_id g node_id silo_id)) g, ())"

definition hard_delete_target :: "string \<Rightarrow> string \<Rightarrow> node \<Rightarrow> bool" where
  "hard_delete_target node_id silo_id n \<longleftrightarrow>
     is_node node_id silo_id n \<and> pstate n = Some ''TOMBSTONED''"

definition HARD_DELETE_NODE :: "string \<Rightarrow> string \<Rightarrow> graph \<Rightarrow> (graph \<times> unit) option" where
  "HARD_DELETE_NODE node_id silo_id g =
     (let doomed = filter (hard_delete_target node_id silo_id) (nodes g)
      in if list_ex (touches doomed) (edges g) then None
         else Some (del_nodes (hard_delete_target node_id silo_id) g, ()))"

section \<open>Staleness cascade\<close>

definition GET_DEPENDENTS_FOR_CASCADE ::
  "string \<Rightarrow> string \<Rightarrow> graph \<Rightarrow> (string \<times> string option) list" where
  "GET_DEPENDENTS_FOR_CASCADE node_id silo_id g =
     map (\<lambda>d. (nid d, player d))
       (filter (\<lambda>d. pstate d = Some ''ACTIVE'')
         (concat (map (in_nodes g [''SYNTHESIZED_FROM'', ''DERIVED_FROM''])
           (match_id g node_id silo_id))))"

definition is_wisdom :: "string \<Rightarrow> string \<Rightarrow> node \<Rightarrow> bool" where
  "is_wisdom node_id silo_id n \<longleftrightarrow> is_node node_id silo_id n \<and> player n = Some ''wisdom''"

definition MARK_BELIEF_STALE_FOR_CASCADE :: "string \<Rightarrow> string \<Rightarrow> graph \<Rightarrow> graph \<times> unit" where
  "MARK_BELIEF_STALE_FOR_CASCADE node_id silo_id g =
     (update_where (is_wisdom node_id silo_id)
        (set_prop ''synthesis_state'' (Some (VStr ''STALE''))) g, ())"

definition COUNT_ACTIVE_SOURCE_FACTS :: "string \<Rightarrow> string \<Rightarrow> graph \<Rightarrow> nat" where
  "COUNT_ACTIVE_SOURCE_FACTS belief_id silo_id g =
     length (filter (\<lambda>f. has_label ''Fact'' f \<and> pstate f = Some ''ACTIVE''
                          \<and> attrs f ''tombstoned_at'' = None)
       (concat (map (out_nodes g ''SYNTHESIZED_FROM'') (match_id g belief_id silo_id))))"

definition TOMBSTONE_ORPHANED_BELIEF :: "string \<Rightarrow> string \<Rightarrow> int \<Rightarrow> graph \<Rightarrow> graph \<times> unit" where
  "TOMBSTONE_ORPHANED_BELIEF node_id silo_id tombstoned_at g =
     (update_where (is_wisdom node_id silo_id)
        (\<lambda>n. set_field ''tombstone_reason'' (Some (VStr ''source_fact_below_threshold''))
              (set_field ''tombstoned_at'' (Some (VTime tombstoned_at))
                (set_prop ''state'' (Some (VStr ''TOMBSTONED'')) n))) g, ())"

section \<open>Promotion and demotion\<close>

record claim_row =
  cr_state :: "string option"
  cr_claim_status :: "string option"
  cr_corroboration :: "int option"
  cr_confidence :: "real option"

definition claim_row_of :: "node \<Rightarrow> claim_row" where
  "claim_row_of n = \<lparr>cr_state = pstate n, cr_claim_status = str_of (props n ''claim_status''),
     cr_corroboration = int_of (props n ''corroboration_count''),
     cr_confidence = num_of (props n ''confidence'')\<rparr>"

definition GET_CLAIM_FOR_PROMOTE :: "string \<Rightarrow> string \<Rightarrow> graph \<Rightarrow> claim_row list" where
  "GET_CLAIM_FOR_PROMOTE claim_id silo_id g =
     map claim_row_of (match_label_id g ''Claim'' claim_id silo_id)"

definition promotable :: "string \<Rightarrow> string \<Rightarrow> node \<Rightarrow> bool" where
  "promotable claim_id silo_id n \<longleftrightarrow> is_node claim_id silo_id n \<and> has_label ''Claim'' n
     \<and> pstate n = Some ''ACTIVE'' \<and> str_of (props n ''claim_status'') = Some ''UNPROMOTED''"

definition UPDATE_CLAIM_TO_PROMOTED ::
  "string \<Rightarrow> string \<Rightarrow> int \<Rightarrow> real \<Rightarrow> graph \<Rightarrow> graph \<times> unit" where
  "UPDATE_CLAIM_TO_PROMOTED claim_id silo_id promoted_at new_confidence g =
     (update_where (promotable claim_id silo_id)
        (\<lambda>n. n\<lparr>labels := (if has_label ''Fact'' n then labels n else labels n @ [''Fact'']),
               props := (props n)(''claim_status'' \<mapsto> VStr ''PROMOTED'',
                 ''promoted_at'' \<mapsto> VTime promoted_at, ''confidence'' \<mapsto> VNum new_confidence)\<rparr>) g, ())"

definition GET_FACT_FOR_DEMOTE :: "string \<Rightarrow> string \<Rightarrow> graph \<Rightarrow> claim_row list" where
  "GET_FACT_FOR_DEMOTE fact_id silo_id g =
     map claim_row_of (match_label_id g ''Fact'' fact_id silo_id)"

definition demotable :: "string \<Rightarrow> string \<Rightarrow> node \<Rightarrow> bool" where
  "demotable fact_id silo_id n \<longleftrightarrow> is_node fact_id silo_id n \<and> has_label ''Fact'' n
     \<and> pstate n = Some ''ACTIVE'' \<and> str_of (props n ''claim_status'') = Some ''PROMOTED''"

definition UPDATE_FACT_TO_DEMOTED ::
  "string \<Rightarrow> string \<Rightarrow> int \<Rightarrow> real \<Rightarrow> graph \<Rightarrow> graph \<times> unit" where
  "UPDATE_FACT_TO_DEMOTED fact_id silo_id demoted_at new_confidence g =
     (update_where (demotable fact_id silo_id)
        (\<lambda>n. n\<lparr>labels := filter (\<lambda>l. l \<noteq> ''Fact'') (labels n),
               props := (props n)(''claim_status'' \<mapsto> VStr ''UNPROMOTED'',
                 ''demoted_at'' \<mapsto> VTime demoted_at, ''confidence'' \<mapsto> VNum new_confidence)\<rparr>) g, ())"

text \<open>\<open>a.properties.k = b.properties.k\<close>: false when either side is null.\<close>

definition same_prop :: "string \<Rightarrow> node \<Rightarrow> node \<Rightarrow> bool" where
  "same_prop k a b \<longleftrightarrow> props a k \<noteq> None \<and> props a k = props b k"

definition same_spo :: "node \<Rightarrow> node \<Rightarrow> bool" where
  "same_spo a b \<longleftrightarrow> same_prop ''subject'' a b \<and> same_prop ''predicate'' a b \<and> same_prop ''object'' a b"

definition RECOUNT_CORROBORATION :: "string \<Rightarrow> string \<Rightarrow> graph \<Rightarrow> nat" where
  "RECOUNT_CORROBORATION claim_id silo_id g =
     (let cs = match_label_id g ''Claim'' claim_id silo_id;
          corroborating = concat (map (\<lambda>c. filter (\<lambda>d. same_spo d c \<and> pstate d = Some ''ACTIVE'')
             (match_label g ''Claim'' silo_id)) cs)
      in length (remdups (map nid (concat (map (out_nodes g ''DERIVED_FROM'') corroborating)))))"

section \<open>Commitments and hypotheses\<close>

definition VALIDATE_ABOUT_REFS ::
  "string list \<Rightarrow> string \<Rightarrow> graph \<Rightarrow> (string \<times> string option) list" where
  "VALIDATE_ABOUT_REFS node_ids silo_id g =
     concat (map (\<lambda>i. map (\<lambda>n. (nid n, pstate n)) (match_id g i silo_id)) node_ids)"

text \<open>
  \<open>MERGE (agent:Agent {id: $agent_id})\<close>: agents carry no silo.  The \<open>UNWIND ... MATCH\<close> before it
  yields one row per matched target, and \<open>CREATE (c)-[:DECLARED_BY]\<close> runs once per row, so a
  commitment without any matched target gets no \<open>DECLARED_BY\<close> edge.
\<close>

definition agents_with_id :: "graph \<Rightarrow> string \<Rightarrow> node list" where
  "agents_with_id g i = filter (\<lambda>n. has_label ''Agent'' n \<and> nid n = i) (nodes g)"

definition merge_agent :: "string \<Rightarrow> graph \<Rightarrow> graph" where
  "merge_agent i g = (if agents_with_id g i = [] then add_node [''Agent''] i None Map.empty Map.empty g else g)"

definition CREATE_COMMITMENT_WITH_ABOUT ::
  "string \<Rightarrow> string \<Rightarrow> string option \<Rightarrow> int \<Rightarrow> pymap \<Rightarrow> string list \<Rightarrow> string \<Rightarrow> graph \<Rightarrow> graph \<times> string list" where
  "CREATE_COMMITMENT_WITH_ABOUT i silo_id content created_at ps about_ids agent_id g =
     (let c = \<lparr>vid = next_vid g, labels = [''Node'', ''Commitment''], nid = i, silo = Some silo_id,
               attrs = [''created_at'' \<mapsto> VTime created_at](''content'' := map_option VStr content),
               props = ps\<rparr>;
          g1 = add_node (labels c) i (Some silo_id) (attrs c) ps g;
          targets = concat (map (\<lambda>a. match_id g1 a silo_id) about_ids);
          g2 = add_edges ''ABOUT'' Map.empty [c] targets g1
      in if targets = [] then (g2, [])
         else let g3 = merge_agent agent_id g2;
                  g4 = fold (\<lambda>_. add_edges ''DECLARED_BY'' [''created_at'' \<mapsto> VTime created_at] [c]
                                   (agents_with_id g3 agent_id)) targets g3
              in (g4, map (\<lambda>_. i) targets))"

record hypothesis_row =
  hy_content :: "string option"
  hy_confidence :: "real option"
  hy_crystallized :: bool
  hy_state :: "string option"

definition hypothesis_row_of :: "node \<Rightarrow> hypothesis_row" where
  "hypothesis_row_of n = \<lparr>hy_content = str_of (attrs n ''content''),
     hy_confidence = num_of (attrs n ''confidence''),
     hy_crystallized = (attrs n ''crystallized'' = Some (VBool True)),
     hy_state = str_of (attrs n ''state'')\<rparr>"

definition GET_HYPOTHESIS_FOR_CRYSTALLIZE ::
  "string \<Rightarrow> string \<Rightarrow> string \<Rightarrow> graph \<Rightarrow> hypothesis_row list" where
  "GET_HYPOTHESIS_FOR_CRYSTALLIZE hypothesis_id silo_id session_id g =
     map hypothesis_row_of (filter (\<lambda>n. attrs n ''session_id'' = Some (VStr session_id))
       (match_label_id g ''WorkingHypothesis'' hypothesis_id silo_id))"

definition GET_HYPOTHESIS_BY_ID :: "string \<Rightarrow> string \<Rightarrow> graph \<Rightarrow> hypothesis_row list" where
  "GET_HYPOTHESIS_BY_ID hypothesis_id silo_id g =
     map hypothesis_row_of (match_label_id g ''WorkingHypothesis'' hypothesis_id silo_id)"

definition GET_HYPOTHESIS_ABOUT_REFS ::
  "string \<Rightarrow> string \<Rightarrow> graph \<Rightarrow> (string \<times> string option) list" where
  "GET_HYPOTHESIS_ABOUT_REFS hypothesis_id silo_id g =
     map (\<lambda>a. (nid a, pstate a)) (concat (map (out_nodes g ''ABOUT'')
       (match_label_id g ''WorkingHypothesis'' hypothesis_id silo_id)))"

definition CREATE_CRYSTALLIZED_FROM_EDGE ::
  "string \<Rightarrow> string \<Rightarrow> string \<Rightarrow> int \<Rightarrow> graph \<Rightarrow> graph \<times> unit" where
  "CREATE_CRYSTALLIZED_FROM_EDGE commitment_id hypothesis_id silo_id created_at g =
     (if match_id g commitment_id silo_id = [] then (g, ())
      else (add_edges ''CRYSTALLIZED_FROM'' [''created_at'' \<mapsto> VTime created_at]
              (match_id g commitment_id silo_id) (match_id g hypothesis_id silo_id)
              (update_where (is_node hypothesis_id silo_id)
                (\<lambda>n. set_field ''crystallized_into'' (Some (VStr commitment_id))
                      (set_field ''crystallized'' (Some (VBool True)) n)) g), ()))"

section \<open>Proposals and beliefs\<close>

record proposal_row =
  pr_content :: "string option"
  pr_confidence :: "real option"
  pr_status :: "string option"
  pr_sources :: "string list"

definition GET_PENDING_BELIEF :: "string \<Rightarrow> string \<Rightarrow> graph \<Rightarrow> proposal_row list" where
  "GET_PENDING_BELIEF proposed_belief_id silo_id g =
     map (\<lambda>b. \<lparr>pr_content = str_of (attrs b ''content''), pr_confidence = num_of (attrs b ''confidence''),
                pr_status = str_of (attrs b ''status''),
                pr_sources = map nid (filter (has_label ''Fact'') (out_nodes g ''SYNTHESIZED_FROM'' b))\<rparr>)
       (match_label_id g ''Belief'' proposed_belief_id silo_id)"

definition pending_belief :: "string \<Rightarrow> string \<Rightarrow> node \<Rightarrow> bool" where
  "pending_belief i s b \<longleftrightarrow> is_node i s b \<and> has_label ''Belief'' b \<and>
     str_of (attrs b ''status'') = Some ''pending''"

definition accept_props :: "int \<Rightarrow> real option \<Rightarrow> node \<Rightarrow> node" where
  "accept_props accepted_at override_confidence b = b\<lparr>attrs := (attrs b)
     (''status'' \<mapsto> VStr ''active'', ''accepted_at'' \<mapsto> VTime accepted_at,
      ''updated_at'' \<mapsto> VTime accepted_at,
      ''confidence'' := (case override_confidence of None \<Rightarrow> attrs b ''confidence''
                                                   | Some c \<Rightarrow> Some (VNum c)))\<rparr>"

definition ACCEPT_PENDING_BELIEF ::
  "string \<Rightarrow> string \<Rightarrow> int \<Rightarrow> real option \<Rightarrow> graph \<Rightarrow> graph \<times> (string \<times> real option) list" where
  "ACCEPT_PENDING_BELIEF proposed_belief_id silo_id accepted_at override_confidence g =
     (update_where (pending_belief proposed_belief_id silo_id)
        (accept_props accepted_at override_confidence) g,
      map (\<lambda>b. (nid b, num_of (attrs (accept_props accepted_at override_confidence b) ''confidence'')))
        (filter (pending_belief proposed_belief_id silo_id) (nodes g)))"

record fact_row =
  fa_id :: string
  fa_content :: "string option"
  fa_confidence :: "real option"

definition GET_FACTS_VIA_SYNTHESIZED_FROM :: "string \<Rightarrow> string \<Rightarrow> graph \<Rightarrow> fact_row list" where
  "GET_FACTS_VIA_SYNTHESIZED_FROM belief_id silo_id g =
     map (\<lambda>f. \<lparr>fa_id = nid f, fa_content = str_of (props f ''content''),
                fa_confidence = Some (case num_of (props f ''confidence'') of None \<Rightarrow> 8 / 10 | Some c \<Rightarrow> c)\<rparr>)
       (filter (\<lambda>f. has_label ''Fact'' f \<and> pstate f = Some ''ACTIVE'')
         (concat (map (out_nodes g ''SYNTHESIZED_FROM'') (match_label_id g ''Belief'' belief_id silo_id))))"

definition GET_FACTS_BY_IDS :: "string list \<Rightarrow> string \<Rightarrow> graph \<Rightarrow> fact_row list" where
  "GET_FACTS_BY_IDS fact_ids silo_id g =
     map (\<lambda>f. \<lparr>fa_id = nid f, fa_content = str_of (attrs f ''content''),
                fa_confidence = num_of (attrs f ''confidence'')\<rparr>)
       (filter (\<lambda>f. nid f \<in> set fact_ids \<and> str_of (attrs f ''state'') = Some ''ACTIVE'')
         (match_label g ''Fact'' silo_id))"

definition CREATE_PROPOSED_BELIEF_V2 ::
  "string \<Rightarrow> string \<Rightarrow> string option \<Rightarrow> real \<Rightarrow> int \<Rightarrow> int \<Rightarrow> string list \<Rightarrow> graph \<Rightarrow> graph \<times> unit" where
  "CREATE_PROPOSED_BELIEF_V2 i silo_id content confidence created_at expires_at fact_ids g =
     (let fs = [''confidence'' \<mapsto> VNum confidence, ''status'' \<mapsto> VStr ''pending'',
                ''state'' \<mapsto> VStr ''PENDING'', ''created_at'' \<mapsto> VTime created_at,
                ''expires_at'' \<mapsto> VTime expires_at](''content'' := map_option VStr content);
          pb = \<lparr>vid = next_vid g, labels = [''Node'', ''ProposedBelief''], nid = i,
                silo = Some silo_id, attrs = fs, props = Map.empty\<rparr>;
          g1 = add_node (labels pb) i (Some silo_id) fs Map.empty g
      in (add_edges ''SYNTHESIZED_FROM'' Map.empty [pb]
            (concat (map (\<lambda>f. match_label_id g1 ''Fact'' f silo_id) fact_ids)) g1, ()))"

definition CREATE_BELIEF_WITH_SYNTHESIZED_FROM ::
  "string \<Rightarrow> string \<Rightarrow> string \<Rightarrow> int \<Rightarrow> pymap \<Rightarrow> string list \<Rightarrow> graph \<Rightarrow> graph \<times> unit" where
  "CREATE_BELIEF_WITH_SYNTHESIZED_FROM i silo_id content created_at ps fact_ids g =
     (let b = \<lparr>vid = next_vid g, labels = [''Node'', ''Belief''], nid = i, silo = Some silo_id,
               attrs = [''content'' \<mapsto> VStr content, ''created_at'' \<mapsto> VTime created_at], props = ps\<rparr>;
          g1 = add_node (labels b) i (Some silo_id) (attrs b) ps g
      in (add_edges ''SYNTHESIZED_FROM'' Map.empty [b]
            (concat (map (\<lambda>f. match_id g1 f silo_id) fact_ids)) g1, ()))"

record belief_row =
  be_content :: "string option"
  be_state :: "string option"
  be_synthesis :: "string option"
  be_cluster :: "string option"
  be_in_progress :: bool

definition GET_BELIEF_FOR_REVISION :: "string \<Rightarrow> string \<Rightarrow> graph \<Rightarrow> belief_row list" where
  "GET_BELIEF_FOR_REVISION belief_id silo_id g =
     map (\<lambda>b. \<lparr>be_content = str_of (attrs b ''content''), be_state = pstate b,
                be_synthesis = str_of (props b ''synthesis_state''),
                be_cluster = str_of (props b ''source_cluster_id''),
                be_in_progress = (props b ''revision_in_progress'' = Some (VBool True))\<rparr>)
       (match_label_id g ''Belief'' belief_id silo_id)"

definition is_belief :: "string \<Rightarrow> string \<Rightarrow> node \<Rightarrow> bool" where
  "is_belief i s n \<longleftrightarrow> is_node i s n \<and> has_label ''Belief'' n"

definition MARK_BELIEF_REVISION_IN_PROGRESS :: "string \<Rightarrow> string \<Rightarrow> graph \<Rightarrow> graph \<times> unit" where
  "MARK_BELIEF_REVISION_IN_PROGRESS belief_id silo_id g =
     (update_where (is_belief belief_id silo_id)
        (set_prop ''revision_in_progress'' (Some (VBool True))) g, ())"

definition UPDATE_BELIEF_AFTER_REVISION ::
  "string \<Rightarrow> string \<Rightarrow> SynthesisState \<Rightarrow> graph \<Rightarrow> graph \<times> unit" where
  "UPDATE_BELIEF_AFTER_REVISION belief_id silo_id synthesis_state g =
     (update_where (is_belief belief_id silo_id)
        (\<lambda>n. set_prop ''revision_in_progress'' (Some (VBool False))
              (set_prop ''synthesis_state'' (Some (VStr (synthesis_value synthesis_state))) n)) g, ())"

section \<open>Cycles\<close>

text \<open>
  The edges of one type as pairs of identities, and the nodes reached by \<open>n\<close> of them.  A
  variable-length pattern \<open>(a)-[:T*]->(b)\<close> matches when \<open>b\<close> is reached in at least one
  step; a shortest path repeats no edge, so as many steps as there are edges are enough.
\<close>

definition type_edges :: "graph \<Rightarrow> string \<Rightarrow> (nat \<times> nat) list" where
  "type_edges g t = map (\<lambda>e. (esrc e, edst e)) (filter (\<lambda>e. etype e = t) (edges g))"

definition step_from :: "(nat \<times> nat) list \<Rightarrow> nat list \<Rightarrow> nat list" where
  "step_from es vs = remdups (map snd (filter (\<lambda>p. fst p \<in> set vs) es))"

fun reach_within :: "nat \<Rightarrow> (nat \<times> nat) list \<Rightarrow> nat list \<Rightarrow> nat list \<Rightarrow> bool" where
  "reach_within 0 es vs targets = False"
| "reach_within (Suc k) es vs targets =
     (let ws = step_from es vs in list_ex (\<lambda>w. w \<in> set targets) ws \<or> reach_within k es ws targets)"

definition path_exists :: "graph \<Rightarrow> string \<Rightarrow> node list \<Rightarrow> node list \<Rightarrow> bool" where
  "path_exists g t as bs =
     reach_within (length (edges g)) (type_edges g t) (map vid as) (map vid bs)"

lemma set_step_from: "set (step_from es vs) = {y. \<exists>x\<in>set vs. (x, y) \<in> set es}"
  by (force simp: step_from_def)

lemma reach_within_iff:
  "reach_within k es vs targets \<longleftrightarrow>
     (\<exists>n\<ge>1. n \<le> k \<and> (\<exists>x\<in>set vs. \<exists>y\<in>set targets. (x, y) \<in> set es ^^ n))"
proof (induction k arbitrary: vs)
  case (Suc k)
  have "(\<exists>n\<ge>1. n \<le> Suc k \<and> (\<exists>x\<in>set vs. \<exists>y\<in>set targets. (x, y) \<in> set es ^^ n)) \<longleftrightarrow>
     (\<exists>x\<in>set vs. \<exists>y\<in>set targets. (x, y) \<in> set es) \<or>
     (\<exists>n\<ge>1. n \<le> k \<and> (\<exists>x\<in>set vs. \<exists>y\<in>set targets. (x, y) \<in> set es ^^ Suc n))" (is "?L \<longleftrightarrow> ?A \<or> ?B")
  proof
    assume ?L
    then obtain n x y where n: "1 \<le> n" "n \<le> Suc k" and xy: "x \<in> set vs" "y \<in> set targets"
      "(x, y) \<in> set es ^^ n" by blast
    show "?A \<or> ?B"
    proof (cases "n = 1")
      case True with xy show ?thesis by auto
    next
      case False
      then obtain m where "n = Suc m" "1 \<le> m" "m \<le> k" using n by (cases n) auto
      with xy show ?thesis by blast
    qed
  next
    assume "?A \<or> ?B"
    then show ?L
    proof
      assume ?A
      then show ?L by (intro exI [of _ 1]) auto
    next
      assume ?B
      then obtain n where "1 \<le> n" "n \<le> k" "\<exists>x\<in>set vs. \<exists>y\<in>set targets. (x, y) \<in> set es ^^ Suc n"
        by blast
      then show ?L by (intro exI [of _ "Suc n"]) auto
    qed
  qed
  moreover have "(\<exists>x\<in>set vs. \<exists>y\<in>set targets. (x, y) \<in> set es) \<longleftrightarrow>
      list_ex (\<lambda>w. w \<in> set targets) (step_from es vs)"
    by (auto simp: list_ex_iff set_step_from)
  moreover have "(\<exists>x\<in>set vs. \<exists>y\<in>set targets. (x, y) \<in> set es ^^ Suc n) \<longleftrightarrow>
      (\<exists>x\<in>set (step_from es vs). \<exists>y\<in>set targets. (x, y) \<in> set es ^^ n)" for n
    unfolding set_step_from relpow.simps(2) relpow_commute [symmetric] by (auto simp: relcomp_unfold)
  ultimately show ?case using Suc.IH by (simp add: Let_def)
qed auto

lemma path_exists_iff:
  "path_exists g t as bs \<longleftrightarrow>
     (\<exists>a\<in>set as. \<exists>b\<in>set bs. (vid a, vid b) \<in> (set (type_edges g t))\<^sup>+)"
proof -
  let ?R = "set (type_edges g t)"
  have "card ?R \<le> length (type_edges g t)" by (rule card_length)
  also have "\<dots> \<le> length (edges g)" by (simp add: type_edges_def)
  finally have card: "card ?R \<le> length (edges g)" .
  have "(x, y) \<in> ?R\<^sup>+ \<longleftrightarrow> (\<exists>n\<ge>1. n \<le> length (edges g) \<and> (x, y) \<in> ?R ^^ n)" for x y
  proof
    assume "(x, y) \<in> ?R\<^sup>+"
    then obtain n where "0 < n" "n \<le> card ?R" "(x, y) \<in> ?R ^^ n"
      by (auto simp: trancl_finite_eq_relpow)
    with card show "\<exists>n\<ge>1. n \<le> length (edges g) \<and> (x, y) \<in> ?R ^^ n"
      by (intro exI [of _ n]) auto
  next
    assume "\<exists>n\<ge>1. n \<le> length (edges g) \<and> (x, y) \<in> ?R ^^ n"
    then obtain n where "n \<ge> 1" "(x, y) \<in> ?R ^^ n" by blast
    then show "(x, y) \<in> ?R\<^sup>+" unfolding trancl_power by (intro exI [of _ n]) auto
  qed
  then show ?thesis by (auto simp: path_exists_def reach_within_iff)
qed

end
