(* ===== verification/Lifecycle.thy ===== *)
theory Lifecycle
  imports Queries
begin

text \<open>
  The node life cycle of \<open>sage/transactions.py\<close>: \<open>forget\<close> (TX15), \<open>cancel_forget\<close> (TX16),
  \<open>hard_delete\<close> (TX10) and the staleness cascade.
\<close>

section \<open>Staleness cascade\<close>

text \<open>
  \<open>cascade_staleness(store, node_id, silo_id, depth, visited)\<close> shares the mutable \<open>visited\<close>
  set between the recursive calls, so the model threads it and returns it with the count.
  An exception of a dependent is caught there; the nodes already visited stay visited, so the
  handler needs the set at the time of the failure: a failing call reports it too
  (\<open>Inl visited\<close>).  The recursion is bounded by the remaining depth \<open>fuel\<close>
  (\<open>MAX_CASCADE_DEPTH + 1 - depth\<close>); at \<open>0\<close> the guard \<open>depth > MAX_CASCADE_DEPTH\<close> holds
  and the node is handed to the queue.
\<close>

definition defer_cascade :: "string \<Rightarrow> string \<Rightarrow> unit tx" where
  "defer_cascade node_id silo_id = emit_reaction (reaction CASCADE_STALENESS node_id silo_id [])"

text \<open>The handling of one dependent of the wisdom layer (GAP-015).\<close>

definition cascade_wisdom :: "string \<Rightarrow> string \<Rightarrow> unit tx" where
  "cascade_wisdom dep_id silo_id =
     tbind (execute_query (COUNT_ACTIVE_SOURCE_FACTS dep_id silo_id)) (\<lambda>active_count.
       if active_count < SYNTHESIS_THRESHOLD then
         tbind datetime_now (\<lambda>t. execute_write (TOMBSTONE_ORPHANED_BELIEF dep_id silo_id t))
       else execute_write (MARK_BELIEF_STALE_FOR_CASCADE dep_id silo_id))"

text \<open>Turn the errors of a transaction into values.\<close>

definition attempt :: "'a tx \<Rightarrow> (exn + 'a) tx" where
  "attempt m = tcatch (tbind m (\<lambda>a. ret (Inr a))) (\<lambda>x. ret (Inl x))"

text \<open>
  One visit.  \<open>rec\<close> is the visit of a dependent one level deeper.  The result is the set of
  visited nodes with either the count or the error that escaped.
\<close>

fun cascade_deps ::
  "(string \<Rightarrow> string list \<Rightarrow> (string list \<times> (exn + nat)) tx) \<Rightarrow> string \<Rightarrow>
   (string \<times> string option) list \<Rightarrow> string list \<Rightarrow> (string list \<times> nat) tx" where
  "cascade_deps rec silo_id [] visited = ret (visited, 0)"
| "cascade_deps rec silo_id ((dep_id, layer) # deps) visited =
     tbind
       (if layer = Some ''wisdom'' then
          tbind (attempt (cascade_wisdom dep_id silo_id)) (\<lambda>r. case r of
              Inl x \<Rightarrow> tbind (defer_cascade dep_id silo_id) (\<lambda>_. ret (visited, 0))
            | Inr _ \<Rightarrow> ret (visited, 1))
        else
          tbind (rec dep_id visited) (\<lambda>(visited', r). case r of
              Inl x \<Rightarrow> tbind (defer_cascade dep_id silo_id) (\<lambda>_. ret (visited', 0))
            | Inr k \<Rightarrow> ret (visited', k)))
       (\<lambda>(visited', k). tbind (cascade_deps rec silo_id deps visited')
          (\<lambda>(visited'', l). ret (visited'', k + l)))"

fun cascade_visit ::
  "nat \<Rightarrow> string \<Rightarrow> string \<Rightarrow> string list \<Rightarrow> (string list \<times> (exn + nat)) tx" where
  "cascade_visit 0 silo_id node_id visited =
     tbind (defer_cascade node_id silo_id) (\<lambda>_. ret (visited, Inr 0))"
| "cascade_visit (Suc fuel) silo_id node_id visited =
     (if node_id \<in> set visited then ret (visited, Inr 0)
      else tbind (attempt (execute_query (GET_DEPENDENTS_FOR_CASCADE node_id silo_id))) (\<lambda>r. case r of
          Inl x \<Rightarrow> ret (node_id # visited, Inl x)
        | Inr deps \<Rightarrow> tbind (cascade_deps (cascade_visit fuel silo_id) silo_id deps (node_id # visited))
            (\<lambda>(visited', k). ret (visited', Inr k))))"

definition cascade_staleness :: "string \<Rightarrow> string \<Rightarrow> nat \<Rightarrow> nat tx" where
  "cascade_staleness node_id silo_id depth =
     tbind (cascade_visit (Suc MAX_CASCADE_DEPTH - depth) silo_id node_id []) (\<lambda>(_, r). case r of
         Inl x \<Rightarrow> raise x | Inr k \<Rightarrow> ret k)"

section \<open>Forget and cancel\<close>

record ForgetResult =
  fg_node_id :: string
  fg_state :: NodeState
  fg_tombstoned_at :: int
  fg_cancel_window_expires :: int
  fg_cascade_count :: nat

definition validate_forget :: "string option \<Rightarrow> unit tx" where
  "validate_forget state =
     (if state = Some ''TOMBSTONED'' then raise (InvariantViolation ''ALREADY_TOMBSTONED'')
      else if state = Some ''DELETED'' then raise (InvariantViolation ''ALREADY_DELETED'')
      else if state \<notin> {Some ''ACTIVE'', Some ''SUPERSEDED''} then raise (InvariantViolation ''INVALID_STATE'')
      else ret ())"

text \<open>
  Deleting the vector: three attempts, each failing when the oracle says so or when the id is
  no UUID.  The code keeps only the text of the last error, and takes the empty text for
  success; otherwise the delete goes to the dead-letter queue (\<open>lpush\<close>).
\<close>

definition qdrant_delete :: "string \<Rightarrow> string \<Rightarrow> string option tx" where
  "qdrant_delete silo_id node_id = (\<lambda>e w.
     if \<not> uuid_ok node_id then (Inr (Some ''badly formed hexadecimal UUID string''), w)
     else if fault e (tick w) then (Inr (Some (fault_msg e (tick w))), w\<lparr>tick := Suc (tick w)\<rparr>)
     else (Inr None, w\<lparr>vectors := filter (\<lambda>v. v \<noteq> (silo_id, node_id)) (vectors w),
                         tick := Suc (tick w)\<rparr>))"

fun delete_vector :: "nat \<Rightarrow> string \<Rightarrow> string \<Rightarrow> string \<Rightarrow> string tx" where
  "delete_vector 0 silo_id node_id last_error = ret last_error"
| "delete_vector (Suc attempts) silo_id node_id last_error =
     tbind (qdrant_delete silo_id node_id) (\<lambda>r. case r of
         None \<Rightarrow> ret []
       | Some msg \<Rightarrow> delete_vector attempts silo_id node_id msg)"

definition enqueue_failed_delete :: "string \<Rightarrow> string \<Rightarrow> unit tx" where
  "enqueue_failed_delete silo_id node_id = (\<lambda>e w.
     if fault e (tick w) then (Inl StoreError, w\<lparr>tick := Suc (tick w)\<rparr>)
     else (Inr (), w\<lparr>dead_letters := (silo_id, node_id) # dead_letters w, tick := Suc (tick w)\<rparr>))"

definition forget_vector :: "string \<Rightarrow> string \<Rightarrow> unit tx" where
  "forget_vector silo_id node_id =
     tbind (delete_vector 3 silo_id node_id []) (\<lambda>last_error.
       twhen (last_error \<noteq> []) (enqueue_failed_delete silo_id node_id))"

definition forget ::
  "string \<Rightarrow> string \<Rightarrow> string \<Rightarrow> string option \<Rightarrow> bool \<Rightarrow> bool \<Rightarrow> bool \<Rightarrow>
   (ForgetResult \<times> ReactionEvent list) tx" where
  "forget node_id silo_id agent_id reason cascade emit qdrant_store =
     tbind (execute_query (GET_NODE_FOR_FORGET node_id silo_id)) (\<lambda>node_result.
     case node_result of
       [] \<Rightarrow> raise (InvariantViolation ''NODE_NOT_FOUND'')
     | node # _ \<Rightarrow>
       tbind (validate_forget (fr_state node)) (\<lambda>_.
       tbind datetime_now (\<lambda>now.
       let cancel_window_expires = now + CANCEL_WINDOW_DURATION_SECONDS in
       tbind (asks set_sequential) (\<lambda>sq.
       tbind (execute_write (TOMBSTONE_NODE sq node_id silo_id now agent_id reason
                               cancel_window_expires)) (\<lambda>_.
       let chain_events = (if fr_type node = Some ''ReasoningChain''
             then [reaction CHAIN_TOMBSTONED node_id silo_id
                     (case reason of None \<Rightarrow> [] | Some r \<Rightarrow> [(''reason'', VStr r)])] else []) in
       tbind (if cascade then cascade_staleness node_id silo_id 1 else ret 0) (\<lambda>cascade_count.
       let events = chain_events @ (if cascade
             then [reaction CASCADE_STALENESS_COMPLETE node_id silo_id
                     [(''cascade_count'', VInt (int cascade_count))]] else []) in
       tbind (emit_all emit events) (\<lambda>_.
       tbind (twhen qdrant_store (forget_vector silo_id node_id)) (\<lambda>_.
       tbind (parse_uuid node_id) (\<lambda>u.
       ret (\<lparr>fg_node_id = u, fg_state = TOMBSTONED, fg_tombstoned_at = now,
             fg_cancel_window_expires = cancel_window_expires,
             fg_cascade_count = cascade_count\<rparr>, events))))))))))"

record CancelForgetResult =
  cf_node_id :: string
  cf_restored_at :: int
  cf_previous_state :: NodeState

definition parse_state :: "string option \<Rightarrow> NodeState tx" where
  "parse_state s = (case s of None \<Rightarrow> raise ValueError | Some x \<Rightarrow>
      (case state_of_value x of None \<Rightarrow> raise ValueError | Some st \<Rightarrow> ret st))"

definition cancel_forget :: "string \<Rightarrow> string \<Rightarrow> string \<Rightarrow> CancelForgetResult tx" where
  "cancel_forget node_id silo_id agent_id =
     tbind (execute_query (GET_NODE_FOR_FORGET node_id silo_id)) (\<lambda>node_result.
     case node_result of
       [] \<Rightarrow> raise (InvariantViolation ''NODE_NOT_FOUND'')
     | node # _ \<Rightarrow>
       if fr_state node \<noteq> Some ''TOMBSTONED'' then raise (InvariantViolation ''NOT_TOMBSTONED'')
       else
         tbind (case fr_cancel node of
             None \<Rightarrow> ret ()
           | Some expires_dt \<Rightarrow> tbind datetime_now (\<lambda>t.
               if expires_dt < t then raise (InvariantViolation ''CANCEL_WINDOW_EXPIRED'') else ret ())) (\<lambda>_.
         tbind datetime_now (\<lambda>now.
         tbind (execute_write (RESTORE_TOMBSTONED_NODE node_id silo_id now now agent_id)) (\<lambda>restore_result.
         let previous_state_str = (case restore_result of [] \<Rightarrow> Some ''ACTIVE'' | p # _ \<Rightarrow> p) in
         tbind (parse_state previous_state_str) (\<lambda>previous_state.
         tbind (parse_uuid node_id) (\<lambda>u.
         ret \<lparr>cf_node_id = u, cf_restored_at = now, cf_previous_state = previous_state\<rparr>))))))"

section \<open>Garbage collection\<close>

record HardDeleteResult =
  hd_deleted_count :: nat
  hd_skipped_count :: nat
  hd_deleted_ids :: "string list"

definition hard_delete_one :: "string \<Rightarrow> string \<Rightarrow> unit tx" where
  "hard_delete_one silo_id node_id =
     tbind (execute_write (DELETE_EDGES_FOR_NODE node_id silo_id)) (\<lambda>_.
       execute_write_checked (HARD_DELETE_NODE node_id silo_id))"

definition hard_delete :: "string \<Rightarrow> nat \<Rightarrow> HardDeleteResult tx" where
  "hard_delete silo_id batch_size =
     tbind datetime_now (\<lambda>now.
     tbind (execute_query (GET_TOMBSTONED_FOR_GC silo_id now batch_size)) (\<lambda>candidates.
     tbind (tfor candidates (\<lambda>node_id. tbind (attempt (hard_delete_one silo_id node_id))
              (\<lambda>r. ret (node_id, case r of Inl _ \<Rightarrow> False | Inr _ \<Rightarrow> True)))) (\<lambda>outcomes.
     let deleted_ids = map fst (filter snd outcomes) in
     ret \<lparr>hd_deleted_count = length deleted_ids,
          hd_skipped_count = length (filter (\<lambda>out. \<not> snd out) outcomes),
          hd_deleted_ids = deleted_ids\<rparr>)))"

section \<open>Every life-cycle transaction is a sequence of steps of its silo\<close>

lemma identity_kept_fold_sets:
  "identity_kept (\<lambda>n. fold (\<lambda>(k, rhs) m. set_prop k (rhs (if sq then m else n)) m) items n)"
proof -
  have "vid (fold (\<lambda>(k, rhs) m. set_prop k (rhs (if sq then m else n)) m) items m) = vid m \<and>
    nid (fold (\<lambda>(k, rhs) m. set_prop k (rhs (if sq then m else n)) m) items m) = nid m \<and>
    silo (fold (\<lambda>(k, rhs) m. set_prop k (rhs (if sq then m else n)) m) items m) = silo m \<and>
    labels (fold (\<lambda>(k, rhs) m. set_prop k (rhs (if sq then m else n)) m) items m) = labels m" for n m
    by (induction items arbitrary: m) auto
  then show ?thesis by (simp add: identity_kept_def has_label_def)
qed

lemma identity_kept_apply_sets [simp, intro]: "identity_kept (apply_sets sq items)"
  unfolding apply_sets_def by (rule identity_kept_fold_sets)

lemma eff_tombstone [effect_intros]:
  "geffect (gsteps s) (execute_write (TOMBSTONE_NODE sq i s t a r c))"
  by (rule in_silo.eff_write) (auto simp: TOMBSTONE_NODE_def is_node_def intro!: gsteps_update)

lemma eff_restore [effect_intros]:
  "geffect (gsteps s) (execute_write (RESTORE_TOMBSTONED_NODE i s t t' a))"
  by (rule in_silo.eff_write)
    (auto simp: RESTORE_TOMBSTONED_NODE_def restorable_def is_node_def identity_kept_def
      restore_props_def has_label_def intro!: gsteps_update)

lemma eff_mark_stale [effect_intros]:
  "geffect (gsteps s) (execute_write (MARK_BELIEF_STALE_FOR_CASCADE i s))"
  by (rule in_silo.eff_write)
    (auto simp: MARK_BELIEF_STALE_FOR_CASCADE_def is_wisdom_def is_node_def intro!: gsteps_update)

lemma eff_tombstone_orphan [effect_intros]:
  "geffect (gsteps s) (execute_write (TOMBSTONE_ORPHANED_BELIEF i s t))"
  by (rule in_silo.eff_write)
    (auto simp: TOMBSTONE_ORPHANED_BELIEF_def is_wisdom_def is_node_def identity_kept_def
      has_label_def intro!: gsteps_update)

lemma eff_delete_edges [effect_intros]:
  "geffect (gsteps s) (execute_write (DELETE_EDGES_FOR_NODE i s))"
  by (rule in_silo.eff_write)
    (auto simp: DELETE_EDGES_FOR_NODE_def touches_def dest!: match_id_silo_vids
      intro!: r_into_rtranclp gstep.disconnect)

lemma eff_hard_delete_node [effect_intros]:
  "geffect (gsteps s) (execute_write_checked (HARD_DELETE_NODE i s))"
proof (rule in_silo.eff_write_checked)
  fix g h r
  let ?T = "hard_delete_target i s"
  assume "HARD_DELETE_NODE i s g = Some (h, r)"
  then have h: "h = del_nodes ?T g" and free: "\<not> list_ex (touches (filter ?T (nodes g))) (edges g)"
    by (auto simp: HARD_DELETE_NODE_def Let_def split: if_splits)
  have "gstep s g (del_nodes ?T g)"
  proof (rule gstep.remove)
    show "?T n \<Longrightarrow> silo n = Some s" for n
      by (simp add: hard_delete_target_def is_node_def)
    show "esrc e \<noteq> vid n \<and> edst e \<noteq> vid n"
      if "e \<in> set (edges g)" "n \<in> set (nodes g)" "?T n" for e n
      using free that by (force simp: list_ex_iff touches_def)
  qed
  with h show "gsteps s g h" by auto
qed

lemma eff_graph_unchanged:
  assumes "\<And>e w. gr (snd (m e w)) = gr w"
  shows "geffect (gsteps s) m"
  using assms by (simp add: geffect_def)

lemma eff_qdrant [effect_intros]:
  "geffect (gsteps s) (qdrant_delete t i)" "geffect (gsteps s) (enqueue_failed_delete t i)"
  by (rule eff_graph_unchanged,
      simp add: qdrant_delete_def enqueue_failed_delete_def)+

lemma eff_delete_vector [effect_intros]: "geffect (gsteps s) (delete_vector k t i msg)"
  by (induction k arbitrary: msg) (auto intro!: effect_intros)

context graph_effect
begin

lemma eff_attempt [effect_intros]: "geffect G m \<Longrightarrow> geffect G (attempt m)"
  by (simp add: attempt_def eff_catch eff_bind eff_ret)

end

text \<open>
  The cascade writes through two queries only.  Any effect that admits these two is an effect
  of the whole recursion, whatever its depth and whichever calls fail.
\<close>

locale cascade_effect = graph_effect G for G :: "graph \<Rightarrow> graph \<Rightarrow> bool" +
  fixes s :: string
  assumes mark_stale: "geffect G (execute_write (MARK_BELIEF_STALE_FOR_CASCADE i s))"
    and tombstone_orphan: "geffect G (execute_write (TOMBSTONE_ORPHANED_BELIEF i s t))"
begin

lemma eff_cascade_deps:
  assumes "\<And>d v. geffect G (rec d v)"
  shows "geffect G (cascade_deps rec s deps visited)"
proof (induction deps arbitrary: visited)
  case (Cons dep deps)
  obtain dep_id layer where "dep = (dep_id, layer)" by (cases dep)
  with Cons assms show ?case
    by (auto simp: cascade_wisdom_def defer_cascade_def
        intro!: effect_intros mark_stale tombstone_orphan)
qed (auto intro!: effect_intros)

lemma eff_cascade_visit: "geffect G (cascade_visit k s i v)"
proof (induction k arbitrary: i v)
  case (Suc fuel)
  have "geffect G (cascade_deps (cascade_visit fuel s) s deps vis)" for deps vis
    by (rule eff_cascade_deps) (rule Suc)
  then show ?case by (auto intro!: effect_intros)
qed (auto simp: defer_cascade_def intro!: effect_intros)

lemma eff_cascade_staleness [effect_intros]: "geffect G (cascade_staleness i s d)"
  by (auto simp: cascade_staleness_def simp del: cascade_visit.simps
      intro!: effect_intros eff_cascade_visit)

end

interpretation cascade_steps: cascade_effect "gsteps s" s for s
  by unfold_locales (auto intro: effect_intros)

lemma eff_forget [effect_intros]: "geffect (gsteps s) (forget i s a r c em q)"
  by (auto simp: forget_def validate_forget_def forget_vector_def Let_def intro!: effect_intros)

lemma eff_cancel_forget [effect_intros]: "geffect (gsteps s) (cancel_forget i s a)"
  by (auto simp: cancel_forget_def parse_state_def Let_def intro!: effect_intros)

lemma eff_hard_delete [effect_intros]: "geffect (gsteps s) (hard_delete s k)"
  by (auto simp: hard_delete_def hard_delete_one_def Let_def intro!: effect_intros)

end
