(* ===== verification/Credibility.thy ===== *)
theory Credibility
  imports Prelude
begin

text \<open>
  \<open>sage/confidence.py\<close>: the static credibility of a claim, and \<open>noisy_or_aggregate\<close> of
  \<open>sage/transactions.py\<close>, which combines the confidences of independent sources.
\<close>

section \<open>Credibility\<close>

definition SOURCE_TIER_WEIGHTS :: "string \<rightharpoonup> real" where
  "SOURCE_TIER_WEIGHTS = [''authoritative'' \<mapsto> 1, ''validated'' \<mapsto> 85 / 100,
     ''community'' \<mapsto> 6 / 10, ''unknown'' \<mapsto> 4 / 10]"

definition METHOD_WEIGHTS :: "string \<rightharpoonup> real" where
  "METHOD_WEIGHTS = [''direct'' \<mapsto> 1, ''validated_extractor'' \<mapsto> 85 / 100,
     ''standard_extractor'' \<mapsto> 75 / 100, ''experimental'' \<mapsto> 6 / 10]"

record CredibilityBreakdown =
  cb_source_tier :: string
  cb_source_tier_weight :: real
  cb_corroboration_count :: int
  cb_corroboration_factor :: real
  cb_method :: string
  cb_method_weight :: real
  cb_raw_confidence :: real
  cb_credibility :: real

text \<open>\<open>x if x in table else d\<close>, then the table's weight.\<close>

definition known_or :: "(string \<rightharpoonup> real) \<Rightarrow> string \<Rightarrow> string option \<Rightarrow> string" where
  "known_or tbl d x = (case x of None \<Rightarrow> d | Some k \<Rightarrow> if tbl k = None then d else k)"

definition weight_of :: "(string \<rightharpoonup> real) \<Rightarrow> string \<Rightarrow> real" where
  "weight_of tbl k = (case tbl k of None \<Rightarrow> 0 | Some x \<Rightarrow> x)"

definition compute_credibility ::
  "string option \<Rightarrow> string option \<Rightarrow> real \<Rightarrow> int \<Rightarrow> CredibilityBreakdown" where
  "compute_credibility source_tier mth raw_confidence corroboration_count =
     (let tier = known_or SOURCE_TIER_WEIGHTS ''unknown'' source_tier;
          tier_weight = weight_of SOURCE_TIER_WEIGHTS tier;
          meth = known_or METHOD_WEIGHTS ''direct'' mth;
          meth_weight = weight_of METHOD_WEIGHTS meth;
          clamped_confidence = clamp01 raw_confidence;
          n = max 1 corroboration_count;
          corroboration_factor = 1 - exp (- (1 / 2) * of_int n);
          credibility = tier_weight * corroboration_factor * meth_weight * clamped_confidence
      in \<lparr>cb_source_tier = tier, cb_source_tier_weight = tier_weight, cb_corroboration_count = n,
          cb_corroboration_factor = corroboration_factor, cb_method = meth,
          cb_method_weight = meth_weight, cb_raw_confidence = clamped_confidence,
          cb_credibility = credibility\<rparr>)"

lemma source_tier_weight_range:
  "0 < weight_of SOURCE_TIER_WEIGHTS (known_or SOURCE_TIER_WEIGHTS ''unknown'' t)"
  "weight_of SOURCE_TIER_WEIGHTS (known_or SOURCE_TIER_WEIGHTS ''unknown'' t) \<le> 1"
  by (auto simp: weight_of_def known_or_def SOURCE_TIER_WEIGHTS_def split: option.splits)

lemma method_weight_range:
  "0 < weight_of METHOD_WEIGHTS (known_or METHOD_WEIGHTS ''direct'' m)"
  "weight_of METHOD_WEIGHTS (known_or METHOD_WEIGHTS ''direct'' m) \<le> 1"
  by (auto simp: weight_of_def known_or_def METHOD_WEIGHTS_def split: option.splits)

lemma corroboration_factor_range:
  "0 < 1 - exp (- (1 / 2) * real_of_int (max 1 n))" "1 - exp (- (1 / 2) * real_of_int (max 1 n)) < 1"
  by (auto simp: max_def)

lemma corroboration_factor_mono:
  "m \<le> n \<Longrightarrow> 1 - exp (- (1 / 2) * real_of_int (max 1 m)) \<le> 1 - exp (- (1 / 2) * real_of_int (max 1 n))"
  by (simp add: max_def)

lemma cb_credibility_eq:
  "cb_credibility (compute_credibility t m c n) =
     weight_of SOURCE_TIER_WEIGHTS (known_or SOURCE_TIER_WEIGHTS ''unknown'' t) *
     (1 - exp (- (1 / 2) * of_int (max 1 n))) *
     weight_of METHOD_WEIGHTS (known_or METHOD_WEIGHTS ''direct'' m) * clamp01 c"
  by (simp add: compute_credibility_def Let_def)

text \<open>
  a credibility lies in the unit interval and is strictly below one, whatever the source
  tier, the method, the confidence or the count passed in (unknown names and counts below one
  included), and it never exceeds the clamped confidence it is computed from.
\<close>

theorem credibility_bounds:
  "0 \<le> cb_credibility (compute_credibility t m c n) \<and>
   cb_credibility (compute_credibility t m c n) < 1 \<and>
   cb_credibility (compute_credibility t m c n) \<le> cb_raw_confidence (compute_credibility t m c n)"
proof -
  let ?t = "weight_of SOURCE_TIER_WEIGHTS (known_or SOURCE_TIER_WEIGHTS ''unknown'' t)"
  let ?f = "1 - exp (- (1 / 2) * real_of_int (max 1 n))"
  let ?m = "weight_of METHOD_WEIGHTS (known_or METHOD_WEIGHTS ''direct'' m)"
  let ?c = "clamp01 c"
  have raw: "cb_raw_confidence (compute_credibility t m c n) = ?c"
    by (simp add: compute_credibility_def Let_def)
  have tf: "0 \<le> ?t * ?f" "?t * ?f < 1"
    using mult_strict_mono [of ?t 1 ?f 1] source_tier_weight_range [of t] corroboration_factor_range [of n]
      mult_le_one [of ?t ?f] mult_left_le_one_le [of ?f ?t]
    by (auto simp: less_eq_real_def)
  have tfm: "0 \<le> ?t * ?f * ?m" "?t * ?f * ?m < 1"
    using tf method_weight_range [of m] mult_right_le_one_le [of "?t * ?f" ?m] by auto
  have "0 \<le> ?t * ?f * ?m * ?c" "?t * ?f * ?m * ?c \<le> ?t * ?f * ?m" "?t * ?f * ?m * ?c \<le> ?c"
    using tfm mult_right_le_one_le [of "?t * ?f * ?m" ?c] mult_left_le_one_le [of ?c "?t * ?f * ?m"]
    by auto
  then show ?thesis using tfm unfolding cb_credibility_eq raw by linarith
qed

text \<open>
  more corroborating sources or a higher raw confidence never lower the credibility.
\<close>

theorem credibility_mono:
  assumes "c \<le> c'" "n \<le> n'"
  shows "cb_credibility (compute_credibility t m c n) \<le> cb_credibility (compute_credibility t m c' n')"
  unfolding cb_credibility_eq
  by (intro mult_mono clamp01_mono corroboration_factor_mono assms order_refl)
    (use source_tier_weight_range [of t] method_weight_range [of m] corroboration_factor_range [of n']
      corroboration_factor_range [of n] in \<open>auto intro!: mult_nonneg_nonneg less_imp_le\<close>)

theorem credibility_mono_witness:
  "cb_credibility (compute_credibility (Some ''validated'') None (1 / 2) 1) \<le>
   cb_credibility (compute_credibility (Some ''validated'') None (3 / 4) 4)"
  by (rule credibility_mono) simp_all

section \<open>Noisy or\<close>

definition noisy_or_aggregate :: "real list \<Rightarrow> real" where
  "noisy_or_aggregate confidences =
     (if confidences = [] then 0
      else 1 - fold (\<lambda>c product. product * (1 - clamp01 c)) confidences 1)"

lemma fold_noisy: "fold (\<lambda>c product. product * (1 - clamp01 c)) cs p = p * prod_list (map (\<lambda>c. 1 - clamp01 c) cs)"
  by (induction cs arbitrary: p) (simp_all add: mult.assoc)

lemma noisy_or_prod: "noisy_or_aggregate cs = 1 - prod_list (map (\<lambda>c. 1 - clamp01 c) cs)"
  by (simp add: noisy_or_aggregate_def fold_noisy)

lemma noisy_prod_range: "0 \<le> prod_list (map (\<lambda>c. 1 - clamp01 c) cs)" "prod_list (map (\<lambda>c. 1 - clamp01 c) cs) \<le> 1"
proof -
  have "0 \<le> prod_list (map (\<lambda>c. 1 - clamp01 c) cs) \<and> prod_list (map (\<lambda>c. 1 - clamp01 c) cs) \<le> 1"
    by (induction cs) (auto intro!: mult_le_one)
  then show "0 \<le> prod_list (map (\<lambda>c. 1 - clamp01 c) cs)" "prod_list (map (\<lambda>c. 1 - clamp01 c) cs) \<le> 1"
    by auto
qed

lemma noisy_or_Cons:
  "noisy_or_aggregate (c # cs) = noisy_or_aggregate cs + clamp01 c * (1 - noisy_or_aggregate cs)"
  by (simp add: noisy_or_prod algebra_simps)

text \<open>
  the noisy-or of any confidences is a probability; it does not depend on their order, is at
  least each (clamped) confidence, and another source never lowers it.
\<close>

theorem noisy_or_laws:
  "0 \<le> noisy_or_aggregate cs \<and> noisy_or_aggregate cs \<le> 1 \<and>
   (mset ds = mset cs \<longrightarrow> noisy_or_aggregate ds = noisy_or_aggregate cs) \<and>
   (\<forall>c\<in>set cs. clamp01 c \<le> noisy_or_aggregate cs) \<and>
   noisy_or_aggregate cs \<le> noisy_or_aggregate (c # cs)"
proof -
  have r: "0 \<le> noisy_or_aggregate xs \<and> noisy_or_aggregate xs \<le> 1" for xs
    using noisy_prod_range [of xs] by (simp add: noisy_or_prod)
  have mono: "noisy_or_aggregate xs \<le> noisy_or_aggregate (x # xs)" for x xs
    using r [of xs] by (simp add: noisy_or_Cons)
  have "clamp01 x \<le> noisy_or_aggregate xs" if "x \<in> set xs" for x xs
    using that
  proof (induction xs)
    case (Cons y xs)
    show ?case
    proof (cases "x = y")
      case True
      have "clamp01 y + noisy_or_aggregate xs * (1 - clamp01 y) \<ge> clamp01 y"
        using r [of xs] by simp
      then show ?thesis using True by (simp add: noisy_or_Cons algebra_simps)
    next
      case False
      then show ?thesis using Cons mono [of xs y] by force
    qed
  qed simp
  moreover have "noisy_or_aggregate ds = noisy_or_aggregate cs" if "mset ds = mset cs"
    unfolding noisy_or_prod prod_mset_prod_list [symmetric] mset_map that ..
  ultimately show ?thesis using r mono by blast
qed

theorem noisy_or_laws_witness:
  "noisy_or_aggregate [1 / 2, 1 / 2] = 3 / 4 \<and> noisy_or_aggregate [1 / 4, 1 / 2] = noisy_or_aggregate [1 / 2, 1 / 4] \<and>
   clamp01 (1 / 2) \<le> noisy_or_aggregate [1 / 2, 1 / 4]"
  using noisy_or_laws [where cs = "[1 / 2, 1 / 4]" and ds = "[1 / 4, 1 / 2]" and c = 1]
  by (simp add: noisy_or_prod add_mset_commute)

end
