(* ===== verification/TxStore.thy ===== *)
theory TxStore
  imports Queries Credibility
begin

text \<open>
  The write path of \<open>sage/transactions.py\<close>: \<open>store_memory\<close> (TX0) and \<open>store_claim\<close> (TX2) with
  the evidence checks (INV2), the contradiction check before the write (INV1), the corroboration
  checks, the detection of structural conflicts (INV8), and the Postgres shadow rows.

  Keyword arguments that the code passes through are collected in a record of options.
\<close>

section \<open>Postgres shadow\<close>

text \<open>\<open>COALESCE(EXCLUDED.c, nodes.c)\<close>.\<close>

definition coalesce :: "'a option \<Rightarrow> 'a option \<Rightarrow> 'a option" where
  "coalesce a b = (case a of None \<Rightarrow> b | Some x \<Rightarrow> Some x)"

definition upsert_row :: "shadow_row \<Rightarrow> shadow_row option \<Rightarrow> shadow_row" where
  "upsert_row new old = (case old of None \<Rightarrow> new
     | Some r \<Rightarrow> r\<lparr>sh_content := sh_content new, sh_state := sh_state new,
         sh_agent := coalesce (sh_agent new) (sh_agent r),
         sh_session := coalesce (sh_session new) (sh_session r),
         sh_owner := coalesce (sh_owner new) (sh_owner r),
         sh_model := coalesce (sh_model new) (sh_model r)\<rparr>)"

text \<open>Without a pool, on a failing call and for a silo id that is no UUID: a warning only.\<close>

definition sync_to_postgres :: "string \<Rightarrow> shadow_row \<Rightarrow> unit tx" where
  "sync_to_postgres node_id row = (\<lambda>e w. case shadow w of
       None \<Rightarrow> (Inr (), w)
     | Some tbl \<Rightarrow>
         if fault e (tick w) \<or> \<not> uuid_ok (sh_silo row) then (Inr (), w\<lparr>tick := Suc (tick w)\<rparr>)
         else (Inr (), w\<lparr>shadow := Some (tbl(node_id \<mapsto> upsert_row row (tbl node_id))),
                         tick := Suc (tick w)\<rparr>))"

definition sync_postgres_state :: "string \<Rightarrow> string \<Rightarrow> string \<Rightarrow> unit tx" where
  "sync_postgres_state node_id silo_id state = (\<lambda>e w. case shadow w of
       None \<Rightarrow> (Inr (), w)
     | Some tbl \<Rightarrow>
         if fault e (tick w) \<or> \<not> uuid_ok node_id \<or> \<not> uuid_ok silo_id
         then (Inr (), w\<lparr>tick := Suc (tick w)\<rparr>)
         else (Inr (), w\<lparr>shadow := Some (case tbl node_id of
                  Some r \<Rightarrow> (if sh_silo r = silo_id then tbl(node_id \<mapsto> r\<lparr>sh_state := state\<rparr>) else tbl)
                | None \<Rightarrow> tbl), tick := Suc (tick w)\<rparr>))"

section \<open>Options\<close>

record store_opts =
  so_tags :: "string list"
  so_metadata :: "(string \<times> val) list"
  so_emit :: bool
  so_session_id :: "string option"
  so_owner_id :: "string option"
  so_model_id :: "string option"
  so_embedding :: "real list option"
  so_document_id :: "string option"

definition shadow_of :: "string \<Rightarrow> string \<Rightarrow> string \<Rightarrow> string \<Rightarrow> store_opts \<Rightarrow> shadow_row" where
  "shadow_of silo_id layer content agent_id opts =
     \<lparr>sh_silo = silo_id, sh_layer = layer, sh_content = content, sh_state = state_value ACTIVE,
      sh_agent = Some agent_id, sh_session = so_session_id opts,
      sh_owner = Some (or_else (so_owner_id opts) agent_id), sh_model = so_model_id opts\<rparr>"

text \<open>\<open>if x: props[k] = x\<close>.\<close>

definition set_if :: "bool \<Rightarrow> string \<Rightarrow> val \<Rightarrow> pymap \<Rightarrow> pymap" where
  "set_if b k v m = (if b then m(k \<mapsto> v) else m)"

definition opt_str :: "string option \<Rightarrow> val" where
  "opt_str s = VStr (case s of None \<Rightarrow> [] | Some x \<Rightarrow> x)"

definition set_embedding :: "store_opts \<Rightarrow> pymap \<Rightarrow> pymap" where
  "set_embedding opts m = (case so_embedding opts of None \<Rightarrow> m | Some v \<Rightarrow> m(''embedding'' \<mapsto> VNums v))"

text \<open>The top-level properties of \<open>CREATE (n:Node:Label {...})\<close>.\<close>

definition node_fields :: "string \<Rightarrow> string \<Rightarrow> int \<Rightarrow> pymap" where
  "node_fields label content created_at =
     [''type'' \<mapsto> VStr label, ''content'' \<mapsto> VStr content, ''created_at'' \<mapsto> VTime created_at,
      ''updated_at'' \<mapsto> VTime created_at, ''valid_from'' \<mapsto> VTime created_at,
      ''committed'' \<mapsto> VBool True, ''version'' \<mapsto> VInt 1]"

definition CREATE_LABELLED ::
  "string \<Rightarrow> string \<Rightarrow> string \<Rightarrow> string \<Rightarrow> int \<Rightarrow> pymap \<Rightarrow> graph \<Rightarrow> graph \<times> unit" where
  "CREATE_LABELLED label i silo_id content created_at ps g =
     (add_node [''Node'', label] i (Some silo_id) (node_fields label content created_at) ps g, ())"

section \<open>Memories\<close>

record StoreMemoryResult =
  sm_node_id :: string
  sm_created_at :: int
  sm_layer :: string
  sm_state :: NodeState

definition EXTRACTION_THRESHOLD :: nat where "EXTRACTION_THRESHOLD = 500"

definition CONTENT_TYPE_TO_LABEL :: "string \<rightharpoonup> string" where
  "CONTENT_TYPE_TO_LABEL = [''text'' \<mapsto> ''Memory'', ''utterance'' \<mapsto> ''Memory'',
     ''event'' \<mapsto> ''Memory'', ''observation'' \<mapsto> ''Memory'']"

definition memory_props ::
  "string \<Rightarrow> string \<Rightarrow> string \<Rightarrow> string \<Rightarrow> string option \<Rightarrow> store_opts \<Rightarrow> pymap" where
  "memory_props layer content_type decay_class agent_id memory_type opts =
     (let base = [''layer'' \<mapsto> VStr layer, ''state'' \<mapsto> VStr (state_value ACTIVE),
          ''content_type'' \<mapsto> VStr content_type, ''decay_class'' \<mapsto> VStr decay_class,
          ''created_by'' \<mapsto> VStr agent_id,
          ''embedding_pending'' \<mapsto> VBool (so_embedding opts = None)];
          p1 = set_embedding opts (base ++ map_of (so_metadata opts));
          p2 = set_if (truthy (so_document_id opts)) ''document_id'' (opt_str (so_document_id opts)) p1;
          p3 = set_if (so_tags opts \<noteq> []) ''tags'' (VStrs (so_tags opts)) p2;
          p4 = set_if (truthy memory_type) ''memory_type'' (opt_str memory_type) p3
      in set_if (memory_type = Some ''reflection'') ''decay_class'' (VStr ''permanent'') p4)"

definition MERGE_ABOUT :: "string \<Rightarrow> string \<Rightarrow> string list \<Rightarrow> graph \<Rightarrow> graph \<times> unit" where
  "MERGE_ABOUT source_id silo_id about_ids g =
     (merge_edges ''ABOUT'' [] (match_id g source_id silo_id)
        (concat (map (\<lambda>t. match_id g t silo_id) about_ids)) g, ())"

definition embedding_event :: "string \<Rightarrow> string \<Rightarrow> store_opts \<Rightarrow> ReactionEvent list" where
  "embedding_event node_id silo_id opts =
     (if so_embedding opts = None then [reaction COMPUTE_EMBEDDING node_id silo_id []] else [])"

definition heat_event :: "string \<Rightarrow> string \<Rightarrow> ReactionEvent" where
  "heat_event node_id silo_id =
     reaction UPDATE_HEAT node_id silo_id [(''access_type'', VStr ''WRITE'')]"

definition store_memory ::
  "string \<Rightarrow> string \<Rightarrow> string \<Rightarrow> string \<Rightarrow> string \<Rightarrow> string \<Rightarrow> string option \<Rightarrow> string list \<Rightarrow>
   store_opts \<Rightarrow> (StoreMemoryResult \<times> ReactionEvent list) tx" where
  "store_memory content silo_id agent_id layer content_type decay_class memory_type about opts =
     tbind new_uuid (\<lambda>node_id.
     tbind datetime_now (\<lambda>created_at.
     let label = get_default CONTENT_TYPE_TO_LABEL content_type ''Memory'';
         ps = memory_props layer content_type decay_class agent_id memory_type opts in
     tbind (execute_write (CREATE_LABELLED label node_id silo_id content created_at ps)) (\<lambda>_.
     tbind (twhen (about \<noteq> []) (execute_write (MERGE_ABOUT node_id silo_id about))) (\<lambda>_.
     tbind (sync_to_postgres node_id (shadow_of silo_id layer content agent_id opts)) (\<lambda>_.
     let events = embedding_event node_id silo_id opts @ [heat_event node_id silo_id] @
           (if EXTRACTION_THRESHOLD < length content
            then [reaction CHECK_EXTRACTION_TRIGGER node_id silo_id []] else []) in
     tbind (emit_all (so_emit opts) events) (\<lambda>_.
     ret (\<lparr>sm_node_id = node_id, sm_created_at = created_at, sm_layer = ''memory'',
           sm_state = ACTIVE\<rparr>, events)))))))"

section \<open>Evidence\<close>

record evidence_row =
  ev_id :: string
  ev_silo_id :: "string option"
  ev_layer :: "string option"
  ev_state :: "string option"

definition VALIDATE_EVIDENCE :: "string list \<Rightarrow> string \<Rightarrow> graph \<Rightarrow> evidence_row list" where
  "VALIDATE_EVIDENCE node_ids silo_id g =
     map (\<lambda>n. \<lparr>ev_id = nid n, ev_silo_id = silo n, ev_layer = player n, ev_state = pstate n\<rparr>)
       (concat (map (\<lambda>i. match_id g i silo_id) node_ids))"

text \<open>The error code, or whether a memory-layer node is among the evidence.\<close>

definition validate_evidence_nodes :: "string list \<Rightarrow> string \<Rightarrow> (string + bool) tx" where
  "validate_evidence_nodes node_ids silo_id =
     (if node_ids = [] then ret (Inr False)
      else tbind (execute_query (VALIDATE_EVIDENCE node_ids silo_id)) (\<lambda>results.
        let found_ids = map ev_id results;
            missing = filter (\<lambda>i. i \<notin> set found_ids) node_ids;
            cross_silo = filter (\<lambda>r. ev_silo_id r \<noteq> Some silo_id) results;
            tombstoned = filter (\<lambda>r. ev_state r = Some (state_value TOMBSTONED)) results
        in if missing \<noteq> [] then ret (Inl ''EVIDENCE_NOT_FOUND'')
           else if cross_silo \<noteq> [] then ret (Inl ''CROSS_SILO_VIOLATION'')
           else if tombstoned \<noteq> [] then ret (Inl ''EVIDENCE_TOMBSTONED'')
           else ret (Inr (list_ex (\<lambda>r. ev_layer r = Some ''memory'') results))))"

definition CREATE_DERIVED_FROM :: "string \<Rightarrow> string list \<Rightarrow> string \<Rightarrow> graph \<Rightarrow> graph \<times> unit" where
  "CREATE_DERIVED_FROM claim_id evidence_ids silo_id g =
     (merge_edges ''DERIVED_FROM'' [] (match_id g claim_id silo_id)
        (concat (map (\<lambda>i. match_id g i silo_id) evidence_ids)) g, ())"

definition create_derived_from_edges :: "string \<Rightarrow> string list \<Rightarrow> string \<Rightarrow> unit tx" where
  "create_derived_from_edges claim_id evidence_ids silo_id =
     execute_write (CREATE_DERIVED_FROM claim_id evidence_ids silo_id)"

section \<open>Supersession edges\<close>

definition CREATE_SUPERSEDES ::
  "string \<Rightarrow> string \<Rightarrow> string \<Rightarrow> int \<Rightarrow> string \<Rightarrow> int \<Rightarrow> graph \<Rightarrow> graph \<times> unit" where
  "CREATE_SUPERSEDES winner_id loser_id silo_id valid_to reason created_at g =
     (let ws = match_id g winner_id silo_id; ls = match_id g loser_id silo_id
      in (if ws = [] then g
          else add_edges ''SUPERSEDES'' [''reason'' \<mapsto> VStr reason, ''created_at'' \<mapsto> VTime created_at] ws ls
                 (update_where (is_node loser_id silo_id)
                   (\<lambda>n. set_field ''valid_to'' (Some (VTime valid_to))
                         (set_prop ''state'' (Some (VStr (state_value SUPERSEDED))) n)) g), ()))"

definition create_supersedes_edge ::
  "string \<Rightarrow> string \<Rightarrow> string \<Rightarrow> SupersedeReason \<Rightarrow> unit tx" where
  "create_supersedes_edge winner_id loser_id silo_id reason =
     tbind datetime_now (\<lambda>valid_to. tbind datetime_now (\<lambda>created_at.
     tbind (execute_write (CREATE_SUPERSEDES winner_id loser_id silo_id valid_to
                             (reason_value reason) created_at)) (\<lambda>_.
     sync_postgres_state loser_id silo_id (state_value SUPERSEDED))))"

section \<open>Contradictions\<close>

text \<open>\<open>c.properties.object <> $object\<close> is null, hence false, on a claim without an object.\<close>

definition prop_differs :: "string \<Rightarrow> string \<Rightarrow> node \<Rightarrow> bool" where
  "prop_differs k x n \<longleftrightarrow> (case props n k of None \<Rightarrow> False | Some v \<Rightarrow> v \<noteq> VStr x)"

definition spo_conflict :: "string \<Rightarrow> string \<Rightarrow> string \<Rightarrow> node \<Rightarrow> bool" where
  "spo_conflict subject predicate object_value c \<longleftrightarrow>
     props c ''subject'' = Some (VStr subject) \<and> props c ''predicate'' = Some (VStr predicate) \<and>
     prop_differs ''object'' object_value c \<and> pstate c = Some ''ACTIVE''"

definition FIND_SPO_CONFLICTS :: "string \<Rightarrow> string \<Rightarrow> string \<Rightarrow> string \<Rightarrow> graph \<Rightarrow> string list" where
  "FIND_SPO_CONFLICTS silo_id subject predicate object_value g =
     map nid (filter (spo_conflict subject predicate object_value) (match_label g ''Claim'' silo_id))"

text \<open>\<open>all([subject, predicate, object_value])\<close>: the triple when all three are non-empty.\<close>

definition spo_triple ::
  "string option \<Rightarrow> string option \<Rightarrow> string option \<Rightarrow> (string \<times> string \<times> string) option" where
  "spo_triple s p o' = (if truthy s \<and> truthy p \<and> truthy o' then Some (the s, the p, the o') else None)"

definition check_contradiction_before_write ::
  "string option \<Rightarrow> string option \<Rightarrow> string option \<Rightarrow> string \<Rightarrow> string list tx" where
  "check_contradiction_before_write subject predicate object_value silo_id =
     (case spo_triple subject predicate object_value of
        None \<Rightarrow> ret []
      | Some (s, p, x) \<Rightarrow> execute_query (FIND_SPO_CONFLICTS silo_id s p x))"

definition contradicts_props :: "int \<Rightarrow> (string \<times> val) list" where
  "contradicts_props detected_at = [(''weight'', VNum 1), (''detected_at'', VTime detected_at),
     (''conflict_type'', VStr ''structural'')]"

definition MERGE_CONTRADICTS :: "string \<Rightarrow> string \<Rightarrow> string \<Rightarrow> int \<Rightarrow> graph \<Rightarrow> graph \<times> unit" where
  "MERGE_CONTRADICTS node_a node_b silo_id detected_at g =
     (let as = match_id g node_a silo_id; bs = match_id g node_b silo_id; ps = contradicts_props detected_at
      in (merge_edges ''CONTRADICTS'' ps bs as (merge_edges ''CONTRADICTS'' ps as bs g), ()))"

definition create_bidirectional_contradicts :: "string \<Rightarrow> string \<Rightarrow> string \<Rightarrow> int \<Rightarrow> unit tx" where
  "create_bidirectional_contradicts node_a node_b silo_id detected_at =
     execute_write (MERGE_CONTRADICTS node_a node_b silo_id detected_at)"

definition SET_CONFLICT_STATUS :: "string list \<Rightarrow> string \<Rightarrow> string \<Rightarrow> graph \<Rightarrow> graph \<times> unit" where
  "SET_CONFLICT_STATUS node_ids silo_id status g =
     (update_where (\<lambda>n. silo n = Some silo_id \<and> nid n \<in> set node_ids)
        (set_prop ''conflict_status'' (Some (VStr status))) g, ())"

definition set_conflict_status :: "string \<Rightarrow> string \<Rightarrow> string \<Rightarrow> ConflictStatus \<Rightarrow> unit tx" where
  "set_conflict_status node_a node_b silo_id status =
     execute_write (SET_CONFLICT_STATUS [node_a, node_b] silo_id (conflict_value status))"

definition FIND_OTHER_SPO_CONFLICTS ::
  "string \<Rightarrow> string \<Rightarrow> string \<Rightarrow> string \<Rightarrow> string \<Rightarrow> graph \<Rightarrow> string list" where
  "FIND_OTHER_SPO_CONFLICTS silo_id subject predicate object_value new_node_id g =
     map nid (filter (\<lambda>c. spo_conflict subject predicate object_value c \<and> nid c \<noteq> new_node_id)
       (match_label g ''Claim'' silo_id))"

definition conflict_event :: "string \<Rightarrow> string \<Rightarrow> string \<Rightarrow> int \<Rightarrow> ReactionEvent" where
  "conflict_event new_node_id existing_id silo_id detected_at =
     reaction CONFLICT_DETECTED new_node_id silo_id
       [(''node_a'', VStr new_node_id), (''node_b'', VStr existing_id),
        (''conflict_type'', VStr ''structural''), (''detected_at'', VTime detected_at)]"

definition detect_spo_conflict ::
  "string \<Rightarrow> string option \<Rightarrow> string option \<Rightarrow> string option \<Rightarrow> string \<Rightarrow> ReactionEvent list tx" where
  "detect_spo_conflict new_node_id subject predicate object_value silo_id =
     (case spo_triple subject predicate object_value of
        None \<Rightarrow> ret []
      | Some (s, p, x) \<Rightarrow>
          tbind (execute_query (FIND_OTHER_SPO_CONFLICTS silo_id s p x new_node_id)) (\<lambda>conflicts.
          if conflicts = [] then ret []
          else tbind datetime_now (\<lambda>detected_at.
            tfor conflicts (\<lambda>existing_id.
              tbind (create_bidirectional_contradicts new_node_id existing_id silo_id detected_at) (\<lambda>_.
              tbind (set_conflict_status new_node_id existing_id silo_id UNRESOLVED) (\<lambda>_.
              ret (conflict_event new_node_id existing_id silo_id detected_at)))))))"

text \<open>
  The neighbourhood check of the wisdom layer: \<open>MATCH (a)-[:CONTRADICTS]-(c)\<close> in either
  direction, \<open>RETURN DISTINCT c.id, c.content\<close> (rows with one id and two contents stay two).
\<close>

definition contradicting :: "graph \<Rightarrow> node \<Rightarrow> node list" where
  "contradicting g a = out_nodes g ''CONTRADICTS'' a @ in_nodes g [''CONTRADICTS''] a"

definition FIND_NCB_CONFLICTS :: "string list \<Rightarrow> string \<Rightarrow> graph \<Rightarrow> (string \<times> val option) list" where
  "FIND_NCB_CONFLICTS about_ids silo_id g =
     remdups (map (\<lambda>c. (nid c, props c ''content''))
       (filter (\<lambda>c. pstate c = Some ''ACTIVE'')
         (concat (map (contradicting g) (concat (map (\<lambda>i. match_id g i silo_id) about_ids))))))"

definition check_ncb_before_write :: "string list \<Rightarrow> string \<Rightarrow> string list tx" where
  "check_ncb_before_write about_ids silo_id =
     (if about_ids = [] then ret []
      else tbind (execute_query (FIND_NCB_CONFLICTS about_ids silo_id)) (\<lambda>conflicts. ret (map fst conflicts)))"

section \<open>Corroboration\<close>

abbreviation evidence_of :: "node \<Rightarrow> string list" where
  "evidence_of n \<equiv> strs_of (props n ''evidence'')"

text \<open>
  The exact check: the distinct evidence of all active claims with the same triple (of the claim
  alone when there is none).  \<open>UNWIND\<close> of an empty or missing list yields no row, so a claim
  without evidence has no result row.
\<close>

definition COUNT_CORROBORATION :: "string \<Rightarrow> string \<Rightarrow> graph \<Rightarrow> nat list" where
  "COUNT_CORROBORATION node_id silo_id g =
     concat (map (\<lambda>new.
         let claims = filter (\<lambda>c. same_spo c new \<and> pstate c = Some ''ACTIVE'') (match_label g ''Claim'' silo_id);
             evs = remdups (concat (map evidence_of (if claims = [] then [new] else claims)))
         in if evs = [] then [] else [length evs])
       (match_label_id g ''Claim'' node_id silo_id))"

definition check_corroboration :: "string \<Rightarrow> string \<Rightarrow> nat \<Rightarrow> (nat \<times> bool) tx" where
  "check_corroboration node_id silo_id threshold =
     tbind (execute_query (COUNT_CORROBORATION node_id silo_id)) (\<lambda>results. case results of
         [] \<Rightarrow> ret (1, False)
       | n # _ \<Rightarrow> ret (n, threshold \<le> n))"

definition vec_norm :: "real list \<Rightarrow> real" where
  "vec_norm v = sqrt (sum_list (map (\<lambda>x. x * x) v))"

definition normalize :: "real list \<Rightarrow> real list" where
  "normalize v = (if 0 < vec_norm v then map (\<lambda>x. x / vec_norm v) v else v)"

definition vec_dot :: "real list \<Rightarrow> real list \<Rightarrow> real" where
  "vec_dot u v = sum_list (map2 (*) u v)"

text \<open>\<open>np.dot\<close> raises \<open>ValueError\<close> on vectors of different lengths.\<close>

definition similarity :: "real list \<Rightarrow> real list \<Rightarrow> real tx" where
  "similarity u v = (if length u = length v then ret (vec_dot u v) else raise ValueError)"

text \<open>
  The similarity loop, shared by the two semantic checks: the evidence of every candidate whose
  similarity reaches the threshold joins the set.
\<close>

fun collect_similar ::
  "real \<Rightarrow> real list \<Rightarrow> (string list \<times> real list) list \<Rightarrow> string list \<Rightarrow> string list tx" where
  "collect_similar threshold vec [] evidence = ret evidence"
| "collect_similar threshold vec ((cand_evidence, emb) # cands) evidence =
     tbind (similarity vec (normalize emb)) (\<lambda>sim.
       collect_similar threshold vec cands (if threshold \<le> sim then evidence @ cand_evidence else evidence))"

record spo_row =
  sp_id :: string
  sp_subject :: "string option"
  sp_predicate :: "string option"
  sp_object :: "string option"
  sp_content :: "string option"
  sp_evidence :: "string list"

definition spo_row_of :: "node \<Rightarrow> spo_row" where
  "spo_row_of c = \<lparr>sp_id = nid c, sp_subject = str_of (props c ''subject''),
     sp_predicate = str_of (props c ''predicate''), sp_object = str_of (props c ''object''),
     sp_content = str_of (attrs c ''content''), sp_evidence = evidence_of c\<rparr>"

definition has_spo :: "node \<Rightarrow> bool" where
  "has_spo c \<longleftrightarrow> props c ''subject'' \<noteq> None \<and> props c ''predicate'' \<noteq> None \<and> props c ''object'' \<noteq> None"

definition GET_CLAIM_SPO :: "string \<Rightarrow> string \<Rightarrow> graph \<Rightarrow> spo_row list" where
  "GET_CLAIM_SPO node_id silo_id g = map spo_row_of (match_label_id g ''Claim'' node_id silo_id)"

definition GET_SPO_CANDIDATES :: "bool \<Rightarrow> string \<Rightarrow> graph \<Rightarrow> spo_row list" where
  "GET_SPO_CANDIDATES spo silo_id g =
     map spo_row_of (filter (\<lambda>c. pstate c = Some ''ACTIVE'' \<and> has_spo c = spo)
       (match_label g ''Claim'' silo_id))"

text \<open>\<open>f"{s} {p} {o}"\<close>, where a missing part prints as \<open>None\<close>.\<close>

definition spo_text :: "spo_row \<Rightarrow> string" where
  "spo_text r = (let show = (\<lambda>x. case x of None \<Rightarrow> ''None'' | Some t \<Rightarrow> t)
     in show (sp_subject r) @ '' '' @ show (sp_predicate r) @ '' '' @ show (sp_object r))"

definition check_freeform_corroboration :: "string \<Rightarrow> string \<Rightarrow> nat \<Rightarrow> (nat \<times> bool) tx" where
  "check_freeform_corroboration node_id silo_id threshold =
     tbind (execute_query (GET_CLAIM_SPO node_id silo_id)) (\<lambda>rows. case rows of
       [] \<Rightarrow> ret (1, False)
     | claim # _ \<Rightarrow>
       let own = length (sp_evidence claim) in
       if \<not> truthy (sp_content claim) then ret (own, threshold \<le> own)
       else tbind (embed_all [the (sp_content claim)]) (\<lambda>content_embedding.
            tbind (execute_query (GET_SPO_CANDIDATES False silo_id)) (\<lambda>candidates.
            if candidates = [] then ret (own, threshold \<le> own)
            else tbind (embed_all (map (\<lambda>c. case sp_content c of None \<Rightarrow> [] | Some t \<Rightarrow> t) candidates))
              (\<lambda>candidate_embeddings.
              tbind (collect_similar CONTENT_SIMILARITY_THRESHOLD (normalize (hd content_embedding))
                  (map (\<lambda>(c, emb). (sp_evidence c, emb))
                    (filter (\<lambda>(c, emb). sp_id c \<noteq> node_id) (zip candidates candidate_embeddings)))
                  (sp_evidence claim)) (\<lambda>evidence_set.
              let corroboration_count = length (remdups evidence_set)
              in ret (corroboration_count, threshold \<le> corroboration_count))))))"

definition check_semantic_corroboration :: "string \<Rightarrow> string \<Rightarrow> nat \<Rightarrow> real \<Rightarrow> (nat \<times> bool) tx" where
  "check_semantic_corroboration node_id silo_id threshold similarity_threshold =
     tbind (execute_query (GET_CLAIM_SPO node_id silo_id)) (\<lambda>rows. case rows of
       [] \<Rightarrow> ret (1, False)
     | new_claim # _ \<Rightarrow>
       if \<not> (truthy (sp_subject new_claim) \<and> truthy (sp_predicate new_claim) \<and> truthy (sp_object new_claim))
       then check_freeform_corroboration node_id silo_id threshold
       else tbind (embed_all [spo_text new_claim]) (\<lambda>new_embedding.
            tbind (execute_query (GET_SPO_CANDIDATES True silo_id)) (\<lambda>candidates.
            if candidates = [] then
              ret (length (sp_evidence new_claim), threshold \<le> length (sp_evidence new_claim))
            else tbind (embed_all (map spo_text candidates)) (\<lambda>candidate_embeddings.
              tbind (collect_similar similarity_threshold (normalize (hd new_embedding))
                  (map (\<lambda>(c, emb). (sp_evidence c, emb)) (zip candidates candidate_embeddings)) [])
                (\<lambda>evidence_set.
              let corroboration_count = length (remdups evidence_set)
              in ret (corroboration_count, threshold \<le> corroboration_count))))))"

definition check_corroboration_of :: "string \<Rightarrow> string \<Rightarrow> bool \<Rightarrow> (nat \<times> bool) tx" where
  "check_corroboration_of node_id silo_id embedding_service =
     (if embedding_service
      then check_semantic_corroboration node_id silo_id PROMOTION_THRESHOLD SPO_SIMILARITY_THRESHOLD
      else check_corroboration node_id silo_id PROMOTION_THRESHOLD)"

section \<open>Claims\<close>

record claim_args =
  ca_subject :: "string option"
  ca_predicate :: "string option"
  ca_object :: "string option"
  ca_source_tier :: "string option"
  ca_confidence :: real
  ca_supersedes :: "string option"
  ca_embedding_service :: bool
  ca_skip_sage_triggers :: bool

record StoreClaimResult =
  sc_node_id :: string
  sc_created_at :: int
  sc_superseded_id :: "string option"
  sc_corroboration_count :: nat

definition node_prefix :: string where "node_prefix = ''node:''"

text \<open>\<open>[ref[5:] for ref in evidence_refs if ref.startswith("node:")]\<close>.\<close>

definition evidence_nodes :: "string list \<Rightarrow> string list" where
  "evidence_nodes refs = map (drop 5) (filter (\<lambda>r. take 5 r = node_prefix) refs)"

definition store_claim_checks :: "string list \<Rightarrow> string \<Rightarrow> claim_args \<Rightarrow> unit tx" where
  "store_claim_checks evidence_refs silo_id args =
     (if evidence_refs = [] then raise (InvariantViolation ''NO_EVIDENCE'')
      else
        tbind (if evidence_nodes evidence_refs = [] then ret ()
               else tbind (validate_evidence_nodes (evidence_nodes evidence_refs) silo_id) (\<lambda>v. case v of
                   Inl code \<Rightarrow> raise (InvariantViolation code)
                 | Inr has_memory_layer \<Rightarrow>
                     if has_memory_layer then ret () else raise (InvariantViolation ''NO_MEMORY_EVIDENCE'')))
          (\<lambda>_. tbind (asks contradiction_enforcement_enabled) (\<lambda>enforce.
          if enforce then
            tbind (check_contradiction_before_write (ca_subject args) (ca_predicate args) (ca_object args) silo_id)
              (\<lambda>conflicting_ids.
               if conflicting_ids = [] then ret () else raise (ContradictionRejected conflicting_ids))
          else ret ())))"

definition credibility_factors :: "CredibilityBreakdown \<Rightarrow> val" where
  "credibility_factors b = VDict [(''source_tier'', VStr (cb_source_tier b)),
     (''source_tier_weight'', VNum (cb_source_tier_weight b)),
     (''corroboration_count'', VInt (cb_corroboration_count b)),
     (''corroboration_factor'', VNum (cb_corroboration_factor b)), (''method'', VStr (cb_method b)),
     (''method_weight'', VNum (cb_method_weight b)), (''raw_confidence'', VNum (cb_raw_confidence b)),
     (''credibility'', VNum (cb_credibility b))]"

definition claim_props :: "string list \<Rightarrow> string \<Rightarrow> claim_args \<Rightarrow> store_opts \<Rightarrow> pymap" where
  "claim_props evidence_refs agent_id args opts =
     (let b = compute_credibility (ca_source_tier args) None (ca_confidence args) 1;
          base = [''layer'' \<mapsto> VStr ''knowledge'', ''state'' \<mapsto> VStr (state_value ACTIVE),
            ''claim_status'' \<mapsto> VStr ''UNPROMOTED'', ''confidence'' \<mapsto> VNum (ca_confidence args),
            ''credibility'' \<mapsto> VNum (cb_credibility b),
            ''credibility_factors'' \<mapsto> credibility_factors b,
            ''source_tier'' \<mapsto> VStr (or_else (ca_source_tier args) ''unknown''),
            ''created_by'' \<mapsto> VStr agent_id, ''evidence'' \<mapsto> VStrs evidence_refs,
            ''embedding_pending'' \<mapsto> VBool (so_embedding opts = None)];
          p1 = set_embedding opts (base ++ map_of (so_metadata opts));
          p2 = set_if (truthy (so_document_id opts)) ''document_id'' (opt_str (so_document_id opts)) p1;
          p3 = set_if (ca_skip_sage_triggers args) ''sage_pending'' (VBool True) p2;
          p4 = set_if (so_tags opts \<noteq> []) ''tags'' (VStrs (so_tags opts)) p3
      in case spo_triple (ca_subject args) (ca_predicate args) (ca_object args) of
           None \<Rightarrow> p4
         | Some (s, p, x) \<Rightarrow> p4(''subject'' \<mapsto> VStr s, ''predicate'' \<mapsto> VStr p, ''object'' \<mapsto> VStr x))"

definition supersede_older :: "string \<Rightarrow> string option \<Rightarrow> string \<Rightarrow> string option tx" where
  "supersede_older node_id supersedes silo_id =
     (if truthy supersedes then
        tbind (create_supersedes_edge node_id (the supersedes) silo_id AUTHOR_UPDATE) (\<lambda>_.
        tbind (parse_uuid (the supersedes)) (\<lambda>u. ret (Some u)))
      else ret None)"

definition claim_events ::
  "string \<Rightarrow> string \<Rightarrow> string option \<Rightarrow> store_opts \<Rightarrow> ReactionEvent list \<Rightarrow> ReactionEvent list" where
  "claim_events node_id silo_id supersedes opts conflict_events =
     embedding_event node_id silo_id opts @ [heat_event node_id silo_id] @
     (if truthy supersedes
      then [reaction CASCADE_STALENESS (the supersedes) silo_id [(''depth'', VInt 1)]] else []) @
     conflict_events"

definition store_claim ::
  "string \<Rightarrow> string list \<Rightarrow> string \<Rightarrow> string \<Rightarrow> claim_args \<Rightarrow> store_opts \<Rightarrow>
   (StoreClaimResult \<times> ReactionEvent list) tx" where
  "store_claim content evidence_refs silo_id agent_id args opts =
     tbind (store_claim_checks evidence_refs silo_id args) (\<lambda>_.
     tbind new_uuid (\<lambda>node_id.
     tbind datetime_now (\<lambda>created_at.
     tbind (execute_write (CREATE_LABELLED ''Claim'' node_id silo_id content created_at
              (claim_props evidence_refs agent_id args opts))) (\<lambda>_.
     tbind (twhen (evidence_nodes evidence_refs \<noteq> [])
              (create_derived_from_edges node_id (evidence_nodes evidence_refs) silo_id)) (\<lambda>_.
     tbind (supersede_older node_id (ca_supersedes args) silo_id) (\<lambda>superseded_id.
     tbind (if ca_skip_sage_triggers args then ret 0
            else tbind (check_corroboration_of node_id silo_id (ca_embedding_service args))
                   (\<lambda>(n, _). ret n)) (\<lambda>corroboration_count.
     tbind (detect_spo_conflict node_id (ca_subject args) (ca_predicate args) (ca_object args) silo_id)
       (\<lambda>conflict_events.
     tbind (sync_to_postgres node_id (shadow_of silo_id ''knowledge'' content agent_id opts)) (\<lambda>_.
     let events = claim_events node_id silo_id (ca_supersedes args) opts conflict_events in
     tbind (emit_all (so_emit opts) events) (\<lambda>_.
     ret (\<lparr>sc_node_id = node_id, sc_created_at = created_at, sc_superseded_id = superseded_id,
           sc_corroboration_count = corroboration_count\<rparr>, events)))))))))))"

section \<open>The transactions stay within their silo\<close>

lemma eff_create [effect_intros]:
  "geffect (gsteps s) (execute_write (CREATE_LABELLED l i s c t ps))"
  by (rule in_silo.eff_write) (simp add: CREATE_LABELLED_def gsteps_create)

lemma eff_merge_about [effect_intros]: "geffect (gsteps s) (execute_write (MERGE_ABOUT i s ts))"
  by (rule in_silo.eff_write)
    (simp add: MERGE_ABOUT_def gsteps_merge_edges match_id_silo_vids concat_match_silo_vids
      del: set_concat)

lemma eff_derived_from [effect_intros]: "geffect (gsteps s) (create_derived_from_edges i ts s)"
  unfolding create_derived_from_edges_def
  by (rule in_silo.eff_write)
    (simp add: CREATE_DERIVED_FROM_def gsteps_merge_edges match_id_silo_vids concat_match_silo_vids
      del: set_concat)

lemma sync_graph: "geffect (=) (sync_to_postgres i row)" "geffect (=) (sync_postgres_state i s st)"
  by (auto simp: geffect_def sync_to_postgres_def sync_postgres_state_def split: option.split)

lemmas eff_sync [effect_intros] = sync_graph [THEN in_silo_unchanged]

lemma gsteps_supersedes: "gsteps s g (fst (CREATE_SUPERSEDES a b s t r t' g))"
proof -
  let ?f = "\<lambda>n. set_field ''valid_to'' (Some (VTime t)) (set_prop ''state'' (Some (VStr (state_value SUPERSEDED))) n)"
  let ?h = "update_where (is_node b s) ?f g"
  have k: "identity_kept ?f" by (auto simp: identity_kept_def has_label_def)
  have "gsteps s g ?h" by (rule gsteps_update [OF is_node_silo k])
  moreover have "gsteps s ?h (add_edges ''SUPERSEDES'' ps (match_id g a s) (match_id g b s) ?h)" for ps
    by (rule gsteps_add_edges; subst silo_vids_update [OF k]; rule match_id_silo_vids)
  ultimately show ?thesis by (auto simp: CREATE_SUPERSEDES_def Let_def intro: rtranclp_trans)
qed

lemma eff_create_supersedes [effect_intros]: "geffect (gsteps s) (create_supersedes_edge a b s r)"
  by (auto simp: create_supersedes_edge_def intro!: effect_intros in_silo.eff_write gsteps_supersedes)

lemma gsteps_contradicts: "gsteps s g (fst (MERGE_CONTRADICTS a b s t g))"
  unfolding MERGE_CONTRADICTS_def Let_def fst_conv
  by (rule rtranclp_trans; rule gsteps_merge_edges; simp add: match_id_silo_vids graph_simps)

lemma eff_detect_spo_conflict [effect_intros]: "geffect (gsteps s) (detect_spo_conflict i x y z s)"
  by (auto simp: detect_spo_conflict_def create_bidirectional_contradicts_def set_conflict_status_def
      SET_CONFLICT_STATUS_def intro!: effect_intros in_silo.eff_write gsteps_contradicts gsteps_update)

lemma collect_similar_graph: "geffect (=) (collect_similar th v cands evs)"
proof (induction cands arbitrary: evs)
  case (Cons c cands)
  then show ?case by (cases c) (auto simp: similarity_def intro!: effect_intros)
qed (auto intro!: effect_intros)

lemma corroboration_graph:
  "geffect (=) (check_corroboration i s th)" "geffect (=) (check_freeform_corroboration i s th)"
  "geffect (=) (check_semantic_corroboration i s th sim)" "geffect (=) (check_corroboration_of i s b)"
  by (auto simp: check_corroboration_def check_freeform_corroboration_def
      check_semantic_corroboration_def check_corroboration_of_def Let_def
      intro!: effect_intros collect_similar_graph)

lemma store_claim_checks_graph: "geffect (=) (store_claim_checks refs s args)"
  by (auto simp: store_claim_checks_def validate_evidence_nodes_def check_contradiction_before_write_def
      Let_def intro!: effect_intros)

lemma ncb_graph: "geffect (=) (check_ncb_before_write is s)"
  by (auto simp: check_ncb_before_write_def intro!: effect_intros)

lemmas eff_store_reads [effect_intros] = corroboration_graph [THEN in_silo_unchanged]
  store_claim_checks_graph [THEN in_silo_unchanged] ncb_graph [THEN in_silo_unchanged]

lemma eff_store_memory [effect_intros]:
  "geffect (gsteps s) (store_memory c s a l ct d m ab opts)"
  by (auto simp: store_memory_def Let_def intro!: effect_intros)

lemma eff_store_claim [effect_intros]: "geffect (gsteps s) (store_claim c refs s a args opts)"
  by (auto simp: store_claim_def supersede_older_def Let_def intro!: effect_intros)

text \<open>The shadow table takes no part in what the graph looks like, and its calls never raise.\<close>

lemma wp_sync:
  assumes "\<And>v. gr v = gr w \<Longrightarrow> emitted v = emitted w \<Longrightarrow> Q () v"
  shows "wp e (sync_to_postgres i row) E Q w" "wp e (sync_postgres_state i s st) E Q w"
  by (auto simp: wp_def sync_to_postgres_def sync_postgres_state_def assms split: option.splits)

end
