(* ===== verification/Propagation.thy ===== *)
theory Propagation
  imports Prelude
begin

text \<open>
  \<open>sage/epistemology.py\<close>: confidence propagation over support and contradiction edges (full and
  incremental), the neighbourhood search, the corroboration weight, personalised PageRank, and
  the PageRank cache with its time to live.  A NumPy vector is a \<open>real list\<close> and a matrix the
  list of its rows; \<open>np.max\<close> of an empty array raises, which is \<open>None\<close> here.
\<close>

section \<open>Vectors and matrices\<close>

type_synonym vec = "real list"
type_synonym mat = "real list list"

definition dot :: "vec \<Rightarrow> vec \<Rightarrow> real" where
  "dot u v = sum_list (map2 (*) u v)"

definition zeros :: "nat \<Rightarrow> mat" where
  "zeros n = replicate n (replicate n 0)"

definition set_entry :: "mat \<Rightarrow> nat \<Rightarrow> nat \<Rightarrow> real \<Rightarrow> mat" where
  "set_entry m i j w = m[i := (m ! i)[j := w]]"

definition row_normalize :: "mat \<Rightarrow> mat" where
  "row_normalize m = map (\<lambda>r. let s = sum_list r; d = (if s = 0 then 1 else s)
                                in map (\<lambda>x. x / d) r) m"

section \<open>Adjacency\<close>

text \<open>\<open>{nid: i for i, nid in enumerate(node_ids)}\<close>: the last index of a repeated id.\<close>

definition id_to_idx :: "string list \<Rightarrow> string \<rightharpoonup> nat" where
  "id_to_idx ids = map_of (rev (zip ids [0..<length ids]))"

type_synonym wedge = "string \<times> string \<times> real"

definition put_edge :: "(string \<rightharpoonup> nat) \<Rightarrow> wedge \<Rightarrow> mat \<Rightarrow> mat" where
  "put_edge idx e m = (case e of (s, t, w) \<Rightarrow> (case (idx s, idx t) of
       (Some j, Some i) \<Rightarrow> set_entry m i j w
     | _ \<Rightarrow> m))"

definition build_adjacency_matrices ::
  "string list \<Rightarrow> wedge list \<Rightarrow> wedge list \<Rightarrow> mat \<times> mat" where
  "build_adjacency_matrices node_ids support_edges contradiction_edges =
     (let idx = id_to_idx node_ids; n = length node_ids
      in (row_normalize (fold (put_edge idx) support_edges (zeros n)),
          row_normalize (fold (put_edge idx) contradiction_edges (zeros n))))"

section \<open>Propagation\<close>

definition mat_diff :: "real \<Rightarrow> mat \<Rightarrow> mat \<Rightarrow> mat" where
  "mat_diff eta S C = map2 (map2 (\<lambda>s c. s - eta * c)) S C"

definition propagate_step :: "vec \<Rightarrow> mat \<Rightarrow> mat \<Rightarrow> real \<Rightarrow> real \<Rightarrow> vec \<Rightarrow> vec" where
  "propagate_step prior S C alpha eta x =
     map (\<lambda>i. if 0 < sum_list (S ! i) + sum_list (C ! i)
              then clamp01 ((1 - alpha) * prior ! i + alpha * dot (mat_diff eta S C ! i) x)
              else prior ! i)
       [0..<length prior]"

definition close_to :: "real \<Rightarrow> vec \<Rightarrow> vec \<Rightarrow> bool" where
  "close_to epsilon x y \<longleftrightarrow> list_all (\<lambda>(a, b). \<bar>a - b\<bar> < epsilon) (zip x y)"

fun propagate_loop :: "(vec \<Rightarrow> vec) \<Rightarrow> real \<Rightarrow> nat \<Rightarrow> nat \<Rightarrow> vec \<Rightarrow> vec \<times> nat \<times> bool" where
  "propagate_loop step epsilon 0 iteration x = (x, iteration, False)"
| "propagate_loop step epsilon (Suc k) iteration x =
     (let x_new = step x
      in if close_to epsilon x_new x then (x_new, Suc iteration, True)
         else propagate_loop step epsilon k (Suc iteration) x_new)"

definition propagate_confidence ::
  "vec \<Rightarrow> mat \<Rightarrow> mat \<Rightarrow> real \<Rightarrow> real \<Rightarrow> nat \<Rightarrow> real \<Rightarrow> (vec \<times> nat \<times> bool) option" where
  "propagate_confidence prior S C alpha eta max_iter epsilon =
     (if prior = [] \<and> 0 < max_iter then None
      else Some (propagate_loop (propagate_step prior S C alpha eta) epsilon max_iter 0 prior))"

section \<open>Neighbourhoods\<close>

definition neighbours_of :: "wedge list \<Rightarrow> string \<Rightarrow> string list" where
  "neighbours_of es x =
     concat (map (\<lambda>(s, t, w). if s = x then [t] else if t = x then [s] else []) es)"

fun neighborhood_loop ::
  "wedge list \<Rightarrow> wedge list \<Rightarrow> nat \<Rightarrow> string list \<Rightarrow> string list \<Rightarrow> string list" where
  "neighborhood_loop pos neg 0 neighbors frontier = frontier @ neighbors"
| "neighborhood_loop pos neg (Suc d) neighbors frontier =
     (let next_frontier = concat (map (\<lambda>x. neighbours_of pos x @ neighbours_of neg x) frontier);
          neighbors' = frontier @ neighbors
      in neighborhood_loop pos neg d neighbors'
           (filter (\<lambda>x. x \<notin> set neighbors') (remdups next_frontier)))"

definition get_neighborhood :: "string \<Rightarrow> wedge list \<Rightarrow> wedge list \<Rightarrow> nat \<Rightarrow> string list" where
  "get_neighborhood node_id pos neg depth = neighborhood_loop pos neg depth [] [node_id]"

definition propagate_incremental ::
  "string \<Rightarrow> string list \<Rightarrow> (string \<rightharpoonup> real) \<Rightarrow> wedge list \<Rightarrow> wedge list \<Rightarrow> nat \<Rightarrow> real \<Rightarrow> real \<Rightarrow>
   (string \<times> real) list option" where
  "propagate_incremental target_id node_ids cred pos neg depth alpha eta =
     (let neighbors = target_id # get_neighborhood target_id pos neg depth;
          relevant_ids = filter (\<lambda>x. x \<in> set neighbors) node_ids
      in if relevant_ids = [] then Some [(target_id, get_default cred target_id (1 / 2))]
         else let inside = filter (\<lambda>(s, t, w). s \<in> set neighbors \<and> t \<in> set neighbors);
                  (S, C) = build_adjacency_matrices relevant_ids (inside pos) (inside neg);
                  prior = map (\<lambda>x. get_default cred x (1 / 2)) relevant_ids
              in case propagate_confidence prior S C alpha eta 20 (1 / 1000000) of
                   None \<Rightarrow> None
                 | Some (conf, _, _) \<Rightarrow> Some (dict_of (zip relevant_ids conf)))"

section \<open>Corroboration weight\<close>

definition source_weight :: "'a list \<Rightarrow> real" where
  "source_weight claims = (if 0 < length claims then 1 + (1 / 2) * (sqrt (real (length claims)) - 1) else 0)"

definition compute_corroboration_weight :: "(string \<times> string list) list \<Rightarrow> real" where
  "compute_corroboration_weight source_claims =
     (if source_claims = [] then 0
      else 1 - exp (- (1 / 2) * sum_list (map (source_weight \<circ> snd) source_claims)))"

section \<open>Personalised PageRank\<close>

definition column_sum :: "mat \<Rightarrow> nat \<Rightarrow> real" where
  "column_sum m j = sum_list (map (\<lambda>r. r ! j) m)"

definition column_normalize :: "mat \<Rightarrow> mat" where
  "column_normalize m = map (\<lambda>r. map (\<lambda>j. r ! j / (if column_sum m j \<le> 0 then 1 else column_sum m j))
      [0..<length r]) m"

definition teleport_vector :: "string list \<Rightarrow> string list \<Rightarrow> vec" where
  "teleport_vector node_ids query_node_ids =
     (let n = length node_ids; idx = id_to_idx node_ids;
          seeds = filter (\<lambda>q. idx q \<noteq> None) query_node_ids;
          ones = fold (\<lambda>q t. t[the (idx q) := 1]) seeds (replicate n 0)
      in if seeds = [] then replicate n (1 / real n)
         else map (\<lambda>x. x / real (length seeds)) ones)"

definition ppr_step :: "vec \<Rightarrow> mat \<Rightarrow> real \<Rightarrow> vec \<Rightarrow> vec" where
  "ppr_step teleport m alpha scores =
     map (\<lambda>i. (1 - alpha) * teleport ! i + alpha * dot (m ! i) scores) [0..<length teleport]"

text \<open>The loop breaks before it stores the new scores: the previous vector is returned.\<close>

fun ppr_loop :: "(vec \<Rightarrow> vec) \<Rightarrow> real \<Rightarrow> nat \<Rightarrow> vec \<Rightarrow> vec" where
  "ppr_loop step epsilon 0 scores = scores"
| "ppr_loop step epsilon (Suc k) scores =
     (let scores_new = step scores
      in if close_to epsilon scores_new scores then scores else ppr_loop step epsilon k scores_new)"

definition personalized_pagerank ::
  "string list \<Rightarrow> mat \<Rightarrow> string list \<Rightarrow> real \<Rightarrow> nat \<Rightarrow> real \<Rightarrow> (string \<times> real) list" where
  "personalized_pagerank node_ids adjacency query_node_ids alpha max_iter epsilon =
     (if node_ids = [] then []
      else let t = teleport_vector node_ids query_node_ids; m = column_normalize adjacency
           in dict_of (zip node_ids (ppr_loop (ppr_step t m alpha) epsilon max_iter t)))"

end
