(* ===== verification/TxLink.thy ===== *)
theory TxLink
  imports TxStore Propagation
begin

text \<open>
  The edges of \<open>sage/transactions.py\<close>: \<open>supersede\<close> (TX3) and \<open>link\<close> (TX17) with their
  validation, the cycle checks (INV4) and the incremental confidence propagation that follows a
  \<open>SUPPORTS\<close> or \<open>CONTRADICTS\<close> edge.
\<close>

section \<open>Cycle checks\<close>

text \<open>
  The check of \<open>_would_create_cycle\<close> follows paths of any length; \<open>CHECK_CYCLE_PATH\<close>, which the
  public \<open>would_create_cycle\<close> uses, follows at most ten edges.
\<close>

definition WOULD_CYCLE :: "string \<Rightarrow> string \<Rightarrow> string \<Rightarrow> string \<Rightarrow> graph \<Rightarrow> bool" where
  "WOULD_CYCLE source_id target_id etyp silo_id g =
     path_exists g etyp (match_id g target_id silo_id) (match_id g source_id silo_id)"

definition would_create_cycle_any :: "string \<Rightarrow> string \<Rightarrow> string \<Rightarrow> string \<Rightarrow> bool tx" where
  "would_create_cycle_any source_id target_id etyp silo_id =
     execute_query (WOULD_CYCLE source_id target_id etyp silo_id)"

definition CHECK_CYCLE_PATH :: "string \<Rightarrow> string \<Rightarrow> string \<Rightarrow> graph \<Rightarrow> bool" where
  "CHECK_CYCLE_PATH source_id target_id silo_id g =
     reach_within 10 (type_edges g ''SUPERSEDES'') (map vid (match_id g source_id silo_id))
       (map vid (match_id g target_id silo_id))"

definition would_create_cycle :: "string \<Rightarrow> string \<Rightarrow> string \<Rightarrow> string \<Rightarrow> bool tx" where
  "would_create_cycle source_id target_id silo_id etyp =
     (if etyp \<noteq> ''SUPERSEDES'' then ret False
      else execute_query (CHECK_CYCLE_PATH target_id source_id silo_id))"

section \<open>Supersession\<close>

record pair_row =
  pa_source_silo :: "string option"
  pa_target_silo :: "string option"
  pa_source_state :: "string option"
  pa_target_state :: "string option"

definition GET_PAIR :: "string \<Rightarrow> string \<Rightarrow> string \<Rightarrow> graph \<Rightarrow> pair_row list" where
  "GET_PAIR source_id target_id silo_id g =
     map (\<lambda>(a, b). \<lparr>pa_source_silo = silo a, pa_target_silo = silo b,
                     pa_source_state = pstate a, pa_target_state = pstate b\<rparr>)
       (List.product (match_id g source_id silo_id) (match_id g target_id silo_id))"

definition show_silo :: "string option \<Rightarrow> string" where
  "show_silo s = (case s of None \<Rightarrow> [] | Some x \<Rightarrow> x)"

definition validate_supersession :: "string \<Rightarrow> string \<Rightarrow> string \<Rightarrow> exn option tx" where
  "validate_supersession winner_id loser_id silo_id =
     tbind (execute_query (GET_PAIR winner_id loser_id silo_id)) (\<lambda>results. case results of
         [] \<Rightarrow> ret (Some (BrainError ''NODE_NOT_FOUND''))
       | row # _ \<Rightarrow>
         if pa_source_silo row \<noteq> Some silo_id \<or> pa_target_silo row \<noteq> Some silo_id then
           ret (Some (CrossSiloViolation (show_silo (pa_source_silo row)) (show_silo (pa_target_silo row))))
         else if pa_source_state row \<noteq> Some ''ACTIVE'' then ret (Some (BrainError ''WINNER_NOT_ACTIVE''))
         else if pa_target_state row \<noteq> Some ''ACTIVE'' then ret (Some (BrainError ''LOSER_NOT_ACTIVE''))
         else tbind (would_create_cycle_any winner_id loser_id ''SUPERSEDES'' silo_id) (\<lambda>cycle.
           ret (if cycle then Some (CycleError ''SUPERSEDES'' winner_id loser_id) else None)))"

record SupersedeResult =
  ss_edge_id :: string
  ss_winner_id :: string
  ss_loser_id :: string
  ss_reason :: SupersedeReason

definition supersede ::
  "string \<Rightarrow> string \<Rightarrow> string \<Rightarrow> SupersedeReason \<Rightarrow> bool \<Rightarrow> (SupersedeResult \<times> ReactionEvent list) tx" where
  "supersede winner_id loser_id silo_id reason emit =
     tbind (validate_supersession winner_id loser_id silo_id) (\<lambda>error. case error of
         Some x \<Rightarrow> raise x
       | None \<Rightarrow>
         tbind new_uuid (\<lambda>edge_id.
         tbind (create_supersedes_edge winner_id loser_id silo_id reason) (\<lambda>_.
         tbind (parse_uuid winner_id) (\<lambda>w.
         tbind (parse_uuid loser_id) (\<lambda>l.
         let events = [reaction CASCADE_STALENESS loser_id silo_id [(''depth'', VInt 1)]] in
         tbind (emit_all emit events) (\<lambda>_.
         ret (\<lparr>ss_edge_id = edge_id, ss_winner_id = w, ss_loser_id = l, ss_reason = reason\<rparr>, events)))))))"

section \<open>Local propagation\<close>

text \<open>
  \<open>(center)-[*..2]-(neighbor)\<close>: paths of one or two edges in either direction that use no edge
  twice.  Edges are paired with their position so that parallel edges stay distinct.
\<close>

definition indexed_edges :: "graph \<Rightarrow> (nat \<times> edge) list" where
  "indexed_edges g = zip [0..<length (edges g)] (edges g)"

definition other_ends :: "graph \<Rightarrow> nat \<Rightarrow> (nat \<times> nat) list" where
  "other_ends g v = concat (map (\<lambda>(i, e).
       (if esrc e = v then [(i, edst e)] else if edst e = v then [(i, esrc e)] else []))
     (indexed_edges g))"

definition within_two :: "graph \<Rightarrow> nat \<Rightarrow> nat list" where
  "within_two g v = concat (map (\<lambda>(i, u). u # map snd (filter (\<lambda>(j, _). j \<noteq> i) (other_ends g u)))
     (other_ends g v))"

definition local_neighbors :: "graph \<Rightarrow> string \<Rightarrow> node \<Rightarrow> node list" where
  "local_neighbors g silo_id center =
     filter (\<lambda>n. silo n = Some silo_id \<and> pstate n = Some ''ACTIVE'')
       (concat (map (\<lambda>v. case node_at g v of None \<Rightarrow> [] | Some n \<Rightarrow> [n]) (within_two g (vid center))))"

text \<open>\<open>coalesce(n.credibility, n.confidence, 0.5)\<close>, over the top-level properties.\<close>

definition prior_of :: "node \<Rightarrow> real" where
  "prior_of n = (case num_of (attrs n ''credibility'') of Some c \<Rightarrow> c
     | None \<Rightarrow> (case num_of (attrs n ''confidence'') of Some c \<Rightarrow> c | None \<Rightarrow> 1 / 2))"

definition weighted_edges :: "graph \<Rightarrow> string \<Rightarrow> string list \<Rightarrow> string \<Rightarrow> wedge list" where
  "weighted_edges g silo_id ids t = concat (map (\<lambda>e. case (node_at g (esrc e), node_at g (edst e)) of
       (Some a, Some b) \<Rightarrow>
         if silo a = Some silo_id \<and> silo b = Some silo_id \<and> nid a \<in> set ids \<and> nid b \<in> set ids
         then [(nid a, nid b, case num_of (eprops e ''weight'') of None \<Rightarrow> 1 | Some w \<Rightarrow> w)] else []
     | _ \<Rightarrow> []) (filter (\<lambda>e. etype e = t) (edges g)))"

record local_graph =
  lg_nodes :: "(string \<times> real) list"
  lg_supports :: "wedge list"
  lg_contradictions :: "wedge list"

definition GET_LOCAL_GRAPH_FOR_PROPAGATION :: "string \<Rightarrow> string \<Rightarrow> graph \<Rightarrow> local_graph" where
  "GET_LOCAL_GRAPH_FOR_PROPAGATION node_id silo_id g =
     (let centers = filter (\<lambda>c. local_neighbors g silo_id c \<noteq> []) (match_id g node_id silo_id);
          all_nodes = centers @ concat (map (local_neighbors g silo_id) centers);
          rows = remdups (map (\<lambda>n. (nid n, prior_of n)) all_nodes);
          ids = map fst rows
      in \<lparr>lg_nodes = rows, lg_supports = weighted_edges g silo_id ids ''SUPPORTS'',
          lg_contradictions = weighted_edges g silo_id ids ''CONTRADICTS''\<rparr>)"

definition UPDATE_PROPAGATED_CONFIDENCE ::
  "(string \<times> real) list \<Rightarrow> string \<Rightarrow> int \<Rightarrow> graph \<Rightarrow> graph \<times> unit" where
  "UPDATE_PROPAGATED_CONFIDENCE updates silo_id updated_at g =
     (fold (\<lambda>(i, c). update_where (is_node i silo_id)
         (\<lambda>n. set_field ''confidence_updated_at'' (Some (VTime updated_at))
               (set_field ''confidence'' (Some (VNum c)) n))) updates g, ())"

text \<open>The Python side drops entries with a falsy id.\<close>

definition run_incremental_propagation :: "string \<Rightarrow> string \<Rightarrow> nat tx" where
  "run_incremental_propagation node_id silo_id =
     tbind (execute_query (GET_LOCAL_GRAPH_FOR_PROPAGATION node_id silo_id)) (\<lambda>row.
     if lg_nodes row = [] then ret 0
     else let known = filter (\<lambda>(i, _). i \<noteq> []) (lg_nodes row);
              named = filter (\<lambda>(s, t, _). s \<noteq> [] \<and> t \<noteq> []);
              support_edges = named (lg_supports row); contra_edges = named (lg_contradictions row)
          in if support_edges = [] \<and> contra_edges = [] then ret 0
             else (case propagate_incremental node_id (map fst known) (map_of (rev known))
                     support_edges contra_edges 2 (8 / 10) 1 of
                   None \<Rightarrow> raise ValueError
                 | Some updates \<Rightarrow>
                     tbind (if updates = [] then ret ()
                            else tbind datetime_now (\<lambda>t.
                              execute_write (UPDATE_PROPAGATED_CONFIDENCE updates silo_id t)))
                       (\<lambda>_. ret (length updates))))"

section \<open>Linking\<close>

definition FIND_EDGES :: "string \<Rightarrow> string \<Rightarrow> string \<Rightarrow> string \<Rightarrow> graph \<Rightarrow> edge list" where
  "FIND_EDGES source_id target_id etyp silo_id g =
     filter (\<lambda>e. etype e = etyp \<and> esrc e \<in> vid ` set (match_id g source_id silo_id)
        \<and> edst e \<in> vid ` set (match_id g target_id silo_id)) (edges g)"

definition validate_link :: "string \<Rightarrow> string \<Rightarrow> LinkType \<Rightarrow> string \<Rightarrow> exn option tx" where
  "validate_link source_id target_id edge_type silo_id =
     tbind (execute_query (GET_PAIR source_id target_id silo_id)) (\<lambda>results. case results of
         [] \<Rightarrow> ret (Some (BrainError ''NODE_NOT_FOUND''))
       | row # _ \<Rightarrow>
         if pa_source_silo row \<noteq> Some silo_id \<or> pa_target_silo row \<noteq> Some silo_id then
           ret (Some (CrossSiloViolation (show_silo (pa_source_silo row)) (show_silo (pa_target_silo row))))
         else if pa_source_state row = Some ''DELETED'' \<or> pa_target_state row = Some ''DELETED'' then
           ret (Some (BrainError ''NODE_DELETED''))
         else tbind (execute_query (FIND_EDGES source_id target_id (link_value edge_type) silo_id)) (\<lambda>dup.
           if dup \<noteq> [] then ret (Some (BrainError ''DUPLICATE_EDGE''))
           else if edge_type \<in> set ACYCLIC_EDGE_TYPES then
             tbind (would_create_cycle_any source_id target_id (link_value edge_type) silo_id) (\<lambda>cycle.
               ret (if cycle then Some (CycleError (link_value edge_type) source_id target_id) else None))
           else ret None))"

record LinkResult =
  lk_edge_id :: string
  lk_source_id :: string
  lk_target_id :: string
  lk_edge_type :: LinkType

definition CREATE_LINK ::
  "string \<Rightarrow> string \<Rightarrow> string \<Rightarrow> string \<Rightarrow> pymap \<Rightarrow> graph \<Rightarrow> graph \<times> unit" where
  "CREATE_LINK source_id target_id etyp silo_id ps g =
     (add_edges etyp ps (match_id g source_id silo_id) (match_id g target_id silo_id) g, ())"

definition link_events :: "string \<Rightarrow> string \<Rightarrow> string \<Rightarrow> LinkType \<Rightarrow> ReactionEvent list" where
  "link_events source_id target_id silo_id edge_type =
     [reaction UPDATE_HEAT source_id silo_id [(''access_type'', VStr ''LINK'')],
      reaction UPDATE_HEAT target_id silo_id [(''access_type'', VStr ''LINK'')]] @
     (if edge_type = CONTRADICTS
      then [reaction FLAG_CONTRADICTION source_id silo_id [(''contradicting_node_id'', VStr target_id)]]
      else [])"

definition link ::
  "string \<Rightarrow> string \<Rightarrow> LinkType \<Rightarrow> string \<Rightarrow> string \<Rightarrow> (string \<times> val) list \<Rightarrow> real \<Rightarrow> bool \<Rightarrow>
   (LinkResult \<times> ReactionEvent list) tx" where
  "link source_id target_id edge_type silo_id agent_id metadata weight emit =
     tbind (validate_link source_id target_id edge_type silo_id) (\<lambda>error. case error of
         Some x \<Rightarrow> raise x
       | None \<Rightarrow>
         tbind new_uuid (\<lambda>edge_id.
         tbind datetime_now (\<lambda>created_at.
         let ps = [''id'' \<mapsto> VStr edge_id, ''weight'' \<mapsto> VNum weight, ''created_at'' \<mapsto> VTime created_at,
                   ''created_by'' \<mapsto> VStr agent_id, ''metadata'' \<mapsto> VDict metadata] in
         tbind (execute_write (CREATE_LINK source_id target_id (link_value edge_type) silo_id ps)) (\<lambda>_.
         tbind (parse_uuid source_id) (\<lambda>s.
         tbind (parse_uuid target_id) (\<lambda>t.
         let events = link_events source_id target_id silo_id edge_type in
         tbind (if edge_type = SUPPORTS \<or> edge_type = CONTRADICTS
                then run_incremental_propagation target_id silo_id else ret 0) (\<lambda>_.
         tbind (emit_all emit events) (\<lambda>_.
         ret (\<lparr>lk_edge_id = edge_id, lk_source_id = s, lk_target_id = t, lk_edge_type = edge_type\<rparr>,
              events)))))))))"

section \<open>The transactions stay within their silo\<close>

lemma validate_graph:
  "geffect (=) (validate_supersession a b s)" "geffect (=) (validate_link a b ty s)"
  by (auto simp: validate_supersession_def validate_link_def would_create_cycle_any_def
      intro!: effect_intros)

lemmas eff_validate [effect_intros] = validate_graph [THEN in_silo_unchanged]

lemma eff_supersede [effect_intros]: "geffect (gsteps s) (supersede a b s r em)"
  by (auto simp: supersede_def Let_def intro!: effect_intros)

lemma gsteps_update_propagated: "gsteps s g (fst (UPDATE_PROPAGATED_CONFIDENCE ups s t g))"
proof -
  have "gsteps s g (fold (\<lambda>(i, c). update_where (is_node i s)
         (\<lambda>n. set_field ''confidence_updated_at'' (Some (VTime t))
               (set_field ''confidence'' (Some (VNum c)) n))) ups g)"
  proof (induction ups arbitrary: g)
    case (Cons u ups)
    obtain i c where u: "u = (i, c)" by (cases u)
    let ?f = "\<lambda>n. set_field ''confidence_updated_at'' (Some (VTime t)) (set_field ''confidence'' (Some (VNum c)) n)"
    have k: "identity_kept ?f" by (simp add: identity_kept_def has_label_def)
    have "gsteps s g (update_where (is_node i s) ?f g)" by (rule gsteps_update [OF is_node_silo k])
    then show ?case using Cons u by (auto intro: rtranclp_trans)
  qed simp
  then show ?thesis by (simp add: UPDATE_PROPAGATED_CONFIDENCE_def)
qed

lemma eff_propagation [effect_intros]: "geffect (gsteps s) (run_incremental_propagation i s)"
  by (auto simp: run_incremental_propagation_def Let_def
      intro!: effect_intros in_silo.eff_write gsteps_update_propagated)

lemma eff_create_link [effect_intros]: "geffect (gsteps s) (execute_write (CREATE_LINK a b ty s ps))"
  by (rule in_silo.eff_write) (simp add: CREATE_LINK_def gsteps_add_edges match_id_silo_vids)

lemma eff_link [effect_intros]: "geffect (gsteps s) (link a b ty s ag md wt em)"
  by (auto simp: link_def Let_def intro!: effect_intros)

end
