(* ===== verification/TxLayer.thy ===== *)
theory TxLayer
  imports TxStore
begin

text \<open>
  The passage between claims and facts: \<open>promote\<close> (TX18) with the verification of the claim
  against its sources (\<open>sage/source_verification.py\<close>) and the clean-up of ephemeral \<open>Source\<close>
  nodes, and \<open>demote\<close> (TX19).
\<close>

section \<open>Verification against the sources\<close>

text \<open>\<open>p in s\<close>.\<close>

definition contains :: "string \<Rightarrow> string \<Rightarrow> bool" where
  "contains p s = list_ex (\<lambda>i. take (length p) (drop i s) = p) [0..<Suc (length s)]"

text \<open>Every failure of the LLM counts as support (the check fails open).\<close>

definition verify_claim_against_source :: "string \<Rightarrow> string \<Rightarrow> bool tx" where
  "verify_claim_against_source claim_content source_content =
     tbind llm_call (\<lambda>r. case r of
         LlmText response_text \<Rightarrow> ret (contains ''YES'' (map upper_char response_text))
       | LlmTimeout \<Rightarrow> ret True
       | LlmError \<Rightarrow> ret True)"

text \<open>
  \<open>RETURN c.content, collect(s.content)\<close>: one row per distinct content; the code reads the first.
\<close>

definition source_nodes :: "graph \<Rightarrow> node list \<Rightarrow> node list" where
  "source_nodes g cs = filter (has_label ''Source'') (concat (map (out_nodes g ''DERIVED_FROM'') cs))"

definition CLAIM_SOURCES :: "string \<Rightarrow> string \<Rightarrow> graph \<Rightarrow> (string option \<times> string list) list" where
  "CLAIM_SOURCES claim_id silo_id g =
     (let cs = match_id g claim_id silo_id
      in map (\<lambda>content. (str_of content, concat (map (\<lambda>s. case str_of (attrs s ''content'') of
                 None \<Rightarrow> [] | Some t \<Rightarrow> [t])
               (source_nodes g (filter (\<lambda>c. attrs c ''content'' = content) cs)))))
           (remdups (map (\<lambda>c. attrs c ''content'') cs)))"

text \<open>Whether every source supports the claim; the loop stops at the first that does not.\<close>

fun verify_all :: "string \<Rightarrow> string list \<Rightarrow> bool tx" where
  "verify_all claim_content [] = ret True"
| "verify_all claim_content (s # ss) =
     tbind (verify_claim_against_source claim_content s) (\<lambda>ok.
       if ok then verify_all claim_content ss else ret False)"

definition verify_sources :: "string \<Rightarrow> string \<Rightarrow> bool tx" where
  "verify_sources claim_id silo_id =
     tbind (execute_query (CLAIM_SOURCES claim_id silo_id)) (\<lambda>source_result. case source_result of
         [] \<Rightarrow> ret True
       | (content, sources) # _ \<Rightarrow>
           let source_contents = filter (\<lambda>sc. sc \<noteq> []) sources
           in if truthy content \<and> source_contents \<noteq> []
              then verify_all (the content) source_contents else ret True)"

section \<open>Promotion\<close>

record PromoteResult =
  pm_claim_id :: string
  pm_promoted_at :: int
  pm_new_confidence :: "real option"
  pm_corroboration_count :: int

text \<open>Arithmetic on \<open>None\<close> raises \<open>TypeError\<close>.\<close>

definition need_num :: "real option \<Rightarrow> real tx" where
  "need_num x = (case x of None \<Rightarrow> raise TypeError | Some c \<Rightarrow> ret c)"

definition boosted :: "real \<Rightarrow> int \<Rightarrow> real" where
  "boosted current_confidence corroboration_count =
     min 1 (current_confidence + 1 / 10 * of_int (corroboration_count - int PROMOTION_THRESHOLD + 1))"

text \<open>The clean-up query: \<open>(f)-[:DERIVED_FROM]->(s:Source) DETACH DELETE s\<close>.\<close>

definition CLEANUP_SOURCES :: "string \<Rightarrow> string \<Rightarrow> graph \<Rightarrow> graph \<times> unit" where
  "CLEANUP_SOURCES fact_id silo_id g =
     (detach_delete (source_nodes g (match_id g fact_id silo_id)) g, ())"

definition cleanup_sources :: "string \<Rightarrow> string \<Rightarrow> unit tx" where
  "cleanup_sources fact_id silo_id =
     tcatch (execute_write (CLEANUP_SOURCES fact_id silo_id)) (\<lambda>_. ret ())"

definition promote_checked ::
  "string \<Rightarrow> string \<Rightarrow> real option \<Rightarrow> int \<Rightarrow> (PromoteResult option \<times> ReactionEvent list) tx" where
  "promote_checked claim_id silo_id current_confidence corroboration_count =
     tbind datetime_now (\<lambda>now.
     tbind (need_num current_confidence) (\<lambda>c.
     let new_confidence = boosted c corroboration_count in
     tbind (execute_write (UPDATE_CLAIM_TO_PROMOTED claim_id silo_id now new_confidence)) (\<lambda>_.
     tbind (cleanup_sources claim_id silo_id) (\<lambda>_.
     tbind (parse_uuid claim_id) (\<lambda>u.
     ret (Some \<lparr>pm_claim_id = u, pm_promoted_at = now, pm_new_confidence = Some new_confidence,
                pm_corroboration_count = corroboration_count\<rparr>, []))))))"

definition promote ::
  "string \<Rightarrow> string \<Rightarrow> int option \<Rightarrow> bool \<Rightarrow> (PromoteResult option \<times> ReactionEvent list) tx" where
  "promote claim_id silo_id corroboration_count llm =
     tbind (execute_query (GET_CLAIM_FOR_PROMOTE claim_id silo_id)) (\<lambda>claim_result.
     case claim_result of
       [] \<Rightarrow> raise (InvariantViolation ''CLAIM_NOT_FOUND'')
     | claim # _ \<Rightarrow>
       let n = (case corroboration_count of Some k \<Rightarrow> k
                    | None \<Rightarrow> (case cr_corroboration claim of Some k \<Rightarrow> k | None \<Rightarrow> 0)) in
       if cr_state claim \<noteq> Some (state_value ACTIVE) then raise (InvariantViolation ''CLAIM_NOT_ACTIVE'')
       else if cr_claim_status claim = Some ''PROMOTED'' then
         tbind (parse_uuid claim_id) (\<lambda>u. tbind datetime_now (\<lambda>now.
         ret (Some \<lparr>pm_claim_id = u, pm_promoted_at = now, pm_new_confidence = cr_confidence claim,
                    pm_corroboration_count = n\<rparr>, [])))
       else if n < int PROMOTION_THRESHOLD then
         raise (InvariantViolation ''INSUFFICIENT_CORROBORATION'')
       else tbind (if llm then verify_sources claim_id silo_id else ret True) (\<lambda>supported.
         if \<not> supported then ret (None, [])
         else promote_checked claim_id silo_id (cr_confidence claim) n))"

section \<open>Demotion\<close>

record DemoteResult =
  dm_fact_id :: string
  dm_demoted_at :: int
  dm_new_confidence :: "real option"
  dm_corroboration_count :: "int option"

definition lowered :: "real \<Rightarrow> real" where
  "lowered current_confidence = max (1 / 10) (current_confidence - 1 / 10)"

definition demote_unchanged ::
  "string \<Rightarrow> real option \<Rightarrow> int option \<Rightarrow> (DemoteResult \<times> ReactionEvent list) tx" where
  "demote_unchanged fact_id confidence corroboration =
     tbind (parse_uuid fact_id) (\<lambda>u. tbind datetime_now (\<lambda>now.
     ret (\<lparr>dm_fact_id = u, dm_demoted_at = now, dm_new_confidence = confidence,
           dm_corroboration_count = corroboration\<rparr>, [])))"

definition demote :: "string \<Rightarrow> string \<Rightarrow> bool \<Rightarrow> (DemoteResult \<times> ReactionEvent list) tx" where
  "demote fact_id silo_id emit =
     tbind (execute_query (GET_FACT_FOR_DEMOTE fact_id silo_id)) (\<lambda>fact_result.
     case fact_result of
       [] \<Rightarrow> raise (InvariantViolation ''FACT_NOT_FOUND'')
     | fact_row # _ \<Rightarrow>
       if cr_state fact_row \<noteq> Some (state_value ACTIVE) then raise (InvariantViolation ''FACT_NOT_ACTIVE'')
       else if cr_claim_status fact_row \<noteq> Some ''PROMOTED'' then
         demote_unchanged fact_id (cr_confidence fact_row) (cr_corroboration fact_row)
       else
         tbind (execute_query (RECOUNT_CORROBORATION fact_id silo_id)) (\<lambda>corroboration_count.
         if PROMOTION_THRESHOLD \<le> corroboration_count then
           demote_unchanged fact_id (cr_confidence fact_row) (Some (int corroboration_count))
         else
           tbind datetime_now (\<lambda>now.
           tbind (need_num (cr_confidence fact_row)) (\<lambda>c.
           let new_confidence = lowered c in
           tbind (execute_write (UPDATE_FACT_TO_DEMOTED fact_id silo_id now new_confidence)) (\<lambda>_.
           tbind (parse_uuid fact_id) (\<lambda>u.
           let events = [reaction CASCADE_STALENESS fact_id silo_id [(''depth'', VInt 1)]] in
           tbind (emit_all emit events) (\<lambda>_.
           ret (\<lparr>dm_fact_id = u, dm_demoted_at = now, dm_new_confidence = Some new_confidence,
                 dm_corroboration_count = Some (int corroboration_count)\<rparr>, events))))))))"

section \<open>Effects\<close>

lemma verify_graph: "geffect (=) (verify_all c ss)" "geffect (=) (verify_sources i s)"
proof -
  show v: "geffect (=) (verify_all c ss)" for c ss
    by (induction ss) (auto simp: verify_claim_against_source_def intro!: effect_intros)
  show "geffect (=) (verify_sources i s)"
    by (auto simp: verify_sources_def Let_def intro!: effect_intros v)
qed

lemmas eff_verify [effect_intros] = verify_graph [THEN in_silo_unchanged]
  verify_graph [THEN in_silo_unchanged, THEN geffect_safe]

lemma gsteps_promoted: "gsteps s g (fst (UPDATE_CLAIM_TO_PROMOTED i s t c g))"
  unfolding UPDATE_CLAIM_TO_PROMOTED_def fst_conv
  by (rule gsteps_update) (auto simp: promotable_def is_node_def identity_kept_def has_label_def)

lemma gsteps_demoted: "gsteps s g (fst (UPDATE_FACT_TO_DEMOTED i s t c g))"
  unfolding UPDATE_FACT_TO_DEMOTED_def fst_conv
  by (rule gsteps_update) (auto simp: demotable_def is_node_def identity_kept_def has_label_def)

lemma source_nodes_in:
  assumes "no_cross_silo g" "m \<in> set (source_nodes g (match_id g i s))"
  shows "m \<in> set (nodes g)" "silo m = Some s" "has_label ''Source'' m"
proof -
  from assms(2) obtain n where n: "n \<in> set (nodes g)" "silo n = Some s"
    and m: "m \<in> set (out_nodes g ''DERIVED_FROM'' n)" "has_label ''Source'' m"
    by (auto simp: source_nodes_def match_id_iff)
  show "m \<in> set (nodes g)" using out_nodes_in [OF m(1)] by blast
  show "silo m = Some s" using out_nodes_silo [OF assms(1) n(1) m(1)] n(2) by simp
  show "has_label ''Source'' m" by (rule m(2))
qed

lemma safe_cleanup: "safe_steps s g (fst (CLEANUP_SOURCES i s g))"
  by (auto simp: safe_steps_def CLEANUP_SOURCES_def source_nodes_in intro: gsteps_detach_delete)

lemma eff_promote [effect_intros]: "geffect (safe_steps s) (promote i s c l)"
proof -
  have "geffect (safe_steps s) (execute_write (UPDATE_CLAIM_TO_PROMOTED i s t x))" for t x
    by (rule geffect_safe, rule in_silo.eff_write, rule gsteps_promoted)
  moreover have "geffect (safe_steps s) (execute_write (CLEANUP_SOURCES i s))"
    by (rule safe.eff_write, rule safe_cleanup)
  ultimately show ?thesis
    unfolding promote_def promote_checked_def cleanup_sources_def need_num_def Let_def
    by (intro effect_intros)
qed

lemma eff_demote [effect_intros]: "geffect (gsteps s) (demote i s b)"
proof -
  have "geffect (gsteps s) (execute_write (UPDATE_FACT_TO_DEMOTED i s t x))" for t x
    by (rule in_silo.eff_write, rule gsteps_demoted)
  then show ?thesis
    unfolding demote_def demote_unchanged_def need_num_def Let_def
    by (intro effect_intros)
qed

end
