(* ===== verification/TxWisdom.thy ===== *)
theory TxWisdom
  imports TxStore
begin

text \<open>
  The wisdom layer of \<open>sage/transactions.py\<close>: commitments (\<open>commit\<close>, TX8, and \<open>crystallize\<close>,
  TX14), proposals (\<open>synthesize_from_facts\<close>, \<open>accept_proposal\<close>) and the revision of stale
  beliefs (\<open>revise_belief\<close>, TX5, with its two inner routines).  The prompt of the LLM is not modelled:
  an answer of the LLM is an arbitrary value of the environment.
\<close>

section \<open>Commitments\<close>

text \<open>The error code, or \<open>None\<close> when all references are valid.\<close>

definition validate_about_refs :: "string list \<Rightarrow> string \<Rightarrow> string option tx" where
  "validate_about_refs about_refs silo_id =
     (if about_refs = [] then ret (Some ''EMPTY_ABOUT_REFS'')
      else tbind (execute_query (VALIDATE_ABOUT_REFS about_refs silo_id)) (\<lambda>results.
        let found_ids = map fst results;
            missing = filter (\<lambda>i. i \<notin> set found_ids) about_refs;
            tombstoned = filter (\<lambda>r. snd r = Some (state_value TOMBSTONED)) results
        in if missing \<noteq> [] then ret (Some ''ABOUT_REF_NOT_FOUND'')
           else if tombstoned \<noteq> [] then ret (Some ''ABOUT_REF_TOMBSTONED'')
           else ret None))"

record CommitResult =
  co_commitment_id :: string
  co_created_at :: int
  co_confidence :: real

definition commitment_props :: "real \<Rightarrow> string \<Rightarrow> pymap" where
  "commitment_props confidence agent_id =
     [''layer'' \<mapsto> VStr ''wisdom'', ''type'' \<mapsto> VStr ''commitment'',
      ''state'' \<mapsto> VStr (state_value ACTIVE), ''confidence'' \<mapsto> VNum confidence,
      ''created_by'' \<mapsto> VStr agent_id]"

text \<open>The shadow row of the wisdom layer names no agent, session, owner or model.\<close>

definition wisdom_row :: "string \<Rightarrow> string \<Rightarrow> shadow_row" where
  "wisdom_row silo_id content = \<lparr>sh_silo = silo_id, sh_layer = ''wisdom'', sh_content = content,
     sh_state = state_value ACTIVE, sh_agent = None, sh_session = None, sh_owner = None,
     sh_model = None\<rparr>"

definition access_events :: "string \<Rightarrow> string \<Rightarrow> string \<Rightarrow> ReactionEvent list" where
  "access_events i silo_id access_type =
     [reaction COMPUTE_EMBEDDING i silo_id [],
      reaction UPDATE_HEAT i silo_id [(''access_type'', VStr access_type)]]"

text \<open>\<open>if settings.ncb_enforcement_enabled: ... raise NeighborhoodInconsistent\<close>.\<close>

definition enforce_ncb :: "string list \<Rightarrow> string \<Rightarrow> unit tx" where
  "enforce_ncb about_ids silo_id =
     tbind (asks ncb_enforcement_enabled) (\<lambda>enabled.
     if enabled then
       tbind (check_ncb_before_write about_ids silo_id) (\<lambda>ncb_conflicts.
         if ncb_conflicts = [] then ret () else raise (NeighborhoodInconsistent ncb_conflicts))
     else ret ())"

definition commit ::
  "string \<Rightarrow> string list \<Rightarrow> string \<Rightarrow> string \<Rightarrow> real \<Rightarrow> (string \<times> val) list \<Rightarrow> bool \<Rightarrow>
   (CommitResult \<times> ReactionEvent list) tx" where
  "commit content about_refs silo_id agent_id confidence metadata emit =
     tbind (validate_about_refs about_refs silo_id) (\<lambda>error.
     tbind (case error of None \<Rightarrow> ret () | Some code \<Rightarrow> raise (InvariantViolation code)) (\<lambda>_.
     tbind (enforce_ncb about_refs silo_id) (\<lambda>_.
     tbind new_uuid (\<lambda>commitment_id.
     tbind datetime_now (\<lambda>created_at.
     tbind (execute_write (CREATE_COMMITMENT_WITH_ABOUT commitment_id silo_id (Some content) created_at
              (commitment_props confidence agent_id ++ map_of metadata) about_refs agent_id)) (\<lambda>_.
     tbind (sync_to_postgres commitment_id (wisdom_row silo_id content)) (\<lambda>_.
     let events = access_events commitment_id silo_id ''WRITE'' in
     tbind (emit_all emit events) (\<lambda>_.
     ret (\<lparr>co_commitment_id = commitment_id, co_created_at = created_at,
           co_confidence = confidence\<rparr>, events)))))))))"

section \<open>Hypotheses\<close>

definition validate_hypothesis ::
  "string \<Rightarrow> string \<Rightarrow> string option \<Rightarrow> (string + string option \<times> real option) tx" where
  "validate_hypothesis hypothesis_id silo_id session_id =
     tbind (execute_query (case session_id of
         Some session \<Rightarrow> GET_HYPOTHESIS_FOR_CRYSTALLIZE hypothesis_id silo_id session
       | None \<Rightarrow> GET_HYPOTHESIS_BY_ID hypothesis_id silo_id)) (\<lambda>results. case results of
         [] \<Rightarrow> ret (Inl ''HYPOTHESIS_NOT_FOUND'')
       | row # _ \<Rightarrow>
           if hy_state row = Some (state_value TOMBSTONED) then ret (Inl ''HYPOTHESIS_TOMBSTONED'')
           else if hy_crystallized row then ret (Inl ''ALREADY_CRYSTALLIZED'')
           else ret (Inr (hy_content row, hy_confidence row)))"

text \<open>\<open>float(None)\<close> raises \<open>TypeError\<close>.\<close>

definition to_float :: "real option \<Rightarrow> real tx" where
  "to_float x = (case x of None \<Rightarrow> raise TypeError | Some c \<Rightarrow> ret c)"

record CrystallizeResult =
  cy_commitment_id :: string
  cy_hypothesis_id :: string
  cy_created_at :: int
  cy_confidence :: real

definition crystallize_write ::
  "string \<Rightarrow> string \<Rightarrow> string \<Rightarrow> string option \<Rightarrow> real \<Rightarrow> string list \<Rightarrow> (string \<times> int) tx" where
  "crystallize_write hypothesis_id silo_id agent_id content confidence about_refs =
     tbind new_uuid (\<lambda>commitment_id.
     tbind datetime_now (\<lambda>created_at.
     tbind (execute_write (CREATE_COMMITMENT_WITH_ABOUT commitment_id silo_id content created_at
              ((commitment_props confidence agent_id)(''source_hypothesis_id'' \<mapsto> VStr hypothesis_id))
              about_refs agent_id)) (\<lambda>_.
     tbind (execute_write (CREATE_CRYSTALLIZED_FROM_EDGE commitment_id hypothesis_id silo_id created_at)) (\<lambda>_.
     ret (commitment_id, created_at)))))"

definition crystallize ::
  "string \<Rightarrow> string \<Rightarrow> string \<Rightarrow> string option \<Rightarrow> bool \<Rightarrow> (CrystallizeResult \<times> ReactionEvent list) tx" where
  "crystallize hypothesis_id silo_id agent_id session_id emit =
     tbind (validate_hypothesis hypothesis_id silo_id session_id) (\<lambda>validation. case validation of
       Inl code \<Rightarrow> raise (InvariantViolation code)
     | Inr (content, raw_confidence) \<Rightarrow>
       tbind (to_float raw_confidence) (\<lambda>confidence.
       tbind (execute_query (GET_HYPOTHESIS_ABOUT_REFS hypothesis_id silo_id)) (\<lambda>about_results.
       if list_ex (\<lambda>r. snd r = Some (state_value TOMBSTONED)) about_results
       then raise (InvariantViolation ''ABOUT_REF_TOMBSTONED'')
       else
         tbind (crystallize_write hypothesis_id silo_id agent_id content confidence (map fst about_results))
           (\<lambda>(commitment_id, created_at).
         tbind (parse_uuid hypothesis_id) (\<lambda>u.
         let events = access_events commitment_id silo_id ''WRITE'' in
         tbind (emit_all emit events) (\<lambda>_.
         ret (\<lparr>cy_commitment_id = commitment_id, cy_hypothesis_id = u, cy_created_at = created_at,
               cy_confidence = confidence\<rparr>, events)))))))"

section \<open>Synthesis\<close>

record LLMSynthesisResult =
  ls_success :: bool
  ls_content :: "string option"
  ls_timed_out :: bool

definition llm_synthesize :: "LLMSynthesisResult tx" where
  "llm_synthesize = tbind llm_call (\<lambda>r. ret (case r of
       LlmText response_text \<Rightarrow>
         \<lparr>ls_success = True, ls_content = Some (strip response_text), ls_timed_out = False\<rparr>
     | LlmTimeout \<Rightarrow> \<lparr>ls_success = False, ls_content = None, ls_timed_out = True\<rparr>
     | LlmError \<Rightarrow> \<lparr>ls_success = False, ls_content = None, ls_timed_out = False\<rparr>))"

record SynthesizeFromFactsResult =
  sf_belief_id :: "string option"
  sf_fact_count :: nat
  sf_confidence :: "real option"
  sf_timed_out :: bool

definition not_synthesized ::
  "nat \<Rightarrow> real option \<Rightarrow> bool \<Rightarrow> (SynthesizeFromFactsResult \<times> ReactionEvent list) tx" where
  "not_synthesized fact_count confidence timed_out =
     ret (\<lparr>sf_belief_id = None, sf_fact_count = fact_count, sf_confidence = confidence,
           sf_timed_out = timed_out\<rparr>, [])"

text \<open>\<open>[float(f.get("confidence", 0.8)) for f in facts]\<close>.\<close>

definition confidences_of :: "fact_row list \<Rightarrow> real list tx" where
  "confidences_of facts = tfor facts (\<lambda>f. to_float (fa_confidence f))"

definition proposal_lifetime :: int where "proposal_lifetime = 7 * 24 * 3600"

definition synthesize_from_facts ::
  "string list \<Rightarrow> string \<Rightarrow> (SynthesizeFromFactsResult \<times> ReactionEvent list) tx" where
  "synthesize_from_facts fact_ids silo_id =
     (if length fact_ids < SYNTHESIS_THRESHOLD then not_synthesized (length fact_ids) None False
      else
        tbind (execute_query (GET_FACTS_BY_IDS fact_ids silo_id)) (\<lambda>facts.
        if length facts < SYNTHESIS_THRESHOLD then not_synthesized (length facts) None False
        else
          tbind (confidences_of facts) (\<lambda>confidences.
          let aggregate_confidence = noisy_or_aggregate confidences in
          if aggregate_confidence < SYNTHESIS_CONFIDENCE_THRESHOLD
          then not_synthesized (length facts) (Some aggregate_confidence) False
          else
            tbind llm_synthesize (\<lambda>synthesis_result.
            if ls_timed_out synthesis_result \<or> \<not> ls_success synthesis_result
            then not_synthesized (length facts) (Some aggregate_confidence) (ls_timed_out synthesis_result)
            else
              tbind new_uuid (\<lambda>belief_id.
              tbind datetime_now (\<lambda>created_at.
              tbind (execute_write (CREATE_PROPOSED_BELIEF_V2 belief_id silo_id (ls_content synthesis_result)
                       aggregate_confidence created_at (created_at + proposal_lifetime) fact_ids)) (\<lambda>_.
              ret (\<lparr>sf_belief_id = Some belief_id, sf_fact_count = length facts,
                    sf_confidence = Some aggregate_confidence, sf_timed_out = False\<rparr>,
                   [reaction COMPUTE_EMBEDDING belief_id silo_id []]))))))))"

section \<open>Accepting a proposal\<close>

record AcceptProposalResult =
  ap_belief_id :: string
  ap_proposal_id :: string
  ap_accepted_at :: int
  ap_confidence :: real

text \<open>The look-up of the belief of an accepted proposal, over \<open>PROMOTED_FROM\<close>.\<close>

definition FIND_ACCEPTED_BELIEF :: "string \<Rightarrow> string \<Rightarrow> graph \<Rightarrow> (string \<times> real option) list" where
  "FIND_ACCEPTED_BELIEF proposal_id silo_id g =
     map (\<lambda>b. (nid b, num_of (attrs b ''confidence'')))
       (filter (has_label ''Belief'')
         (concat (map (in_nodes g [''PROMOTED_FROM'']) (match_label_id g ''ProposedBelief'' proposal_id silo_id))))"

definition accepted_before ::
  "string \<Rightarrow> string \<Rightarrow> (AcceptProposalResult \<times> ReactionEvent list) tx" where
  "accepted_before proposal_id silo_id =
     tbind (execute_query (FIND_ACCEPTED_BELIEF proposal_id silo_id)) (\<lambda>existing_belief.
     case existing_belief of
       [] \<Rightarrow> raise (InvariantViolation ''INCONSISTENT_STATE'')
     | (i, c) # _ \<Rightarrow>
         tbind (parse_uuid i) (\<lambda>b. tbind (parse_uuid proposal_id) (\<lambda>p.
         tbind datetime_now (\<lambda>now. tbind (to_float c) (\<lambda>confidence.
         ret (\<lparr>ap_belief_id = b, ap_proposal_id = p, ap_accepted_at = now,
               ap_confidence = confidence\<rparr>, []))))))"

text \<open>The status and derivation checks (GAP-007, GAP-012).\<close>

definition accept_checks :: "proposal_row \<Rightarrow> string \<Rightarrow> unit tx" where
  "accept_checks row silo_id =
     (if pr_status row = Some ''rejected'' then raise (InvariantViolation ''PROPOSAL_REJECTED'')
      else if pr_status row \<noteq> Some ''pending'' then raise (InvariantViolation ''INVALID_STATUS'')
      else if length (pr_sources row) < SYNTHESIS_THRESHOLD
      then raise (InvariantViolation ''INSUFFICIENT_DERIVATION'')
      else enforce_ncb (pr_sources row) silo_id)"

definition SET_ACCEPTANCE :: "string \<Rightarrow> string \<Rightarrow> string \<Rightarrow> string \<Rightarrow> graph \<Rightarrow> graph \<times> unit" where
  "SET_ACCEPTANCE belief_id silo_id reason agent_id g =
     (update_where (is_belief belief_id silo_id)
        (\<lambda>n. set_field ''accepted_by'' (Some (VStr agent_id))
              (set_field ''acceptance_reason'' (Some (VStr reason)) n)) g, ())"

definition accept_events :: "string \<Rightarrow> string \<Rightarrow> ReactionEvent list" where
  "accept_events belief_id silo_id =
     access_events belief_id silo_id ''ACCEPT'' @ [reaction PROPAGATE_CONFIDENCE belief_id silo_id []]"

definition accept_write ::
  "string \<Rightarrow> string \<Rightarrow> string \<Rightarrow> proposal_row \<Rightarrow> string option \<Rightarrow> real option \<Rightarrow> bool \<Rightarrow>
   (AcceptProposalResult \<times> ReactionEvent list) tx" where
  "accept_write proposal_id silo_id agent_id row reason override_confidence emit =
     tbind datetime_now (\<lambda>now.
     tbind new_uuid (\<lambda>belief_id.
     tbind (execute_write (ACCEPT_PENDING_BELIEF proposal_id silo_id now override_confidence)) (\<lambda>accept_result.
     case accept_result of
       [] \<Rightarrow> raise (InvariantViolation ''ACCEPT_FAILED'')
     | (_, c) # _ \<Rightarrow>
       tbind (to_float c) (\<lambda>final_confidence.
       tbind (twhen (truthy reason)
                (execute_write (SET_ACCEPTANCE belief_id silo_id (the reason) agent_id))) (\<lambda>_.
       tbind (parse_uuid proposal_id) (\<lambda>p.
       tbind (twhen (truthy (pr_content row))
                (sync_to_postgres belief_id (wisdom_row silo_id (the (pr_content row))))) (\<lambda>_.
       let events = accept_events belief_id silo_id in
       tbind (emit_all emit events) (\<lambda>_.
       ret (\<lparr>ap_belief_id = belief_id, ap_proposal_id = p, ap_accepted_at = now,
             ap_confidence = final_confidence\<rparr>, events)))))))))"

definition accept_proposal ::
  "string \<Rightarrow> string \<Rightarrow> string \<Rightarrow> string option \<Rightarrow> real option \<Rightarrow> bool \<Rightarrow>
   (AcceptProposalResult \<times> ReactionEvent list) tx" where
  "accept_proposal proposal_id silo_id agent_id reason override_confidence emit =
     tbind (execute_query (GET_PENDING_BELIEF proposal_id silo_id)) (\<lambda>proposal_result.
     case proposal_result of
       [] \<Rightarrow> raise (InvariantViolation ''PROPOSAL_NOT_FOUND'')
     | row # _ \<Rightarrow>
       if pr_status row = Some ''accepted'' then accepted_before proposal_id silo_id
       else tbind (accept_checks row silo_id) (\<lambda>_.
            accept_write proposal_id silo_id agent_id row reason override_confidence emit))"

section \<open>Revising a belief\<close>

record ReviseBeliefResult =
  rb_new_belief_id :: "string option"
  rb_old_belief_id :: string
  rb_content_changed :: bool
  rb_invalidated :: bool

definition not_revised ::
  "string \<Rightarrow> string \<Rightarrow> SynthesisState \<Rightarrow> unit tx \<Rightarrow> (ReviseBeliefResult \<times> ReactionEvent list) tx" where
  "not_revised belief_id silo_id synthesis_state release =
     tbind (execute_write (UPDATE_BELIEF_AFTER_REVISION belief_id silo_id synthesis_state)) (\<lambda>_.
     tbind release (\<lambda>_.
     tbind (parse_uuid belief_id) (\<lambda>u.
     ret (\<lparr>rb_new_belief_id = None, rb_old_belief_id = u, rb_content_changed = False,
           rb_invalidated = (synthesis_state = INVALIDATED)\<rparr>, []))))"

definition belief_props :: "real \<Rightarrow> string option \<Rightarrow> pymap" where
  "belief_props confidence cluster_id =
     [''layer'' \<mapsto> VStr ''wisdom'', ''type'' \<mapsto> VStr ''belief'',
      ''state'' \<mapsto> VStr (state_value ACTIVE), ''synthesis_state'' \<mapsto> VStr (synthesis_value FRESH),
      ''confidence'' \<mapsto> VNum confidence](''source_cluster_id'' := map_option VStr cluster_id)"

text \<open>
  The part the two inner routines share: \<open>release\<close> gives up the cluster lock in the state it
  is told (nothing in the v2 routine), \<open>finish\<close> records the synthesis of the cluster.
\<close>

definition replace_belief ::
  "string \<Rightarrow> string \<Rightarrow> string \<Rightarrow> fact_row list \<Rightarrow> real \<Rightarrow> string option \<Rightarrow> unit tx \<Rightarrow> bool \<Rightarrow>
   (ReviseBeliefResult \<times> ReactionEvent list) tx" where
  "replace_belief belief_id silo_id new_content facts confidence cluster_id finish emit =
     tbind new_uuid (\<lambda>new_belief_id.
     tbind datetime_now (\<lambda>created_at.
     tbind (execute_write (CREATE_BELIEF_WITH_SYNTHESIZED_FROM new_belief_id silo_id new_content created_at
              (belief_props confidence cluster_id) (map fa_id facts))) (\<lambda>_.
     tbind (create_supersedes_edge new_belief_id belief_id silo_id EVIDENCE_SHIFT) (\<lambda>_.
     tbind finish (\<lambda>_.
     let events = access_events new_belief_id silo_id ''SYNTHESIS'' in
     tbind (emit_all emit events) (\<lambda>_.
     tbind (parse_uuid belief_id) (\<lambda>u.
     ret (\<lparr>rb_new_belief_id = Some new_belief_id, rb_old_belief_id = u, rb_content_changed = True,
           rb_invalidated = False\<rparr>, events))))))))"

definition revise_from ::
  "string \<Rightarrow> string \<Rightarrow> string option \<Rightarrow> fact_row list \<Rightarrow> string option \<Rightarrow> (string \<Rightarrow> unit tx) \<Rightarrow> unit tx \<Rightarrow>
   bool \<Rightarrow> (ReviseBeliefResult \<times> ReactionEvent list) tx" where
  "revise_from belief_id silo_id old_content facts cluster_id release finish emit =
     (if length facts < SYNTHESIS_THRESHOLD
      then not_revised belief_id silo_id INVALIDATED (release ''SPARSE'')
      else
        tbind (confidences_of facts) (\<lambda>confidences.
        let aggregate_confidence = noisy_or_aggregate confidences in
        if aggregate_confidence < SYNTHESIS_CONFIDENCE_THRESHOLD
        then not_revised belief_id silo_id INVALIDATED (release ''READY'')
        else
          tbind llm_synthesize (\<lambda>synthesis_result.
          if \<not> ls_success synthesis_result
          then not_revised belief_id silo_id STALE (release ''STALE'')
          else
            let new_content = or_else (ls_content synthesis_result) [] in
            tbind (case old_content of None \<Rightarrow> raise AttributeError | Some t \<Rightarrow> ret t) (\<lambda>old.
            if strip new_content = strip old
            then not_revised belief_id silo_id FRESH (release ''SYNTHESIZED'')
            else replace_belief belief_id silo_id new_content facts aggregate_confidence cluster_id
                   finish emit))))"

definition revise_belief_v2 ::
  "string \<Rightarrow> string \<Rightarrow> string option \<Rightarrow> bool \<Rightarrow> (ReviseBeliefResult \<times> ReactionEvent list) tx" where
  "revise_belief_v2 belief_id silo_id old_content emit =
     tbind (execute_query (GET_FACTS_VIA_SYNTHESIZED_FROM belief_id silo_id)) (\<lambda>facts.
     revise_from belief_id silo_id old_content facts None (\<lambda>_. ret ()) (ret ()) emit)"

text \<open>The cluster queries are stubs: no row, no write.\<close>

definition GET_CLUSTER_FOR_SYNTHESIS :: "graph \<Rightarrow> unit list" where
  "GET_CLUSTER_FOR_SYNTHESIS g = []"

definition GET_FACTS_IN_CLUSTER :: "string \<Rightarrow> string \<Rightarrow> graph \<Rightarrow> fact_row list" where
  "GET_FACTS_IN_CLUSTER cluster_id silo_id g = []"

definition RELEASE_CLUSTER_LOCK :: "string \<Rightarrow> string \<Rightarrow> string \<Rightarrow> graph \<Rightarrow> graph \<times> nat" where
  "RELEASE_CLUSTER_LOCK cluster_id silo_id state g = (g, 0)"

definition UPDATE_CLUSTER_AFTER_SYNTHESIS :: "string \<Rightarrow> string \<Rightarrow> graph \<Rightarrow> graph \<times> nat" where
  "UPDATE_CLUSTER_AFTER_SYNTHESIS cluster_id silo_id g = (g, 0)"

definition release_cluster :: "string \<Rightarrow> string \<Rightarrow> string \<Rightarrow> unit tx" where
  "release_cluster cluster_id silo_id state =
     tbind (execute_write (RELEASE_CLUSTER_LOCK cluster_id silo_id state)) (\<lambda>_. ret ())"

definition revise_belief_v1 ::
  "string \<Rightarrow> string \<Rightarrow> string option \<Rightarrow> string \<Rightarrow> bool \<Rightarrow> (ReviseBeliefResult \<times> ReactionEvent list) tx" where
  "revise_belief_v1 belief_id silo_id old_content cluster_id emit =
     tbind (execute_query GET_CLUSTER_FOR_SYNTHESIS) (\<lambda>_.
     tcatch
       (tbind (execute_query (GET_FACTS_IN_CLUSTER cluster_id silo_id)) (\<lambda>facts.
        revise_from belief_id silo_id old_content facts (Some cluster_id)
          (release_cluster cluster_id silo_id)
          (tbind (execute_write (UPDATE_CLUSTER_AFTER_SYNTHESIS cluster_id silo_id)) (\<lambda>_. ret ())) emit))
       (\<lambda>x. tbind (release_cluster cluster_id silo_id ''STALE'') (\<lambda>_. raise x)))"

definition revise_guard :: "belief_row \<Rightarrow> unit tx" where
  "revise_guard belief =
     (if be_state belief \<noteq> Some (state_value ACTIVE) then raise (InvariantViolation ''BELIEF_NOT_ACTIVE'')
      else if be_synthesis belief \<noteq> Some (synthesis_value STALE)
      then raise (InvariantViolation ''BELIEF_NOT_STALE'')
      else if be_in_progress belief then raise (InvariantViolation ''REVISION_IN_PROGRESS'')
      else ret ())"

definition revise_belief ::
  "string \<Rightarrow> string \<Rightarrow> bool \<Rightarrow> (ReviseBeliefResult \<times> ReactionEvent list) tx" where
  "revise_belief belief_id silo_id emit =
     tbind (execute_query (GET_BELIEF_FOR_REVISION belief_id silo_id)) (\<lambda>belief_result.
     case belief_result of
       [] \<Rightarrow> raise (InvariantViolation ''BELIEF_NOT_FOUND'')
     | belief # _ \<Rightarrow>
       tbind (revise_guard belief) (\<lambda>_.
       tbind (execute_write (MARK_BELIEF_REVISION_IN_PROGRESS belief_id silo_id)) (\<lambda>_.
       tcatch
         (case be_cluster belief of
            None \<Rightarrow> revise_belief_v2 belief_id silo_id (be_content belief) emit
          | Some cluster_id \<Rightarrow> revise_belief_v1 belief_id silo_id (be_content belief) cluster_id emit)
         (\<lambda>x. tbind (execute_write (UPDATE_BELIEF_AFTER_REVISION belief_id silo_id STALE))
                (\<lambda>_. raise x)))))"

section \<open>The transactions stay within their silo\<close>

lemma gsteps_merge_agent: "gsteps s g (merge_agent i g)"
  by (auto simp: merge_agent_def intro: gstep.agent)

lemma silo_vids_edges [simp]: "silo_vids (add_edges t ps as bs g) s = silo_vids g s"
  "agent_vids (add_edges t ps as bs g) = agent_vids g"
  by (simp_all add: silo_vids_def agent_vids_def graph_simps)

lemma silo_vids_merge_agent: "v \<in> silo_vids g s \<Longrightarrow> v \<in> silo_vids (merge_agent i g) s"
  by (simp add: merge_agent_def silo_vids_add_node)

lemma agents_vids: "a \<in> set (agents_with_id g i) \<Longrightarrow> vid a \<in> agent_vids g"
  by (auto simp: agents_with_id_def agent_vids_def)

lemma gsteps_declare:
  assumes "vid c \<in> silo_vids g s" "\<And>a. a \<in> set as \<Longrightarrow> vid a \<in> agent_vids g"
  shows "gsteps s g (fold (\<lambda>_. add_edges ''DECLARED_BY'' ps [c] as) ts g)"
  using assms
proof (induction ts arbitrary: g)
  case (Cons t ts)
  have "gsteps s g (add_edges ''DECLARED_BY'' ps [c] as g)"
    unfolding add_edges_def by (rule gsteps_connect) (use Cons.prems in auto)
  moreover have "gsteps s (add_edges ''DECLARED_BY'' ps [c] as g)
      (fold (\<lambda>_. add_edges ''DECLARED_BY'' ps [c] as) ts (add_edges ''DECLARED_BY'' ps [c] as g))"
    by (rule Cons.IH) (use Cons.prems in auto)
  ultimately show ?case by (simp add: rtranclp_trans)
qed simp

lemma gsteps_new_with_edges:
  assumes "\<And>b. b \<in> set (bs (add_node ls i (Some s) fs ps g)) \<Longrightarrow>
      vid b \<in> silo_vids (add_node ls i (Some s) fs ps g) s" and "vid c = next_vid g"
  shows "gsteps s g (add_edges t qs [c] (bs (add_node ls i (Some s) fs ps g))
      (add_node ls i (Some s) fs ps g))"
  by (rule rtranclp_trans [OF gsteps_create gsteps_add_edges])
    (use assms silo_vids_add_node_new in auto)

lemma gsteps_commitment: "gsteps s g (fst (CREATE_COMMITMENT_WITH_ABOUT i s c t ps as ag g))"
proof -
  let ?fs = "[''created_at'' \<mapsto> VTime t](''content'' := map_option VStr c)"
  let ?c = "\<lparr>vid = next_vid g, labels = [''Node'', ''Commitment''], nid = i, silo = Some s,
      attrs = ?fs, props = ps\<rparr>"
  let ?g1 = "add_node [''Node'', ''Commitment''] i (Some s) ?fs ps g"
  let ?ts = "concat (map (\<lambda>a. match_id ?g1 a s) as)"
  let ?g2 = "add_edges ''ABOUT'' Map.empty [?c] ?ts ?g1"
  let ?g3 = "merge_agent ag ?g2"
  let ?g4 = "fold (\<lambda>_. add_edges ''DECLARED_BY'' [''created_at'' \<mapsto> VTime t] [?c] (agents_with_id ?g3 ag)) ?ts ?g3"
  have s2: "gsteps s g ?g2"
    by (rule gsteps_new_with_edges [where bs = "\<lambda>h. concat (map (\<lambda>a. match_id h a s) as)"])
      (auto intro: match_id_silo_vids)
  have "vid ?c \<in> silo_vids ?g3 s"
    by (rule silo_vids_merge_agent) (simp add: silo_vids_add_node_new)
  then have "gsteps s ?g3 ?g4" by (rule gsteps_declare) (rule agents_vids)
  then have "gsteps s g ?g4" using s2 gsteps_merge_agent by (meson rtranclp_trans)
  with s2 show ?thesis by (simp add: CREATE_COMMITMENT_WITH_ABOUT_def Let_def del: set_concat)
qed

lemma eff_create_commitment [effect_intros]:
  "geffect (gsteps s) (execute_write (CREATE_COMMITMENT_WITH_ABOUT i s c t ps as ag))"
  by (rule in_silo.eff_write) (rule gsteps_commitment)

lemma gsteps_crystallized: "gsteps s g (fst (CREATE_CRYSTALLIZED_FROM_EDGE c h s t g))"
proof -
  let ?f = "\<lambda>n. set_field ''crystallized_into'' (Some (VStr c)) (set_field ''crystallized'' (Some (VBool True)) n)"
  have k: "identity_kept ?f" by (auto simp: identity_kept_def has_label_def)
  have "gsteps s g (update_where (is_node h s) ?f g)" by (rule gsteps_update [OF is_node_silo k])
  moreover have "gsteps s (update_where (is_node h s) ?f g)
      (add_edges ''CRYSTALLIZED_FROM'' ps (match_id g c s) (match_id g h s) (update_where (is_node h s) ?f g))" for ps
    by (rule gsteps_add_edges; subst silo_vids_update [OF k]; rule match_id_silo_vids)
  ultimately show ?thesis by (auto simp: CREATE_CRYSTALLIZED_FROM_EDGE_def intro: rtranclp_trans)
qed

lemma eff_create_crystallized [effect_intros]:
  "geffect (gsteps s) (execute_write (CREATE_CRYSTALLIZED_FROM_EDGE c h s t))"
  by (rule in_silo.eff_write) (rule gsteps_crystallized)

lemma gsteps_proposed: "gsteps s g (fst (CREATE_PROPOSED_BELIEF_V2 i s c x t t' fs g))"
  unfolding CREATE_PROPOSED_BELIEF_V2_def Let_def fst_conv node.simps
  by (rule gsteps_new_with_edges [where bs = "\<lambda>h. concat (map (\<lambda>f. match_label_id h ''Fact'' f s) fs)"])
    (auto intro: match_label_id_silo_vids)

lemma gsteps_belief: "gsteps s g (fst (CREATE_BELIEF_WITH_SYNTHESIZED_FROM i s c t ps fs g))"
  unfolding CREATE_BELIEF_WITH_SYNTHESIZED_FROM_def Let_def fst_conv node.simps
  by (rule gsteps_new_with_edges [where bs = "\<lambda>h. concat (map (\<lambda>f. match_id h f s) fs)"])
    (auto intro: match_id_silo_vids)

lemma eff_create_beliefs [effect_intros]:
  "geffect (gsteps s) (execute_write (CREATE_PROPOSED_BELIEF_V2 i s c x t t' fs))"
  "geffect (gsteps s) (execute_write (CREATE_BELIEF_WITH_SYNTHESIZED_FROM i s k t ps fs))"
  by (rule in_silo.eff_write, rule gsteps_proposed gsteps_belief)+

lemma belief_silo: "is_belief i s n \<Longrightarrow> silo n = Some s"
  by (simp add: is_belief_def is_node_def)

lemma eff_belief_updates [effect_intros]:
  "geffect (gsteps s) (execute_write (ACCEPT_PENDING_BELIEF i s t c))"
  "geffect (gsteps s) (execute_write (SET_ACCEPTANCE i s r a))"
  "geffect (gsteps s) (execute_write (MARK_BELIEF_REVISION_IN_PROGRESS i s))"
  "geffect (gsteps s) (execute_write (UPDATE_BELIEF_AFTER_REVISION i s st))"
  by (rule in_silo.eff_write; unfold ACCEPT_PENDING_BELIEF_def SET_ACCEPTANCE_def
      MARK_BELIEF_REVISION_IN_PROGRESS_def UPDATE_BELIEF_AFTER_REVISION_def fst_conv;
      rule gsteps_update;
      auto simp: is_belief_def pending_belief_def is_node_def identity_kept_def accept_props_def
        has_label_def)+

lemma eff_cluster [effect_intros]:
  "geffect (gsteps s) (release_cluster c s' st)"
  "geffect (gsteps s) (execute_write (UPDATE_CLUSTER_AFTER_SYNTHESIS c s'))"
  by (auto simp: release_cluster_def RELEASE_CLUSTER_LOCK_def UPDATE_CLUSTER_AFTER_SYNTHESIS_def
      intro!: effect_intros in_silo.eff_write)

lemma eff_commit [effect_intros]: "geffect (gsteps s) (commit c as s a x m b)"
  unfolding commit_def validate_about_refs_def enforce_ncb_def Let_def by (intro effect_intros)

lemma eff_crystallize [effect_intros]: "geffect (gsteps s) (crystallize h s a ss b)"
  unfolding crystallize_def validate_hypothesis_def to_float_def crystallize_write_def Let_def
  by (intro effect_intros)

lemma eff_synthesize_from_facts [effect_intros]: "geffect (gsteps s) (synthesize_from_facts fs s)"
  unfolding synthesize_from_facts_def not_synthesized_def confidences_of_def to_float_def
    llm_synthesize_def Let_def
  by (intro effect_intros)

lemma eff_accept_proposal [effect_intros]: "geffect (gsteps s) (accept_proposal p s a r c b)"
  unfolding accept_proposal_def accepted_before_def accept_checks_def accept_write_def enforce_ncb_def
    to_float_def Let_def
  by (intro effect_intros)

lemma eff_revise_from [effect_intros]:
  assumes "\<And>st. geffect (gsteps s) (release st)" "geffect (gsteps s) finish"
  shows "geffect (gsteps s) (revise_from i s oc fs cl release finish b)"
  unfolding revise_from_def not_revised_def replace_belief_def confidences_of_def to_float_def
    llm_synthesize_def Let_def
  by (intro effect_intros assms)

lemma eff_revise_belief [effect_intros]: "geffect (gsteps s) (revise_belief i s b)"
  unfolding revise_belief_def revise_guard_def revise_belief_v2_def revise_belief_v1_def
  by (intro effect_intros)

end
