(* ===== verification/Retention.thy ===== *)
theory Retention
  imports Lifecycle
begin

text \<open>
  Retention (\<open>retention/\<close>): the policy, the sweep of \<open>RetentionService\<close> over one silo, erasure on
  request (\<open>ErasureService\<close>) and the agent-driven \<open>ForgetService\<close>, in the monad of the transactions.

  These services keep their marks (\<open>tombstoned_at\<close>, \<open>retention_run_id\<close>, \<open>heat_dirty\<close>,
  \<open>forget_requested_at\<close>) as properties of the node itself, not in the nested map the transactions
  use.  A timestamp written by \<open>isoformat\<close> is a \<open>VTime\<close>; ISO strings of one format compare as their
  times do.  \<open>execute_query\<close> runs an auto-commit query, so a writing query sent through it writes.
  Stored heat scores are numbers.
\<close>

section \<open>The policy\<close>

record RetentionPolicy =
  ephemeral_max_age_hours :: nat
  standard_max_age_days :: nat
  standard_heat_threshold :: real
  durable_max_age_days :: nat
  durable_heat_threshold :: real
  meta_observation_max_count :: nat
  grace_period_days :: nat
  supersession_chain_max_length :: nat

definition default_policy :: RetentionPolicy where
  "default_policy = \<lparr>ephemeral_max_age_hours = 24, standard_max_age_days = 7,
     standard_heat_threshold = 3 / 10, durable_max_age_days = 30, durable_heat_threshold = 2 / 10,
     meta_observation_max_count = 100, grace_period_days = 7, supersession_chain_max_length = 20\<rparr>"

definition hours :: "nat \<Rightarrow> int" where "hours n = 3600 * int n"
definition days :: "nat \<Rightarrow> int" where "days n = 86400 * int n"

definition is_eligible_for_tombstone :: "RetentionPolicy \<Rightarrow> val \<Rightarrow> int \<Rightarrow> real \<Rightarrow> int \<Rightarrow> bool" where
  "is_eligible_for_tombstone pol decay_class created_at heat_score now =
     (let age = now - created_at in
      if decay_class = VStr ''permanent'' then False
      else if decay_class = VStr ''ephemeral'' then hours (ephemeral_max_age_hours pol) \<le> age
      else if decay_class = VStr ''standard'' then
        days (standard_max_age_days pol) \<le> age \<and> heat_score < standard_heat_threshold pol
      else if decay_class = VStr ''durable'' then
        days (durable_max_age_days pol) \<le> age \<and> heat_score < durable_heat_threshold pol
      else False)"

section \<open>The queries\<close>

abbreviation tombstone_of :: "node \<Rightarrow> val option" where
  "tombstone_of n \<equiv> attrs n ''tombstoned_at''"

record candidate_row =
  cr_id :: string
  cr_decay_class :: val
  cr_created_at :: "val option"
  cr_heat_score :: real

definition heat_or :: "real \<Rightarrow> node \<Rightarrow> real" where
  "heat_or d n = (case num_of (attrs n ''heat_score'') of None \<Rightarrow> d | Some h \<Rightarrow> h)"

definition tombstone_candidate :: "string \<Rightarrow> node \<Rightarrow> bool" where
  "tombstone_candidate silo_id n \<longleftrightarrow> silo n = Some silo_id \<and> attrs n ''decay_class'' \<noteq> None \<and>
     tombstone_of n = None \<and> attrs n ''decay_class'' \<noteq> Some (VStr ''permanent'') \<and>
     attrs n ''memory_type'' \<noteq> Some (VStr ''reflection'')"

definition FIND_TOMBSTONE_CANDIDATES :: "string \<Rightarrow> graph \<Rightarrow> candidate_row list" where
  "FIND_TOMBSTONE_CANDIDATES silo_id g =
     map (\<lambda>n. \<lparr>cr_id = nid n, cr_decay_class = the (attrs n ''decay_class''),
                cr_created_at = attrs n ''created_at'', cr_heat_score = heat_or (1 / 2) n\<rparr>)
       (filter (tombstone_candidate silo_id) (nodes g))"

text \<open>\<open>UNWIND\<close> takes the ids one by one, so a node is tombstoned and returned once.\<close>

definition untombstoned :: "string \<Rightarrow> string \<Rightarrow> node \<Rightarrow> bool" where
  "untombstoned silo_id i n \<longleftrightarrow> is_node i silo_id n \<and> tombstone_of n = None"

fun TOMBSTONE_NODES_BATCH :: "string list \<Rightarrow> string \<Rightarrow> int \<Rightarrow> string \<Rightarrow> graph \<Rightarrow> graph \<times> string list" where
  "TOMBSTONE_NODES_BATCH [] silo_id t run_id g = (g, [])"
| "TOMBSTONE_NODES_BATCH (i # is) silo_id t run_id g =
     (let hit = filter (untombstoned silo_id i) (nodes g);
          g' = update_where (untombstoned silo_id i)
                 (\<lambda>n. set_field ''retention_run_id'' (Some (VStr run_id))
                        (set_field ''tombstoned_at'' (Some (VTime t)) n)) g;
          (g'', rows) = TOMBSTONE_NODES_BATCH is silo_id t run_id g'
      in (g'', map nid hit @ rows))"

definition FIND_HARD_DELETE_CANDIDATES :: "string \<Rightarrow> int \<Rightarrow> graph \<Rightarrow> string list" where
  "FIND_HARD_DELETE_CANDIDATES silo_id grace_cutoff g =
     map nid (filter (\<lambda>n. silo n = Some silo_id \<and>
       (case time_of (tombstone_of n) of None \<Rightarrow> False | Some t \<Rightarrow> t < grace_cutoff)) (nodes g))"

text \<open>\<open>DETACH DELETE n\<close>, and no \<open>RETURN\<close>: the query has no result rows.\<close>

definition HARD_DELETE_NODE :: "string \<Rightarrow> string \<Rightarrow> graph \<Rightarrow> graph \<times> string list" where
  "HARD_DELETE_NODE i silo_id g = (detach_delete (match_id g i silo_id) g, [])"

definition is_reflection :: "string \<Rightarrow> node \<Rightarrow> bool" where
  "is_reflection silo_id n \<longleftrightarrow> has_label ''Memory'' n \<and> silo n = Some silo_id \<and>
     attrs n ''memory_type'' = Some (VStr ''reflection'') \<and> tombstone_of n = None"

text \<open>\<open>ORDER BY n.created_at DESC\<close> puts the absent values first.\<close>

definition newest_first :: "node list \<Rightarrow> node list" where
  "newest_first ns =
     filter (\<lambda>n. time_of (attrs n ''created_at'') = None) ns @
     sort_key (\<lambda>n. - the (time_of (attrs n ''created_at'')))
       (filter (\<lambda>n. time_of (attrs n ''created_at'') \<noteq> None) ns)"

definition FIND_EXCESS_META_OBSERVATIONS :: "string \<Rightarrow> nat \<Rightarrow> graph \<Rightarrow> string list" where
  "FIND_EXCESS_META_OBSERVATIONS silo_id keep_count g =
     map nid (drop keep_count (newest_first (filter (is_reflection silo_id) (nodes g))))"

definition MARK_HEAT_DIRTY :: "string \<Rightarrow> string list \<Rightarrow> graph \<Rightarrow> graph \<times> string list" where
  "MARK_HEAT_DIRTY silo_id ids g =
     (update_where (\<lambda>n. silo n = Some silo_id \<and> nid n \<in> set ids)
        (set_field ''heat_dirty'' (Some (VBool True))) g, [])"

definition orphaned_summary :: "string \<Rightarrow> graph \<Rightarrow> node \<Rightarrow> bool" where
  "orphaned_summary silo_id g n \<longleftrightarrow> has_label ''Event'' n \<and> silo n = Some silo_id \<and>
     attrs n ''event_type'' = Some (VStr ''reasoning_trace'') \<and> attrs n ''source_chain_id'' \<noteq> None \<and>
     tombstone_of n = None \<and>
     filter (\<lambda>c. attrs n ''source_chain_id'' = Some (VStr (nid c)))
       (match_label g ''ReasoningChain'' silo_id) = []"

definition FIND_ORPHANED_SUMMARIES :: "string \<Rightarrow> graph \<Rightarrow> string list" where
  "FIND_ORPHANED_SUMMARIES silo_id g = map nid (filter (orphaned_summary silo_id g) (nodes g))"

section \<open>The sweep\<close>

fun eligible_ids :: "RetentionPolicy \<Rightarrow> int \<Rightarrow> candidate_row list \<Rightarrow> string list tx" where
  "eligible_ids pol now [] = ret []"
| "eligible_ids pol now (row # rows) =
     (case cr_created_at row of
        Some (VTime created_at) \<Rightarrow>
          tbind (eligible_ids pol now rows) (\<lambda>is. ret
            (if is_eligible_for_tombstone pol (cr_decay_class row) created_at (cr_heat_score row) now
             then cr_id row # is else is))
      | Some (VStr not_a_time) \<Rightarrow> raise ValueError
      | _ \<Rightarrow> eligible_ids pol now rows)"

definition find_tombstone_candidates :: "RetentionPolicy \<Rightarrow> string \<Rightarrow> string list tx" where
  "find_tombstone_candidates pol silo_id =
     tbind datetime_now (\<lambda>now.
     tbind (execute_query (FIND_TOMBSTONE_CANDIDATES silo_id)) (\<lambda>rows.
     eligible_ids pol now rows))"

definition tombstone_nodes :: "string list \<Rightarrow> string \<Rightarrow> string \<Rightarrow> nat tx" where
  "tombstone_nodes node_ids silo_id run_id =
     (if node_ids = [] then ret 0
      else tbind datetime_now (\<lambda>now.
        tbind (execute_write (TOMBSTONE_NODES_BATCH node_ids silo_id now run_id)) (\<lambda>tombstoned_ids.
        tbind (twhen (tombstoned_ids \<noteq> [])
                 (tbind (execute_write (MARK_HEAT_DIRTY silo_id tombstoned_ids)) (\<lambda>_. ret ()))) (\<lambda>_.
        ret (length tombstoned_ids)))))"

definition find_hard_delete_candidates :: "RetentionPolicy \<Rightarrow> string \<Rightarrow> string list tx" where
  "find_hard_delete_candidates pol silo_id =
     tbind datetime_now (\<lambda>now.
     execute_query (FIND_HARD_DELETE_CANDIDATES silo_id (now - days (grace_period_days pol))))"

definition hard_delete_node :: "bool \<Rightarrow> string \<Rightarrow> string \<Rightarrow> bool tx" where
  "hard_delete_node qdrant_store node_id silo_id =
     tbind (execute_write (HARD_DELETE_NODE node_id silo_id)) (\<lambda>result.
     if result = [] then ret False
     else if \<not> qdrant_store then ret True
     else if \<not> uuid_ok node_id then ret False
     else tbind (forget_vector silo_id node_id) (\<lambda>_. ret True))"

definition hard_delete_nodes :: "bool \<Rightarrow> string list \<Rightarrow> string \<Rightarrow> nat tx" where
  "hard_delete_nodes qdrant_store node_ids silo_id =
     tbind (tfor node_ids (\<lambda>i. hard_delete_node qdrant_store i silo_id)) (\<lambda>deleted.
     ret (length (filter (\<lambda>d. d) deleted)))"

definition tombstone_excess_meta_observations :: "RetentionPolicy \<Rightarrow> string \<Rightarrow> string \<Rightarrow> nat tx" where
  "tombstone_excess_meta_observations pol silo_id run_id =
     tbind (execute_query (FIND_EXCESS_META_OBSERVATIONS silo_id (meta_observation_max_count pol))) (\<lambda>excess_ids.
     if excess_ids \<noteq> [] then tombstone_nodes excess_ids silo_id run_id else ret 0)"

definition tombstone_orphaned_summaries :: "string \<Rightarrow> string \<Rightarrow> nat tx" where
  "tombstone_orphaned_summaries silo_id run_id =
     tbind (execute_query (FIND_ORPHANED_SUMMARIES silo_id)) (\<lambda>orphan_ids.
     if orphan_ids \<noteq> [] then tombstone_nodes orphan_ids silo_id run_id else ret 0)"

record sweep_result =
  sw_tombstoned :: nat
  sw_meta_tombstoned :: nat
  sw_orphan_tombstoned :: nat
  sw_deleted :: nat
  sw_run_id :: string

definition run_sweep :: "RetentionPolicy \<Rightarrow> bool \<Rightarrow> string \<Rightarrow> sweep_result tx" where
  "run_sweep pol qdrant_store silo_id =
     tbind new_uuid (\<lambda>run_id.
     tbind (find_tombstone_candidates pol silo_id) (\<lambda>candidates.
     tbind (tombstone_nodes candidates silo_id run_id) (\<lambda>tombstoned.
     tbind (tombstone_excess_meta_observations pol silo_id run_id) (\<lambda>meta_tombstoned.
     tbind (tombstone_orphaned_summaries silo_id run_id) (\<lambda>orphan_tombstoned.
     tbind (find_hard_delete_candidates pol silo_id) (\<lambda>delete_candidates.
     tbind (hard_delete_nodes qdrant_store delete_candidates silo_id) (\<lambda>deleted.
     ret \<lparr>sw_tombstoned = tombstoned, sw_meta_tombstoned = meta_tombstoned,
          sw_orphan_tombstoned = orphan_tombstoned, sw_deleted = deleted, sw_run_id = run_id\<rparr>)))))))"

section \<open>Erasure\<close>

definition FIND_REFERENCING_NODES :: "string \<Rightarrow> string \<Rightarrow> graph \<Rightarrow> string list" where
  "FIND_REFERENCING_NODES i silo_id g =
     remdups (map nid (filter (\<lambda>n. silo n = Some silo_id \<and> nid n \<noteq> i \<and>
       list_ex (\<lambda>e. esrc e = vid n \<and> edst e \<in> vid ` set (match_id g i silo_id)) (edges g)) (nodes g)))"

record ErasureAuditLog =
  au_silo_id :: string
  au_request_id :: string
  au_requester_type :: string
  au_requester_id :: "string option"
  au_node_ids :: "string list"
  au_cascade_count :: nat
  au_status :: string
  au_error_details :: "(string \<times> string) list"
  au_requested_at :: int
  au_completed_at :: int

record erasure_result =
  er_request_id :: string
  er_status :: string
  er_cascade_count :: nat
  er_erased_ids :: "string list"
  er_failed_ids :: "string list"

fun add_new :: "string list \<Rightarrow> string list \<Rightarrow> string list" where
  "add_new [] acc = acc"
| "add_new (r # rs) acc = (if r \<in> set acc then add_new rs acc else add_new rs (acc @ [r]))"

fun cascade_targets :: "string \<Rightarrow> string list \<Rightarrow> string list \<Rightarrow> string list tx" where
  "cascade_targets silo_id [] acc = ret acc"
| "cascade_targets silo_id (i # is) acc =
     tbind (execute_query (FIND_REFERENCING_NODES i silo_id)) (\<lambda>refs.
     cascade_targets silo_id is (add_new refs acc))"

definition erasure_status :: "string list \<Rightarrow> string list \<Rightarrow> string" where
  "erasure_status erased failed =
     (if failed = [] then ''completed'' else if erased = [] then ''failed'' else ''partial'')"

text \<open>The commit of the audit row is one more call that may fail.\<close>

definition commit_audit :: "ErasureAuditLog \<Rightarrow> ErasureAuditLog tx" where
  "commit_audit row = tbind (execute_query (\<lambda>_. ())) (\<lambda>_. ret row)"

definition erase ::
  "bool \<Rightarrow> string list \<Rightarrow> string \<Rightarrow> string \<Rightarrow> string option \<Rightarrow> bool \<Rightarrow> (erasure_result \<times> ErasureAuditLog) tx" where
  "erase qdrant_store node_ids silo_id requester_type requester_id cascade =
     tbind new_uuid (\<lambda>request_id.
     tbind datetime_now (\<lambda>requested_at.
     tbind (if cascade then cascade_targets silo_id node_ids node_ids else ret node_ids) (\<lambda>all_node_ids.
     let cascade_count = length all_node_ids - length node_ids in
     tbind (tfor all_node_ids (\<lambda>i. tbind (attempt (hard_delete_node qdrant_store i silo_id))
              (\<lambda>r. ret (i, r)))) (\<lambda>outcomes.
     let erased_ids = map fst (filter (\<lambda>(_, r). r = Inr True) outcomes);
         failed = filter (\<lambda>(_, r). r \<noteq> Inr True) outcomes;
         failed_ids = map fst failed;
         status = erasure_status erased_ids failed_ids in
     tbind datetime_now (\<lambda>completed_at.
     tbind (commit_audit \<lparr>au_silo_id = silo_id, au_request_id = request_id,
         au_requester_type = requester_type, au_requester_id = requester_id,
         au_node_ids = erased_ids @ failed_ids, au_cascade_count = cascade_count, au_status = status,
         au_error_details = dict_of (map (\<lambda>(i, r). (i, case r of Inl _ \<Rightarrow> ''error'' | Inr _ \<Rightarrow> ''node not found'')) failed),
         au_requested_at = requested_at, au_completed_at = completed_at\<rparr>) (\<lambda>audit_log.
     ret (\<lparr>er_request_id = request_id, er_status = status, er_cascade_count = cascade_count,
           er_erased_ids = erased_ids, er_failed_ids = failed_ids\<rparr>, audit_log)))))))"

section \<open>Agent-driven forget\<close>

definition FORGET_NODE :: "string \<Rightarrow> string \<Rightarrow> int \<Rightarrow> int \<Rightarrow> graph \<Rightarrow> graph \<times> (string \<times> nat) list" where
  "FORGET_NODE i silo_id t req g =
     (let hit = filter (untombstoned silo_id i) (nodes g);
          g' = update_where (untombstoned silo_id i)
                 (\<lambda>n. set_field ''heat_dirty'' (Some (VBool True))
                        (set_field ''forget_requested_at'' (Some (VTime req))
                          (set_field ''tombstoned_at'' (Some (VTime t)) n))) g
      in (g', if hit = [] then [] else [(i, length (filter (\<lambda>e. edst e \<in> vid ` set hit \<and>
                (case node_at g' (esrc e) of None \<Rightarrow> False | Some m \<Rightarrow> tombstone_of m = None)) (edges g')))]))"

datatype forget_outcome = NotFound string | Tombstoned string nat int | CancelWindowExpired string
  | Cancelled string int

definition service_forget :: "string \<Rightarrow> string \<Rightarrow> forget_outcome tx" where
  "service_forget node_id silo_id =
     tbind datetime_now (\<lambda>now.
     tbind (execute_write (FORGET_NODE node_id silo_id now now)) (\<lambda>result.
     case result of [] \<Rightarrow> ret (NotFound node_id)
     | (_, downstream) # _ \<Rightarrow> ret (Tombstoned node_id downstream now)))"

text \<open>
  \<open>n.forget_requested_at > $cancel_cutoff\<close> compares with an integer number of microseconds.  Two
  numbers compare as such; a string (the ISO timestamp \<open>forget\<close> stores) and a number do not: the
  condition is \<open>null\<close>, or, where the database is strict about types, the query fails.
\<close>

definition after_cutoff :: "val \<Rightarrow> int \<Rightarrow> bool option" where
  "after_cutoff v cutoff = (case v of VInt m \<Rightarrow> Some (cutoff < m) | VNum x \<Rightarrow> Some (of_int cutoff < x) | _ \<Rightarrow> None)"

definition CANCEL_FORGET :: "bool \<Rightarrow> string \<Rightarrow> string \<Rightarrow> int \<Rightarrow> graph \<Rightarrow> (graph \<times> string list) option" where
  "CANCEL_FORGET strict i silo_id cutoff g =
     (let asked = (\<lambda>n. is_node i silo_id n \<and> attrs n ''forget_requested_at'' \<noteq> None);
          hit = (\<lambda>n. asked n \<and> after_cutoff (the (attrs n ''forget_requested_at'')) cutoff = Some True)
      in if strict \<and> list_ex (\<lambda>n. asked n \<and> after_cutoff (the (attrs n ''forget_requested_at'')) cutoff = None) (nodes g)
         then None
         else Some (update_where hit (\<lambda>n. set_field ''heat_dirty'' (Some (VBool True))
                (set_field ''retention_run_id'' None (set_field ''forget_requested_at'' None
                  (set_field ''tombstoned_at'' None n)))) g, map nid (filter hit (nodes g))))"

definition service_cancel_forget :: "bool \<Rightarrow> nat \<Rightarrow> string \<Rightarrow> string \<Rightarrow> forget_outcome tx" where
  "service_cancel_forget strict cancel_window_hours node_id silo_id =
     tbind datetime_now (\<lambda>now.
     let cancel_cutoff = 1000000 * now - int cancel_window_hours * 3600 * 1000000 in
     tbind (execute_query (\<lambda>g. match_id g node_id silo_id)) (\<lambda>check_result.
     if check_result = [] then ret (NotFound node_id)
     else tbind (execute_write_checked (CANCEL_FORGET strict node_id silo_id cancel_cutoff)) (\<lambda>result.
       if result = [] then ret (CancelWindowExpired node_id) else ret (Cancelled node_id now))))"

section \<open>Retention stays within its silo\<close>

lemma gsteps_tombstone_batch: "gsteps s g (fst (TOMBSTONE_NODES_BATCH is s t r g))"
proof (induction "is" arbitrary: g)
  case (Cons i "is")
  let ?f = "\<lambda>n. set_field ''retention_run_id'' (Some (VStr r)) (set_field ''tombstoned_at'' (Some (VTime t)) n)"
  let ?g = "update_where (untombstoned s i) ?f g"
  have "gsteps s g ?g"
    by (rule gsteps_update) (auto simp: untombstoned_def is_node_def identity_kept_def has_label_def)
  moreover have "gsteps s ?g (fst (TOMBSTONE_NODES_BATCH is s t r ?g))" by (rule Cons)
  ultimately show ?case by (auto simp: Let_def split: prod.split)
qed simp

lemma eff_tombstone_batch [effect_intros]: "geffect (gsteps s) (execute_write (TOMBSTONE_NODES_BATCH is s t r))"
  by (rule in_silo.eff_write) (rule gsteps_tombstone_batch)

lemma eff_heat_dirty [effect_intros]: "geffect (gsteps s) (execute_write (MARK_HEAT_DIRTY s is))"
  by (rule in_silo.eff_write) (auto simp: MARK_HEAT_DIRTY_def intro!: gsteps_update)

lemma eff_eligible_ids [effect_intros]: "geffect (gsteps s) (eligible_ids pol now rows)"
  by (induction pol now rows rule: eligible_ids.induct)
     (auto split: option.split val.split intro!: effect_intros)

lemma eff_tombstone_nodes [effect_intros]: "geffect (gsteps s) (tombstone_nodes is s r)"
  by (auto simp: tombstone_nodes_def intro!: effect_intros)

lemma eff_sweep_parts [effect_intros]:
  "geffect (gsteps s) (find_tombstone_candidates pol s)"
  "geffect (gsteps s) (tombstone_excess_meta_observations pol s r)"
  "geffect (gsteps s) (tombstone_orphaned_summaries s r)"
  "geffect (gsteps s) (find_hard_delete_candidates pol s)"
  by (auto simp: find_tombstone_candidates_def tombstone_excess_meta_observations_def
      tombstone_orphaned_summaries_def find_hard_delete_candidates_def intro!: effect_intros)

lemma eff_detach_delete [effect_intros]: "geffect (safe_steps s) (execute_write (HARD_DELETE_NODE i s))"
  by (rule safe.eff_write)
     (auto simp: HARD_DELETE_NODE_def safe_steps_def match_id_iff intro!: gsteps_detach_delete)

lemma eff_forget_vector: "geffect (gsteps s) (forget_vector t i)"
  by (auto simp: forget_vector_def intro!: effect_intros)

lemma eff_retention_delete_node [effect_intros]: "geffect (safe_steps s) (hard_delete_node q i s)"
  unfolding hard_delete_node_def by (intro effect_intros geffect_safe [OF eff_forget_vector])

lemma eff_run_sweep [effect_intros]: "geffect (safe_steps s) (run_sweep pol q s)"
  unfolding run_sweep_def hard_delete_nodes_def
  by (intro effect_intros geffect_safe [OF eff_sweep_parts(1)] geffect_safe [OF eff_tombstone_nodes]
      geffect_safe [OF eff_sweep_parts(2)] geffect_safe [OF eff_sweep_parts(3)] geffect_safe [OF eff_sweep_parts(4)])

lemma eff_cascade_targets [effect_intros]: "geffect (gsteps s) (cascade_targets t is acc)"
  by (induction t "is" acc rule: cascade_targets.induct) (auto intro!: effect_intros)

lemma eff_erase [effect_intros]: "geffect (safe_steps s) (erase q is s rt ri c)"
  unfolding erase_def commit_audit_def attempt_def Let_def
  by (intro effect_intros geffect_safe [OF eff_cascade_targets])

lemma eff_service_forget [effect_intros]: "geffect (gsteps s) (service_forget i s)"
proof -
  have "geffect (gsteps s) (execute_write (FORGET_NODE i s t r))" for t r
    by (rule in_silo.eff_write)
       (auto simp: FORGET_NODE_def Let_def untombstoned_def is_node_def identity_kept_def has_label_def
         intro!: gsteps_update)
  then show ?thesis unfolding service_forget_def by (intro effect_intros)
qed

lemma eff_service_cancel_forget [effect_intros]: "geffect (gsteps s) (service_cancel_forget st h i s)"
proof -
  have "geffect (gsteps s) (execute_write_checked (CANCEL_FORGET st i s c))" for c
    by (rule in_silo.eff_write_checked)
       (auto simp: CANCEL_FORGET_def Let_def is_node_def identity_kept_def has_label_def
         split: if_splits intro!: gsteps_update)
  then show ?thesis unfolding service_cancel_forget_def Let_def by (intro effect_intros)
qed

end
