(* ===== verification/TextExtraction.thy ===== *)
theory TextExtraction
  imports Prelude
begin

text \<open>
  Extraction of entities and relationships from text: the type classifier
  (\<open>extraction/type_classifier.py\<close>), the closed vocabulary and its type matrix
  (\<open>extraction/models.py\<close>), deterministic ids (\<open>extraction/identity.py\<close>), and how
  \<open>ExtractionService.extract\<close> (\<open>extraction/service.py\<close>) turns the answer of the language model,
  an arbitrary JSON object, into typed relationships.
\<close>

section \<open>Type classes\<close>

datatype TypeClass = AGENT | ORGANIZATION | ARTIFACT | CONCEPT | EVENT | LOCATION

text \<open>Lower-case runs of letters and digits (\<open>re.findall(r"[a-z0-9]+", ..)\<close>).\<close>

definition word_char :: "char \<Rightarrow> bool" where
  "word_char c = (let k = of_char c :: nat in 97 \<le> k \<and> k \<le> 122 \<or> 48 \<le> k \<and> k \<le> 57)"

function words :: "string \<Rightarrow> string list" where
  "words s = (let r = dropWhile (\<lambda>c. \<not> word_char c) s in
     if r = [] then [] else takeWhile word_char r # words (dropWhile word_char r))"
  by auto

lemma words_shorter:
  assumes "dropWhile (\<lambda>c. \<not> word_char c) s = r" "r \<noteq> []"
  shows "length (dropWhile word_char r) < length s"
proof -
  from assms have "word_char (hd r)" by (metis hd_dropWhile)
  then have "dropWhile word_char r = dropWhile word_char (tl r)" using assms(2) by (cases r) auto
  moreover have "length r \<le> length s" using assms(1) length_dropWhile_le by auto
  moreover have "length (dropWhile word_char (tl r)) \<le> length (tl r)" by (rule length_dropWhile_le)
  ultimately show ?thesis using assms(2) by (cases r) auto
qed

termination words
  by (relation "measure length") (auto intro: words_shorter)

declare words.simps [simp del]

definition tokenize :: "string \<Rightarrow> string list" where
  "tokenize t = words (map lower_char t)"

text \<open>Counts of the trigrams of \<open>#text#\<close>, in the order of their first occurrence.\<close>

definition char_ngrams :: "nat \<Rightarrow> string \<Rightarrow> (string \<times> nat) list" where
  "char_ngrams n t = (let padded = ''#'' @ t @ ''#'' in
     fold (\<lambda>i ngrams. let gram = take n (drop i padded) in
         AList.update gram (case map_of ngrams gram of None \<Rightarrow> 1 | Some k \<Rightarrow> Suc k) ngrams)
       [0..<Suc (length padded) - n] [])"

definition ngram_norm :: "(string \<times> nat) list \<Rightarrow> real" where
  "ngram_norm a = sqrt (sum_list (map (\<lambda>(_, v). real v * real v) a))"

definition cosine :: "(string \<times> nat) list \<Rightarrow> (string \<times> nat) list \<Rightarrow> real" where
  "cosine a b =
     (if a = [] \<or> b = [] then 0
      else let dot = sum_list (map (\<lambda>(k, v). (case map_of a k of None \<Rightarrow> 0 | Some x \<Rightarrow> real x) * real v) b)
        in if ngram_norm a = 0 \<or> ngram_norm b = 0 then 0 else dot / (ngram_norm a * ngram_norm b))"

definition THRESHOLD :: real where "THRESHOLD = 15 / 100"

text \<open>The centroid tokens of \<open>class_centroids.json\<close>.\<close>

definition centroids :: "(TypeClass \<times> string list) list" where
  "centroids = [
     (AGENT, [''person'', ''user'', ''bot'', ''team'', ''engineer'']),
     (ORGANIZATION, [''company'', ''department'', ''startup'', ''group'']),
     (ARTIFACT, [''document'', ''file'', ''code'', ''module'', ''api'']),
     (CONCEPT, [''topic'', ''theme'', ''idea'', ''pattern'', ''goal'']),
     (EVENT, [''meeting'', ''deployment'', ''incident'', ''release'']),
     (LOCATION, [''city'', ''region'', ''address'', ''country''])]"

definition token_to_class :: "(string \<times> TypeClass) list" where
  "token_to_class = dict_of (concat (map (\<lambda>(cls, toks). map (\<lambda>tok. (tok, cls)) toks) centroids))"

definition better :: "(string \<times> nat) list \<Rightarrow> TypeClass \<Rightarrow> string \<Rightarrow> TypeClass option \<times> real \<Rightarrow> TypeClass option \<times> real" where
  "better query cls tok best = (let score = cosine query (char_ngrams 3 tok) in
     if snd best < score then (Some cls, score) else best)"

definition nearest :: "string \<Rightarrow> TypeClass option \<times> real" where
  "nearest normalized = fold (\<lambda>(cls, toks). fold (better (char_ngrams 3 normalized) cls) toks) centroids (None, 0)"

definition classify :: "string \<Rightarrow> TypeClass option" where
  "classify entity_type =
     (if entity_type = [] then None
      else let normalized = strip (map lower_char entity_type) in
        case map_of token_to_class normalized of
          Some cls \<Rightarrow> Some cls
        | None \<Rightarrow>
            (case find (\<lambda>tok. map_of token_to_class tok \<noteq> None) (tokenize normalized) of
               Some tok \<Rightarrow> map_of token_to_class tok
             | None \<Rightarrow> if THRESHOLD \<le> snd (nearest normalized) then fst (nearest normalized) else None))"

section \<open>The closed vocabulary\<close>

datatype RelationshipType =
    COMPOSES | DEPENDS_ON | DERIVES_FROM | SPECIALIZES | INSTANTIATES | CAUSES | PREVENTS
  | CORROBORATES | CONTRADICTS | REFERENCES | RELATED_TO

definition relationship_types :: "RelationshipType list" where
  "relationship_types = [COMPOSES, DEPENDS_ON, DERIVES_FROM, SPECIALIZES, INSTANTIATES, CAUSES, PREVENTS,
     CORROBORATES, CONTRADICTS, REFERENCES, RELATED_TO]"

fun type_value :: "RelationshipType \<Rightarrow> string" where
  "type_value COMPOSES = ''COMPOSES''"
| "type_value DEPENDS_ON = ''DEPENDS_ON''"
| "type_value DERIVES_FROM = ''DERIVES_FROM''"
| "type_value SPECIALIZES = ''SPECIALIZES''"
| "type_value INSTANTIATES = ''INSTANTIATES''"
| "type_value CAUSES = ''CAUSES''"
| "type_value PREVENTS = ''PREVENTS''"
| "type_value CORROBORATES = ''CORROBORATES''"
| "type_value CONTRADICTS = ''CONTRADICTS''"
| "type_value REFERENCES = ''REFERENCES''"
| "type_value RELATED_TO = ''RELATED_TO''"

text \<open>\<open>RelationshipType(s)\<close>; \<open>None\<close> stands for its \<open>ValueError\<close>.\<close>

definition type_of_value :: "string \<Rightarrow> RelationshipType option" where
  "type_of_value s = find (\<lambda>t. type_value t = s) relationship_types"

type_synonym matrix_row = "TypeClass list option \<times> RelationshipType \<times> TypeClass list option"

definition CLASS_MATRIX :: "matrix_row list" where
  "CLASS_MATRIX = [
     (None, COMPOSES, Some [ARTIFACT, ORGANIZATION]),
     (Some [ARTIFACT, CONCEPT], DEPENDS_ON, Some [ARTIFACT, CONCEPT]),
     (None, DERIVES_FROM, None),
     (None, SPECIALIZES, None),
     (None, INSTANTIATES, Some [CONCEPT]),
     (Some [EVENT, AGENT], CAUSES, None),
     (Some [AGENT, ARTIFACT, CONCEPT], PREVENTS, Some [EVENT, CONCEPT]),
     (None, CORROBORATES, None),
     (None, CONTRADICTS, None),
     (None, REFERENCES, None),
     (None, RELATED_TO, None)]"

definition admits :: "TypeClass list option \<Rightarrow> TypeClass option \<Rightarrow> bool" where
  "admits allowed cls = (case allowed of None \<Rightarrow> True
     | Some cs \<Rightarrow> (case cls of None \<Rightarrow> False | Some c \<Rightarrow> c \<in> set cs))"

definition is_valid :: "string \<Rightarrow> RelationshipType \<Rightarrow> string \<Rightarrow> bool" where
  "is_valid source_type edge_label target_type =
     (if source_type = [] \<or> target_type = [] then False
      else let src_class = classify source_type; tgt_class = classify target_type in
        list_ex (\<lambda>(src_allowed, label, tgt_allowed).
            label = edge_label \<and> admits src_allowed src_class \<and> admits tgt_allowed tgt_class) CLASS_MATRIX)"

definition SYMMETRIC_RELATIONSHIP_TYPES :: "RelationshipType list" where
  "SYMMETRIC_RELATIONSHIP_TYPES = [CONTRADICTS, RELATED_TO]"

section \<open>Deterministic ids\<close>

fun join :: "string \<Rightarrow> string list \<Rightarrow> string" where
  "join sep [] = []"
| "join sep [x] = x"
| "join sep (x # y # xs) = x @ sep @ join sep (y # xs)"

text \<open>The cryptographic hash is the argument \<open>sha256\<close>.\<close>

definition claim_id :: "(string \<Rightarrow> string) \<Rightarrow> string \<Rightarrow> string \<Rightarrow> string \<Rightarrow> string \<Rightarrow> string option \<Rightarrow> string \<Rightarrow> string" where
  "claim_id sha256 subject_canonical predicate object_canonical valid_from valid_to source_doc_id =
     sha256 (join '':'' [subject_canonical, predicate, object_canonical, valid_from, or_else valid_to [], source_doc_id])"

text \<open>The order of two strings by code points.\<close>

fun str_le :: "string \<Rightarrow> string \<Rightarrow> bool" where
  "str_le [] ys = True"
| "str_le (x # xs) [] = False"
| "str_le (x # xs) (y # ys) =
     ((of_char x :: nat) < of_char y \<or> x = y \<and> str_le xs ys)"

definition contradicts_edge_id :: "(string \<Rightarrow> string) \<Rightarrow> string \<Rightarrow> string \<Rightarrow> string" where
  "contradicts_edge_id sha256 fingerprint_a fingerprint_b =
     sha256 (join '':'' (if str_le fingerprint_a fingerprint_b then [fingerprint_a, fingerprint_b]
                         else [fingerprint_b, fingerprint_a]))"

lemma str_le_total: "str_le a b \<or> str_le b a"
  by (induction a b rule: str_le.induct) auto

lemma str_le_antisym: "str_le a b \<Longrightarrow> str_le b a \<Longrightarrow> a = b"
proof (induction a b rule: str_le.induct)
  case (1 ys)
  then show ?case by (cases ys) auto
qed auto

lemma contradicts_edge_id_sym: "contradicts_edge_id sha256 b a = contradicts_edge_id sha256 a b"
  using str_le_total [of a b] str_le_antisym [of a b] by (auto simp: contradicts_edge_id_def)

section \<open>The answer of the language model\<close>

datatype jvalue =
    JNull
  | JBool bool
  | JInt int
  | JNum real
  | JStr string
  | JList "jvalue list"
  | JObj "(string \<times> jvalue) list"

fun jtruthy :: "jvalue \<Rightarrow> bool" where
  "jtruthy JNull = False"
| "jtruthy (JBool b) = b"
| "jtruthy (JInt i) = (i \<noteq> 0)"
| "jtruthy (JNum x) = (x \<noteq> 0)"
| "jtruthy (JStr s) = (s \<noteq> [])"
| "jtruthy (JList xs) = (xs \<noteq> [])"
| "jtruthy (JObj kvs) = (kvs \<noteq> [])"

datatype exn = ExtractionError | TypeError | AttributeError | OverflowError | RelationshipValidationError

text \<open>\<open>for x in v\<close>: a string yields its characters and an object its keys.\<close>

fun jiter :: "jvalue \<Rightarrow> exn + jvalue list" where
  "jiter (JList xs) = Inr xs"
| "jiter (JStr s) = Inr (map (\<lambda>c. JStr [c]) s)"
| "jiter (JObj kvs) = Inr (map (\<lambda>(k, _). JStr k) kvs)"
| "jiter _ = Inl TypeError"

text \<open>\<open>v.get\<close> exists on objects only.\<close>

fun jobj :: "jvalue \<Rightarrow> exn + (string \<times> jvalue) list" where
  "jobj (JObj kvs) = Inr kvs"
| "jobj _ = Inl AttributeError"

definition jget :: "(string \<times> jvalue) list \<Rightarrow> string \<Rightarrow> jvalue \<Rightarrow> jvalue" where
  "jget kvs k d = (case map_of kvs k of None \<Rightarrow> d | Some v \<Rightarrow> v)"

text \<open>\<open>r.get(k1) or r.get(k2) or ..\<close>: the first truthy value, else the last one.\<close>

fun first_of :: "(string \<times> jvalue) list \<Rightarrow> string list \<Rightarrow> jvalue" where
  "first_of r [] = JNull"
| "first_of r [k] = jget r k JNull"
| "first_of r (k # l # ks) = (if jtruthy (jget r k JNull) then jget r k JNull else first_of r (l # ks))"

text \<open>
  What the model leaves open of Python: the text \<open>str(v)\<close> of a value that is no string, and the
  number \<open>float(s)\<close> reads from a string (\<open>None\<close> for its \<open>ValueError\<close>; \<open>inf\<close> and
  \<open>nan\<close> may be read as any number from 1 on, as the clamp that follows treats them).
\<close>

record python =
  repr_of :: "jvalue \<Rightarrow> string"
  float_of :: "string \<Rightarrow> real option"

definition py_str :: "python \<Rightarrow> jvalue \<Rightarrow> string" where
  "py_str py v = (case v of JStr s \<Rightarrow> s | _ \<Rightarrow> repr_of py v)"

text \<open>
  \<open>try: float(v) except (TypeError, ValueError): 1.0\<close>.  An integer that rounds to no double raises
  \<open>OverflowError\<close>, which is not caught.
\<close>

definition FLOAT_LIMIT :: int where "FLOAT_LIMIT = 2 ^ 1024 - 2 ^ 970"

fun float_or_one :: "python \<Rightarrow> jvalue \<Rightarrow> exn + real" where
  "float_or_one py (JNum x) = Inr x"
| "float_or_one py (JInt i) = (if FLOAT_LIMIT \<le> \<bar>i\<bar> then Inl OverflowError else Inr (of_int i))"
| "float_or_one py (JBool b) = Inr (if b then 1 else 0)"
| "float_or_one py (JStr s) = Inr (case float_of py s of None \<Rightarrow> 1 | Some x \<Rightarrow> x)"
| "float_or_one py _ = Inr 1"

section \<open>Entities and relationships\<close>

record ExtractedEntity =
  name :: jvalue
  entity_type :: jvalue
  description :: jvalue
  qualified_name :: jvalue
  file_path :: jvalue

record ExtractedRelationship =
  source :: jvalue
  target :: jvalue
  relationship_type :: RelationshipType
  kind :: string
  directed :: bool
  confidence :: real
  temporal :: jvalue
  source_node_ids :: "string list"

text \<open>\<open>ExtractedRelationship.__post_init__\<close>, for a type that is a member of the vocabulary already.\<close>

definition post_init :: "ExtractedRelationship \<Rightarrow> exn + ExtractedRelationship" where
  "post_init r =
     (if temporal r \<noteq> JNull \<and> temporal r \<notin> {JStr ''past'', JStr ''future''} then Inl RelationshipValidationError
      else if \<not> (0 \<le> confidence r \<and> confidence r \<le> 1) then Inl RelationshipValidationError
      else Inr r)"

definition synonyms :: "(string \<times> string) list" where
  "synonyms = [
     (''CONTAINS'', ''COMPOSES''), (''PART_OF'', ''COMPOSES''), (''HAS'', ''COMPOSES''),
     (''USES'', ''DEPENDS_ON''), (''REQUIRES'', ''DEPENDS_ON''), (''NEEDS'', ''DEPENDS_ON''),
     (''IS_A'', ''SPECIALIZES''), (''TYPE_OF'', ''SPECIALIZES''), (''KIND_OF'', ''SPECIALIZES''),
     (''INSTANCE_OF'', ''INSTANTIATES''), (''EXAMPLE_OF'', ''INSTANTIATES''),
     (''LEADS_TO'', ''CAUSES''), (''RESULTS_IN'', ''CAUSES''), (''TRIGGERS'', ''CAUSES''),
     (''BLOCKS'', ''PREVENTS''), (''INHIBITS'', ''PREVENTS''), (''STOPS'', ''PREVENTS''),
     (''SUPPORTS'', ''CORROBORATES''), (''CONFIRMS'', ''CORROBORATES''),
     (''OPPOSES'', ''CONTRADICTS''), (''CONFLICTS_WITH'', ''CONTRADICTS''),
     (''MENTIONS'', ''REFERENCES''), (''CITES'', ''REFERENCES''), (''DESCRIBES'', ''REFERENCES''),
     (''ASSOCIATED_WITH'', ''RELATED_TO''), (''CONNECTED_TO'', ''RELATED_TO'')]"

definition normalize_type :: "string \<Rightarrow> RelationshipType" where
  "normalize_type raw =
     (let s = replace_char (CHR ''-'') (CHR ''_'') (replace_char (CHR '' '') (CHR ''_'') (map upper_char raw));
          s' = (case map_of synonyms s of None \<Rightarrow> s | Some t \<Rightarrow> t)
      in case type_of_value s' of None \<Rightarrow> RELATED_TO | Some t \<Rightarrow> t)"

definition normalize_kind :: "python \<Rightarrow> jvalue \<Rightarrow> string" where
  "normalize_kind py v =
     replace_char (CHR '' '') (CHR ''_'') (map lower_char (strip (if jtruthy v then py_str py v else [])))"

definition parse_directed :: "(string \<times> jvalue) list \<Rightarrow> RelationshipType \<Rightarrow> bool" where
  "parse_directed r rel_type =
     (case map_of r ''directed'' of
        None \<Rightarrow> rel_type \<notin> set SYMMETRIC_RELATIONSHIP_TYPES
      | Some JNull \<Rightarrow> rel_type \<notin> set SYMMETRIC_RELATIONSHIP_TYPES
      | Some v \<Rightarrow> jtruthy v)"

definition parse_temporal :: "(string \<times> jvalue) list \<Rightarrow> jvalue" where
  "parse_temporal r = (let t = jget r ''temporal'' JNull in
     if t \<in> {JNull, JStr ''past'', JStr ''future''} then t else JNull)"

definition parse_source_node_ids :: "python \<Rightarrow> (string \<times> jvalue) list \<Rightarrow> string list" where
  "parse_source_node_ids py r = (case jget r ''source_node_ids'' JNull of JList xs \<Rightarrow> map (py_str py) xs | _ \<Rightarrow> [])"

definition has_parts :: "(string \<times> jvalue) list \<Rightarrow> bool" where
  "has_parts r \<longleftrightarrow> jtruthy (first_of r [''source'', ''from'', ''src'', ''source_entity'']) \<and>
     jtruthy (first_of r [''target'', ''to'', ''tgt'', ''target_entity'']) \<and>
     jtruthy (first_of r [''relationship_type'', ''type'', ''relation'', ''rel_type''])"

text \<open>One relationship; \<open>None\<close> when it is skipped.\<close>

definition parse_relationship :: "python \<Rightarrow> (string \<times> jvalue) list \<Rightarrow> exn + ExtractedRelationship option" where
  "parse_relationship py r =
     (if \<not> has_parts r then Inr None
      else let rel_type = normalize_type (py_str py (first_of r [''relationship_type'', ''type'', ''relation'', ''rel_type''])) in
        case float_or_one py (jget r ''confidence'' (JNum 1)) of
          Inl x \<Rightarrow> Inl x
        | Inr c \<Rightarrow>
            (case post_init \<lparr>source = first_of r [''source'', ''from'', ''src'', ''source_entity''],
                 target = first_of r [''target'', ''to'', ''tgt'', ''target_entity''],
                 relationship_type = rel_type,
                 kind = normalize_kind py (jget r ''kind'' JNull),
                 directed = parse_directed r rel_type,
                 confidence = clamp01 c,
                 temporal = parse_temporal r,
                 source_node_ids = parse_source_node_ids py r\<rparr> of
               Inl _ \<Rightarrow> Inr None
             | Inr rel \<Rightarrow> Inr (Some rel)))"

text \<open>A loop that stops at the first exception.\<close>

fun traverse :: "('a \<Rightarrow> exn + 'b option) \<Rightarrow> 'a list \<Rightarrow> exn + 'b list" where
  "traverse f [] = Inr []"
| "traverse f (x # xs) = (case f x of Inl e \<Rightarrow> Inl e
     | Inr y \<Rightarrow> (case traverse f xs of Inl e \<Rightarrow> Inl e | Inr ys \<Rightarrow> Inr (case y of None \<Rightarrow> ys | Some z \<Rightarrow> z # ys)))"

definition parse_entity :: "(string \<times> jvalue) list \<Rightarrow> ExtractedEntity option" where
  "parse_entity e = (let n = first_of e [''name'', ''entity_name''] in
     if \<not> jtruthy n then None
     else Some \<lparr>name = n,
            entity_type = jget e ''entity_type'' (jget e ''type'' (JStr ''unknown'')),
            description = jget e ''description'' (JStr []),
            qualified_name = jget e ''qualified_name'' JNull,
            file_path = jget e ''file_path'' JNull\<rparr>)"

definition MAX_CONTENT_SIZE :: nat where "MAX_CONTENT_SIZE = 100000"
definition MAX_RELATIONSHIPS :: nat where "MAX_RELATIONSHIPS = 500"

record ExtractionResult =
  entities :: "ExtractedEntity list"
  relationships :: "ExtractedRelationship list"

definition each_obj :: "((string \<times> jvalue) list \<Rightarrow> exn + 'b option) \<Rightarrow> jvalue \<Rightarrow> exn + 'b list" where
  "each_obj f v = (case jiter v of Inl e \<Rightarrow> Inl e
     | Inr xs \<Rightarrow> traverse (\<lambda>x. case jobj x of Inl e \<Rightarrow> Inl e | Inr kvs \<Rightarrow> f kvs) xs)"

text \<open>\<open>extract_structured\<close>, the call of the model on the text, is an argument.\<close>

definition extract_from :: "python \<Rightarrow> (string \<Rightarrow> exn + (string \<times> jvalue) list) \<Rightarrow> string \<Rightarrow> exn + ExtractionResult" where
  "extract_from py extract_structured content =
     (if MAX_CONTENT_SIZE < length content then Inl ExtractionError
      else case extract_structured content of
        Inl _ \<Rightarrow> Inl ExtractionError
      | Inr raw \<Rightarrow>
          (case each_obj (\<lambda>e. Inr (parse_entity e)) (jget raw ''entities'' (JList [])) of
             Inl x \<Rightarrow> Inl x
           | Inr es \<Rightarrow>
               (case each_obj (parse_relationship py) (jget raw ''relationships'' (JList [])) of
                  Inl x \<Rightarrow> Inl x
                | Inr rels \<Rightarrow> Inr \<lparr>entities = es, relationships = take MAX_RELATIONSHIPS rels\<rparr>)))"

section \<open>Jobs\<close>

datatype ExtractionStatus = PENDING | RUNNING | COMPLETED | FAILED

fun status_value :: "ExtractionStatus \<Rightarrow> string" where
  "status_value PENDING = ''pending''"
| "status_value RUNNING = ''running''"
| "status_value COMPLETED = ''completed''"
| "status_value FAILED = ''failed''"

definition status_of_value :: "string \<Rightarrow> ExtractionStatus option" where
  "status_of_value s = find (\<lambda>t. status_value t = s) [PENDING, RUNNING, COMPLETED, FAILED]"

record ExtractionJob =
  job_id :: string
  job_node :: string
  job_silo :: string
  job_status :: ExtractionStatus
  entity_count :: int
  relationship_count :: int
  claim_node_ids :: "string list"
  error :: "string option"
  created_at :: int
  completed_at :: "int option"
  cost_usd :: real

text \<open>\<open>isoformat\<close> and \<open>fromisoformat\<close> are arguments.\<close>

definition to_dict :: "(int \<Rightarrow> string) \<Rightarrow> ExtractionJob \<Rightarrow> (string \<times> jvalue) list" where
  "to_dict isoformat j =
     [(''id'', JStr (job_id j)), (''node_id'', JStr (job_node j)), (''silo_id'', JStr (job_silo j)),
      (''status'', JStr (status_value (job_status j))), (''entity_count'', JInt (entity_count j)),
      (''relationship_count'', JInt (relationship_count j)),
      (''error'', case error j of None \<Rightarrow> JNull | Some e \<Rightarrow> JStr e),
      (''created_at'', JStr (isoformat (created_at j))),
      (''completed_at'', case completed_at j of None \<Rightarrow> JNull | Some t \<Rightarrow> JStr (isoformat t)),
      (''cost_usd'', JNum (cost_usd j))]"

definition read_str :: "(string \<times> jvalue) list \<Rightarrow> string \<Rightarrow> string option" where
  "read_str d k = (case map_of d k of Some (JStr s) \<Rightarrow> Some s | _ \<Rightarrow> None)"

definition read_int :: "(string \<times> jvalue) list \<Rightarrow> string \<Rightarrow> int" where
  "read_int d k = (case map_of d k of Some (JInt i) \<Rightarrow> i | _ \<Rightarrow> 0)"

text \<open>\<open>from_dict\<close> of a dictionary with the types \<open>to_dict\<close> writes; \<open>None\<close> is an exception.\<close>

definition from_dict :: "(string \<Rightarrow> int option) \<Rightarrow> int \<Rightarrow> (string \<times> jvalue) list \<Rightarrow> ExtractionJob option" where
  "from_dict fromisoformat now d =
     (case (read_str d ''id'', read_str d ''node_id'', read_str d ''silo_id'') of
        (Some i, Some n, Some s) \<Rightarrow>
          (case (case read_str d ''created_at'' of None \<Rightarrow> Some now | Some c \<Rightarrow> fromisoformat c) of
             None \<Rightarrow> None
           | Some created \<Rightarrow>
               (case (case read_str d ''completed_at'' of None \<Rightarrow> Some None | Some c \<Rightarrow> map_option Some (fromisoformat c)) of
                  None \<Rightarrow> None
                | Some completed \<Rightarrow>
                    (case status_of_value (case read_str d ''status'' of None \<Rightarrow> ''pending'' | Some v \<Rightarrow> v) of
                       None \<Rightarrow> None
                     | Some st \<Rightarrow> Some \<lparr>job_id = i, job_node = n, job_silo = s, job_status = st,
                         entity_count = read_int d ''entity_count'', relationship_count = read_int d ''relationship_count'',
                         claim_node_ids = [], error = read_str d ''error'', created_at = created,
                         completed_at = completed,
                         cost_usd = (case map_of d ''cost_usd'' of Some (JNum x) \<Rightarrow> x | _ \<Rightarrow> 0)\<rparr>)))
      | _ \<Rightarrow> None)"

end
