(* ===== verification/Breaker.thy ===== *)
theory Breaker
  imports Prelude
begin

text \<open>
  The sliding-window circuit breaker (\<open>extraction/filter/circuit_breaker.py\<close>) and the guards
  around the storage backends (\<open>engine/storage_circuit.py\<close>).  Every method runs under the
  breaker's lock, so it is one atomic step; the monotonic clock is read once per method and is
  an argument here.  Metrics and log lines are not modelled.
\<close>

section \<open>The breaker\<close>

record CircuitBreaker =
  failure_threshold :: nat
  window_s :: real
  cooldown_s :: real
  failures :: "real list"
  opened_at :: "real option"

definition new_breaker :: "nat \<Rightarrow> real \<Rightarrow> real \<Rightarrow> CircuitBreaker" where
  "new_breaker threshold window cooldown =
     \<lparr>failure_threshold = threshold, window_s = window, cooldown_s = cooldown, failures = [],
      opened_at = None\<rparr>"

definition prune :: "real \<Rightarrow> CircuitBreaker \<Rightarrow> CircuitBreaker" where
  "prune now cb = (let cutoff = now - window_s cb
     in cb\<lparr>failures := dropWhile (\<lambda>t. t < cutoff) (failures cb)\<rparr>)"

definition reset :: "CircuitBreaker \<Rightarrow> CircuitBreaker" where
  "reset cb = cb\<lparr>failures := [], opened_at := None\<rparr>"

definition retry_after_seconds :: "real \<Rightarrow> CircuitBreaker \<Rightarrow> real" where
  "retry_after_seconds now cb = (case opened_at cb of None \<Rightarrow> 0
     | Some t \<Rightarrow> max 0 (cooldown_s cb - (now - t)))"

definition record_failure :: "real \<Rightarrow> CircuitBreaker \<Rightarrow> bool \<times> CircuitBreaker" where
  "record_failure now cb =
     (let cb' = prune now (cb\<lparr>failures := failures cb @ [now]\<rparr>)
      in if failure_threshold cb' \<le> length (failures cb') \<and> opened_at cb' = None
         then (True, cb'\<lparr>opened_at := Some now\<rparr>) else (False, cb'))"

definition record_success :: "CircuitBreaker \<Rightarrow> bool \<times> CircuitBreaker" where
  "record_success cb = (opened_at cb \<noteq> None, reset cb)"

definition check_open :: "real \<Rightarrow> CircuitBreaker \<Rightarrow> (bool \<times> bool) \<times> CircuitBreaker" where
  "check_open now cb = (case opened_at cb of
       Some t \<Rightarrow> if cooldown_s cb \<le> now - t then ((False, True), reset cb) else ((True, False), cb)
     | None \<Rightarrow> let cb' = prune now cb
               in ((failure_threshold cb' \<le> length (failures cb'), False), cb'))"

definition is_open :: "real \<Rightarrow> CircuitBreaker \<Rightarrow> bool \<times> CircuitBreaker" where
  "is_open now cb = (case opened_at cb of
       Some t \<Rightarrow> if cooldown_s cb \<le> now - t then (False, reset cb) else (True, cb)
     | None \<Rightarrow> let cb' = prune now cb
               in (failure_threshold cb' \<le> length (failures cb'), cb'))"

section \<open>The registry and the guards\<close>

type_synonym registry = "string \<times> string \<rightharpoonup> CircuitBreaker"

definition get_or_create ::
  "string \<Rightarrow> string \<Rightarrow> nat \<Rightarrow> real \<Rightarrow> real \<Rightarrow> registry \<Rightarrow> CircuitBreaker \<times> registry" where
  "get_or_create silo_id service_name threshold window cooldown reg =
     (case reg (silo_id, service_name) of
        Some cb \<Rightarrow> (cb, reg)
      | None \<Rightarrow> let cb = new_breaker threshold window cooldown
                in (cb, reg((silo_id, service_name) \<mapsto> cb)))"

definition GLOBAL_SILO :: string where "GLOBAL_SILO = ''__global__''"

definition get_storage_cb :: "string \<Rightarrow> registry \<Rightarrow> CircuitBreaker \<times> registry" where
  "get_storage_cb store reg = get_or_create GLOBAL_SILO store 5 60 60 reg"

definition put_cb :: "string \<Rightarrow> CircuitBreaker \<Rightarrow> registry \<Rightarrow> registry" where
  "put_cb store cb reg = reg((GLOBAL_SILO, store) \<mapsto> cb)"

text \<open>
  What the guarded call does: it returns, or raises an exception which is an infrastructure
  error of the store or not (with \<open>is_infrastructure_error=None\<close> every exception is one).
\<close>

datatype 'a call_result = Returned 'a | Raised string bool

datatype 'a guard_result =
    Value 'a
  | Reraised string
  | StorageCircuitOpenError string real

text \<open>
  The guards: \<open>t1\<close> is the time of the check, \<open>t2\<close> the time of the recording after the call (of
  the retry hint, when the circuit is open).  The call is the argument \<open>call\<close>; an open circuit
  closes the coroutine without running it.
\<close>

definition guard_hard_fail ::
  "string \<Rightarrow> 'a call_result \<Rightarrow> real \<Rightarrow> real \<Rightarrow> registry \<Rightarrow> 'a guard_result \<times> registry" where
  "guard_hard_fail store call t1 t2 reg0 =
     (let (cb, reg) = get_storage_cb store reg0;
          ((is_open_now, just_closed), cb1) = check_open t1 cb;
          reg1 = put_cb store cb1 reg
      in if is_open_now then (StorageCircuitOpenError store (retry_after_seconds t2 cb1), reg1)
         else (case call of
             Raised err infra \<Rightarrow>
               (Reraised err, if infra then put_cb store (snd (record_failure t2 cb1)) reg1 else reg1)
           | Returned r \<Rightarrow> (Value r, put_cb store (snd (record_success cb1)) reg1)))"

definition guard_degrade ::
  "string \<Rightarrow> 'a call_result \<Rightarrow> 'a \<Rightarrow> real \<Rightarrow> real \<Rightarrow> registry \<Rightarrow> 'a \<times> registry" where
  "guard_degrade store call default_value t1 t2 reg0 =
     (let (cb, reg) = get_storage_cb store reg0;
          ((is_open_now, just_closed), cb1) = check_open t1 cb;
          reg1 = put_cb store cb1 reg
      in if is_open_now then (default_value, reg1)
         else (case call of
             Raised err infra \<Rightarrow>
               (default_value, if infra then put_cb store (snd (record_failure t2 cb1)) reg1 else reg1)
           | Returned r \<Rightarrow> (r, put_cb store (snd (record_success cb1)) reg1)))"

section \<open>Reachable breakers\<close>

text \<open>
  The operations of any number of tasks in any interleaving: a step is one operation, at a time
  not before the last one.
\<close>

inductive breaker_step :: "CircuitBreaker \<times> real \<Rightarrow> CircuitBreaker \<times> real \<Rightarrow> bool" where
  failure: "t \<le> now \<Longrightarrow> breaker_step (cb, t) (snd (record_failure now cb), now)"
| success: "t \<le> now \<Longrightarrow> breaker_step (cb, t) (snd (record_success cb), now)"
| check: "t \<le> now \<Longrightarrow> breaker_step (cb, t) (snd (check_open now cb), now)"
| test: "t \<le> now \<Longrightarrow> breaker_step (cb, t) (snd (is_open now cb), now)"

inductive_cases breaker_stepE: "breaker_step s s'"

inductive reachable_breaker :: "CircuitBreaker \<Rightarrow> real \<Rightarrow> bool" where
  new: "0 < n \<Longrightarrow> reachable_breaker (new_breaker n w c) t"
| step: "reachable_breaker cb t \<Longrightarrow> breaker_step (cb, t) (cb', t') \<Longrightarrow> reachable_breaker cb' t'"

text \<open>
  The invariant: failures are in the order of their times, none in the future; a circuit without
  \<open>opened_at\<close> has fewer failures on record than the threshold; \<open>opened_at\<close> is in the past.
\<close>

definition breaker_ok :: "CircuitBreaker \<Rightarrow> real \<Rightarrow> bool" where
  "breaker_ok cb t \<longleftrightarrow> sorted (failures cb) \<and> (\<forall>x\<in>set (failures cb). x \<le> t) \<and> 0 < failure_threshold cb \<and>
     (case opened_at cb of None \<Rightarrow> length (failures cb) < failure_threshold cb | Some t' \<Rightarrow> t' \<le> t)"

lemmas breaker_ops = record_failure_def record_success_def check_open_def is_open_def prune_def
  reset_def Let_def

lemma sorted_dropWhile_le: "sorted xs \<Longrightarrow> sorted (dropWhile P xs)"
  by (metis sorted_wrt_dropWhile)

lemma prune_simps [simp]:
  "failure_threshold (prune now cb) = failure_threshold cb" "window_s (prune now cb) = window_s cb"
  "cooldown_s (prune now cb) = cooldown_s cb" "opened_at (prune now cb) = opened_at cb"
  by (simp_all add: prune_def Let_def)

lemma prune_failures:
  "length (failures (prune now cb)) \<le> length (failures cb)"
  "x \<in> set (failures (prune now cb)) \<Longrightarrow> x \<in> set (failures cb)"
  "sorted (failures cb) \<Longrightarrow> sorted (failures (prune now cb))"
  by (auto simp: prune_def Let_def length_dropWhile_le dest: set_dropWhileD intro: sorted_dropWhile_le)

lemma breaker_ok_later: "breaker_ok cb t \<Longrightarrow> t \<le> now \<Longrightarrow> breaker_ok cb now"
  by (fastforce simp: breaker_ok_def split: option.splits)

lemma prune_ok: "breaker_ok cb t \<Longrightarrow> breaker_ok (prune now cb) t"
  by (auto simp: breaker_ok_def prune_failures le_less_trans [OF prune_failures(1)] split: option.splits)

lemma reset_ok: "breaker_ok cb t \<Longrightarrow> breaker_ok (reset cb) t"
  by (simp add: breaker_ok_def reset_def)

lemma check_ok: "breaker_ok cb t \<Longrightarrow> breaker_ok (snd (check_open now cb)) t"
  "breaker_ok cb t \<Longrightarrow> breaker_ok (snd (is_open now cb)) t"
  by (auto simp: check_open_def is_open_def Let_def prune_ok reset_ok split: option.split)

lemma failure_ok:
  assumes "breaker_ok cb now"
  shows "breaker_ok (snd (record_failure now cb)) now"
proof -
  let ?cb = "prune now (cb\<lparr>failures := failures cb @ [now]\<rparr>)"
  have "sorted (failures cb @ [now])" "\<forall>x\<in>set (failures cb @ [now]). x \<le> now" "0 < failure_threshold cb"
    using assms by (auto simp: breaker_ok_def sorted_append)
  then have "sorted (failures ?cb)" "\<forall>x\<in>set (failures ?cb). x \<le> now"
    using prune_failures(2,3) [where cb = "cb\<lparr>failures := failures cb @ [now]\<rparr>"] by auto
  with \<open>0 < failure_threshold cb\<close> assms show ?thesis
    by (auto simp: record_failure_def Let_def breaker_ok_def not_le split: option.splits)
qed

lemma breaker_step_ok: "breaker_step (cb, t) (cb', t') \<Longrightarrow> breaker_ok cb t \<Longrightarrow> breaker_ok cb' t'"
  by (erule breaker_stepE)
    (auto simp: record_success_def intro: failure_ok check_ok reset_ok breaker_ok_later)

lemma reachable_ok: "reachable_breaker cb t \<Longrightarrow> breaker_ok cb t"
proof (induction rule: reachable_breaker.induct)
  case (new n w c t)
  then show ?case by (simp add: breaker_ok_def new_breaker_def)
qed (rule breaker_step_ok)

text \<open>
  in every state the breaker can reach, under any interleaving of tasks, an open circuit is
  one that tripped: as long as \<open>opened_at\<close> is unset there are fewer failures on record than the
  threshold, so a check reports a closed circuit, and the second disjunct of \<open>is_open\<close> (enough
  failures without \<open>opened_at\<close>) never holds.
\<close>

theorem breaker_open_iff_tripped:
  assumes "reachable_breaker cb t" and "t \<le> now"
  shows "fst (is_open now cb) \<longleftrightarrow> (\<exists>t0. opened_at cb = Some t0 \<and> now - t0 < cooldown_s cb)"
    (is "?L \<longleftrightarrow> ?R")
proof (cases "opened_at cb")
  case None
  then have "length (failures cb) < failure_threshold cb"
    using reachable_ok [OF assms(1)] by (simp add: breaker_ok_def)
  with None show ?thesis
    using prune_failures(1) [of now cb] by (simp add: is_open_def Let_def)
qed (simp add: is_open_def not_le)

theorem breaker_open_iff_tripped_witness: "\<not> fst (is_open 7 (new_breaker 5 60 60))"
  using breaker_open_iff_tripped [OF reachable_breaker.new, of 5 0 7 60 60]
  by (simp add: new_breaker_def)

section \<open>The sliding window\<close>

text \<open>
  The specification: all failures since the last reset are kept, and the circuit trips when
  enough of them lie within the window.
\<close>

datatype breaker_call = Failed | Succeeded | Checked | Tested

type_synonym window_state = "real list \<times> real option"

definition in_window :: "real \<Rightarrow> real \<Rightarrow> real list \<Rightarrow> nat" where
  "in_window w now h = length (filter (\<lambda>x. now - w \<le> x) h)"

fun spec_call :: "nat \<Rightarrow> real \<Rightarrow> real \<Rightarrow> breaker_call \<Rightarrow> real \<Rightarrow> window_state \<Rightarrow> (bool \<times> bool) \<times> window_state" where
  "spec_call n w c Failed now (h, o') =
     (if o' = None \<and> n \<le> in_window w now (h @ [now]) then ((True, False), (h @ [now], Some now))
      else ((False, False), (h @ [now], o')))"
| "spec_call n w c Succeeded now (h, o') = ((o' \<noteq> None, False), ([], None))"
| "spec_call n w c Checked now (h, Some t) =
     (if c \<le> now - t then ((False, True), ([], None)) else ((True, False), (h, Some t)))"
| "spec_call n w c Checked now (h, None) = ((n \<le> in_window w now h, False), (h, None))"
| "spec_call n w c Tested now (h, Some t) =
     (if c \<le> now - t then ((False, False), ([], None)) else ((True, False), (h, Some t)))"
| "spec_call n w c Tested now (h, None) = ((n \<le> in_window w now h, False), (h, None))"

fun breaker_do :: "breaker_call \<Rightarrow> real \<Rightarrow> CircuitBreaker \<Rightarrow> (bool \<times> bool) \<times> CircuitBreaker" where
  "breaker_do Failed now cb = (let (b, cb') = record_failure now cb in ((b, False), cb'))"
| "breaker_do Succeeded now cb = (let (b, cb') = record_success cb in ((b, False), cb'))"
| "breaker_do Checked now cb = check_open now cb"
| "breaker_do Tested now cb = (let (b, cb') = is_open now cb in ((b, False), cb'))"

fun outputs :: "('c \<Rightarrow> real \<Rightarrow> 's \<Rightarrow> 'r \<times> 's) \<Rightarrow> ('c \<times> real) list \<Rightarrow> 's \<Rightarrow> 'r list" where
  "outputs f [] s = []"
| "outputs f ((c, t) # cs) s = (let (r, s') = f c t s in r # outputs f cs s')"

text \<open>The breaker keeps the part of the history that can still be in a window.\<close>

definition window_rel :: "real \<Rightarrow> CircuitBreaker \<Rightarrow> window_state \<Rightarrow> bool" where
  "window_rel now cb st \<longleftrightarrow> (case st of (h, o') \<Rightarrow> opened_at cb = o' \<and> sorted h \<and> (\<forall>x\<in>set h. x \<le> now) \<and>
     (\<exists>c \<le> now - window_s cb. failures cb = filter (\<lambda>x. c \<le> x) h))"

lemma dropWhile_sorted: "sorted xs \<Longrightarrow> dropWhile (\<lambda>x. x < c) xs = filter (\<lambda>x. c \<le> x) xs"
  for c :: real
proof (induction xs)
  case (Cons x xs)
  show ?case
  proof (cases "x < c")
    case False
    then have "filter (\<lambda>y. c \<le> y) xs = xs" using Cons.prems by (intro filter_True) auto
    with False show ?thesis by simp
  qed (use Cons in auto)
qed simp

lemma prune_filter:
  assumes "sorted h" "failures cb = filter (\<lambda>x. c \<le> x) h" "c \<le> now - window_s cb"
  shows "failures (prune now cb) = filter (\<lambda>x. now - window_s cb \<le> x) h"
proof -
  have "failures (prune now cb) = filter (\<lambda>x. now - window_s cb \<le> x) (filter (\<lambda>x. c \<le> x) h)"
    using assms(1,2) by (simp add: prune_def Let_def dropWhile_sorted sorted_wrt_filter)
  also have "\<dots> = filter (\<lambda>x. now - window_s cb \<le> x) h"
    unfolding filter_filter by (rule filter_cong) (use assms(3) in auto)
  finally show ?thesis .
qed

lemma window_rel_prune:
  assumes "window_rel now cb (h, o')"
  shows "window_rel now (prune now cb) (h, o')" "length (failures (prune now cb)) = in_window (window_s cb) now h"
proof -
  from assms obtain c where c: "sorted h" "failures cb = filter (\<lambda>x. c \<le> x) h" "c \<le> now - window_s cb"
    and r: "opened_at cb = o'" "\<forall>x\<in>set h. x \<le> now"
    by (auto simp: window_rel_def)
  note p = prune_filter [OF c]
  show "window_rel now (prune now cb) (h, o')"
    unfolding window_rel_def prod.case prune_simps p using c(1) r by blast
  show "length (failures (prune now cb)) = in_window (window_s cb) now h"
    by (simp add: p in_window_def)
qed

lemma window_rel_later: "window_rel t cb st \<Longrightarrow> t \<le> now \<Longrightarrow> window_rel now cb st"
proof -
  assume a: "window_rel t cb st" and le: "t \<le> now"
  obtain h o' where st: "st = (h, o')" by (cases st)
  with a obtain c where c: "sorted h" "failures cb = filter (\<lambda>x. c \<le> x) h" "c \<le> t - window_s cb"
    and r: "opened_at cb = o'" "\<forall>x\<in>set h. x \<le> t"
    by (auto simp: window_rel_def)
  from c(3) le have "c \<le> now - window_s cb" by simp
  moreover have "\<forall>x\<in>set h. x \<le> now" using r(2) le by force
  ultimately show ?thesis unfolding window_rel_def st prod.case using c(1,2) r(1) by blast
qed

lemma window_rel_fail:
  assumes "window_rel now cb (h, o')" "0 \<le> window_s cb"
  shows "window_rel now (cb\<lparr>failures := failures cb @ [now]\<rparr>) (h @ [now], o')"
proof -
  from assms(1) obtain c where c: "sorted h" "failures cb = filter (\<lambda>x. c \<le> x) h" "c \<le> now - window_s cb"
    and r: "opened_at cb = o'" "\<forall>x\<in>set h. x \<le> now"
    by (auto simp: window_rel_def)
  have "c \<le> now" using c(3) assms(2) by simp
  with c(2) have f: "failures cb @ [now] = filter (\<lambda>x. c \<le> x) (h @ [now])" by simp
  have "sorted (h @ [now])" "\<forall>x\<in>set (h @ [now]). x \<le> now" using c(1) r(2) by (auto simp: sorted_append)
  then show ?thesis
    unfolding window_rel_def prod.case
    by (intro conjI exI [of _ c]) (use c(3) f r(1) in simp_all)
qed

text \<open>One call: same answer, related states.\<close>

lemma breaker_call_refines:
  assumes "window_rel now cb st" "0 \<le> window_s cb"
  shows "fst (breaker_do k now cb) = fst (spec_call (failure_threshold cb) (window_s cb) (cooldown_s cb) k now st) \<and>
    window_rel now (snd (breaker_do k now cb)) (snd (spec_call (failure_threshold cb) (window_s cb) (cooldown_s cb) k now st))"
proof -
  obtain h o' where st: "st = (h, o')" by (cases st)
  have op: "opened_at cb = o'" using assms(1) by (simp add: window_rel_def st)
  have empty: "window_rel now (reset cb) ([], None)"
    by (auto simp: window_rel_def reset_def intro: exI [of _ "now - window_s cb"])
  note p = window_rel_prune [OF assms(1) [unfolded st]]
  let ?cb = "cb\<lparr>failures := failures cb @ [now]\<rparr>"
  note f = window_rel_prune [OF window_rel_fail [OF assms(1) [unfolded st] assms(2)]]
  show ?thesis
  proof (cases k)
    case Failed
    have "window_rel now (prune now ?cb\<lparr>opened_at := Some now\<rparr>) (h @ [now], Some now)"
      using f(1) by (simp add: window_rel_def)
    with Failed f op show ?thesis
      by (simp add: st record_failure_def Let_def)
  next
    case Succeeded
    with empty op show ?thesis by (simp add: st record_success_def)
  next
    case Checked
    with empty op p assms(1) show ?thesis
      by (cases o') (simp_all add: st check_open_def Let_def)
  next
    case Tested
    with empty op p assms(1) show ?thesis
      by (cases o') (simp_all add: st is_open_def Let_def)
  qed
qed

lemma breaker_do_params:
  "failure_threshold (snd (breaker_do k now cb)) = failure_threshold cb"
  "window_s (snd (breaker_do k now cb)) = window_s cb" "cooldown_s (snd (breaker_do k now cb)) = cooldown_s cb"
  by (cases k; simp add: record_failure_def record_success_def check_open_def is_open_def reset_def
      Let_def split: option.split)+

lemma breaker_refines:
  assumes "sorted (t # map snd cs)" "window_rel t cb st" "0 \<le> window_s cb"
  shows "outputs breaker_do cs cb =
     outputs (spec_call (failure_threshold cb) (window_s cb) (cooldown_s cb)) cs st"
  using assms
proof (induction cs arbitrary: t cb st)
  case (Cons p cs)
  obtain k now where p: "p = (k, now)" by (cases p)
  have r: "window_rel now cb st" using Cons.prems p by (auto intro: window_rel_later)
  note one = breaker_call_refines [OF r Cons.prems(3), of k]
  have "outputs breaker_do cs (snd (breaker_do k now cb)) =
     outputs (spec_call (failure_threshold cb) (window_s cb) (cooldown_s cb)) cs
       (snd (spec_call (failure_threshold cb) (window_s cb) (cooldown_s cb) k now st))"
    using Cons.IH [of now "snd (breaker_do k now cb)"] one Cons.prems p by (simp add: breaker_do_params)
  with one show ?case by (simp add: p split_beta)
qed simp

text \<open>
  C17: the breaker is a sliding window.  For any sequence of calls at times that never go back, a
  new breaker, which forgets every failure that has left the window, gives the same
  answers as the specification that keeps all failures since the last reset and counts the ones
  within the window; in particular it trips exactly when a failure makes that count reach the
  threshold while the circuit is closed, and later failures do not extend the cooldown.
\<close>

theorem breaker_refines_window:
  assumes "sorted (map snd cs)" and "0 \<le> w"
  shows "outputs breaker_do cs (new_breaker n w c) = outputs (spec_call n w c) cs ([], None)"
proof (cases cs)
  case (Cons p ps)
  have "window_rel (snd p) (new_breaker n w c) ([], None)"
    by (auto simp: window_rel_def new_breaker_def intro: exI [of _ "snd p - w"])
  then show ?thesis
    using breaker_refines [of "snd p" cs "new_breaker n w c" "([], None)"] assms Cons
    by (simp add: new_breaker_def)
qed simp

theorem breaker_refines_window_witness:
  "outputs breaker_do [(Failed, 1), (Failed, 2), (Checked, 3), (Failed, 70), (Checked, 71)] (new_breaker 2 60 60) =
     [(False, False), (True, False), (True, False), (False, False), (False, True)]"
  by (subst breaker_refines_window) (simp_all add: in_window_def)

section \<open>The guards\<close>

text \<open>The circuit of a store is open at a time.\<close>

definition store_open :: "string \<Rightarrow> real \<Rightarrow> registry \<Rightarrow> bool" where
  "store_open store t reg \<longleftrightarrow> (\<exists>cb t0. reg (GLOBAL_SILO, store) = Some cb \<and> opened_at cb = Some t0 \<and>
     t - t0 < cooldown_s cb)"

text \<open>
  an open circuit fails fast.  While the circuit of a store is open, a guarded call is not
  made: whatever it would have returned or raised, the hard guard raises
  \<open>StorageCircuitOpenError\<close> with a retry hint that is never negative, the degrading guard returns
  its default, and neither changes any breaker.
\<close>

theorem guard_fails_fast:
  assumes "store_open store t1 reg"
  shows "(\<exists>r \<ge> 0. guard_hard_fail store call t1 t2 reg = (StorageCircuitOpenError store r, reg)) \<and>
    guard_degrade store call d t1 t2 reg = (d, reg)"
proof -
  from assms obtain cb t0 where cb: "reg (GLOBAL_SILO, store) = Some cb" "opened_at cb = Some t0"
    "t1 - t0 < cooldown_s cb" by (auto simp: store_open_def)
  have "get_storage_cb store reg = (cb, reg)" "check_open t1 cb = ((True, False), cb)" "put_cb store cb reg = reg"
    using cb by (auto simp: get_storage_cb_def get_or_create_def check_open_def put_cb_def fun_eq_iff)
  moreover have "0 \<le> retry_after_seconds t2 cb" by (simp add: retry_after_seconds_def split: option.split)
  ultimately show ?thesis by (simp add: guard_hard_fail_def guard_degrade_def)
qed

definition ex_open_registry :: registry where
  "ex_open_registry = [(GLOBAL_SILO, ''redis'') \<mapsto> (new_breaker 5 60 60)\<lparr>opened_at := Some 100\<rparr>]"

theorem guard_fails_fast_witness:
  "guard_degrade ''redis'' (Returned 1) (0 :: nat) 120 121 ex_open_registry = (0, ex_open_registry)"
proof -
  have "store_open ''redis'' 120 ex_open_registry"
    by (simp add: store_open_def ex_open_registry_def new_breaker_def)
  from conjunct2 [OF guard_fails_fast [OF this]] show ?thesis .
qed

text \<open>
  When the circuit of a store is not open (never tripped, or the cooldown is over),
  a guarded call is made and its result passed on by both guards (with the default for an exception in the
  degrading one), and a call that returns leaves the breaker closed and without failures.
\<close>

lemma guard_lets_through:
  assumes "\<not> store_open store t1 reg"
    and "\<And>cb. reg (GLOBAL_SILO, store) = Some cb \<Longrightarrow> breaker_ok cb t1"
  shows "(case call of
      Returned r \<Rightarrow> fst (guard_hard_fail store call t1 t2 reg) = Value r \<and>
        fst (guard_degrade store call d t1 t2 reg) = r \<and>
        (\<exists>cb. snd (guard_hard_fail store call t1 t2 reg) (GLOBAL_SILO, store) = Some cb \<and>
           opened_at cb = None \<and> failures cb = [])
    | Raised err infra \<Rightarrow> fst (guard_hard_fail store call t1 t2 reg) = Reraised err \<and>
        fst (guard_degrade store call d t1 t2 reg) = d)"
proof -
  obtain cb reg' where g: "get_storage_cb store reg = (cb, reg')" by fastforce
  have ok: "breaker_ok cb t1 \<and> \<not> (\<exists>t0. opened_at cb = Some t0 \<and> t1 - t0 < cooldown_s cb)"
    using g assms
    by (auto simp: get_storage_cb_def get_or_create_def store_open_def Let_def breaker_ok_def new_breaker_def
        split: option.splits)
  have "\<exists>j cb1. check_open t1 cb = ((False, j), cb1)"
  proof (cases "opened_at cb")
    case None
    then have "length (failures cb) < failure_threshold cb" using ok by (simp add: breaker_ok_def)
    with None prune_failures(1) [of t1 cb] show ?thesis by (auto simp: check_open_def Let_def not_le)
  next
    case (Some t0)
    with ok show ?thesis by (auto simp: check_open_def not_less)
  qed
  then obtain j cb1 where "check_open t1 cb = ((False, j), cb1)" by blast
  with g show ?thesis
    by (auto simp: guard_hard_fail_def guard_degrade_def record_success_def reset_def put_cb_def Let_def
        split: call_result.split)
qed

end
