(* ===== verification/ClaimFilter.thy ===== *)
theory ClaimFilter
  imports TextExtraction Breaker
begin

text \<open>
  The filter between extraction and the graph (\<open>extraction/filter/\<close>): four rules in a fixed order
  decide whether a claim is kept.  Two of them ask the outside, Wikidata behind a Redis cache and
  a language model, each guarded by a circuit breaker of the component \<open>Breaker\<close>; a rule whose
  oracle fails is not decisive.  Dropped claims are audited.

  The state holds the breakers, the cache, the audit rows not yet written and those written.
  What the outside answers is an environment indexed by the number of calls made so far.
  Metrics, log lines and the prompt of the model are left out.
\<close>

section \<open>Claims, decisions, rule sets\<close>

record EntityMention =
  entity_id :: string
  mention_name :: string
  mention_type :: jvalue

record ClaimTriple =
  subject :: string
  predicate :: string
  object :: string
  source_passage_id :: string
  source_doc_id :: string
  valid_from :: string
  valid_to :: "string option"
  claim_confidence :: real
  entity_mentions :: "EntityMention list"
  ref_doc_id :: "string option"

datatype RuleFired = HARD_DROP | WIKIDATA | HEURISTIC | LLM_CONFIDENCE | EXTERNAL_FAILURE | KEPT

datatype action = Keep | Drop

record FilterDecision =
  action :: action
  rule_fired :: RuleFired
  reason :: string
  llm_score :: "real option"

definition keep :: "RuleFired \<Rightarrow> string \<Rightarrow> FilterDecision" where
  "keep rule why = \<lparr>action = Keep, rule_fired = rule, reason = why, llm_score = None\<rparr>"

definition drop_claim :: "RuleFired \<Rightarrow> string \<Rightarrow> FilterDecision" where
  "drop_claim rule why = \<lparr>action = Drop, rule_fired = rule, reason = why, llm_score = None\<rparr>"

record FilterRuleSet =
  version :: string
  enabled :: bool
  hard_drop_triples :: "(string \<times> string \<times> string) list"
  suspect_predicates :: "string list"
  public_entity_allowlist :: "string list"
  never_filter_predicates :: "string list"
  wikidata_cache_ttl_days :: nat
  wikidata_cb_failure_threshold :: nat
  wikidata_cb_window_s :: real
  wikidata_cb_cooldown_s :: real
  llm_threshold :: real
  llm_cb_failure_threshold :: nat
  llm_cb_window_s :: real
  llm_cb_cooldown_s :: real
  retention_days :: int
  silo_override_hash :: "string option"

section \<open>Configuration\<close>

text \<open>
  The parsed base file, the keys the code needs present, and the override of a silo: a dictionary
  whose values have the type their key asks for (other keys are ignored).  \<open>None\<close> is the
  \<open>ValueError\<close>; the hash of an override is an argument.  The unions of the code are made into sets
  in the end, so their order does not matter.
\<close>

datatype override_value = Texts "string list" | Number int | Other

definition TIGHTENING_KEYS :: "string list" where
  "TIGHTENING_KEYS = [''extra_hard_drop_triples'', ''extra_suspect_predicates'', ''extra_public_entity_allowlist'', ''llm_threshold'']"

definition texts :: "(string \<times> override_value) list \<Rightarrow> string \<Rightarrow> string list" where
  "texts d k = (case map_of d k of Some (Texts xs) \<Rightarrow> xs | _ \<Rightarrow> [])"

definition merge_silo_override ::
  "((string \<times> override_value) list \<Rightarrow> string) \<Rightarrow> FilterRuleSet \<Rightarrow> (string \<times> override_value) list \<Rightarrow> FilterRuleSet option" where
  "merge_silo_override silo_hash base override =
     (if override = [] then Some base
      else if list_ex (\<lambda>(k, _). k \<in> set TIGHTENING_KEYS) override then None
      else Some (base\<lparr>
        never_filter_predicates := never_filter_predicates base @ texts override ''extra_never_filter_predicates'',
        public_entity_allowlist := filter (\<lambda>e. e \<notin> set (texts override ''extra_public_entity_allowlist_removals''))
          (public_entity_allowlist base),
        retention_days := (case map_of override ''retention_days'' of Some (Number n) \<Rightarrow> n | _ \<Rightarrow> retention_days base),
        silo_override_hash := Some (silo_hash override)\<rparr>))"

text \<open>How \<open>load_filter_rule_set\<close> brings the merged texts to the form the rules compare with.\<close>

definition lower_triple :: "string \<times> string \<times> string \<Rightarrow> string \<times> string \<times> string" where
  "lower_triple t = (case t of (p, s, ob) \<Rightarrow> (strip p, map lower_char (strip s), map lower_char (strip ob)))"

definition load_filter_rule_set ::
  "((string \<times> override_value) list \<Rightarrow> string) \<Rightarrow> FilterRuleSet \<Rightarrow> (string \<times> override_value) list \<Rightarrow> FilterRuleSet option" where
  "load_filter_rule_set silo_hash raw override =
     map_option (\<lambda>merged. merged\<lparr>
         hard_drop_triples := map lower_triple (hard_drop_triples merged),
         public_entity_allowlist := map (map lower_char) (public_entity_allowlist merged)\<rparr>)
       (merge_silo_override silo_hash raw override)"

section \<open>The two local rules\<close>

definition canon :: "ClaimTriple \<Rightarrow> string \<times> string \<times> string" where
  "canon c = (strip (predicate c), map lower_char (strip (subject c)), map lower_char (strip (object c)))"

definition rule_1_hard_drop :: "ClaimTriple \<Rightarrow> FilterRuleSet \<Rightarrow> FilterDecision option" where
  "rule_1_hard_drop c rs =
     (if canon c \<in> set (hard_drop_triples rs) then Some (drop_claim HARD_DROP (''hard_drop:'' @ predicate c)) else None)"

definition rule_3_heuristic :: "ClaimTriple \<Rightarrow> FilterRuleSet \<Rightarrow> FilterDecision option" where
  "rule_3_heuristic c rs =
     (case canon c of (p, s, ob) \<Rightarrow>
        if p \<in> set (never_filter_predicates rs) then None
        else if p \<notin> set (suspect_predicates rs) then Some (keep HEURISTIC ''not_suspect_predicate'')
        else if s \<in> set (public_entity_allowlist rs) \<and> ob \<in> set (public_entity_allowlist rs)
        then Some (drop_claim HEURISTIC ''both_public_suspect_predicate'')
        else None)"

section \<open>State and outside\<close>

record audit_row =
  row_silo :: string
  row_version :: string
  row_hash :: "string option"
  row_rule :: RuleFired
  row_reason :: string
  row_subject :: string
  row_predicate :: string
  row_object :: string
  row_confidence :: real
  row_score :: "real option"
  row_doc :: string
  row_passage :: string
  row_model :: "string option"

record filter_state =
  breakers :: registry
  own_breakers :: "string \<rightharpoonup> CircuitBreaker"
  cached :: "string \<rightharpoonup> bool \<times> real"
  buf :: "audit_row list"
  inserted :: "audit_row list"
  asked :: nat
  wikidata_calls :: nat
  llm_calls :: nat

text \<open>
  \<open>answers k\<close> is what Wikidata says in its call \<open>k\<close> (\<open>Inl\<close> the name of an exception, a time-out
  included), \<open>replies k\<close> the text of the language model in its call \<open>k\<close>.  The clock, Redis and the
  writer of the audit rows count their calls together.  The rest is the hash, the \<open>repr\<close> of a text and
  the text of a number.
\<close>

record filter_env =
  now_s :: "nat \<Rightarrow> real"
  redis_fails :: "nat \<Rightarrow> bool"
  answers :: "nat \<Rightarrow> ClaimTriple \<Rightarrow> string + bool"
  replies :: "nat \<Rightarrow> ClaimTriple \<Rightarrow> string + string"
  insert_fails :: "nat \<Rightarrow> bool"
  sha256_hex :: "string \<Rightarrow> string"
  repr_text :: "string \<Rightarrow> string"
  show_float :: "real \<Rightarrow> string"

definition next_call :: "filter_state \<Rightarrow> nat \<times> filter_state" where
  "next_call st = (asked st, st\<lparr>asked := Suc (asked st)\<rparr>)"

definition ask_wikidata :: "filter_env \<Rightarrow> ClaimTriple \<Rightarrow> filter_state \<Rightarrow> (string + bool) \<times> filter_state" where
  "ask_wikidata e c st = (answers e (wikidata_calls st) c, st\<lparr>wikidata_calls := Suc (wikidata_calls st)\<rparr>)"

definition complete :: "filter_env \<Rightarrow> ClaimTriple \<Rightarrow> filter_state \<Rightarrow> (string + string) \<times> filter_state" where
  "complete e c st = (replies e (llm_calls st) c, st\<lparr>llm_calls := Suc (llm_calls st)\<rparr>)"

text \<open>
  \<open>_get_cb\<close> and one operation of the breaker it returns: the shared breaker of the silo, or the one the
  rule made for itself when it was given no silo.
\<close>

definition on_cb ::
  "filter_env \<Rightarrow> string option \<Rightarrow> string \<Rightarrow> nat \<Rightarrow> real \<Rightarrow> real \<Rightarrow> (real \<Rightarrow> CircuitBreaker \<Rightarrow> 'a \<times> CircuitBreaker) \<Rightarrow>
   filter_state \<Rightarrow> 'a \<times> filter_state" where
  "on_cb e rule_silo service threshold window cooldown f st =
     (let (k, st) = next_call st in
      case rule_silo of
        Some s \<Rightarrow> (let (cb, reg) = get_or_create s service threshold window cooldown (breakers st);
                       (r, cb') = f (now_s e k) cb
                   in (r, st\<lparr>breakers := reg((s, service) \<mapsto> cb')\<rparr>))
      | None \<Rightarrow> (let cb = (case own_breakers st service of None \<Rightarrow> new_breaker threshold window cooldown | Some cb \<Rightarrow> cb);
                     (r, cb') = f (now_s e k) cb
                 in (r, st\<lparr>own_breakers := (own_breakers st)(service \<mapsto> cb')\<rparr>)))"

section \<open>Wikidata\<close>

definition cache_key :: "filter_env \<Rightarrow> ClaimTriple \<Rightarrow> string" where
  "cache_key e c = ''wikidata:hit:'' @ sha256_hex e (predicate c @ ''|'' @ map lower_char (subject c) @ ''|'' @ map lower_char (object c))"

definition decision_from_present :: "bool \<Rightarrow> FilterDecision option" where
  "decision_from_present present = (if present then Some (drop_claim WIKIDATA ''wikidata_present'') else None)"

definition cache_get :: "filter_env \<Rightarrow> string \<Rightarrow> filter_state \<Rightarrow> bool option \<times> filter_state" where
  "cache_get e key st = (let (k, st) = next_call st in
     (if redis_fails e k then None
      else (case cached st key of None \<Rightarrow> None | Some (present, expiry) \<Rightarrow> if now_s e k < expiry then Some present else None), st))"

definition cache_set :: "filter_env \<Rightarrow> FilterRuleSet \<Rightarrow> string \<Rightarrow> bool \<Rightarrow> filter_state \<Rightarrow> filter_state" where
  "cache_set e rs key present st = (let (k, st) = next_call st in
     if redis_fails e k then st
     else st\<lparr>cached := (cached st)(key \<mapsto> (present, now_s e k + 86400 * real (wikidata_cache_ttl_days rs)))\<rparr>)"

definition on_wikidata_cb ::
  "filter_env \<Rightarrow> FilterRuleSet \<Rightarrow> string option \<Rightarrow> (real \<Rightarrow> CircuitBreaker \<Rightarrow> 'a \<times> CircuitBreaker) \<Rightarrow> filter_state \<Rightarrow> 'a \<times> filter_state" where
  "on_wikidata_cb e rs rule_silo =
     on_cb e rule_silo ''wikidata'' (wikidata_cb_failure_threshold rs) (wikidata_cb_window_s rs) (wikidata_cb_cooldown_s rs)"

definition external_failure :: "string \<Rightarrow> FilterDecision" where
  "external_failure why = keep EXTERNAL_FAILURE why"

definition wikidata_evaluate ::
  "filter_env \<Rightarrow> FilterRuleSet \<Rightarrow> string option \<Rightarrow> ClaimTriple \<Rightarrow> filter_state \<Rightarrow> FilterDecision option \<times> filter_state" where
  "wikidata_evaluate e rs rule_silo c st =
     (let key = cache_key e c; (hit, st) = cache_get e key st in
      case hit of Some present \<Rightarrow> (decision_from_present present, st)
      | None \<Rightarrow>
        (let (open_now, st) = on_wikidata_cb e rs rule_silo is_open st in
         if open_now then (Some (external_failure ''wikidata_cb_open''), st)
         else (let (answer, st) = ask_wikidata e c st in
           case answer of
             Inl err \<Rightarrow> (Some (external_failure (''wikidata_error:'' @ err)),
                         snd (on_wikidata_cb e rs rule_silo record_failure st))
           | Inr present \<Rightarrow> (decision_from_present present,
               cache_set e rs key present (snd (on_wikidata_cb e rs rule_silo (\<lambda>_. record_success) st))))))"

section \<open>The language model\<close>

text \<open>
  \<open>re.search\<close> of a number from 0 to 1 between word boundaries.  After the digit 0 the fraction is
  taken when it ends at a boundary; after 1 only zeros may follow, and the number is 1 either way.
\<close>

definition is_word :: "char \<Rightarrow> bool" where
  "is_word c = (word_char (lower_char c) \<or> c = CHR ''_'')"

definition is_digit :: "char \<Rightarrow> bool" where
  "is_digit c = (let k = of_char c :: nat in 48 \<le> k \<and> k \<le> 57)"

definition at_boundary :: "string \<Rightarrow> bool" where
  "at_boundary s = (case s of [] \<Rightarrow> True | c # _ \<Rightarrow> \<not> is_word c)"

fun fraction :: "string \<Rightarrow> real" where
  "fraction [] = 0"
| "fraction (c # cs) = (real (of_char c :: nat) - 48 + fraction cs) / 10"

definition score_at :: "string \<Rightarrow> real option" where
  "score_at s = (case s of
       [] \<Rightarrow> None
     | c # rest \<Rightarrow>
         if c = CHR ''0'' then
           (let digits = (case rest of [] \<Rightarrow> [] | d # ds \<Rightarrow> if d = CHR ''.'' then takeWhile is_digit ds else []) in
            if digits \<noteq> [] \<and> at_boundary (drop (Suc (length digits)) rest) then Some (fraction digits)
            else if at_boundary rest then Some 0 else None)
         else if c = CHR ''1'' then (if at_boundary rest then Some 1 else None)
         else None)"

fun search_score :: "bool \<Rightarrow> string \<Rightarrow> real option" where
  "search_score after_word [] = None"
| "search_score after_word (c # cs) =
     (case (if after_word then None else score_at (c # cs)) of
        Some x \<Rightarrow> Some x
      | None \<Rightarrow> search_score (is_word c) cs)"

definition on_llm_cb ::
  "filter_env \<Rightarrow> FilterRuleSet \<Rightarrow> string option \<Rightarrow> (real \<Rightarrow> CircuitBreaker \<Rightarrow> 'a \<times> CircuitBreaker) \<Rightarrow> filter_state \<Rightarrow> 'a \<times> filter_state" where
  "on_llm_cb e rs rule_silo =
     on_cb e rule_silo ''llm_classifier'' (llm_cb_failure_threshold rs) (llm_cb_window_s rs) (llm_cb_cooldown_s rs)"

definition score_decision :: "filter_env \<Rightarrow> FilterRuleSet \<Rightarrow> real \<Rightarrow> FilterDecision" where
  "score_decision e rs score =
     (if llm_threshold rs \<le> score
      then (drop_claim LLM_CONFIDENCE (''score>='' @ show_float e (llm_threshold rs)))\<lparr>llm_score := Some score\<rparr>
      else (keep LLM_CONFIDENCE (''score<'' @ show_float e (llm_threshold rs)))\<lparr>llm_score := Some score\<rparr>)"

definition llm_evaluate ::
  "filter_env \<Rightarrow> FilterRuleSet \<Rightarrow> string option \<Rightarrow> ClaimTriple \<Rightarrow> filter_state \<Rightarrow> FilterDecision option \<times> filter_state" where
  "llm_evaluate e rs rule_silo c st =
     (let (open_now, st) = on_llm_cb e rs rule_silo is_open st in
      if open_now then (Some (external_failure ''llm_cb_open''), st)
      else (let (answer, st) = complete e c st in
        case answer of
          Inl err \<Rightarrow> (Some (external_failure (''llm_error:'' @ err)), snd (on_llm_cb e rs rule_silo record_failure st))
        | Inr reply \<Rightarrow>
            (case search_score False reply of
               None \<Rightarrow> (Some (external_failure (''llm_unparseable:'' @ repr_text e (take 40 reply))), st)
             | Some x \<Rightarrow> (Some (score_decision e rs (clamp01 x)), snd (on_llm_cb e rs rule_silo (\<lambda>_. record_success) st)))))"

section \<open>The orchestrator\<close>

definition evaluate_one ::
  "filter_env \<Rightarrow> FilterRuleSet \<Rightarrow> string option \<Rightarrow> ClaimTriple \<Rightarrow> filter_state \<Rightarrow> FilterDecision \<times> filter_state" where
  "evaluate_one e rs rule_silo c st =
     (case rule_1_hard_drop c rs of Some d1 \<Rightarrow> (d1, st)
      | None \<Rightarrow>
        (let (d2, st) = wikidata_evaluate e rs rule_silo c st in
         if d2 \<noteq> None \<and> rule_fired (the d2) \<noteq> EXTERNAL_FAILURE then (the d2, st)
         else (case rule_3_heuristic c rs of Some d3 \<Rightarrow> (d3, st)
           | None \<Rightarrow>
             (let (d4, st) = llm_evaluate e rs rule_silo c st in
              case d4 of
                None \<Rightarrow> (keep KEPT ''no_rule_decisive'', st)
              | Some d \<Rightarrow> if rule_fired d = EXTERNAL_FAILURE then (keep KEPT ''all_rules_inconclusive'', st) else (d, st)))))"

definition audit_of :: "FilterRuleSet \<Rightarrow> string \<Rightarrow> string option \<Rightarrow> ClaimTriple \<Rightarrow> FilterDecision \<Rightarrow> audit_row" where
  "audit_of rs silo_id extractor_model c d =
     \<lparr>row_silo = silo_id, row_version = version rs, row_hash = silo_override_hash rs, row_rule = rule_fired d,
      row_reason = reason d, row_subject = subject c, row_predicate = predicate c, row_object = object c,
      row_confidence = claim_confidence c, row_score = llm_score d, row_doc = source_doc_id c,
      row_passage = source_passage_id c, row_model = extractor_model\<rparr>"

definition record_decision ::
  "FilterRuleSet \<Rightarrow> string \<Rightarrow> string option \<Rightarrow> ClaimTriple \<Rightarrow> FilterDecision \<Rightarrow> filter_state \<Rightarrow> filter_state" where
  "record_decision rs silo_id extractor_model c d st =
     (if action d = Keep then st else st\<lparr>buf := buf st @ [audit_of rs silo_id extractor_model c d]\<rparr>)"

definition flush :: "filter_env \<Rightarrow> filter_state \<Rightarrow> filter_state" where
  "flush e st =
     (if buf st = [] then st
      else (let (k, st) = next_call st in
        if insert_fails e k then st else st\<lparr>inserted := inserted st @ buf st, buf := []\<rparr>))"

fun evaluate_each ::
  "filter_env \<Rightarrow> FilterRuleSet \<Rightarrow> string option \<Rightarrow> string \<Rightarrow> string option \<Rightarrow> ClaimTriple list \<Rightarrow> filter_state \<Rightarrow>
   FilterDecision list \<times> filter_state" where
  "evaluate_each e rs rule_silo silo_id extractor_model [] st = ([], st)"
| "evaluate_each e rs rule_silo silo_id extractor_model (c # cs) st =
     (let (d, st) = evaluate_one e rs rule_silo c st;
          st = record_decision rs silo_id extractor_model c d st;
          (ds, st) = evaluate_each e rs rule_silo silo_id extractor_model cs st
      in (d # ds, st))"

definition evaluate ::
  "filter_env \<Rightarrow> FilterRuleSet \<Rightarrow> string option \<Rightarrow> string \<Rightarrow> string option \<Rightarrow> ClaimTriple list \<Rightarrow> filter_state \<Rightarrow>
   FilterDecision list \<times> filter_state" where
  "evaluate e rs rule_silo silo_id extractor_model cs st =
     (if \<not> enabled rs then (map (\<lambda>_. keep KEPT ''filter_disabled'') cs, st)
      else (let (ds, st) = evaluate_each e rs rule_silo silo_id extractor_model cs st in (ds, flush e st)))"

end
