(* ===== verification/Schema.thy ===== *)
theory Schema
  imports PropertyGraph
begin

text \<open>
  The labels of the nodes that carry content, and the condition on labels the statements of the
  services share (\<open>db/schema.py\<close>).
\<close>

definition CORE_CONTENT_LABELS :: "string list" where
  "CORE_CONTENT_LABELS = [''Memory'', ''Claim'', ''Fact'', ''Belief'', ''Commitment'']"

definition content_union_predicate :: "node \<Rightarrow> bool" where
  "content_union_predicate n \<longleftrightarrow> list_ex (\<lambda>l. has_label l n) CORE_CONTENT_LABELS"

end
