(* ===== verification/ExtractionJobs.thy ===== *)
theory ExtractionJobs
  imports ClaimFilter Schema GraphSteps
begin

text \<open>
  What becomes of an extraction (\<open>extraction/service.py\<close>): its entities and relationships are
  written to the graph, every relationship becomes a claim, the claims pass the filter and are
  written and attached to the document, and the job (\<open>extraction/models.py\<close>, kept by
  \<open>extraction/job_store.py\<close>) records how it went.

  The writes are transactions of \<open>TxMonad\<close>, where any call may fail.  Database times read in a
  statement are one more reading of the clock.  A comparison by \<open>toLower\<close> with a property that
  is no text counts as false.
\<close>

section \<open>Entities\<close>

record entity_row =
  er_name :: string
  er_qualified :: jvalue
  er_qualified_lower :: "string option"
  er_type :: jvalue
  er_description :: jvalue
  er_file :: jvalue
  er_new_id :: string

abbreviation lower :: "string \<Rightarrow> string" where
  "lower \<equiv> map lower_char"

text \<open>\<open>v.lower()\<close>, and \<open>v.lower() if v else None\<close>.\<close>

definition jlower :: "jvalue \<Rightarrow> string tx" where
  "jlower v = (case v of JStr s \<Rightarrow> ret (lower s) | _ \<Rightarrow> raise TxMonad.AttributeError)"

definition jlower_or_none :: "jvalue \<Rightarrow> string option tx" where
  "jlower_or_none v = (if jtruthy v then tbind (jlower v) (\<lambda>s. ret (Some s)) else ret None)"

definition entity_key :: "ExtractedEntity \<Rightarrow> (string \<times> string option) tx" where
  "entity_key ent = tbind (jlower (name ent)) (\<lambda>n. tbind (jlower_or_none (qualified_name ent)) (\<lambda>q. ret (n, q)))"

text \<open>The first entity of each key.\<close>

function first_of_key :: "('k \<times> 'a) list \<Rightarrow> ('k \<times> 'a) list" where
  "first_of_key [] = []"
| "first_of_key (x # xs) = x # first_of_key (filter (\<lambda>y. fst y \<noteq> fst x) xs)"
  by pat_completeness auto
termination by (relation "measure length") (auto simp: le_imp_less_Suc)

definition row_of :: "(string \<times> string option) \<times> ExtractedEntity \<Rightarrow> entity_row tx" where
  "row_of x = (case x of ((n, q), ent) \<Rightarrow> tbind new_uuid (\<lambda>i. ret
     \<lparr>er_name = (case name ent of JStr s \<Rightarrow> s | _ \<Rightarrow> []), er_qualified = qualified_name ent, er_qualified_lower = q,
      er_type = entity_type ent, er_description = description ent, er_file = file_path ent, er_new_id = i\<rparr>))"

definition is_entity :: "string \<Rightarrow> node \<Rightarrow> bool" where
  "is_entity silo_id n \<longleftrightarrow> has_label ''Entity'' n \<and> silo n = Some silo_id"

definition named :: "entity_row \<Rightarrow> node \<Rightarrow> bool" where
  "named r n \<longleftrightarrow> map_option lower (str_of (attrs n ''name'')) = Some (lower (er_name r)) \<or>
     er_qualified_lower r \<noteq> None \<and> map_option lower (str_of (attrs n ''qualified_name'')) = er_qualified_lower r"

definition existing :: "string \<Rightarrow> graph \<Rightarrow> entity_row \<Rightarrow> node option" where
  "existing silo_id g r = find (\<lambda>n. is_entity silo_id n \<and> named r n) (nodes g)"

text \<open>
  What the driver stores for a JSON value is the argument \<open>bolt\<close>.  The look-ups of all rows come before
  the first creation (\<open>collect\<close> ends the reading part of the statement), so rows of one batch do
  not see each other.
\<close>

definition create_entity :: "(jvalue \<Rightarrow> val option) \<Rightarrow> string \<Rightarrow> string \<Rightarrow> entity_row \<Rightarrow> graph \<Rightarrow> graph" where
  "create_entity bolt silo_id created r =
     add_node [''Entity''] (er_new_id r) (Some silo_id)
       (Map.empty(''name'' \<mapsto> VStr (er_name r), ''entity_type'' := bolt (er_type r), ''description'' := bolt (er_description r),
        ''qualified_name'' := bolt (er_qualified r), ''file_path'' := bolt (er_file r), ''created_at'' \<mapsto> VStr created))
       Map.empty"

definition BATCH_FIND_OR_CREATE_ENTITIES ::
  "(jvalue \<Rightarrow> val option) \<Rightarrow> entity_row list \<Rightarrow> string \<Rightarrow> string \<Rightarrow> graph \<Rightarrow> graph \<times> (string \<times> string) list" where
  "BATCH_FIND_OR_CREATE_ENTITIES bolt rows silo_id created g =
     (fold (create_entity bolt silo_id created) (filter (\<lambda>r. existing silo_id g r = None) rows) g,
      map (\<lambda>r. (er_name r, case existing silo_id g r of Some n \<Rightarrow> nid n | None \<Rightarrow> er_new_id r)) rows)"

definition batch_find_or_create_entities ::
  "(jvalue \<Rightarrow> val option) \<Rightarrow> (int \<Rightarrow> string) \<Rightarrow> string \<Rightarrow> ExtractedEntity list \<Rightarrow> int \<Rightarrow> (string \<times> string) list tx" where
  "batch_find_or_create_entities bolt isoformat silo_id es now =
     tbind (tfor es (\<lambda>ent. tbind (entity_key ent) (\<lambda>k. ret (k, ent)))) (\<lambda>keyed.
     tbind (tfor (first_of_key keyed) row_of) (\<lambda>rows.
     tbind (execute_write (BATCH_FIND_OR_CREATE_ENTITIES bolt rows silo_id (isoformat now))) (\<lambda>results.
     let id_by_name_lower = map_of (rev (map (\<lambda>(n, i). (lower n, i)) results)) in
     ret (dict_of (concat (map (\<lambda>((n, _), ent). case id_by_name_lower n of
         None \<Rightarrow> [] | Some i \<Rightarrow> [(case name ent of JStr s \<Rightarrow> s | _ \<Rightarrow> [], i)]) keyed))))))"

section \<open>Relationships\<close>

record rel_row =
  rr_source :: string
  rr_target :: string
  rr_type :: RelationshipType
  rr_kind :: string
  rr_directed :: bool
  rr_confidence :: real
  rr_temporal :: jvalue
  rr_nodes :: "string list"
  rr_created :: string

text \<open>\<open>entity_id_map.get(v)\<close>: the keys are texts, and a list or an object is not hashable.\<close>

definition id_of :: "(string \<times> string) list \<Rightarrow> jvalue \<Rightarrow> string option tx" where
  "id_of m v = (case v of JStr s \<Rightarrow> ret (map_of m s) | JList _ \<Rightarrow> raise TxMonad.TypeError
     | JObj _ \<Rightarrow> raise TxMonad.TypeError | _ \<Rightarrow> ret None)"

definition rel_data :: "(string \<times> string) list \<Rightarrow> string \<Rightarrow> ExtractedRelationship \<Rightarrow> rel_row list tx" where
  "rel_data m created rel =
     tbind (id_of m (source rel)) (\<lambda>source_id.
     tbind (id_of m (target rel)) (\<lambda>target_id.
     case (source_id, target_id) of
       (Some a, Some b) \<Rightarrow> ret [\<lparr>rr_source = a, rr_target = b, rr_type = relationship_type rel, rr_kind = kind rel,
          rr_directed = directed rel, rr_confidence = confidence rel, rr_temporal = temporal rel,
          rr_nodes = source_node_ids rel, rr_created = created\<rparr>]
     | _ \<Rightarrow> ret []))"

definition rel_props :: "(jvalue \<Rightarrow> val option) \<Rightarrow> rel_row \<Rightarrow> pymap" where
  "rel_props bolt r = Map.empty(''kind'' \<mapsto> VStr (rr_kind r), ''directed'' \<mapsto> VBool (rr_directed r),
     ''confidence'' \<mapsto> VNum (rr_confidence r), ''temporal'' := bolt (rr_temporal r),
     ''source_node_ids'' \<mapsto> VStrs (rr_nodes r), ''created_at'' \<mapsto> VStr (rr_created r))"

fun batch_entity_rels ::
  "(jvalue \<Rightarrow> val option) \<Rightarrow> RelationshipType \<Rightarrow> rel_row list \<Rightarrow> string \<Rightarrow> graph \<Rightarrow> graph \<times> nat" where
  "batch_entity_rels bolt t [] silo_id g = (g, 0)"
| "batch_entity_rels bolt t (r # rs) silo_id g =
     (let as = match_label_id g ''Entity'' (rr_source r) silo_id;
          bs = match_label_id g ''Entity'' (rr_target r) silo_id;
          (g', k) = batch_entity_rels bolt t rs silo_id (add_edges (type_value t) (rel_props bolt r) as bs g)
      in (g', length as * length bs + k))"

definition grouped :: "rel_row list \<Rightarrow> (RelationshipType \<times> rel_row list) list" where
  "grouped rows = map (\<lambda>(t, _). (t, filter (\<lambda>r. rr_type r = t) rows)) (first_of_key (map (\<lambda>r. (rr_type r, ())) rows))"

definition apply_entities_and_rels ::
  "(jvalue \<Rightarrow> val option) \<Rightarrow> (int \<Rightarrow> string) \<Rightarrow> string \<Rightarrow> ExtractionResult \<Rightarrow> (nat \<times> nat \<times> (string \<times> string) list) tx" where
  "apply_entities_and_rels bolt isoformat silo_id result =
     tbind datetime_now (\<lambda>now.
     tbind (if entities result \<noteq> [] then batch_find_or_create_entities bolt isoformat silo_id (entities result) now
            else ret []) (\<lambda>entity_id_map.
     tbind (tfor (relationships result) (rel_data entity_id_map (isoformat now))) (\<lambda>rels_data.
     tbind (tfor (grouped (concat rels_data)) (\<lambda>(t, group_rels).
       tcatch (execute_write (batch_entity_rels bolt t group_rels silo_id)) (\<lambda>_. ret 0))) (\<lambda>created.
     ret (length entity_id_map, sum_list created, entity_id_map)))))"

section \<open>Claims\<close>

definition entity_type_of :: "ExtractionResult \<Rightarrow> string \<Rightarrow> jvalue" where
  "entity_type_of result s =
     (case map_of (rev (map (\<lambda>ent. (name ent, entity_type ent)) (entities result))) (JStr s) of
        None \<Rightarrow> JStr ''unknown'' | Some t \<Rightarrow> t)"

definition synthesized_predicate :: "ExtractedRelationship \<Rightarrow> string" where
  "synthesized_predicate rel =
     (let p = lower (strip (if kind rel \<noteq> [] then kind rel else type_value (relationship_type rel)))
      in if p = [] then lower (type_value (relationship_type rel)) else p)"

text \<open>Ends that are not in the map, or with an empty id, are skipped; the lookups cannot raise here,
  they did not raise for the relationships.\<close>

definition truthy_id :: "(string \<times> string) list \<Rightarrow> jvalue \<Rightarrow> (string \<times> string) option" where
  "truthy_id m v = (case v of JStr s \<Rightarrow> (case map_of m s of None \<Rightarrow> None | Some i \<Rightarrow> if i = [] then None else Some (s, i)) | _ \<Rightarrow> None)"

definition synthesize_claim :: "ExtractionResult \<Rightarrow> (string \<times> string) list \<Rightarrow> string \<Rightarrow> string \<Rightarrow> ExtractedRelationship \<Rightarrow> ClaimTriple option" where
  "synthesize_claim result m doc_id now_iso rel =
     (case (truthy_id m (source rel), truthy_id m (target rel)) of
        (Some (s, i), Some (t, j)) \<Rightarrow> Some
          \<lparr>subject = s, predicate = synthesized_predicate rel, object = t, source_passage_id = doc_id, source_doc_id = doc_id,
           valid_from = now_iso, valid_to = None, claim_confidence = confidence rel,
           entity_mentions = [\<lparr>entity_id = i, mention_name = s, mention_type = entity_type_of result s\<rparr>,
                              \<lparr>entity_id = j, mention_name = t, mention_type = entity_type_of result t\<rparr>],
           ref_doc_id = None\<rparr>
      | _ \<Rightarrow> None)"

definition synthesize_claim_triples :: "ExtractionResult \<Rightarrow> (string \<times> string) list \<Rightarrow> string \<Rightarrow> string \<Rightarrow> ClaimTriple list" where
  "synthesize_claim_triples result m doc_id now_iso =
     List.map_filter (synthesize_claim result m doc_id now_iso) (relationships result)"

definition triple_id :: "(string \<Rightarrow> string) \<Rightarrow> ClaimTriple \<Rightarrow> string" where
  "triple_id sha256 c = claim_id sha256 (subject c) (predicate c) (object c) (valid_from c) (valid_to c) (source_doc_id c)"

definition claim_fields :: "(string \<Rightarrow> string) \<Rightarrow> string \<Rightarrow> ClaimTriple \<Rightarrow> pymap" where
  "claim_fields sha256 created c =
     Map.empty(''fingerprint'' \<mapsto> VStr (triple_id sha256 c), ''subject'' \<mapsto> VStr (subject c), ''predicate'' \<mapsto> VStr (predicate c),
      ''object'' \<mapsto> VStr (object c), ''valid_from'' \<mapsto> VStr (valid_from c), ''valid_to'' := map_option VStr (valid_to c),
      ''source_doc_id'' \<mapsto> VStr (source_doc_id c), ''source_passage_id'' \<mapsto> VStr (source_passage_id c),
      ''confidence'' \<mapsto> VNum (claim_confidence c), ''created_at'' \<mapsto> VStr created, ''committed'' \<mapsto> VBool True)"

definition upsert_claim :: "(string \<Rightarrow> string) \<Rightarrow> string \<Rightarrow> string \<Rightarrow> ClaimTriple \<Rightarrow> graph \<Rightarrow> graph" where
  "upsert_claim sha256 silo_id created c g =
     (if match_label_id g ''Claim'' (triple_id sha256 c) silo_id = []
      then add_node [''Claim''] (triple_id sha256 c) (Some silo_id) (claim_fields sha256 created c) Map.empty g else g)"

definition BATCH_UPSERT_CLAIMS :: "(string \<Rightarrow> string) \<Rightarrow> string \<Rightarrow> string \<Rightarrow> ClaimTriple list \<Rightarrow> graph \<Rightarrow> graph" where
  "BATCH_UPSERT_CLAIMS sha256 silo_id created cs = fold (upsert_claim sha256 silo_id created) cs"

text \<open>\<open>MERGE (c)-[:t]->(x)\<close> for pairs of a claim and a node with a label.\<close>

definition attach_claims :: "string \<Rightarrow> string \<Rightarrow> string \<Rightarrow> (string \<times> string) list \<Rightarrow> graph \<Rightarrow> graph" where
  "attach_claims t label silo_id rows =
     fold (\<lambda>(cid, i) g. merge_edges t [] (match_label_id g ''Claim'' cid silo_id) (match_label_id g label i silo_id) g) rows"

definition BATCH_ATTACH_CLAIMS_TO_MEMORY :: "string \<Rightarrow> (string \<times> string) list \<Rightarrow> graph \<Rightarrow> graph" where
  "BATCH_ATTACH_CLAIMS_TO_MEMORY = attach_claims ''DERIVED_FROM'' ''Memory''"

definition BATCH_ATTACH_CLAIM_REFERENCES :: "string \<Rightarrow> (string \<times> string) list \<Rightarrow> graph \<Rightarrow> graph" where
  "BATCH_ATTACH_CLAIM_REFERENCES = attach_claims ''DERIVED_FROM'' ''Memory''"

definition BATCH_ATTACH_CLAIMS_TO_PASSAGE :: "string \<Rightarrow> (string \<times> string) list \<Rightarrow> graph \<Rightarrow> graph" where
  "BATCH_ATTACH_CLAIMS_TO_PASSAGE = attach_claims ''EXTRACTED_FROM'' ''Passage''"

definition reference_rows :: "(string \<Rightarrow> string) \<Rightarrow> ClaimTriple list \<Rightarrow> (string \<times> string) list" where
  "reference_rows sha256 cs = concat (map (\<lambda>c. case ref_doc_id c of None \<Rightarrow> [] | Some r \<Rightarrow> if r = [] then [] else [(triple_id sha256 c, r)]) cs)"

text \<open>The statement for the mentions is a stub that changes nothing.\<close>

definition BATCH_UPSERT_ENTITY_MENTIONS :: "graph \<Rightarrow> graph" where
  "BATCH_UPSERT_ENTITY_MENTIONS g = g"

definition run_write :: "(graph \<Rightarrow> graph) \<Rightarrow> unit tx" where
  "run_write f = execute_write (\<lambda>g. (f g, ()))"

definition attempt_write :: "(graph \<Rightarrow> graph) \<Rightarrow> unit tx" where
  "attempt_write f = tcatch (run_write f) (\<lambda>_. ret ())"

definition apply_document_claims ::
  "(string \<Rightarrow> string) \<Rightarrow> (int \<Rightarrow> string) \<Rightarrow> string \<Rightarrow> string \<Rightarrow> ClaimTriple list \<Rightarrow> string list tx" where
  "apply_document_claims sha256 isoformat silo_id doc_id triples =
     (if triples = [] then ret []
      else tbind datetime_now (\<lambda>now.
        let written_ids = map (triple_id sha256) triples in
        tcatch
          (tbind (run_write (BATCH_UPSERT_CLAIMS sha256 silo_id (isoformat now) triples)) (\<lambda>_.
           tbind (attempt_write (BATCH_ATTACH_CLAIMS_TO_MEMORY silo_id (map (\<lambda>i. (i, doc_id)) written_ids))) (\<lambda>_.
           tbind (twhen (concat (map entity_mentions triples) \<noteq> []) (attempt_write BATCH_UPSERT_ENTITY_MENTIONS)) (\<lambda>_.
           tbind (twhen (reference_rows sha256 triples \<noteq> [])
                    (attempt_write (BATCH_ATTACH_CLAIM_REFERENCES silo_id (reference_rows sha256 triples)))) (\<lambda>_.
           ret written_ids)))))
          (\<lambda>_. ret [])))"

definition apply_claims_to_graph ::
  "(string \<Rightarrow> string) \<Rightarrow> (int \<Rightarrow> string) \<Rightarrow> string \<Rightarrow> ClaimTriple list \<Rightarrow> nat tx" where
  "apply_claims_to_graph sha256 isoformat silo_id triples =
     (if triples = [] then ret 0
      else tbind datetime_now (\<lambda>now.
        tcatch
          (tbind (run_write (BATCH_UPSERT_CLAIMS sha256 silo_id (isoformat now) triples)) (\<lambda>_.
           tbind (run_write (BATCH_ATTACH_CLAIMS_TO_PASSAGE silo_id
             (map (\<lambda>c. (triple_id sha256 c, source_passage_id c)) triples))) (\<lambda>_.
           tbind (twhen (concat (map entity_mentions triples) \<noteq> []) (run_write BATCH_UPSERT_ENTITY_MENTIONS)) (\<lambda>_.
           tbind (twhen (reference_rows sha256 triples \<noteq> [])
                    (run_write (BATCH_ATTACH_CLAIM_REFERENCES silo_id (reference_rows sha256 triples)))) (\<lambda>_.
           ret (length triples))))))
          (\<lambda>_. ret 0)))"

section \<open>Contradictions\<close>

record ContradictsPair =
  fingerprint_a :: string
  fingerprint_b :: string
  claim_id_a :: string
  claim_id_b :: string

fun BATCH_CREATE_CONTRADICTS_EDGES :: "string \<Rightarrow> (string \<times> string \<times> string) list \<Rightarrow> graph \<Rightarrow> graph \<times> nat" where
  "BATCH_CREATE_CONTRADICTS_EDGES silo_id [] g = (g, 0)"
| "BATCH_CREATE_CONTRADICTS_EDGES silo_id ((i, j, eid) # rows) g =
     (let as = match_label_id g ''Claim'' i silo_id; bs = match_label_id g ''Claim'' j silo_id;
          (g', k) = BATCH_CREATE_CONTRADICTS_EDGES silo_id rows (merge_edges ''CONTRADICTS'' [(''id'', VStr eid)] as bs g)
      in (g', length as * length bs + k))"

definition apply_contradicts_to_graph :: "(string \<Rightarrow> string) \<Rightarrow> string \<Rightarrow> ContradictsPair list \<Rightarrow> nat tx" where
  "apply_contradicts_to_graph sha256 silo_id pairs =
     (if pairs = [] then ret 0
      else tcatch (execute_write (BATCH_CREATE_CONTRADICTS_EDGES silo_id
          (map (\<lambda>p. (claim_id_a p, claim_id_b p, contradicts_edge_id sha256 (fingerprint_a p) (fingerprint_b p))) pairs)))
        (\<lambda>_. ret 0))"

section \<open>The job\<close>

text \<open>
  \<open>save_fails k\<close> and \<open>redis_time k\<close> are about the \<open>k\<close>-th save.  The texts of exceptions, shortened as the
  code does, the cost of the calls of the model and the message for lost claims are arguments too.
\<close>

record job_env =
  tx_env :: env
  claim_filter :: "(filter_env \<times> FilterRuleSet \<times> string option) option"
  interpreter :: python
  extract_structured :: "string \<Rightarrow> TextExtraction.exn + (string \<times> jvalue) list"
  isoformat_of :: "int \<Rightarrow> string"
  sha256_of :: "string \<Rightarrow> string"
  bolt_of :: "jvalue \<Rightarrow> val option"
  extraction_error :: "TextExtraction.exn \<Rightarrow> string"
  store_error :: "TxMonad.exn \<Rightarrow> string"
  all_failed :: "nat \<Rightarrow> string"
  usage_cost :: real
  llm_model :: "string option"
  save_fails :: "nat \<Rightarrow> bool"
  redis_time :: "nat \<Rightarrow> int"

record job_state =
  job_world :: world
  the_job :: ExtractionJob
  job_store :: "string \<rightharpoonup> (string \<times> jvalue) list \<times> int"
  saves :: nat
  job_filter :: filter_state

definition JOB_TTL :: int where "JOB_TTL = 86400"

definition make_key :: "string \<Rightarrow> string \<Rightarrow> string" where
  "make_key silo_id i = ''extraction:job:'' @ silo_id @ '':'' @ i"

definition save :: "job_env \<Rightarrow> job_state \<Rightarrow> bool \<times> job_state" where
  "save en st =
     (let k = saves st; st' = st\<lparr>saves := Suc k\<rparr>; j = the_job st in
      if save_fails en k then (False, st')
      else (True, st'\<lparr>job_store := (job_store st)(make_key (job_silo j) (job_id j) \<mapsto>
              (to_dict (isoformat_of en) j, redis_time en k + JOB_TTL))\<rparr>))"

definition get_job ::
  "(string \<Rightarrow> int option) \<Rightarrow> int \<Rightarrow> string \<Rightarrow> string \<Rightarrow> (string \<rightharpoonup> (string \<times> jvalue) list \<times> int) \<Rightarrow> ExtractionJob option" where
  "get_job fromisoformat t silo_id i store =
     (case store (make_key silo_id i) of
        None \<Rightarrow> None
      | Some (d, expiry) \<Rightarrow>
          if expiry \<le> t then None
          else if read_str d ''silo_id'' \<noteq> Some silo_id then None
          else from_dict fromisoformat t d)"

definition UPDATE_EXTRACTION_STATUS :: "string \<Rightarrow> string \<Rightarrow> string \<Rightarrow> int \<Rightarrow> graph \<Rightarrow> graph" where
  "UPDATE_EXTRACTION_STATUS i silo_id status t =
     update_where (\<lambda>n. content_union_predicate n \<and> is_node i silo_id n)
       (\<lambda>n. set_field ''updated_at'' (Some (VTime t)) (set_field ''extraction_status'' (Some (VStr status)) n))"

definition update_node_extraction_status :: "string \<Rightarrow> string \<Rightarrow> string \<Rightarrow> unit tx" where
  "update_node_extraction_status silo_id node_id status =
     tbind datetime_now (\<lambda>t. attempt_write (UPDATE_EXTRACTION_STATUS node_id silo_id status t))"

text \<open>One transaction on the world of the job.\<close>

definition on_world :: "job_env \<Rightarrow> 'a tx \<Rightarrow> job_state \<Rightarrow> (TxMonad.exn + 'a) \<times> job_state" where
  "on_world en m st = (case m (tx_env en) (job_world st) of (r, w) \<Rightarrow> (r, st\<lparr>job_world := w\<rparr>))"

definition read_clock :: "job_env \<Rightarrow> job_state \<Rightarrow> int \<times> job_state" where
  "read_clock en st = (case on_world en datetime_now st of (r, st') \<Rightarrow> (case r of Inr t \<Rightarrow> t | Inl _ \<Rightarrow> 0, st'))"

definition set_node_status :: "job_env \<Rightarrow> string \<Rightarrow> string \<Rightarrow> job_state \<Rightarrow> job_state" where
  "set_node_status en silo_id status st =
     snd (on_world en (update_node_extraction_status silo_id (job_node (the_job st)) status) st)"

text \<open>The branches that set the job to failed: an exception, and claims of which none was written.\<close>

definition job_failed :: "job_env \<Rightarrow> string \<Rightarrow> string \<Rightarrow> job_state \<Rightarrow> job_state" where
  "job_failed en silo_id why st =
     (let (t, st) = read_clock en st in
      set_node_status en silo_id ''failed''
        (st\<lparr>the_job := (the_job st)\<lparr>job_status := FAILED, error := Some why, completed_at := Some t\<rparr>\<rparr>))"

definition filter_claims :: "job_env \<Rightarrow> string \<Rightarrow> ClaimTriple list \<Rightarrow> job_state \<Rightarrow> ClaimTriple list \<times> job_state" where
  "filter_claims en silo_id triples st =
     (case claim_filter en of
        None \<Rightarrow> (triples, st)
      | Some (e, rs, rule_silo) \<Rightarrow>
          (let (decisions, fs) = evaluate e rs rule_silo silo_id (llm_model en) triples (job_filter st)
           in (map fst (filter (\<lambda>(_, d). action d = Keep) (zip triples decisions)), st\<lparr>job_filter := fs\<rparr>)))"

definition job_claims ::
  "job_env \<Rightarrow> string \<Rightarrow> ExtractionResult \<Rightarrow> nat \<times> nat \<times> (string \<times> string) list \<Rightarrow> job_state \<Rightarrow> job_state" where
  "job_claims en silo_id result written st =
     (case written of (entities_created, relationships_created, entity_id_map) \<Rightarrow>
      let (now, st) = read_clock en st;
          doc = job_node (the_job st);
          triples = synthesize_claim_triples result entity_id_map doc (isoformat_of en now);
          (kept_triples, st) = filter_claims en silo_id triples st;
          (r, st) = on_world en (apply_document_claims (sha256_of en) (isoformat_of en) silo_id doc kept_triples) st
      in case r of
           Inl x \<Rightarrow> job_failed en silo_id (store_error en x) st
         | Inr claim_ids \<Rightarrow>
             if kept_triples \<noteq> [] \<and> claim_ids = [] then job_failed en silo_id (all_failed en (length kept_triples)) st
             else set_node_status en silo_id ''done''
               (st\<lparr>the_job := (the_job st)\<lparr>job_status := COMPLETED, entity_count := int entities_created,
                  relationship_count := int relationships_created, claim_node_ids := claim_ids,
                  cost_usd := usage_cost en, completed_at := Some now\<rparr>\<rparr>))"

definition job_body :: "job_env \<Rightarrow> string \<Rightarrow> string \<Rightarrow> job_state \<Rightarrow> job_state" where
  "job_body en silo_id content st =
     (case extract_from (interpreter en) (extract_structured en) content of
        Inl x \<Rightarrow> job_failed en silo_id (extraction_error en x) st
      | Inr result \<Rightarrow>
          (let (r, st) = on_world en (apply_entities_and_rels (bolt_of en) (isoformat_of en) silo_id result) st in
           case r of
             Inl x \<Rightarrow> job_failed en silo_id (store_error en x) st
           | Inr written \<Rightarrow> job_claims en silo_id result written st))"

text \<open>\<open>False\<close>: a save of the job raised, the one exception that leaves \<open>run_extraction_job\<close>.\<close>

definition run_extraction_job :: "job_env \<Rightarrow> string \<Rightarrow> string \<Rightarrow> job_state \<Rightarrow> bool \<times> job_state" where
  "run_extraction_job en silo_id content st =
     (let (saved, st) = save en (st\<lparr>the_job := (the_job st)\<lparr>job_status := RUNNING\<rparr>\<rparr>) in
      if \<not> saved then (False, st)
      else save en (job_body en silo_id content st))"

section \<open>Effects\<close>

text \<open>Every write of an extraction is a sequence of steps of its silo.\<close>

lemma gsteps_fold:
  assumes "\<And>x g. gsteps s g (f x g)"
  shows "gsteps s g (fold f xs g)"
proof (induction xs arbitrary: g)
  case (Cons x xs)
  show ?case using rtranclp_trans [OF assms [of g x] Cons.IH] by simp
qed simp

lemma gsteps_entities: "gsteps s g (fst (BATCH_FIND_OR_CREATE_ENTITIES bolt rows s t g))"
  by (auto simp: BATCH_FIND_OR_CREATE_ENTITIES_def create_entity_def intro!: gsteps_fold gsteps_create)

lemma gsteps_rels: "gsteps s g (fst (batch_entity_rels bolt t rs s g))"
proof (induction bolt t rs s g rule: batch_entity_rels.induct)
  case (2 bolt t r rs s g)
  let ?h = "add_edges (type_value t) (rel_props bolt r) (match_label_id g ''Entity'' (rr_source r) s)
     (match_label_id g ''Entity'' (rr_target r) s) g"
  have "gsteps s g ?h" by (rule gsteps_add_edges) (auto intro: match_label_id_silo_vids)
  moreover have "gsteps s ?h (fst (batch_entity_rels bolt t rs s ?h))" by (rule 2) (simp_all add: prod_eq_iff)
  ultimately show ?case by (simp add: Let_def split_beta)
qed simp

lemma gsteps_upsert_claims: "gsteps s g (BATCH_UPSERT_CLAIMS sha256 s t cs g)"
  unfolding BATCH_UPSERT_CLAIMS_def by (rule gsteps_fold) (simp add: upsert_claim_def gsteps_create)

lemma gsteps_attach: "gsteps s g (attach_claims t l s rows g)"
  unfolding attach_claims_def
  by (rule gsteps_fold) (auto split: prod.split intro: gsteps_merge_edges match_label_id_silo_vids)

lemma gsteps_contradict_batch: "gsteps s g (fst (BATCH_CREATE_CONTRADICTS_EDGES s rows g))"
proof (induction s rows g rule: BATCH_CREATE_CONTRADICTS_EDGES.induct)
  case (2 s i j eid rows g)
  let ?h = "merge_edges ''CONTRADICTS'' [(''id'', VStr eid)] (match_label_id g ''Claim'' i s) (match_label_id g ''Claim'' j s) g"
  have "gsteps s g ?h" by (rule gsteps_merge_edges) (auto intro: match_label_id_silo_vids)
  moreover have "gsteps s ?h (fst (BATCH_CREATE_CONTRADICTS_EDGES s rows ?h))" by (rule 2) (simp_all add: prod_eq_iff)
  ultimately show ?case by (simp add: Let_def split_beta)
qed simp

lemma gsteps_status: "gsteps s g (UPDATE_EXTRACTION_STATUS i s x t g)"
  unfolding UPDATE_EXTRACTION_STATUS_def
  by (rule gsteps_update) (simp add: is_node_def, rule identity_kept_comp [OF identity_kept_set(2) identity_kept_set(2)])

lemma eff_run_write: "(\<And>g. gsteps s g (f g)) \<Longrightarrow> geffect (gsteps s) (run_write f)"
  unfolding run_write_def by (rule in_silo.eff_write) simp

lemma eff_attempt_write: "(\<And>g. gsteps s g (f g)) \<Longrightarrow> geffect (gsteps s) (attempt_write f)"
  unfolding attempt_write_def by (intro effect_intros eff_run_write)

lemma eff_keys:
  "geffect (gsteps s) (jlower v)" "geffect (gsteps s) (jlower_or_none v)" "geffect (gsteps s) (entity_key ent)"
  "geffect (gsteps s) (row_of x)" "geffect (gsteps s) (id_of m v)" "geffect (gsteps s) (rel_data m t rel)"
  unfolding jlower_def jlower_or_none_def entity_key_def row_of_def id_of_def rel_data_def
  by (auto split: jvalue.split prod.split option.split intro!: effect_intros)

lemma eff_apply_entities_and_rels [effect_intros]: "geffect (gsteps s) (apply_entities_and_rels bolt fmt s result)"
proof -
  have "geffect (gsteps s) (batch_find_or_create_entities bolt fmt s es now)" for es now
    unfolding batch_find_or_create_entities_def Let_def
    by (intro effect_intros eff_keys in_silo.eff_write gsteps_entities)
  then show ?thesis
    unfolding apply_entities_and_rels_def
    by (intro effect_intros eff_keys in_silo.eff_write gsteps_rels) (auto intro!: effect_intros in_silo.eff_write gsteps_rels)
qed

lemma eff_apply_document_claims [effect_intros]: "geffect (gsteps s) (apply_document_claims sha256 fmt s doc cs)"
  unfolding apply_document_claims_def Let_def BATCH_ATTACH_CLAIMS_TO_MEMORY_def BATCH_ATTACH_CLAIM_REFERENCES_def
  by (intro effect_intros eff_run_write eff_attempt_write gsteps_upsert_claims gsteps_attach)
     (simp add: BATCH_UPSERT_ENTITY_MENTIONS_def)

lemma eff_apply_claims_to_graph [effect_intros]: "geffect (gsteps s) (apply_claims_to_graph sha256 fmt s cs)"
  unfolding apply_claims_to_graph_def BATCH_ATTACH_CLAIMS_TO_PASSAGE_def BATCH_ATTACH_CLAIM_REFERENCES_def
  by (intro effect_intros eff_run_write gsteps_upsert_claims gsteps_attach)
     (simp add: BATCH_UPSERT_ENTITY_MENTIONS_def)

lemma eff_apply_contradicts_to_graph [effect_intros]: "geffect (gsteps s) (apply_contradicts_to_graph sha256 s pairs)"
  unfolding apply_contradicts_to_graph_def by (intro effect_intros in_silo.eff_write gsteps_contradict_batch)

lemma eff_node_status: "geffect (gsteps s) (update_node_extraction_status s i x)"
  unfolding update_node_extraction_status_def by (intro effect_intros eff_attempt_write gsteps_status)

text \<open>The whole job.\<close>

definition job_steps :: "string \<Rightarrow> job_state \<Rightarrow> job_state \<Rightarrow> bool" where
  "job_steps s st st' \<longleftrightarrow> gsteps s (gr (job_world st)) (gr (job_world st'))"

lemma job_steps_trans: "job_steps s st st' \<Longrightarrow> job_steps s st' st'' \<Longrightarrow> job_steps s st st''"
  unfolding job_steps_def by (rule rtranclp_trans)

lemma job_steps_world:
  assumes "on_world en m st = (r, st')" "geffect (gsteps s) m"
  shows "job_steps s st st'"
  using assms(1) geffectD [OF assms(2), of "job_world st" "tx_env en"]
  by (auto simp: on_world_def job_steps_def split: prod.splits)

lemma job_steps_status: "job_steps s st (set_node_status en s x st)"
  unfolding set_node_status_def by (rule job_steps_world [OF prod.collapse [symmetric] eff_node_status])

lemma job_steps_clock: "read_clock en st = (t, st') \<Longrightarrow> job_steps s st st'"
  by (auto simp: read_clock_def on_world_def datetime_now_def job_steps_def)

lemma job_steps_job: "job_steps s st (set_node_status en s x (st\<lparr>the_job := j\<rparr>))"
  using job_steps_status [of s "st\<lparr>the_job := j\<rparr>" en x] by (simp add: job_steps_def)

lemma job_steps_failed: "job_steps s st (job_failed en s why st)"
proof -
  obtain t st1 where 1: "read_clock en st = (t, st1)" by (metis surj_pair)
  show ?thesis
    using job_steps_trans [OF job_steps_clock [OF 1] job_steps_job] by (simp add: job_failed_def 1)
qed

lemma job_steps_claims: "job_steps s st (job_claims en s result written st)"
proof -
  obtain ec rc m where w: "written = (ec, rc, m)" by (cases written)
  obtain now st1 where 1: "read_clock en st = (now, st1)" by (metis surj_pair)
  let ?doc = "job_node (the_job st1)"
  obtain kept st2 where 2: "filter_claims en s (synthesize_claim_triples result m ?doc (isoformat_of en now)) st1 = (kept, st2)"
    by (metis surj_pair)
  obtain r st3 where 3: "on_world en (apply_document_claims (sha256_of en) (isoformat_of en) s ?doc kept) st2 = (r, st3)"
    by (metis surj_pair)
  have "job_world st2 = job_world st1" using 2 by (auto simp: filter_claims_def split: option.splits prod.splits)
  then have "job_steps s st1 st3" using job_steps_world [OF 3 eff_apply_document_claims] by (simp add: job_steps_def)
  then have st3: "job_steps s st st3" by (rule job_steps_trans [OF job_steps_clock [OF 1]])
  show ?thesis
    using job_steps_trans [OF st3 job_steps_failed] job_steps_trans [OF st3 job_steps_job]
    by (cases r) (simp_all add: job_claims_def w 1 2 3)
qed

lemma job_steps_run: "job_steps s st (snd (run_extraction_job en s content st))"
proof -
  have save: "job_world (snd (save en v)) = job_world v" for v by (simp add: save_def Let_def)
  have body: "job_steps s v (job_body en s content v)" for v
  proof (cases "extract_from (interpreter en) (extract_structured en) content")
    case (Inl x)
    then show ?thesis by (simp add: job_body_def job_steps_failed)
  next
    case (Inr result)
    obtain r v1 where 1: "on_world en (apply_entities_and_rels (bolt_of en) (isoformat_of en) s result) v = (r, v1)"
      by (metis surj_pair)
    note v1 = job_steps_world [OF 1 eff_apply_entities_and_rels]
    show ?thesis
      using job_steps_trans [OF v1 job_steps_failed] job_steps_trans [OF v1 job_steps_claims]
      by (cases r) (simp_all add: job_body_def Inr 1)
  qed
  obtain b v where 1: "save en (st\<lparr>the_job := (the_job st)\<lparr>job_status := RUNNING\<rparr>\<rparr>) = (b, v)" by (metis surj_pair)
  have "job_world v = job_world st" using save [of "st\<lparr>the_job := (the_job st)\<lparr>job_status := RUNNING\<rparr>\<rparr>"] 1 by simp
  then show ?thesis using body [of v] by (cases b) (simp_all add: run_extraction_job_def 1 job_steps_def save)
qed

end
