(* ===== verification/Conflicts.thy ===== *)
theory Conflicts
  imports TxLink Lifecycle "HOL-Library.Product_Lexorder" "HOL-Library.List_Lexorder" "HOL-Library.Char_ord"
begin

text \<open>
  What becomes of a contradiction: the conflict resolvers and the worker that applies their
  decision (\<open>sage/consolidation.py\<close>), the detection of conflicts between agents at write time
  (\<open>engine/conflict_detection.py\<close>), the tools that list and settle conflicts
  (\<open>mcp/tools/conflicts.py\<close>), and the reaction tasks that flag, consolidate and cascade
  (\<open>reactions/tasks.py\<close>).

  Floats are reals; the readings of texts by \<open>float\<close>, \<open>int\<close>, \<open>str\<close> and \<open>fromisoformat\<close> are arguments
  (\<open>texts\<close>), times count in seconds.
\<close>

section \<open>Signals\<close>

datatype ResolutionAction = SUPERSEDE | MERGE | COEXIST | DEFER

record ConflictSignals =
  cs_node_id :: string
  cs_credibility :: real
  cs_corroboration_count :: int
  cs_created_at :: int
  cs_agent_id :: string
  cs_source_tier :: string

text \<open>The rationale is kept as the data its text shows.\<close>

datatype rationale =
    Tied real
  | HigherScore real real
  | CallFailed string
  | NoWinner "string option"
  | Stated "string option"

record ResolutionResult =
  rr_action :: ResolutionAction
  rr_winner :: "string option"
  rr_loser :: "string option"
  rr_rationale :: rationale
  rr_merged :: "string option"

section \<open>The deterministic resolver\<close>

definition days_since :: "int \<Rightarrow> int \<Rightarrow> int" where
  "days_since created_at now = max 0 ((now - created_at) div 86400)"

definition score :: "ConflictSignals \<Rightarrow> int \<Rightarrow> real" where
  "score s now =
     (let tier_weight = weight_of SOURCE_TIER_WEIGHTS (known_or SOURCE_TIER_WEIGHTS ''unknown'' (Some (cs_source_tier s)));
          corroboration = max 1 (cs_corroboration_count s);
          freshness = 1 / (1 + of_int (days_since (cs_created_at s) now))
      in tier_weight * ln (1 + of_int corroboration) * freshness)"

definition isclose :: "real \<Rightarrow> real \<Rightarrow> bool" where
  "isclose x y \<longleftrightarrow> \<bar>x - y\<bar> \<le> max (1 / 10 ^ 9 * max \<bar>x\<bar> \<bar>y\<bar>) (1 / 10 ^ 12)"

definition tiebreak :: "ConflictSignals \<Rightarrow> ConflictSignals \<Rightarrow> ConflictSignals \<times> ConflictSignals" where
  "tiebreak a b =
     (let same_agent = cs_agent_id a = cs_agent_id b in
      if cs_created_at a \<noteq> cs_created_at b then
        if (if same_agent then cs_created_at b < cs_created_at a else cs_created_at a < cs_created_at b) then (a, b) else (b, a)
      else if cs_node_id a < cs_node_id b then (a, b) else (b, a))"

definition ranked :: "ConflictSignals \<Rightarrow> ConflictSignals \<Rightarrow> real \<Rightarrow> real \<Rightarrow> (ConflictSignals \<times> ConflictSignals) \<times> rationale" where
  "ranked a b score_a score_b =
     (if isclose score_a score_b then (tiebreak a b, Tied score_a)
      else if score_b < score_a then ((a, b), HigherScore score_a score_b)
      else ((b, a), HigherScore score_b score_a))"

text \<open>Each score reads the clock.\<close>

definition resolve :: "ConflictSignals \<Rightarrow> ConflictSignals \<Rightarrow> ResolutionResult tx" where
  "resolve a b =
     tbind datetime_now (\<lambda>now_a. tbind datetime_now (\<lambda>now_b.
     case ranked a b (score a now_a) (score b now_b) of ((winner, loser), why) \<Rightarrow>
       ret \<lparr>rr_action = SUPERSEDE, rr_winner = Some (cs_node_id winner), rr_loser = Some (cs_node_id loser),
            rr_rationale = why, rr_merged = None\<rparr>))"

section \<open>The resolver that asks a language model\<close>

text \<open>An answer that follows the schema: texts or nulls.  \<open>Inl\<close>: the call failed with this message.\<close>

record llm_decision =
  ld_action :: "string option"
  ld_winner :: "string option"
  ld_rationale :: "string option"
  ld_merged :: "string option"

definition action_of :: "string option \<Rightarrow> ResolutionAction" where
  "action_of x = (if x = Some ''supersede'' then SUPERSEDE else if x = Some ''merge'' then MERGE
     else if x = Some ''coexist'' then COEXIST else DEFER)"

definition deferred :: "rationale \<Rightarrow> ResolutionResult" where
  "deferred why = \<lparr>rr_action = DEFER, rr_winner = None, rr_loser = None, rr_rationale = why, rr_merged = None\<rparr>"

definition llm_resolve :: "string + llm_decision \<Rightarrow> ConflictSignals \<Rightarrow> ConflictSignals \<Rightarrow> ResolutionResult" where
  "llm_resolve answer a b = (case answer of
     Inl e \<Rightarrow> deferred (CallFailed e)
   | Inr d \<Rightarrow>
       let action = action_of (ld_action d) in
       if action = SUPERSEDE then
         (if ld_winner d = Some ''a'' then \<lparr>rr_action = action, rr_winner = Some (cs_node_id a), rr_loser = Some (cs_node_id b),
              rr_rationale = Stated (ld_rationale d), rr_merged = None\<rparr>
          else if ld_winner d = Some ''b'' then \<lparr>rr_action = action, rr_winner = Some (cs_node_id b), rr_loser = Some (cs_node_id a),
              rr_rationale = Stated (ld_rationale d), rr_merged = None\<rparr>
          else deferred (NoWinner (ld_rationale d)))
       else \<lparr>rr_action = action, rr_winner = None, rr_loser = None, rr_rationale = Stated (ld_rationale d),
             rr_merged = (if action = MERGE then ld_merged d else None)\<rparr>)"

section \<open>Gathering the signals\<close>

record texts =
  text_time :: "string \<Rightarrow> int option"
  text_float :: "string \<Rightarrow> real option"
  text_int :: "string \<Rightarrow> int option"
  text_str :: "val \<Rightarrow> string"

fun falsy :: "val \<Rightarrow> bool" where
  "falsy (VBool b) = (\<not> b)"
| "falsy (VInt i) = (i = 0)"
| "falsy (VNum x) = (x = 0)"
| "falsy (VStr s) = (s = [])"
| "falsy (VTime t) = False"
| "falsy (VStrs xs) = (xs = [])"
| "falsy (VNums xs) = (xs = [])"
| "falsy (VDict kvs) = (kvs = [])"

text \<open>\<open>x or d\<close> for a value of a row.\<close>

definition val_or :: "val option \<Rightarrow> val \<Rightarrow> val" where
  "val_or x d = (case x of None \<Rightarrow> d | Some v \<Rightarrow> if falsy v then d else v)"

definition read_float :: "texts \<Rightarrow> val \<Rightarrow> real tx" where
  "read_float tt v = (case v of
     VNum x \<Rightarrow> ret x | VInt i \<Rightarrow> ret (of_int i) | VBool b \<Rightarrow> ret (if b then 1 else 0)
   | VStr s \<Rightarrow> (case text_float tt s of None \<Rightarrow> raise ValueError | Some x \<Rightarrow> ret x)
   | _ \<Rightarrow> raise TypeError)"

definition read_int :: "texts \<Rightarrow> val \<Rightarrow> int tx" where
  "read_int tt v = (case v of
     VNum x \<Rightarrow> ret (if 0 \<le> x then \<lfloor>x\<rfloor> else \<lceil>x\<rceil>) | VInt i \<Rightarrow> ret i | VBool b \<Rightarrow> ret (if b then 1 else 0)
   | VStr s \<Rightarrow> (case text_int tt s of None \<Rightarrow> raise ValueError | Some i \<Rightarrow> ret i)
   | _ \<Rightarrow> raise TypeError)"

definition read_text :: "texts \<Rightarrow> val \<Rightarrow> string" where
  "read_text tt v = (case v of VStr s \<Rightarrow> s | _ \<Rightarrow> text_str tt v)"

text \<open>A time, or its text; anything else has no \<open>tzinfo\<close>.\<close>

definition read_time :: "texts \<Rightarrow> val option \<Rightarrow> int tx" where
  "read_time tt v = (case v of
     Some (VTime t) \<Rightarrow> ret t
   | Some (VStr s) \<Rightarrow> (case text_time tt s of None \<Rightarrow> raise ValueError | Some t \<Rightarrow> ret t)
   | _ \<Rightarrow> raise AttributeError)"

record signal_row =
  sr_id :: string
  sr_credibility :: "val option"
  sr_corroboration :: "val option"
  sr_created_at :: "val option"
  sr_agent :: "val option"
  sr_tier :: "val option"

definition signal_row_of :: "node \<Rightarrow> signal_row" where
  "signal_row_of n = \<lparr>sr_id = nid n, sr_credibility = props n ''credibility'', sr_corroboration = props n ''corroboration_count'',
     sr_created_at = attrs n ''created_at'', sr_agent = props n ''created_by'', sr_tier = props n ''source_tier''\<rparr>"

definition GET_SIGNALS :: "string \<Rightarrow> string list \<Rightarrow> graph \<Rightarrow> signal_row list" where
  "GET_SIGNALS silo_id node_ids g = map signal_row_of (filter (\<lambda>n. silo n = Some silo_id \<and> nid n \<in> set node_ids) (nodes g))"

text \<open>The last row of an id counts; the clock is read whether the default is needed or not.\<close>

definition build_signals :: "texts \<Rightarrow> signal_row list \<Rightarrow> string \<Rightarrow> ConflictSignals tx" where
  "build_signals tt rows node_id =
     tbind datetime_now (\<lambda>now.
     let row = find (\<lambda>r. sr_id r = node_id) (rev rows);
         field = (\<lambda>f. case row of None \<Rightarrow> None | Some r \<Rightarrow> f r)
     in tbind (case row of None \<Rightarrow> ret now | Some r \<Rightarrow> read_time tt (sr_created_at r)) (\<lambda>created_at.
        tbind (read_float tt (val_or (field sr_credibility) (VNum (4 / 10)))) (\<lambda>credibility.
        tbind (read_int tt (val_or (field sr_corroboration) (VInt 1))) (\<lambda>corroboration.
        ret \<lparr>cs_node_id = node_id, cs_credibility = credibility, cs_corroboration_count = corroboration,
             cs_created_at = created_at, cs_agent_id = read_text tt (val_or (field sr_agent) (VStr [])),
             cs_source_tier = read_text tt (val_or (field sr_tier) (VStr ''unknown''))\<rparr>))))"

definition gather_signals :: "texts \<Rightarrow> string \<Rightarrow> string \<Rightarrow> string \<Rightarrow> (ConflictSignals \<times> ConflictSignals) tx" where
  "gather_signals tt node_a_id node_b_id silo_id =
     tbind (execute_query (GET_SIGNALS silo_id [node_a_id, node_b_id])) (\<lambda>rows.
     tbind (build_signals tt rows node_a_id) (\<lambda>a.
     tbind (build_signals tt rows node_b_id) (\<lambda>b. ret (a, b))))"

section \<open>The worker\<close>

definition set_resolved_status :: "string \<Rightarrow> string \<Rightarrow> string \<Rightarrow> ConflictStatus \<Rightarrow> unit tx" where
  "set_resolved_status node_a_id node_b_id silo_id status =
     execute_write (SET_CONFLICT_STATUS [node_a_id, node_b_id] silo_id (conflict_value status))"

text \<open>\<open>(a)-[e:CONTRADICTS]-(b)\<close>, in either direction.\<close>

definition joins :: "graph \<Rightarrow> string \<Rightarrow> string \<Rightarrow> string \<Rightarrow> edge \<Rightarrow> bool" where
  "joins g a b silo_id e \<longleftrightarrow>
     (esrc e \<in> vid ` set (match_id g a silo_id) \<and> edst e \<in> vid ` set (match_id g b silo_id) \<or>
      esrc e \<in> vid ` set (match_id g b silo_id) \<and> edst e \<in> vid ` set (match_id g a silo_id))"

definition SET_COEXIST_WEIGHT :: "string \<Rightarrow> string \<Rightarrow> string \<Rightarrow> graph \<Rightarrow> graph \<times> unit" where
  "SET_COEXIST_WEIGHT a b silo_id g =
     (update_edges (\<lambda>e. etype e = ''CONTRADICTS'' \<and> joins g a b silo_id e) (\<lambda>ps. ps(''weight'' \<mapsto> VNum (3 / 10))) g, ())"

definition set_coexist :: "string \<Rightarrow> string \<Rightarrow> string \<Rightarrow> unit tx" where
  "set_coexist node_a_id node_b_id silo_id =
     tbind (set_resolved_status node_a_id node_b_id silo_id RESOLVED_COEXIST) (\<lambda>_.
     execute_write (SET_COEXIST_WEIGHT node_a_id node_b_id silo_id))"

definition merge_args :: "ConflictSignals \<Rightarrow> ConflictSignals \<Rightarrow> claim_args" where
  "merge_args a b = \<lparr>ca_subject = None, ca_predicate = None, ca_object = None, ca_source_tier = Some ''validated'',
     ca_confidence = max (cs_credibility a) (cs_credibility b), ca_supersedes = None, ca_embedding_service = False,
     ca_skip_sage_triggers = False\<rparr>"

definition merge_opts :: "string \<Rightarrow> string \<Rightarrow> store_opts" where
  "merge_opts node_a_id node_b_id = \<lparr>so_tags = [], so_metadata = [(''merged_from'', VStrs [node_a_id, node_b_id])], so_emit = True,
     so_session_id = None, so_owner_id = None, so_model_id = None, so_embedding = None, so_document_id = None\<rparr>"

definition apply_resolution :: "string \<Rightarrow> string \<Rightarrow> string \<Rightarrow> ConflictSignals \<Rightarrow> ConflictSignals \<Rightarrow> ResolutionResult \<Rightarrow> unit tx" where
  "apply_resolution node_a_id node_b_id silo_id a b result =
     (if rr_action result = SUPERSEDE \<and> truthy (rr_winner result) \<and> truthy (rr_loser result) then
        tbind (supersede (the (rr_winner result)) (the (rr_loser result)) silo_id CONTRADICTION True) (\<lambda>_.
        set_resolved_status node_a_id node_b_id silo_id RESOLVED_SUPERSEDE)
      else if rr_action result = COEXIST then set_coexist node_a_id node_b_id silo_id
      else if rr_action result = MERGE \<and> truthy (rr_merged result) then
        tbind (store_claim (the (rr_merged result)) [node_prefix @ node_a_id, node_prefix @ node_b_id] silo_id
                 ''system:consolidation'' (merge_args a b) (merge_opts node_a_id node_b_id)) (\<lambda>(merged_claim, _).
        let merged_node_id = sc_node_id merged_claim in
        tbind (supersede merged_node_id node_a_id silo_id CONTRADICTION True) (\<lambda>_.
        tbind (supersede merged_node_id node_b_id silo_id CONTRADICTION True) (\<lambda>_.
        set_resolved_status node_a_id node_b_id silo_id RESOLVED_MERGE)))
      else ret ())"

definition process_conflict ::
  "texts \<Rightarrow> (ConflictSignals \<Rightarrow> ConflictSignals \<Rightarrow> ResolutionResult tx) \<Rightarrow> string \<Rightarrow> string \<Rightarrow> string \<Rightarrow> ResolutionResult tx" where
  "process_conflict tt resolver node_a_id node_b_id silo_id =
     tbind (gather_signals tt node_a_id node_b_id silo_id) (\<lambda>(a, b).
     tbind (resolver a b) (\<lambda>result.
     tbind (apply_resolution node_a_id node_b_id silo_id a b result) (\<lambda>_. ret result)))"

section \<open>Detection at write time\<close>

text \<open>\<open>(d.get(k) or "").lower().strip()\<close>; a value that is not a text has no \<open>lower\<close>.\<close>

definition spo_part :: "(string \<times> val) list \<Rightarrow> string \<Rightarrow> string tx" where
  "spo_part d k = (case val_or (map_of d k) (VStr []) of
     VStr s \<Rightarrow> ret (strip (map lower_char s)) | _ \<Rightarrow> raise AttributeError)"

definition spo_dict :: "val option \<Rightarrow> (string \<times> val) list tx" where
  "spo_dict v = (case v of Some (VDict d) \<Rightarrow> ret d | _ \<Rightarrow> raise AttributeError)"

definition is_truthy :: "val option \<Rightarrow> bool" where
  "is_truthy v = (case v of None \<Rightarrow> False | Some x \<Rightarrow> \<not> falsy x)"

text \<open>What the checks read of a node: its \<open>spo\<close>, its labels and its embedding.\<close>

record node_props =
  np_spo :: "val option"
  np_labels :: "string list"
  np_embedding :: "real list"

definition has_structural_spo_conflict :: "node_props \<Rightarrow> node_props \<Rightarrow> bool tx" where
  "has_structural_spo_conflict a b =
     (if \<not> is_truthy (np_spo a) \<or> \<not> is_truthy (np_spo b) then ret False
      else tbind (spo_dict (np_spo a)) (\<lambda>spo_a. tbind (spo_dict (np_spo b)) (\<lambda>spo_b.
        tbind (spo_part spo_a ''subject'') (\<lambda>subject_a. tbind (spo_part spo_b ''subject'') (\<lambda>subject_b.
        tbind (spo_part spo_a ''predicate'') (\<lambda>predicate_a. tbind (spo_part spo_b ''predicate'') (\<lambda>predicate_b.
        tbind (spo_part spo_a ''object'') (\<lambda>object_a. tbind (spo_part spo_b ''object'') (\<lambda>object_b.
        ret (subject_a \<noteq> [] \<and> subject_b \<noteq> [] \<and> predicate_a \<noteq> [] \<and> predicate_b \<noteq> [] \<and>
             subject_a = subject_b \<and> predicate_a = predicate_b \<and> object_a \<noteq> object_b))))))))))"

definition cosine :: "real list \<Rightarrow> real list \<Rightarrow> real" where
  "cosine a b =
     (if a = [] \<or> b = [] \<or> length a \<noteq> length b then 0
      else let norm_a = sqrt (sum_list (map (\<lambda>x. x * x) a)); norm_b = sqrt (sum_list (map (\<lambda>x. x * x) b))
           in if norm_a = 0 \<or> norm_b = 0 then 0 else vec_dot a b / (norm_a * norm_b))"

definition is_same_subject :: "node_props \<Rightarrow> node_props \<Rightarrow> bool tx" where
  "is_same_subject a b =
     (if is_truthy (np_spo a) \<and> is_truthy (np_spo b) then
        tbind (spo_dict (np_spo a)) (\<lambda>spo_a. tbind (spo_dict (np_spo b)) (\<lambda>spo_b.
        tbind (spo_part spo_a ''subject'') (\<lambda>subject_a. tbind (spo_part spo_b ''subject'') (\<lambda>subject_b.
        ret (subject_a \<noteq> [] \<and> subject_b \<noteq> [] \<and> subject_a = subject_b)))))
      else if \<not> list_ex (\<lambda>l. l \<in> set (np_labels b)) (np_labels a) then ret False
      else ret (85 / 100 < cosine (np_embedding a) (np_embedding b)))"

text \<open>\<open>MERGE (a)-[r:T {kvs}]->(b) ON CREATE SET ..\<close>.\<close>

definition merge_edge_with :: "string \<Rightarrow> (string \<times> val) list \<Rightarrow> (string \<times> val) list \<Rightarrow> nat \<Rightarrow> nat \<Rightarrow> graph \<Rightarrow> graph" where
  "merge_edge_with t kvs extra a b g =
     (if list_ex (edge_matches t kvs a b) (edges g) then g
      else g\<lparr>edges := edges g @ [\<lparr>esrc = a, edst = b, etype = t, eprops = map_of (kvs @ extra)\<rparr>]\<rparr>)"

definition CREATE_CONTRADICTS_EDGE :: "string \<Rightarrow> string \<Rightarrow> string \<Rightarrow> string \<Rightarrow> int \<Rightarrow> graph \<Rightarrow> graph \<times> string list" where
  "CREATE_CONTRADICTS_EDGE edge_id source_id target_id silo_id detected_at g =
     (let pairs = List.product (match_id g source_id silo_id) (match_id g target_id silo_id) in
      (fold (\<lambda>(a, b). merge_edge_with ''CONTRADICTS'' [(''id'', VStr edge_id)]
          [(''detected_by'', VStr ''system''), (''resolution_status'', VStr ''unresolved''), (''detected_at'', VTime detected_at)]
          (vid a) (vid b)) pairs g,
       map (\<lambda>_. edge_id) pairs))"

definition create_contradicts_edge :: "string \<Rightarrow> string \<Rightarrow> string \<Rightarrow> string option tx" where
  "create_contradicts_edge source_id target_id silo_id =
     tbind new_uuid (\<lambda>edge_id. tbind datetime_now (\<lambda>detected_at.
     tcatch (tbind (execute_write (CREATE_CONTRADICTS_EDGE edge_id source_id target_id silo_id detected_at)) (\<lambda>result.
               ret (if result = [] then None else Some edge_id)))
       (\<lambda>_. ret None)))"

definition read_props :: "node \<Rightarrow> node_props" where
  "read_props n = \<lparr>np_spo = attrs n ''spo'', np_labels = labels n,
     np_embedding = (case attrs n ''embedding'' of Some (VNums v) \<Rightarrow> v | _ \<Rightarrow> [])\<rparr>"

text \<open>The payload of a hit, \<open>None\<close> when it is empty: the node and its embedding.\<close>

type_synonym search_hit = "(string option \<times> real list) option"

definition check_candidate :: "string \<Rightarrow> string \<Rightarrow> node_props \<Rightarrow> search_hit \<Rightarrow> string option tx" where
  "check_candidate node_id silo_id new_node_props hit = (case hit of
     None \<Rightarrow> ret None
   | Some (candidate, hit_embedding) \<Rightarrow>
     if \<not> truthy candidate \<or> candidate = Some node_id then ret None
     else tbind (tcatch (execute_query (\<lambda>g. match_id g (the candidate) silo_id)) (\<lambda>_. ret [])) (\<lambda>candidate_rows.
       case candidate_rows of [] \<Rightarrow> ret None
       | n # _ \<Rightarrow>
         let candidate_props = (read_props n)\<lparr>np_embedding := if hit_embedding \<noteq> [] then hit_embedding else np_embedding (read_props n)\<rparr> in
         tbind (has_structural_spo_conflict new_node_props candidate_props) (\<lambda>structural_conflict.
         tbind (if structural_conflict then ret True else is_same_subject new_node_props candidate_props) (\<lambda>related.
         if related then create_contradicts_edge node_id (the candidate) silo_id else ret None))))"

text \<open>\<open>hits\<close>: what the vector search returned, \<open>None\<close> where it raised.\<close>

definition detect_conflicts :: "bool \<Rightarrow> search_hit list option \<Rightarrow> string \<Rightarrow> real list \<Rightarrow> string \<Rightarrow> string list tx" where
  "detect_conflicts enabled hits node_id node_embedding silo_id =
     (if \<not> enabled \<or> node_embedding = [] then ret []
      else case hits of None \<Rightarrow> ret []
      | Some search_result \<Rightarrow>
        if search_result = [] then ret []
        else tbind (tcatch (tbind (execute_query (\<lambda>g. match_id g node_id silo_id)) (\<lambda>rows. ret (Some rows))) (\<lambda>_. ret None))
          (\<lambda>new_node_rows. case new_node_rows of None \<Rightarrow> ret []
           | Some rows \<Rightarrow>
             let new_node_props = (case rows of [] \<Rightarrow> \<lparr>np_spo = None, np_labels = [], np_embedding = node_embedding\<rparr>
                                  | n # _ \<Rightarrow> (read_props n)\<lparr>np_embedding := node_embedding\<rparr>)
             in tbind (tfor search_result (check_candidate node_id silo_id new_node_props)) (\<lambda>edge_ids.
                ret (List.map_filter id edge_ids))))"

section \<open>The conflict tools\<close>

record conflict =
  cf_id :: "val option"
  cf_node_a :: string
  cf_node_b :: string
  cf_contents :: "val \<times> val"
  cf_agents :: "val \<times> val"
  cf_detected_at :: "val option"
  cf_detected_by :: "val option"
  cf_status :: "val option"

definition first_of :: "val option list \<Rightarrow> val" where
  "first_of xs = (case filter (\<lambda>x. x \<noteq> None) xs of Some v # _ \<Rightarrow> v | _ \<Rightarrow> VStr [])"

definition agent_of :: "node \<Rightarrow> val" where
  "agent_of n = first_of [attrs n ''agent_id'']"

definition conflict_of :: "node \<Rightarrow> node \<Rightarrow> edge \<Rightarrow> conflict" where
  "conflict_of a b r = \<lparr>cf_id = eprops r ''id'', cf_node_a = nid a, cf_node_b = nid b,
     cf_contents = (first_of [attrs a ''content'', attrs a ''text''], first_of [attrs b ''content'', attrs b ''text'']),
     cf_agents = (agent_of a, agent_of b), cf_detected_at = eprops r ''detected_at'', cf_detected_by = eprops r ''detected_by'',
     cf_status = eprops r ''resolution_status''\<rparr>"

text \<open>The edges of the type with both ends in the silo, each with its ends.\<close>

definition silo_conflicts :: "string \<Rightarrow> graph \<Rightarrow> (node \<times> node \<times> edge) list" where
  "silo_conflicts silo_id g =
     concat (map (\<lambda>r. case (node_at g (esrc r), node_at g (edst r)) of
         (Some a, Some b) \<Rightarrow> if silo a = Some silo_id \<and> silo b = Some silo_id then [(a, b, r)] else []
       | _ \<Rightarrow> [])
       (filter (\<lambda>r. etype r = ''CONTRADICTS'') (edges g)))"

text \<open>\<open>ORDER BY r.detected_at DESC\<close>: a \<open>null\<close> comes first.\<close>

definition LIST_CONFLICTS :: "string \<Rightarrow> string option \<Rightarrow> string \<Rightarrow> nat \<Rightarrow> graph \<Rightarrow> conflict list" where
  "LIST_CONFLICTS silo_id agent_id status limit g =
     take limit (rev (sort_key (\<lambda>c. case time_of (cf_detected_at c) of None \<Rightarrow> (1::nat, 0) | Some t \<Rightarrow> (0, t))
       (map (\<lambda>(a, b, r). conflict_of a b r)
         (filter (\<lambda>(a, b, r). eprops r ''resolution_status'' = Some (VStr status) \<and>
             (case agent_id of None \<Rightarrow> True
              | Some i \<Rightarrow> attrs a ''agent_id'' = Some (VStr i) \<or> attrs b ''agent_id'' = Some (VStr i)))
           (silo_conflicts silo_id g)))))"

definition get_conflicts :: "string \<Rightarrow> string option \<Rightarrow> string \<Rightarrow> nat \<Rightarrow> conflict list tx" where
  "get_conflicts silo_id agent_id status limit = execute_query (LIST_CONFLICTS silo_id agent_id status limit)"

definition GET_CONFLICT :: "string \<Rightarrow> string \<Rightarrow> graph \<Rightarrow> val option list" where
  "GET_CONFLICT conflict_id silo_id g =
     map (\<lambda>(_, _, r). eprops r ''resolution_status'')
       (filter (\<lambda>(_, _, r). eprops r ''id'' = Some (VStr conflict_id)) (silo_conflicts silo_id g))"

text \<open>The update names the edge by its id alone.\<close>

definition UPDATE_CONFLICT_STATUS :: "string \<Rightarrow> string \<Rightarrow> string \<Rightarrow> int \<Rightarrow> graph \<Rightarrow> graph \<times> val option list" where
  "UPDATE_CONFLICT_STATUS conflict_id resolution_status resolved_by resolved_at g =
     (let P = (\<lambda>r. etype r = ''CONTRADICTS'' \<and> eprops r ''id'' = Some (VStr conflict_id)) in
      (update_edges P (\<lambda>ps. ps(''resolution_status'' \<mapsto> VStr resolution_status, ''resolved_by'' \<mapsto> VStr resolved_by,
           ''resolved_at'' \<mapsto> VTime resolved_at)) g,
       map (\<lambda>r. eprops r ''id'') (filter P (edges g))))"

definition update_conflict_status :: "string \<Rightarrow> string \<Rightarrow> string \<Rightarrow> string \<Rightarrow> bool tx" where
  "update_conflict_status conflict_id silo_id resolution_status resolved_by =
     tbind (execute_query (GET_CONFLICT conflict_id silo_id)) (\<lambda>check.
     if check = [] then ret False
     else tbind datetime_now (\<lambda>resolved_at.
       tbind (execute_write (UPDATE_CONFLICT_STATUS conflict_id resolution_status resolved_by resolved_at)) (\<lambda>result.
       ret (result \<noteq> []))))"

text \<open>\<open>None\<close>: not found; otherwise the status set.\<close>

definition dismiss_conflict :: "string \<Rightarrow> string \<Rightarrow> string \<Rightarrow> string option tx" where
  "dismiss_conflict conflict_id silo_id agent_id =
     tbind (update_conflict_status conflict_id silo_id ''dismissed'' agent_id) (\<lambda>ok. ret (if ok then Some ''dismissed'' else None))"

definition escalate_conflict :: "string \<Rightarrow> string \<Rightarrow> string \<Rightarrow> string option tx" where
  "escalate_conflict conflict_id silo_id agent_id =
     tbind (update_conflict_status conflict_id silo_id ''escalated'' agent_id) (\<lambda>ok. ret (if ok then Some ''escalated'' else None))"

definition resolve_conflict :: "string \<Rightarrow> string \<Rightarrow> bool \<Rightarrow> string \<Rightarrow> string \<Rightarrow> (string \<times> string) option tx" where
  "resolve_conflict conflict_id winner_id superseding silo_id agent_id =
     (let resolution_status = (if superseding then ''superseded'' else ''resolved'') in
      tbind (update_conflict_status conflict_id silo_id resolution_status agent_id) (\<lambda>ok.
      ret (if ok then Some (resolution_status, winner_id) else None)))"

section \<open>Reaction tasks\<close>

text \<open>The parameters of a task that an event's payload can name; other keys are swallowed.\<close>

definition kwarg :: "ReactionEvent \<Rightarrow> string \<Rightarrow> val option" where
  "kwarg ev k = map_of (payload ev) k"

definition update_heat_task :: "string \<Rightarrow> string \<Rightarrow> real \<Rightarrow> unit tx" where
  "update_heat_task node_id silo_id delta =
     execute_write (\<lambda>g. (update_where (is_node node_id silo_id)
       (\<lambda>n. set_field ''heat_score'' (Some (VNum ((case num_of (attrs n ''heat_score'') of None \<Rightarrow> 0 | Some x \<Rightarrow> x) + delta))) n) g, ()))"

definition cascade_staleness_task :: "string \<Rightarrow> string \<Rightarrow> nat \<Rightarrow> unit tx" where
  "cascade_staleness_task node_id silo_id depth = tbind (cascade_staleness node_id silo_id depth) (\<lambda>_. ret ())"

definition flag_contradiction_task :: "string \<Rightarrow> string \<Rightarrow> string option \<Rightarrow> unit tx" where
  "flag_contradiction_task node_id silo_id conflict_node_id =
     tbind (execute_write (\<lambda>g. (update_where (is_node node_id silo_id)
       (set_field ''conflict_status'' (Some (VStr ''unresolved''))) g, ()))) (\<lambda>_.
     case conflict_node_id of None \<Rightarrow> ret ()
     | Some i \<Rightarrow> emit_reaction (reaction CONSOLIDATE node_id silo_id [(''conflict_node_id'', VStr i)]))"

definition consolidate_task :: "texts \<Rightarrow> string \<Rightarrow> string \<Rightarrow> string option \<Rightarrow> unit tx" where
  "consolidate_task tt node_id silo_id conflict_node_id = (case conflict_node_id of
     None \<Rightarrow> ret ()
   | Some i \<Rightarrow> tbind (process_conflict tt resolve node_id i silo_id) (\<lambda>_. ret ()))"

text \<open>The edges of \<open>upsert_binary_edge\<close> have the type \<open>EDGE\<close> and carry theirs as a property.\<close>

definition consensus_edge :: "edge \<Rightarrow> bool" where
  "consensus_edge e \<longleftrightarrow> etype e = ''EDGE'' \<and> eprops e ''type'' = Some (VStr ''CONSENSUS_FROM'')"

definition CONSENSUS_FACTS :: "string \<Rightarrow> string \<Rightarrow> graph \<Rightarrow> (string \<times> string option) list" where
  "CONSENSUS_FACTS chain_id silo_id g =
     concat (map (\<lambda>e. case (node_at g (esrc e), node_at g (edst e)) of
         (Some f, Some c) \<Rightarrow> if has_label ''Fact'' f \<and> is_node chain_id silo_id c then [(nid f, pstate f)] else []
       | _ \<Rightarrow> [])
       (filter consensus_edge (edges g)))"

definition REMAINING_CHAINS :: "string \<Rightarrow> string \<Rightarrow> string \<Rightarrow> graph \<Rightarrow> nat" where
  "REMAINING_CHAINS fact_id silo_id chain_id g =
     length (filter (\<lambda>e. case (node_at g (esrc e), node_at g (edst e)) of
         (Some f, Some c) \<Rightarrow> is_node fact_id silo_id f \<and> silo c = Some silo_id \<and> nid c \<noteq> chain_id \<and>
            (props c ''state'' = None \<or> pstate c = Some ''ACTIVE'')
       | _ \<Rightarrow> False)
       (filter consensus_edge (edges g)))"

text \<open>\<open>NOT s IN [..]\<close> is \<open>null\<close> for a fact without a state, which is not updated.\<close>

definition TOMBSTONE_FACT :: "string \<Rightarrow> string \<Rightarrow> int \<Rightarrow> int \<Rightarrow> graph \<Rightarrow> graph \<times> unit" where
  "TOMBSTONE_FACT fact_id silo_id tombstoned_at cancel_window_expires g =
     (update_where (\<lambda>f. is_node fact_id silo_id f \<and> (case props f ''state'' of None \<Rightarrow> False
          | Some v \<Rightarrow> v \<noteq> VStr ''TOMBSTONED'' \<and> v \<noteq> VStr ''DELETED''))
        (\<lambda>f. set_prop ''cancel_window_expires'' (Some (VTime cancel_window_expires))
              (set_prop ''tombstone_reason'' (Some (VStr ''consensus_chain_count_below_threshold''))
              (set_prop ''tombstoned_at'' (Some (VTime tombstoned_at)) (set_prop ''state'' (Some (VStr ''TOMBSTONED'')) f)))) g, ())"

definition chain_tombstoned_fact :: "nat \<Rightarrow> string \<Rightarrow> string \<Rightarrow> string \<times> string option \<Rightarrow> unit tx" where
  "chain_tombstoned_fact min_chains chain_id silo_id = (\<lambda>(fact_id, fact_state).
     if fact_id = [] then ret ()
     else if fact_state = Some ''TOMBSTONED'' \<or> fact_state = Some ''DELETED'' then ret ()
     else tbind (execute_query (REMAINING_CHAINS fact_id silo_id chain_id)) (\<lambda>remaining_count.
       tbind (emit_reaction (reaction CASCADE_STALENESS fact_id silo_id
          [(''reason'', VStr ''chain_tombstoned''), (''chain_id'', VStr chain_id)])) (\<lambda>_.
       if remaining_count < min_chains then
         tbind datetime_now (\<lambda>now.
         tcatch (execute_write (TOMBSTONE_FACT fact_id silo_id now (now + CANCEL_WINDOW_DURATION_SECONDS))) (\<lambda>_. ret ()))
       else ret ())))"

definition chain_tombstoned_task :: "nat \<Rightarrow> string \<Rightarrow> string \<Rightarrow> unit tx" where
  "chain_tombstoned_task min_chains chain_id silo_id =
     tbind (execute_query (CONSENSUS_FACTS chain_id silo_id)) (\<lambda>fact_rows.
     tbind (tfor fact_rows (chain_tombstoned_fact min_chains chain_id silo_id)) (\<lambda>_. ret ()))"

text \<open>
  The delivery of an event to its task, with the payload as keyword arguments.  The other types have
  no task, or one outside the model.
\<close>

definition deliver :: "texts \<Rightarrow> nat \<Rightarrow> ReactionEvent \<Rightarrow> unit tx" where
  "deliver tt min_chains ev = (case event_type ev of
     UPDATE_HEAT \<Rightarrow> update_heat_task (ev_node ev) (ev_silo ev) (case num_of (kwarg ev ''delta'') of None \<Rightarrow> 1 | Some d \<Rightarrow> d)
   | CASCADE_STALENESS \<Rightarrow> cascade_staleness_task (ev_node ev) (ev_silo ev) (case int_of (kwarg ev ''depth'') of None \<Rightarrow> 1 | Some d \<Rightarrow> nat d)
   | FLAG_CONTRADICTION \<Rightarrow> flag_contradiction_task (ev_node ev) (ev_silo ev) (str_of (kwarg ev ''conflict_node_id''))
   | CONSOLIDATE \<Rightarrow> consolidate_task tt (ev_node ev) (ev_silo ev) (str_of (kwarg ev ''conflict_node_id''))
   | CHAIN_TOMBSTONED \<Rightarrow> chain_tombstoned_task min_chains (ev_node ev) (ev_silo ev)
   | _ \<Rightarrow> ret ())"

section \<open>The tasks stay within their silo\<close>

lemma process_conflict_reads:
  "geffect (=) (gather_signals tt a b s)" "geffect (=) (resolve x y)"
proof -
  have "geffect (=) (read_float tt v)" for v
    unfolding read_float_def by (simp add: read_only.eff_ret read_only.eff_raise split: val.split option.split)
  moreover have "geffect (=) (read_int tt v)" for v
    unfolding read_int_def by (simp add: read_only.eff_ret read_only.eff_raise split: val.split option.split)
  moreover have "geffect (=) (read_time tt x)" for x
    unfolding read_time_def
    by (simp add: read_only.eff_ret read_only.eff_raise split: val.split option.split)
  ultimately have "geffect (=) (build_signals tt rows i)" for rows i
    unfolding build_signals_def Let_def
    by (intro read_only.eff_bind read_only.eff_calls geffect_option read_only.eff_ret)
  then show "geffect (=) (gather_signals tt a b s)" unfolding gather_signals_def by (intro effect_intros)
  show "geffect (=) (resolve x y)" unfolding resolve_def by (intro effect_intros)
qed

lemma gsteps_conflict_status: "gsteps s g (fst (SET_CONFLICT_STATUS is s st g))"
  unfolding SET_CONFLICT_STATUS_def fst_conv by (rule gsteps_update) simp_all

lemma gsteps_coexist_weight: "gsteps s g (fst (SET_COEXIST_WEIGHT a b s g))"
  unfolding SET_COEXIST_WEIGHT_def fst_conv by (rule gsteps_update_edges) (auto simp: joins_def dest: match_id_silo_vids)

lemma eff_apply_resolution: "geffect (gsteps s) (apply_resolution a b s x y r)"
  unfolding apply_resolution_def set_coexist_def set_resolved_status_def Let_def
  by (intro effect_intros in_silo.eff_write gsteps_conflict_status gsteps_coexist_weight)

lemma eff_process_conflict [effect_intros]:
  assumes "\<And>x y. geffect (=) (rslv x y)"
  shows "geffect (gsteps s) (process_conflict tt rslv a b s)"
  unfolding process_conflict_def
  by (intro effect_intros eff_apply_resolution in_silo_unchanged assms process_conflict_reads)

lemma gsteps_chain_tombstone: "gsteps s g (fst (TOMBSTONE_FACT i s t x g))"
  unfolding TOMBSTONE_FACT_def fst_conv by (rule gsteps_update) (simp_all add: is_node_def identity_kept_def has_label_def)

lemma eff_chain_tombstoned [effect_intros]: "geffect (gsteps s) (chain_tombstoned_task k c s)"
proof -
  have "geffect (gsteps s) (chain_tombstoned_fact k c s (i, x))" for i x
    unfolding chain_tombstoned_fact_def split_conv
    by (intro geffect_if in_silo.eff_bind in_silo.eff_catch in_silo.eff_calls in_silo.eff_query in_silo.eff_ret in_silo.eff_write
        gsteps_chain_tombstone)
  then have "geffect (gsteps s) (chain_tombstoned_fact k c s r)" for r by (cases r) simp
  then show ?thesis unfolding chain_tombstoned_task_def
    by (intro in_silo.eff_bind in_silo.eff_for in_silo.eff_query in_silo.eff_ret)
qed

lemma eff_deliver [effect_intros]: "ev_silo ev = s \<Longrightarrow> geffect (gsteps s) (deliver tt k ev)"
proof -
  assume "ev_silo ev = s"
  have "geffect (gsteps s) (update_heat_task i s d)" "geffect (gsteps s) (flag_contradiction_task i s c)" for s i d c
    unfolding update_heat_task_def flag_contradiction_task_def
    by (auto intro!: effect_intros in_silo.eff_write gsteps_update simp: is_node_def identity_kept_def has_label_def split: option.split)
  moreover have "geffect (gsteps s) (consolidate_task tt i s c)" for s i c
    unfolding consolidate_task_def by (intro effect_intros eff_process_conflict process_conflict_reads)
  moreover have "geffect (gsteps s) (cascade_staleness_task i s d)" for s i d
    unfolding cascade_staleness_task_def by (intro effect_intros)
  ultimately show ?thesis unfolding deliver_def using \<open>ev_silo ev = s\<close>
    by (auto split: ReactionEventType.split intro!: eff_chain_tombstoned effect_intros)
qed

lemma gsteps_contradicts_edge: "gsteps s g (fst (CREATE_CONTRADICTS_EDGE c a b s t g))"
proof -
  let ?F = "\<lambda>(x, y). merge_edge_with ''CONTRADICTS'' [(''id'', VStr c)]
    [(''detected_by'', VStr ''system''), (''resolution_status'', VStr ''unresolved''), (''detected_at'', VTime t)] (vid x) (vid y)"
  have "gsteps s g (fold ?F ps g) \<and> nodes (fold ?F ps g) = nodes g"
    if "\<And>x y. (x, y) \<in> set ps \<Longrightarrow> vid x \<in> silo_vids g s \<and> vid y \<in> silo_vids g s" for ps
    using that
  proof (induction ps rule: rev_induct)
    case (snoc p ps)
    obtain x y where p: "p = (x, y)" by (cases p)
    let ?h = "fold ?F ps g"
    have h: "gsteps s g ?h" "nodes ?h = nodes g" using snoc by auto
    then have "gsteps s ?h (?F p ?h)"
      using snoc.prems [of x y] p
        gsteps_connect [of "[\<lparr>esrc = vid x, edst = vid y, etype = ''CONTRADICTS'', eprops = map_of ([(''id'', VStr c)] @
          [(''detected_by'', VStr ''system''), (''resolution_status'', VStr ''unresolved''), (''detected_at'', VTime t)])\<rparr>]" ?h s]
      by (simp add: merge_edge_with_def silo_vids_def)
    moreover have "nodes (?F p ?h) = nodes ?h" by (simp add: p merge_edge_with_def)
    ultimately show ?case using h by (auto intro: rtranclp_trans)
  qed simp
  note fold_steps = this
  have "gsteps s g (fold ?F (List.product (match_id g a s) (match_id g b s)) g)"
    using fold_steps [of "List.product (match_id g a s) (match_id g b s)"] by (auto intro: match_id_silo_vids)
  then show ?thesis unfolding CREATE_CONTRADICTS_EDGE_def Let_def fst_conv .
qed

lemma detection_reads: "geffect (=) (has_structural_spo_conflict x y)" "geffect (=) (is_same_subject x y)"
proof -
  have reads: "geffect (=) (spo_dict v)" "geffect (=) (spo_part d k)" for v d k
    unfolding spo_dict_def spo_part_def by (auto intro!: effect_intros split: option.split val.split)
  show "geffect (=) (has_structural_spo_conflict x y)" unfolding has_structural_spo_conflict_def by (intro effect_intros reads)
  show "geffect (=) (is_same_subject x y)" unfolding is_same_subject_def by (intro effect_intros reads)
qed

lemma eff_detect_conflicts [effect_intros]: "geffect (gsteps s) (detect_conflicts en hits i v s)"
proof -
  have edge: "geffect (gsteps s) (create_contradicts_edge a b s)" for a b
    unfolding create_contradicts_edge_def by (intro effect_intros in_silo.eff_write gsteps_contradicts_edge)
  have "geffect (gsteps s) (check_candidate i s np h)" for np h
    unfolding check_candidate_def Let_def
    by (auto intro!: effect_intros edge in_silo_unchanged [OF detection_reads(1)] in_silo_unchanged [OF detection_reads(2)]
        split: option.split list.split)
  then show ?thesis unfolding detect_conflicts_def Let_def
    by (auto intro!: effect_intros split: option.split)
qed

end
