(* ===== verification/Examples.thy ===== *)
theory Examples
  imports Queries
begin

text \<open>
  Concrete environments and graphs.  The witnesses of the component theories run the
  transactions on them.
\<close>

definition ex_uuid :: "nat \<Rightarrow> string" where
  "ex_uuid k = replicate 30 (CHR ''0'') @ [hex_digits ! (k div 16 mod 16), hex_digits ! (k mod 16)]"

text \<open>A day without faults: the clock advances by one second per call.\<close>

definition ex_env :: env where
  "ex_env = \<lparr>clock = (\<lambda>k. 1000 + int k), uuid4 = ex_uuid, fault = (\<lambda>_. False),
     fault_msg = (\<lambda>_. ''timeout''), llm_out = (\<lambda>_. LlmText ''summary''), embed = (\<lambda>_. [1]),
     contradiction_enforcement_enabled = True,
     ncb_enforcement_enabled = True, set_sequential = False\<rparr>"

definition ex_world :: "graph \<Rightarrow> world" where
  "ex_world g = \<lparr>gr = g, shadow = Some Map.empty, vectors = [], dead_letters = [],
     emitted = [], tick = 0\<rparr>"

definition ex_node :: "nat \<Rightarrow> string list \<Rightarrow> pymap \<Rightarrow> node" where
  "ex_node k ls ps = \<lparr>vid = k, labels = ls, nid = ex_uuid k, silo = Some ''s1'',
     attrs = Map.empty, props = ps\<rparr>"

definition ex_edge :: "nat \<Rightarrow> nat \<Rightarrow> string \<Rightarrow> edge" where
  "ex_edge a b t = \<lparr>esrc = a, edst = b, etype = t, eprops = Map.empty\<rparr>"

definition ex_active :: pymap where
  "ex_active = [''state'' \<mapsto> VStr ''ACTIVE'']"

text \<open>A belief (1) synthesized from three facts (2, 3, 4), and a claim (5) the belief does not use.\<close>

definition ex_belief1 :: node where
  "ex_belief1 = ex_node 1 [''Node'', ''Belief''] (ex_active(''layer'' \<mapsto> VStr ''wisdom''))"

definition ex_fact2 :: node where
  "ex_fact2 = ex_node 2 [''Node'', ''Claim'', ''Fact'']
     (ex_active(''claim_status'' \<mapsto> VStr ''PROMOTED'', ''corroboration_count'' \<mapsto> VInt 1,
       ''confidence'' \<mapsto> VNum (9 / 10)))"

definition ex_claim5 :: node where
  "ex_claim5 = ex_node 5 [''Node'', ''Claim'']
     (ex_active(''claim_status'' \<mapsto> VStr ''UNPROMOTED'', ''corroboration_count'' \<mapsto> VInt 4,
       ''confidence'' \<mapsto> VNum (9 / 10)))"

definition ex_graph :: graph where
  "ex_graph = \<lparr>nodes =
      [ex_belief1, ex_fact2, ex_node 3 [''Node'', ''Claim'', ''Fact''] ex_active,
       ex_node 4 [''Node'', ''Claim'', ''Fact''] ex_active, ex_claim5],
     edges = [ex_edge 1 2 ''SYNTHESIZED_FROM'', ex_edge 1 3 ''SYNTHESIZED_FROM'',
       ex_edge 1 4 ''SYNTHESIZED_FROM''],
     next_vid = 6\<rparr>"

lemma ex_env_simps [simp]:
  "fault ex_env k = False" "clock ex_env k = 1000 + int k" "set_sequential ex_env = False"
  "uuid4 ex_env k = ex_uuid k"
  by (simp_all add: ex_env_def)

lemma ex_world_simps [simp]: "gr (ex_world g) = g" "tick (ex_world g) = 0"
  by (simp_all add: ex_world_def)

lemma ex_graph_nodes:
  "ex_belief1 \<in> set (nodes ex_graph)" "ex_fact2 \<in> set (nodes ex_graph)"
  "ex_claim5 \<in> set (nodes ex_graph)"
  by (simp_all add: ex_graph_def)

lemmas ex_node_defs = ex_belief1_def ex_fact2_def ex_claim5_def ex_node_def ex_active_def

text \<open>A run that returns.\<close>

lemma returns_run: "fst (m e w) = Inr a \<Longrightarrow> m e w = (Inr a, snd (m e w))"
  by (metis prod.collapse)

lemma raises_run: "fst (m e w) = Inl x \<Longrightarrow> m e w = (Inl x, snd (m e w))"
  by (metis prod.collapse)

end
