(* ===== verification/TxSystem.thy ===== *)
theory TxSystem
  imports Lifecycle TxLink TxLayer TxWisdom Retention ExtractionJobs Conflicts Examples
begin

text \<open>
  The brain as a transition system.  A step is one call of a transaction, of a retention
  service, of the extraction service (a whole extraction job included), of the consolidation
  worker with any resolver, of the conflict detection or of a reaction task, for some silo, with arbitrary arguments, in an arbitrary environment (any clock, any answers of the LLM, any
  pattern of failing calls), whether it returns or raises.  Tenant isolation and the
  invariants of the graph hold in every reachable world.
\<close>

section \<open>Steps and reachable worlds\<close>

inductive tx_step :: "string \<Rightarrow> world \<Rightarrow> world \<Rightarrow> bool" for s :: string where
  store_memory: "tx_step s w (snd (store_memory x s a l ct d mt ab opts e w))"
| store_claim: "tx_step s w (snd (store_claim x refs s a args opts e w))"
| link: "tx_step s w (snd (link i j ty s a md wt em e w))"
| supersede: "tx_step s w (snd (supersede i j s r em e w))"
| propagate: "tx_step s w (snd (run_incremental_propagation i s e w))"
| cascade: "tx_step s w (snd (cascade_staleness i s d e w))"
| forget: "tx_step s w (snd (forget i s a rs ca em q e w))"
| cancel_forget: "tx_step s w (snd (cancel_forget i s a e w))"
| hard_delete: "tx_step s w (snd (hard_delete s k e w))"
| promote: "tx_step s w (snd (promote i s n l e w))"
| demote: "tx_step s w (snd (demote i s em e w))"
| commit: "tx_step s w (snd (commit x refs s a c md em e w))"
| crystallize: "tx_step s w (snd (crystallize i s a ss em e w))"
| synthesize: "tx_step s w (snd (synthesize_from_facts ids s e w))"
| accept: "tx_step s w (snd (accept_proposal i s a rs oc em e w))"
| revise: "tx_step s w (snd (revise_belief i s em e w))"
| sweep: "tx_step s w (snd (run_sweep pol q s e w))"
| erase: "tx_step s w (snd (erase q ids s rt ri c e w))"
| retention_forget: "tx_step s w (snd (service_forget i s e w))"
| retention_cancel: "tx_step s w (snd (service_cancel_forget st h i s e w))"
| extraction: "tx_step s w (snd (apply_entities_and_rels bolt fmt s result e w))"
| document_claims: "tx_step s w (snd (apply_document_claims sha256 fmt s doc cs e w))"
| graph_claims: "tx_step s w (snd (apply_claims_to_graph sha256 fmt s cs e w))"
| contradictions: "tx_step s w (snd (apply_contradicts_to_graph sha256 s pairs e w))"
| consolidation: "tx_step s w (snd (process_conflict tt (\<lambda>x y. ret (f x y)) a b s e w))"
| detection: "tx_step s w (snd (detect_conflicts en hits i v s e w))"
| reaction_task: "ev_silo ev = s \<Longrightarrow> tx_step s w (snd (deliver tt k ev e w))"
| extraction_job: "tx_step s (job_world st) (job_world (snd (run_extraction_job en s x st)))"

inductive_cases tx_stepE: "tx_step s w w'"

inductive reachable :: "world \<Rightarrow> bool" where
  init: "gr w = empty_graph \<Longrightarrow> reachable w"
| step: "reachable w \<Longrightarrow> tx_step s w w' \<Longrightarrow> reachable w'"

text \<open>
  Every transaction refines the steps of its silo; \<open>promote\<close> does because of INV5, which the
  steps preserve.
\<close>

lemma extraction_job_safe: "safe_steps s (gr (job_world st)) (gr (job_world (snd (run_extraction_job en s x st))))"
  using job_steps_run by (simp add: job_steps_def safe_steps_def)

lemma tx_step_safe: "tx_step s w w' \<Longrightarrow> safe_steps s (gr w) (gr w')"
  by (erule tx_stepE; simp only:;
      (rule extraction_job_safe | rule geffectD; intro effect_intros geffect_safe))

lemma reachable_inv: "reachable w \<Longrightarrow> graph_wf (gr w) \<and> no_cross_silo (gr w)"
proof (induction rule: reachable.induct)
  case (init w)
  then show ?case by (simp add: empty_graph_def graph_wf_def no_cross_silo_def)
next
  case (step w s w')
  then show ?case using tx_step_safe [OF step.hyps(2)] gsteps_invariant by (auto simp: safe_steps_def)
qed

section \<open>What holds in every reachable world\<close>

text \<open>
  C2: in every world reachable from an empty graph, by any sequence of transactions for any silos,
  the internal identities are unique, every edge joins two existing nodes, and no edge crosses
  from one silo to another; the only edges that leave a silo are the \<open>DECLARED_BY\<close> edges to
  agents (INV5).
\<close>

theorem reachable_invariant:
  assumes "reachable w"
  shows "graph_wf (gr w) \<and> no_cross_silo (gr w)"
  using assms by (rule reachable_inv)

text \<open>
  C1: tenant isolation.  In a reachable world a transaction called for one silo, returning or
  raising, leaves every node of every other silo and every edge inside it exactly as it was.
\<close>

theorem silo_isolation:
  assumes "reachable w" and "tx_step s w w'" and "t \<noteq> s"
  shows "silo_view t (gr w') = silo_view t (gr w) \<and> silo_edges t (gr w') = silo_edges t (gr w)"
proof -
  have inv: "graph_wf (gr w)" "no_cross_silo (gr w)" using reachable_inv [OF assms(1)] by auto
  then have "gsteps s (gr w) (gr w')" using tx_step_safe [OF assms(2)] by (simp add: safe_steps_def)
  then show ?thesis using gsteps_view_other gsteps_edges_other inv assms(3) by blast
qed

definition ex_memory_step :: world where
  "ex_memory_step = snd (store_memory ''m'' ''s1'' ''agent'' ''memory'' ''text'' ''normal'' None []
     \<lparr>so_tags = [], so_metadata = [], so_emit = True, so_session_id = None, so_owner_id = None,
      so_model_id = None, so_embedding = None, so_document_id = None\<rparr> ex_env (ex_world empty_graph))"

lemma ex_memory_step: "tx_step ''s1'' (ex_world empty_graph) ex_memory_step"
  unfolding ex_memory_step_def by (rule tx_step.store_memory)

lemma ex_reachable: "reachable (ex_world empty_graph)"
  by (rule reachable.init) simp

theorem reachable_invariant_witness: "graph_wf (gr ex_memory_step) \<and> no_cross_silo (gr ex_memory_step)"
  by (rule reachable_invariant) (rule reachable.step [OF ex_reachable ex_memory_step])

theorem silo_isolation_witness:
  "silo_view ''s2'' (gr ex_memory_step) = [] \<and> silo_edges ''s2'' (gr ex_memory_step) = []"
  using silo_isolation [OF ex_reachable ex_memory_step, of "''s2''"]
  by (simp add: silo_view_def silo_edges_def empty_graph_def)

end
