(* ===== verification/LifecycleCorrect.thy ===== *)
theory LifecycleCorrect
  imports Lifecycle Examples
begin

text \<open>
  What the life-cycle transactions guarantee: the frame and the coverage of the staleness
  cascade, the states \<open>forget\<close> and \<open>cancel_forget\<close> leave behind, and the garbage collector.
\<close>

section \<open>The cascade\<close>

text \<open>A belief the cascade has dealt with: marked stale, or tombstoned.\<close>

definition cascade_done :: "node \<Rightarrow> bool" where
  "cascade_done n \<longleftrightarrow> pstate n = Some ''TOMBSTONED'' \<or> props n ''synthesis_state'' = Some (VStr ''STALE'')"

text \<open>
  What the cascade may do to a node: nothing, or, when it is in the wisdom layer of the silo,
  change its \<open>synthesis_state\<close> and tombstone it.  It never revives a node.
\<close>

definition cascade_change :: "string \<Rightarrow> node \<Rightarrow> node \<Rightarrow> bool" where
  "cascade_change s n m \<longleftrightarrow> player n = Some ''wisdom'' \<and> silo n = Some s \<and>
     (vid m, nid m, silo m, labels m) = (vid n, nid n, silo n, labels n) \<and>
     (\<forall>k. k \<notin> {''state'', ''synthesis_state''} \<longrightarrow> props m k = props n k) \<and>
     (pstate m = pstate n \<or> pstate m = Some ''TOMBSTONED'') \<and>
     (cascade_done n \<longrightarrow> cascade_done m)"

definition cascade_keeps :: "string \<Rightarrow> node \<Rightarrow> node \<Rightarrow> bool" where
  "cascade_keeps s n m \<longleftrightarrow> m = n \<or> cascade_change s n m"

definition cascade_frame :: "string \<Rightarrow> graph \<Rightarrow> graph \<Rightarrow> bool" where
  "cascade_frame s g h \<longleftrightarrow> edges h = edges g \<and> next_vid h = next_vid g \<and>
     list_all2 (cascade_keeps s) (nodes g) (nodes h)"

lemma cascade_keeps_refl: "cascade_keeps s n n"
  by (simp add: cascade_keeps_def)

lemma cascade_keeps_fields:
  assumes "cascade_keeps s n m"
  shows "vid m = vid n" "nid m = nid n" "silo m = silo n" "player m = player n"
    and "cascade_done n \<Longrightarrow> cascade_done m"
    and "k \<notin> {''state'', ''synthesis_state''} \<Longrightarrow> props m k = props n k"
    and "pstate n = Some ''TOMBSTONED'' \<Longrightarrow> pstate m = Some ''TOMBSTONED''"
proof -
  have p: "props m k = props n k" if "k \<notin> {''state'', ''synthesis_state''}" for k
    using assms that by (cases "m = n") (simp_all add: cascade_keeps_def cascade_change_def)
  then show "player m = player n" by simp
  show "k \<notin> {''state'', ''synthesis_state''} \<Longrightarrow> props m k = props n k" by (rule p)
  show "vid m = vid n" "nid m = nid n" "silo m = silo n" "cascade_done n \<Longrightarrow> cascade_done m"
    using assms by (cases "m = n", simp, simp add: cascade_keeps_def cascade_change_def)+
  have "m = n \<or> pstate m = pstate n \<or> pstate m = Some ''TOMBSTONED''"
    using assms unfolding cascade_keeps_def cascade_change_def by blast
  then show "pstate n = Some ''TOMBSTONED'' \<Longrightarrow> pstate m = Some ''TOMBSTONED''" by fastforce
qed

lemma cascade_change_trans:
  assumes "cascade_change s n m" "cascade_change s m k"
  shows "cascade_change s n k"
proof -
  note d1 = assms(1) [unfolded cascade_change_def] and d2 = assms(2) [unfolded cascade_change_def]
  have "player n = Some ''wisdom'' \<and> silo n = Some s" using d1 by blast
  moreover have "(vid k, nid k, silo k, labels k) = (vid n, nid n, silo n, labels n)"
    using d1 d2 by (elim conjE) (rule trans)
  moreover have "\<forall>x. x \<notin> {''state'', ''synthesis_state''} \<longrightarrow> props k x = props n x"
  proof (intro allI impI)
    fix x assume x: "x \<notin> {''state'', ''synthesis_state''}"
    from d1 x have "props m x = props n x" by blast
    moreover from d2 x have "props k x = props m x" by blast
    ultimately show "props k x = props n x" by simp
  qed
  moreover have "pstate k = pstate n \<or> pstate k = Some ''TOMBSTONED''"
  proof -
    from d1 have "pstate m = pstate n \<or> pstate m = Some ''TOMBSTONED''" by blast
    moreover from d2 have "pstate k = pstate m \<or> pstate k = Some ''TOMBSTONED''" by blast
    ultimately show ?thesis by (elim disjE) simp_all
  qed
  moreover have "cascade_done n \<longrightarrow> cascade_done k" using d1 d2 by blast
  ultimately show ?thesis unfolding cascade_change_def by blast
qed

lemma cascade_keeps_trans:
  "cascade_keeps s n m \<Longrightarrow> cascade_keeps s m k \<Longrightarrow> cascade_keeps s n k"
  unfolding cascade_keeps_def by (blast intro: cascade_change_trans)

interpretation cascade_only: graph_effect "cascade_frame s" for s
proof
  show "cascade_frame s g g" for g
    by (simp add: cascade_frame_def list.rel_refl cascade_keeps_refl)
  show "cascade_frame s g h \<Longrightarrow> cascade_frame s h k \<Longrightarrow> cascade_frame s g k" for g h k
    unfolding cascade_frame_def by (auto elim: list_all2_trans [rotated] intro: cascade_keeps_trans)
qed

lemma cascade_frame_update:
  assumes "\<And>n. P n \<Longrightarrow> cascade_keeps s n (f n)"
  shows "cascade_frame s g (update_where P f g)"
  using assms by (auto simp: cascade_frame_def graph_simps list_all2_conv_all_nth cascade_keeps_refl)

lemma cascade_frame_writes:
  "cascade_frame s g (fst (MARK_BELIEF_STALE_FOR_CASCADE i s g))"
  "cascade_frame s g (fst (TOMBSTONE_ORPHANED_BELIEF i s t g))"
  unfolding MARK_BELIEF_STALE_FOR_CASCADE_def TOMBSTONE_ORPHANED_BELIEF_def fst_conv
  by (rule cascade_frame_update,
      simp add: cascade_keeps_def cascade_change_def cascade_done_def is_wisdom_def is_node_def)+

interpretation cascade_only: cascade_effect "cascade_frame s" s for s
  by unfold_locales (rule cascade_only.eff_write, rule cascade_frame_writes)+

text \<open>
  whatever the dependency graph looks like, and whichever store calls fail, the staleness
  cascade keeps every edge, every node outside the wisdom layer of the silo, and of the wisdom
  nodes everything but \<open>state\<close> and \<open>synthesis_state\<close>; a node it has made stale or tombstoned
  stays so, and no tombstoned node comes back.
\<close>

theorem cascade_changes_wisdom_only:
  "cascade_frame s (gr w) (gr (snd (cascade_staleness i s d e w)))"
  by (rule geffectD [OF cascade_only.eff_cascade_staleness])

text \<open>
  A dependent is covered once every belief of its id is dealt with, or a deferred cascade for
  it is in the queue.
\<close>

definition covered :: "string \<Rightarrow> string \<Rightarrow> world \<Rightarrow> bool" where
  "covered s x v \<longleftrightarrow> (\<forall>m\<in>set (nodes (gr v)). is_wisdom x s m \<longrightarrow> cascade_done m) \<or>
     reaction CASCADE_STALENESS x s [] \<in> set (emitted v)"

lemma covered_frame:
  assumes f: "cascade_frame s (gr w) (gr v)" and e: "set (emitted w) \<subseteq> set (emitted v)"
    and c: "covered s x w"
  shows "covered s x v"
proof (cases "reaction CASCADE_STALENESS x s [] \<in> set (emitted w)")
  case False
  have "cascade_done m" if m: "m \<in> set (nodes (gr v))" "is_wisdom x s m" for m
  proof -
    obtain n where n: "n \<in> set (nodes (gr w))" and k: "cascade_keeps s n m"
      using f m(1) unfolding cascade_frame_def by (metis in_set_conv_nth list_all2_conv_all_nth)
    have "is_wisdom x s n" using cascade_keeps_fields(2-4) [OF k] m(2)
      by (simp add: is_wisdom_def is_node_def)
    then have "cascade_done n" using c False n by (simp add: covered_def)
    then show ?thesis using cascade_keeps_fields(5) [OF k] by simp
  qed
  then show ?thesis by (simp add: covered_def)
qed (use e in \<open>auto simp: covered_def\<close>)

lemma wp_attempt: "wp e (attempt m) E Q = wp e m (\<lambda>x. Q (Inl x)) (\<lambda>a. Q (Inr a))"
  by (simp add: attempt_def wp_simps)

lemma covered_write:
  "covered s x w \<Longrightarrow> covered s x (w\<lparr>gr := fst (MARK_BELIEF_STALE_FOR_CASCADE i s (gr w))\<rparr>)"
  "covered s x w \<Longrightarrow> covered s x (w\<lparr>gr := fst (TOMBSTONE_ORPHANED_BELIEF i s t (gr w))\<rparr>)"
  by (erule covered_frame [of s w, rotated 2], simp_all add: cascade_frame_writes)+

lemma covered_step [simp]:
  "covered s x (w\<lparr>tick := k\<rparr>) = covered s x w"
  "covered s x w \<Longrightarrow> covered s x (w\<lparr>emitted := emitted w @ evs\<rparr>)"
  by (auto simp: covered_def)

lemma covered_by_write:
  "covered s i (w\<lparr>gr := fst (MARK_BELIEF_STALE_FOR_CASCADE i s (gr w))\<rparr>)"
  "covered s i (w\<lparr>gr := fst (TOMBSTONE_ORPHANED_BELIEF i s t (gr w))\<rparr>)"
  by (auto simp: covered_def cascade_done_def graph_simps MARK_BELIEF_STALE_FOR_CASCADE_def
      TOMBSTONE_ORPHANED_BELIEF_def is_wisdom_def)

lemma covered_defer: "covered s i (w\<lparr>emitted := emitted w @ [reaction CASCADE_STALENESS i s []]\<rparr>)"
  by (simp add: covered_def)

lemma cascade_wisdom_covers:
  "wp e (attempt (cascade_wisdom d s)) E (\<lambda>r v. (\<forall>x. covered s x w \<longrightarrow> covered s x v) \<and>
     (\<forall>u. r = Inr u \<longrightarrow> covered s d v)) w"
  by (auto simp: wp_attempt cascade_wisdom_def wp_simps
      intro: covered_write covered_by_write)

lemma cascade_deps_covers:
  assumes rec: "\<And>d vis w. wp e (rec d vis) E (\<lambda>_ v. \<forall>x. covered s x w \<longrightarrow> covered s x v) w"
  shows "wp e (cascade_deps rec s deps vis) E (\<lambda>_ v. (\<forall>x. covered s x w \<longrightarrow> covered s x v) \<and>
     (\<forall>d. (d, Some ''wisdom'') \<in> set deps \<longrightarrow> covered s d v)) w"
proof (induction deps arbitrary: vis w)
  case (Cons dep deps)
  obtain d l where dep: "dep = (d, l)" by (cases dep)
  let ?P = "\<lambda>v. (\<forall>x. covered s x w \<longrightarrow> covered s x v) \<and> (l = Some ''wisdom'' \<longrightarrow> covered s d v)"
  define R where "R v' \<longleftrightarrow> (\<forall>x. covered s x w \<longrightarrow> covered s x v') \<and>
      (\<forall>d'. (d', Some ''wisdom'') \<in> set (dep # deps) \<longrightarrow> covered s d' v')" for v'
  have rest: "wp e (cascade_deps rec s deps vis') E (\<lambda>_. R) v" if "?P v" for vis' v
    by (rule wp_mono [OF Cons.IH [of vis' v]]) (use that dep in \<open>auto simp: R_def\<close>)
  have "wp e (cascade_deps rec s (dep # deps) vis) E (\<lambda>_. R) w"
  proof (cases "l = Some ''wisdom''")
    case True
    have "wp e (attempt (cascade_wisdom d s)) E (\<lambda>r. wp e (case r of
          Inl x \<Rightarrow> tbind (defer_cascade d s) (\<lambda>_. ret (vis, 0)) | Inr u \<Rightarrow> ret (vis, Suc 0)) E
          (\<lambda>(vis', k). wp e (cascade_deps rec s deps vis') E (\<lambda>_. R))) w"
      by (rule wp_mono [OF cascade_wisdom_covers [of e d s E w]])
        (auto simp: wp_simps defer_cascade_def covered_defer split: sum.splits intro!: rest)
    then show ?thesis using True dep by (simp add: wp_simps case_prod_unfold)
  next
    case False
    have "wp e (rec d vis) E (\<lambda>(vis', r). wp e (case r of
          Inl x \<Rightarrow> tbind (defer_cascade d s) (\<lambda>_. ret (vis', 0)) | Inr k \<Rightarrow> ret (vis', k)) E
          (\<lambda>(vis', k). wp e (cascade_deps rec s deps vis') E (\<lambda>_. R))) w"
      by (rule wp_mono [OF rec [of d vis w]])
        (use False in \<open>auto simp: wp_simps defer_cascade_def split: sum.splits intro!: rest\<close>)
    then show ?thesis using False dep by (simp add: wp_simps case_prod_unfold)
  qed
  then show ?case unfolding R_def .
qed (simp add: wp_simps)

lemma cascade_visit_keeps_covered:
  "wp e (cascade_visit k s i vis) E (\<lambda>_ v. \<forall>x. covered s x w \<longrightarrow> covered s x v) w"
proof (induction k arbitrary: i vis w)
  case (Suc k)
  have "wp e (cascade_deps (cascade_visit k s) s deps vis') E
      (\<lambda>_ v. \<forall>x. covered s x u \<longrightarrow> covered s x v) u" for deps vis' u
    by (rule wp_mono [OF cascade_deps_covers [OF Suc]]) auto
  from this [of _ _ "w\<lparr>tick := Suc (tick w)\<rparr>"] show ?case
    by (simp add: wp_simps wp_attempt case_prod_beta)
qed (simp add: wp_simps defer_cascade_def)

text \<open>
  C16: a cascade that returns (its own look-up did not fail, and the depth limit is not passed)
  leaves no direct active dependent of the wisdom layer behind: each is stale, tombstoned, or
  queued for a deferred cascade, also when the handling of other dependents raised.
\<close>

theorem cascade_covers_dependents:
  assumes "cascade_staleness i s d e w = (Inr k, w')" "d \<le> MAX_CASCADE_DEPTH"
    and "(x, Some ''wisdom'') \<in> set (GET_DEPENDENTS_FOR_CASCADE i s (gr w))"
  shows "(\<forall>m\<in>set (nodes (gr w')). is_wisdom x s m \<longrightarrow> cascade_done m) \<or>
    reaction CASCADE_STALENESS x s [] \<in> set (emitted w')"
proof -
  obtain f where f: "Suc MAX_CASCADE_DEPTH - d = Suc f"
    using assms(2) by (metis Suc_diff_le)
  have "wp e (cascade_deps (cascade_visit f s) s (GET_DEPENDENTS_FOR_CASCADE i s (gr w)) [i])
      (\<lambda>_ _. True) (\<lambda>_ v. covered s x v) (w\<lparr>tick := Suc (tick w)\<rparr>)"
    by (rule wp_mono [OF cascade_deps_covers [OF cascade_visit_keeps_covered]]) (use assms(3) in auto)
  then have "wp e (cascade_staleness i s d) (\<lambda>_ _. True) (\<lambda>_ v. covered s x v) w"
    by (simp add: cascade_staleness_def f wp_simps wp_attempt case_prod_beta)
  from wp_returns [OF this assms(1)] show ?thesis by (simp add: covered_def)
qed


lemma ex_cascade: "fst (cascade_staleness (ex_uuid 2) ''s1'' 1 ex_env (ex_world ex_graph)) = Inr 1"
  by code_simp

theorem cascade_covers_dependents_witness:
  "(\<forall>m\<in>set (nodes (gr (snd (cascade_staleness (ex_uuid 2) ''s1'' 1 ex_env (ex_world ex_graph))))).
       is_wisdom (ex_uuid 1) ''s1'' m \<longrightarrow> cascade_done m) \<or>
   reaction CASCADE_STALENESS (ex_uuid 1) ''s1'' [] \<in>
     set (emitted (snd (cascade_staleness (ex_uuid 2) ''s1'' 1 ex_env (ex_world ex_graph))))"
  by (rule cascade_covers_dependents [where i = "ex_uuid 2" and d = 1 and e = ex_env and k = 1
        and w = "ex_world ex_graph"], rule returns_run, rule ex_cascade) code_simp+


section \<open>Forgetting\<close>

lemma cascade_deps_no_raise:
  assumes "\<And>d vis w. wp e (rec d vis) (\<lambda>_ _. False) (\<lambda>_ _. True) w"
  shows "wp e (cascade_deps rec s deps vis) (\<lambda>_ _. False) (\<lambda>_ _. True) w"
proof (induction deps arbitrary: vis w)
  case (Cons dep deps vis w)
  obtain d l where dep: "dep = (d, l)" by (cases dep)
  show ?case
  proof (cases "l = Some ''wisdom''")
    case True
    then show ?thesis
      using dep Cons
      by (simp add: wp_simps wp_attempt cascade_wisdom_def defer_cascade_def case_prod_unfold)
  next
    case False
    have "wp e (rec d vis) (\<lambda>_ _. False) (\<lambda>(vis', r). wp e (case r of
          Inl x \<Rightarrow> tbind (defer_cascade d s) (\<lambda>_. ret (vis', 0)) | Inr k \<Rightarrow> ret (vis', k))
          (\<lambda>_ _. False) (\<lambda>(vis', k). wp e (cascade_deps rec s deps vis') (\<lambda>_ _. False) (\<lambda>_ _. True))) w"
      by (rule wp_mono [OF assms])
        (auto simp: wp_simps defer_cascade_def Cons split: sum.splits)
    then show ?thesis using False dep by (simp add: wp_simps case_prod_unfold)
  qed
qed (simp add: wp_simps)

lemma cascade_visit_errors:
  "wp e (cascade_visit k s i vis) (\<lambda>_ _. False)
     (\<lambda>(_, r) _. \<forall>x. r = Inl x \<longrightarrow> x = StoreError) w"
proof (induction k arbitrary: i vis w)
  case (Suc k)
  have "wp e (cascade_deps (cascade_visit k s) s deps vis') (\<lambda>_ _. False) (\<lambda>_ _. True) u"
    for deps vis' u
    by (rule cascade_deps_no_raise) (rule wp_mono [OF Suc], simp_all)
  then show ?case by (simp add: wp_simps wp_attempt case_prod_unfold)
qed (simp add: wp_simps defer_cascade_def)

lemma cascade_errors: "wp e (cascade_staleness i s d) (\<lambda>x _. x = StoreError) (\<lambda>_ _. True) w"
proof -
  let ?k = "Suc MAX_CASCADE_DEPTH - d"
  have "wp e (cascade_visit ?k s i []) (\<lambda>x _. x = StoreError)
     (\<lambda>(_, r). wp e (case r of Inl x \<Rightarrow> raise x | Inr k \<Rightarrow> ret k) (\<lambda>x _. x = StoreError) (\<lambda>_ _. True)) w"
    by (rule wp_mono [OF cascade_visit_errors]) (auto simp: wp_simps split: sum.splits)
  then show ?thesis by (simp add: cascade_staleness_def wp_simps case_prod_unfold)
qed


lemma wp_forget_cascade:
  "wp e (if c then cascade_staleness i s 1 else ret 0) (\<lambda>x v. x = StoreError \<and> cascade_frame s (gr w) (gr v))
     (\<lambda>_ v. cascade_frame s (gr w) (gr v)) w"
proof (cases c)
  case True
  then show ?thesis
    using wp_conj [OF cascade_errors wp_geffect [OF cascade_only.eff_cascade_staleness], of e i s 1 w]
    by simp
qed (simp add: wp_simps cascade_only.refl)

lemma wp_qdrant:
  "wp e (qdrant_delete s i) E Q w =
     (if \<not> uuid_ok i then Q (Some ''badly formed hexadecimal UUID string'') w
      else if fault e (tick w) then Q (Some (fault_msg e (tick w))) (w\<lparr>tick := Suc (tick w)\<rparr>)
      else Q None (w\<lparr>vectors := filter (\<lambda>v. v \<noteq> (s, i)) (vectors w), tick := Suc (tick w)\<rparr>))"
  "wp e (enqueue_failed_delete s i) E Q' w =
     (if fault e (tick w) then E StoreError (w\<lparr>tick := Suc (tick w)\<rparr>)
      else Q' () (w\<lparr>dead_letters := (s, i) # dead_letters w, tick := Suc (tick w)\<rparr>))"
  by (simp_all add: wp_def qdrant_delete_def enqueue_failed_delete_def)

lemma delete_vector_accounted:
  assumes "\<And>j. fault_msg e j \<noteq> []"
  shows "wp e (delete_vector k s i msg) (\<lambda>_ _. False)
     (\<lambda>err v. err = [] \<and> (0 < k \<or> msg \<noteq> []) \<longrightarrow> (s, i) \<notin> set (vectors v)) w"
proof (induction k arbitrary: msg w)
  case (Suc k)
  have "wp e (delete_vector k s i m) (\<lambda>_ _. False) (\<lambda>err v. err = [] \<longrightarrow> (s, i) \<notin> set (vectors v)) u"
    if "m \<noteq> []" for m u
    by (rule wp_mono [OF Suc]) (use that in auto)
  then show ?case using assms by (simp add: wp_simps wp_qdrant)
qed (simp add: wp_simps)

lemma forget_vector_accounted_wp:
  assumes "\<And>j. fault_msg e j \<noteq> []"
  shows "wp e (forget_vector s i) (\<lambda>x _. x = StoreError)
     (\<lambda>_ v. (s, i) \<notin> set (vectors v) \<or> (s, i) \<in> set (dead_letters v)) w"
proof -
  have "wp e (delete_vector 3 s i []) (\<lambda>x _. x = StoreError) (\<lambda>err. wp e
      (twhen (err \<noteq> []) (enqueue_failed_delete s i)) (\<lambda>x _. x = StoreError)
      (\<lambda>_ v. (s, i) \<notin> set (vectors v) \<or> (s, i) \<in> set (dead_letters v))) w"
    by (rule wp_mono [OF delete_vector_accounted [OF assms]]) (auto simp: wp_simps wp_qdrant)
  then show ?thesis by (simp add: forget_vector_def wp_simps)
qed

lemma forget_vector_graph: "geffect (=) (forget_vector s i)"
proof -
  have q: "geffect (=) (qdrant_delete s i)" "geffect (=) (enqueue_failed_delete s i)"
    by (simp_all add: geffect_def qdrant_delete_def enqueue_failed_delete_def)
  have "geffect (=) (delete_vector k s i msg)" for k msg
    by (induction k arbitrary: msg) (auto intro!: effect_intros q)
  then show ?thesis by (auto simp: forget_vector_def intro!: effect_intros q)
qed

lemma apply_tombstone_props:
  "props (apply_sets sq (tombstone_sets t a r c) n) =
     (props n)(''state'' \<mapsto> VStr ''TOMBSTONED'', ''tombstoned_at'' \<mapsto> VTime t,
       ''forget_requested_at'' \<mapsto> VTime t, ''forget_requested_by'' \<mapsto> VStr a,
       ''forget_reason'' := map_option VStr r, ''cancel_window_expires'' \<mapsto> VTime c,
       ''previous_state'' := (if sq then Some (VStr ''TOMBSTONED'') else props n ''state''))"
  by (simp add: apply_sets_def tombstone_sets_def)

lemma apply_tombstone_id:
  "vid (apply_sets sq (tombstone_sets t a r c) n) = vid n"
  "nid (apply_sets sq (tombstone_sets t a r c) n) = nid n"
  "silo (apply_sets sq (tombstone_sets t a r c) n) = silo n"
  "labels (apply_sets sq (tombstone_sets t a r c) n) = labels n"
  using identity_kept_apply_sets [of sq "tombstone_sets t a r c"]
  by (simp_all add: identity_kept_def apply_sets_def tombstone_sets_def)

lemma tombstone_then_cascade:
  assumes n: "n \<in> set (nodes g)" "is_node i s n" "pstate n \<in> {Some ''ACTIVE'', Some ''SUPERSEDED''}"
    and f: "cascade_frame s (fst (TOMBSTONE_NODE sq i s t a r c g)) h"
  shows "\<exists>m\<in>set (nodes h). vid m = vid n \<and> pstate m = Some ''TOMBSTONED'' \<and>
    props m ''cancel_window_expires'' = Some (VTime c)"
proof -
  let ?n = "apply_sets sq (tombstone_sets t a r c) n"
  have "?n \<in> set (nodes (fst (TOMBSTONE_NODE sq i s t a r c g)))"
    using n by (auto simp: TOMBSTONE_NODE_def graph_simps intro!: image_eqI [of _ _ n])
  then obtain m where m: "m \<in> set (nodes h)" and k: "cascade_keeps s ?n m"
    using f unfolding cascade_frame_def by (metis in_set_conv_nth list_all2_conv_all_nth)
  have "vid m = vid n" using cascade_keeps_fields(1) [OF k] by (simp add: apply_tombstone_id)
  moreover have "props m ''cancel_window_expires'' = Some (VTime c)"
    using cascade_keeps_fields(6) [OF k, of "''cancel_window_expires''"]
    by (simp add: apply_tombstone_props)
  moreover have "pstate m = Some ''TOMBSTONED''"
    by (rule cascade_keeps_fields(7) [OF k]) (simp add: apply_tombstone_props)
  ultimately show ?thesis using m by blast
qed

text \<open>What is known when \<open>forget\<close> has returned.\<close>

definition forget_post ::
  "string \<Rightarrow> string \<Rightarrow> string \<Rightarrow> string option \<Rightarrow> bool \<Rightarrow> env \<Rightarrow> world \<Rightarrow> ForgetResult \<Rightarrow> graph \<Rightarrow> bool" where
  "forget_post i s a r c e w res h \<longleftrightarrow>
     (let t = clock e (Suc (tick w));
          g = fst (TOMBSTONE_NODE (set_sequential e) i s t a r (t + 3600) (gr w))
      in fg_tombstoned_at res = t \<and> fg_cancel_window_expires res = t + 3600 \<and>
         fg_state res = TOMBSTONED \<and> cascade_frame s g h \<and> (c \<or> h = g) \<and>
         (\<exists>row rest. GET_NODE_FOR_FORGET i s (gr w) = row # rest \<and>
            fr_state row \<in> {Some ''ACTIVE'', Some ''SUPERSEDED''}))"

lemma forget_returns:
  assumes "forget i s a r c em q e w = (Inr (res, evs), w')"
  shows "forget_post i s a r c e w res (gr w')"
proof -
  have casc: "returns e (if c then cascade_staleness i s 1 else ret 0) P v"
    if "\<And>k u. cascade_frame s (gr v) (gr u) \<Longrightarrow> c \<or> gr u = gr v \<Longrightarrow> P k u" for P v
  proof (cases c)
    case True
    then show ?thesis
      using wp_mono [OF wp_forget_cascade [of e c i s v], of "\<lambda>_ _. True" P] that by simp
  qed (use that in \<open>simp add: wp_simps cascade_only.refl\<close>)
  have vec: "returns e (twhen q (forget_vector s i)) P v" if "\<And>u. gr u = gr v \<Longrightarrow> P () u" for P v
    by (rule wp_mono [OF wp_geffect [OF read_only.eff_when [OF forget_vector_graph]]]) (use that in auto)
  have valid: "returns e (validate_forget st) P v"
    if "st \<in> {Some ''ACTIVE'', Some ''SUPERSEDED''} \<Longrightarrow> P () v" for st P v
    using that by (simp add: validate_forget_def wp_simps)
  have "returns e (forget i s a r c em q) (\<lambda>(res, evs) v. forget_post i s a r c e w res (gr v)) w"
    unfolding forget_def Let_def
  proof (rule returns_intros(1), rule returns_intros(8), goal_cases)
    case 1
    show ?case
    proof (cases "GET_NODE_FOR_FORGET i s (gr w)")
      case (Cons row rest)
      then show ?thesis
        by (simp only: list.case, intro returns_intros(1-10) casc vec valid returns_emit_all)
          (simp_all add: forget_post_def tx_constants)
    qed (simp add: wp_simps)
  qed
  from returnsD [OF this assms] show ?thesis by simp
qed

text \<open>
  when \<open>forget\<close> returns, every node it addressed that was active or superseded is
  tombstoned, with the cancel window the result announces, 3600 seconds after the time of the
  request; also with the cascade on, over any graph and with any failures on the way.
\<close>

theorem forget_tombstones:
  assumes run: "forget i s a r c em q e w = (Inr (res, evs), w')"
    and n: "n \<in> set (nodes (gr w))" "is_node i s n"
      "pstate n \<in> {Some ''ACTIVE'', Some ''SUPERSEDED''}"
  shows "fg_state res = TOMBSTONED \<and> fg_cancel_window_expires res = fg_tombstoned_at res + 3600 \<and>
    (\<exists>m\<in>set (nodes (gr w')). vid m = vid n \<and> pstate m = Some ''TOMBSTONED'' \<and>
      props m ''cancel_window_expires'' = Some (VTime (fg_cancel_window_expires res)))"
proof -
  note post = forget_returns [OF run, unfolded forget_post_def Let_def]
  from post have "cascade_frame s (fst (TOMBSTONE_NODE (set_sequential e) i s (fg_tombstoned_at res) a r
      (fg_cancel_window_expires res) (gr w))) (gr w')" by simp
  from tombstone_then_cascade [OF n this] show ?thesis using post by simp
qed

lemma ex_forget:
  "fst (forget (ex_uuid 5) ''s1'' ''agent'' None True True True ex_env (ex_world ex_graph)) =
     Inr (\<lparr>fg_node_id = ex_uuid 5, fg_state = TOMBSTONED, fg_tombstoned_at = 1001,
           fg_cancel_window_expires = 4601, fg_cascade_count = 0\<rparr>,
          [reaction CASCADE_STALENESS_COMPLETE (ex_uuid 5) ''s1'' [(''cascade_count'', VInt 0)]])"
  by code_simp

theorem forget_tombstones_witness:
  "\<exists>m\<in>set (nodes (gr (snd (forget (ex_uuid 5) ''s1'' ''agent'' None True True True ex_env (ex_world ex_graph))))).
     vid m = 5 \<and> pstate m = Some ''TOMBSTONED''"
  using forget_tombstones [OF returns_run [where m = "forget (ex_uuid 5) ''s1'' ''agent'' None True True True"],
    OF ex_forget, of ex_claim5]
  by (simp add: ex_graph_nodes) (auto simp: ex_node_defs is_node_def)

text \<open>
  a \<open>forget\<close> that is refused (node not found, already tombstoned, already deleted, invalid
  state) has changed nothing: graph, vectors, dead letters and events are those of the call.
\<close>

theorem forget_refused_unchanged:
  assumes "forget i s a r c em q e w = (Inl (InvariantViolation code), w')"
  shows "gr w' = gr w \<and> emitted w' = emitted w \<and> vectors w' = vectors w \<and>
    dead_letters w' = dead_letters w"
proof -
  let ?E = "\<lambda>x v. (\<exists>code. x = InvariantViolation code) \<longrightarrow> gr v = gr w \<and> emitted v = emitted w \<and>
    vectors v = vectors w \<and> dead_letters v = dead_letters w"
  define m1 where "m1 = (if c then cascade_staleness i s 1 else ret 0)"
  define m2 where "m2 = twhen q (forget_vector s i)"
  have m1: "wp e m1 ?E P v" if "\<And>k u. P k u" for P v
    unfolding m1_def by (rule wp_mono [OF wp_forget_cascade]) (use that in auto)
  have dv: "wp e (delete_vector k s i msg) (\<lambda>_ _. False) (\<lambda>_ _. True) v" for k msg v
    by (induction k arbitrary: msg v) (simp_all add: wp_simps wp_qdrant)
  have m2: "wp e m2 ?E P v" if "\<And>u. P () u" for P v
    using that unfolding m2_def forget_vector_def
    by (simp add: wp_simps) (auto intro!: wp_mono [OF dv] simp: wp_simps wp_qdrant)
  have "wp e (forget i s a r c em q) ?E (\<lambda>_ _. True) w"
    unfolding forget_def m1_def [symmetric] m2_def [symmetric] Let_def
    by (simp add: wp_simps split: list.split)
      (auto simp: wp_simps validate_forget_def intro!: m1 m2)
  from wp_raises [OF this assms] show ?thesis by simp
qed

lemma ex_forget_twice:
  "fst (forget (ex_uuid 5) ''s2'' ''agent'' None True True True ex_env (ex_world ex_graph)) =
     Inl (InvariantViolation ''NODE_NOT_FOUND'')"
  by code_simp

theorem forget_refused_unchanged_witness:
  "gr (snd (forget (ex_uuid 5) ''s2'' ''agent'' None True True True ex_env (ex_world ex_graph))) = ex_graph"
  using forget_refused_unchanged [OF raises_run [where e = ex_env and w = "ex_world ex_graph" and
      m = "forget (ex_uuid 5) ''s2'' ''agent'' None True True True", OF ex_forget_twice]]
  by simp

text \<open>
  no vector is lost silently: when every error of the vector store carries a text and \<open>forget\<close>
  returns, the vector of the node is gone or its deletion is in the dead-letter queue.
\<close>

theorem forget_vector_accounted:
  assumes "forget i s a r c em True e w = (Inr out, w')" "\<And>j. fault_msg e j \<noteq> []"
  shows "(s, i) \<notin> set (vectors w') \<or> (s, i) \<in> set (dead_letters w')"
proof -
  define m1 where "m1 = (if c then cascade_staleness i s 1 else ret 0)"
  have m1: "returns e m1 P v" if "\<And>k u. P k u" for P v
    unfolding m1_def by (rule wp_mono [OF wp_forget_cascade]) (use that in auto)
  have vec: "returns e (twhen True (forget_vector s i)) P v"
    if "\<And>u. (s, i) \<notin> set (vectors u) \<or> (s, i) \<in> set (dead_letters u) \<Longrightarrow> P () u" for P v
    using wp_mono [OF forget_vector_accounted_wp [OF assms(2), of s i v], of "\<lambda>_ _. True" "\<lambda>_. P ()"] that
    by (simp add: wp_simps)
  have valid: "returns e (validate_forget st) P v" if "P () v" for st P v
    using that by (simp add: validate_forget_def wp_simps)
  have "returns e (forget i s a r c em True)
      (\<lambda>_ v. (s, i) \<notin> set (vectors v) \<or> (s, i) \<in> set (dead_letters v)) w"
    unfolding forget_def m1_def [symmetric] Let_def
  proof (rule returns_intros(1), rule returns_intros(8), goal_cases)
    case 1
    show ?case
    proof (cases "GET_NODE_FOR_FORGET i s (gr w)")
      case (Cons row rest)
      then show ?thesis
        by (simp only: list.case, intro returns_intros(1-10) m1 vec valid returns_emit_all)
    qed (simp add: wp_simps)
  qed
  from returnsD [OF this assms(1)] show ?thesis .
qed

theorem forget_vector_accounted_witness:
  "(''s1'', ex_uuid 5) \<in>
     - set (vectors (snd (forget (ex_uuid 5) ''s1'' ''agent'' None True True True ex_env (ex_world ex_graph))))
     \<union> set (dead_letters (snd (forget (ex_uuid 5) ''s1'' ''agent'' None True True True ex_env (ex_world ex_graph))))"
  unfolding Un_iff Compl_iff
  by (rule forget_vector_accounted, rule returns_run, rule ex_forget) (simp add: ex_env_def)

section \<open>Cancelling\<close>

lemma match_id_update_single:
  assumes "match_id g i s = [n]" "P n" "\<And>x. P x \<Longrightarrow> is_node i s x" "is_node i s (f n)"
  shows "match_id (update_where P f g) i s = [f n]"
proof -
  have "filter (is_node i s) (map (\<lambda>x. if P x then f x else x) xs) = [f n]"
    if "filter (is_node i s) xs = [n]" for xs
    using that
  proof (induction xs)
    case (Cons x xs)
    show ?case
    proof (cases "is_node i s x")
      case True
      then have x: "x = n" and none: "filter (is_node i s) xs = []" using Cons.prems by auto
      have "filter (is_node i s) (map (\<lambda>x. if P x then f x else x) xs) = []"
        using none assms(3) by (auto simp: filter_empty_conv)
      then show ?thesis using x assms by simp
    next
      case False
      then have "\<not> P x" using assms(3) by blast
      then show ?thesis using False Cons by simp
    qed
  qed simp
  then show ?thesis using assms(1) by (simp add: match_id_def update_where_def)
qed

lemma filter_match_id: "(\<And>x. P x \<Longrightarrow> is_node i s x) \<Longrightarrow> filter P (nodes g) = filter P (match_id g i s)"
  unfolding match_id_def filter_filter by (rule filter_cong) auto

lemma cancel_after_forget:
  assumes one: "match_id (gr w) i s = [n]"
    and run: "forget i s a r False em q e w = (Inr (res, evs), w1)"
    and w2: "gr w2 = gr w1" "\<And>k. \<not> fault e2 k" "\<And>k. clock e2 k < fg_cancel_window_expires res"
    and u: "uuid_ok i"
  shows "\<exists>out w3 m. cancel_forget i s a2 e2 w2 = (Inr out, w3) \<and> match_id (gr w3) i s = [m] \<and>
    vid m = vid n \<and> pstate m = (if set_sequential e then Some ''TOMBSTONED'' else pstate n) \<and>
    Some (state_value (cf_previous_state out)) = pstate m"
proof -
  define t where "t = clock e (Suc (tick w))"
  define n1 where "n1 = apply_sets (set_sequential e) (tombstone_sets t a r (t + 3600)) n"
  have st: "pstate n \<in> {Some ''ACTIVE'', Some ''SUPERSEDED''}" and
    g1: "gr w1 = fst (TOMBSTONE_NODE (set_sequential e) i s t a r (t + 3600) (gr w))" and
    ex: "fg_cancel_window_expires res = t + 3600"
    using forget_returns [OF run] one by (auto simp: forget_post_def Let_def t_def GET_NODE_FOR_FORGET_def)
  have is_n: "is_node i s n" using match_id_iff [of n "gr w" i s] one by (simp add: is_node_def)
  then have is_n1: "is_node i s n1" by (simp add: n1_def is_node_def apply_tombstone_id)
  have m1: "match_id (gr w2) i s = [n1]"
    unfolding w2 g1 TOMBSTONE_NODE_def fst_conv n1_def
    by (rule match_id_update_single [OF one]) (use is_n st is_n1 in \<open>auto simp: n1_def\<close>)
  define u2 where "u2 = clock e2 (Suc (Suc (tick w2)))"
  define n2 where "n2 = restore_props u2 a2 n1"
  have restorable: "restorable i s u2 n1"
    using is_n1 w2(3) by (simp add: restorable_def n1_def apply_tombstone_props u2_def ex)
  have is_n2: "is_node i s n2" using is_n1 by (simp add: n2_def restore_props_def is_node_def)
  have m2: "match_id (fst (RESTORE_TOMBSTONED_NODE i s u2 u2 a2 (gr w2))) i s = [n2]"
    unfolding RESTORE_TOMBSTONED_NODE_def fst_conv n2_def
    by (rule match_id_update_single [OF m1]) (use restorable is_n2 in \<open>auto simp: n2_def restorable_def\<close>)
  have prev: "str_of (props n1 ''previous_state'') =
      (if set_sequential e then Some ''TOMBSTONED'' else pstate n)"
    by (simp add: n1_def apply_tombstone_props)
  have p2: "pstate n2 = (if set_sequential e then Some ''TOMBSTONED'' else pstate n)"
    using prev by (simp add: n2_def restore_props_def)
  obtain prevst where prevst: "pstate n2 = Some (state_value prevst)"
    using p2 st by (metis insert_iff singletonD state_value.simps(1-3))
  have rows: "snd (RESTORE_TOMBSTONED_NODE i s u2 u2 a2 (gr w2)) = [pstate n2]"
  proof -
    have "filter (restorable i s u2) (nodes (gr w2)) = filter (restorable i s u2) (match_id (gr w2) i s)"
      by (rule filter_match_id) (simp add: restorable_def)
    then show ?thesis using restorable prev p2 by (simp add: RESTORE_TOMBSTONED_NODE_def m1)
  qed
  have "wp e2 (cancel_forget i s a2) (\<lambda>_ _. False) (\<lambda>out v.
      gr v = fst (RESTORE_TOMBSTONED_NODE i s u2 u2 a2 (gr w2)) \<and> cf_previous_state out = prevst) w2"
    using w2(2,3) u rows prevst m1 unfolding cancel_forget_def
    by (simp add: wp_simps GET_NODE_FOR_FORGET_def Let_def parse_state_def n1_def apply_tombstone_props
        ex u2_def not_less order_less_imp_le)
  then obtain out w3 where "cancel_forget i s a2 e2 w2 = (Inr out, w3)"
    "gr w3 = fst (RESTORE_TOMBSTONED_NODE i s u2 u2 a2 (gr w2))" "cf_previous_state out = prevst"
    by (auto simp: wp_def split: prod.splits sum.splits)
  moreover have "vid n2 = vid n" by (simp add: n2_def restore_props_def n1_def apply_tombstone_id)
  ultimately show ?thesis using m2 p2 prevst by auto
qed



lemma ex_match5: "match_id (gr (ex_world ex_graph)) (ex_uuid 5) ''s1'' = [ex_claim5]"
  by (simp add: ex_graph_def ex_node_defs match_id_def is_node_def ex_uuid_def hex_digits_def)

definition ex_env2 :: env where
  "ex_env2 = ex_env\<lparr>clock := (\<lambda>_. 2000)\<rparr>"

lemma ex_uuid5_ok: "uuid_ok (ex_uuid 5)"
  by code_simp


text \<open>
  when later items of a \<open>SET\<close> clause see the writes of earlier items, \<open>previous_state\<close> is
  saved as \<open>TOMBSTONED\<close>, so \<open>cancel_forget\<close> returns normally and leaves the node tombstoned, without
  a cancel window: it can be neither cancelled nor collected any more.
\<close>

theorem cancel_forget_sequential_set:
  assumes "match_id (gr w) i s = [n]" "set_sequential e"
    and "forget i s a r False em q e w = (Inr (res, evs), w1)"
    and "gr w2 = gr w1" "\<And>k. \<not> fault e2 k" "\<And>k. clock e2 k < fg_cancel_window_expires res" "uuid_ok i"
  shows "\<exists>out w3 m. cancel_forget i s a2 e2 w2 = (Inr out, w3) \<and> match_id (gr w3) i s = [m] \<and>
    vid m = vid n \<and> pstate m = Some ''TOMBSTONED'' \<and> cf_previous_state out = TOMBSTONED"
  using cancel_after_forget [OF assms(1,3-7)] assms(2)
  by (metis option.inject state_of_value_round state_value.simps(3))

definition ex_env_seq :: env where
  "ex_env_seq = ex_env\<lparr>set_sequential := True\<rparr>"

lemma ex_forget_seq:
  "forget (ex_uuid 5) ''s1'' ''agent'' None False True True ex_env_seq (ex_world ex_graph) =
     (Inr (\<lparr>fg_node_id = ex_uuid 5, fg_state = TOMBSTONED, fg_tombstoned_at = 1001,
           fg_cancel_window_expires = 4601, fg_cascade_count = 0\<rparr>, []),
      snd (forget (ex_uuid 5) ''s1'' ''agent'' None False True True ex_env_seq (ex_world ex_graph)))"
  by (rule returns_run) code_simp

theorem cancel_forget_sequential_set_witness:
  "\<exists>out w3 m. cancel_forget (ex_uuid 5) ''s1'' ''agent'' ex_env2
      (snd (forget (ex_uuid 5) ''s1'' ''agent'' None False True True ex_env_seq (ex_world ex_graph))) = (Inr out, w3) \<and>
    match_id (gr w3) (ex_uuid 5) ''s1'' = [m] \<and> vid m = vid ex_claim5 \<and> pstate m = Some ''TOMBSTONED'' \<and>
    cf_previous_state out = TOMBSTONED"
  by (rule cancel_forget_sequential_set [OF ex_match5 _ ex_forget_seq refl])
    (simp_all add: ex_env2_def ex_env_seq_def ex_env_def ex_uuid5_ok)

section \<open>Garbage collection\<close>

text \<open>What a collection run over the ids \<open>C\<close> may do to the nodes: remove tombstoned ones.\<close>

definition collects :: "string \<Rightarrow> string set \<Rightarrow> graph \<Rightarrow> graph \<Rightarrow> bool" where
  "collects s C g h \<longleftrightarrow> (\<exists>P. nodes h = filter P (nodes g) \<and>
     (\<forall>n. \<not> P n \<longrightarrow> silo n = Some s \<and> nid n \<in> C \<and> pstate n = Some ''TOMBSTONED''))"

interpretation collecting: graph_effect "collects s C" for s C
proof
  show "collects s C g g" for g
    unfolding collects_def by (rule exI [of _ "\<lambda>_. True"]) simp
  show "collects s C g k" if "collects s C g h" "collects s C h k" for g h k
  proof -
    from that obtain P Q where "nodes h = filter P (nodes g)" "nodes k = filter Q (nodes h)"
      "\<forall>n. \<not> P n \<longrightarrow> silo n = Some s \<and> nid n \<in> C \<and> pstate n = Some ''TOMBSTONED''"
      "\<forall>n. \<not> Q n \<longrightarrow> silo n = Some s \<and> nid n \<in> C \<and> pstate n = Some ''TOMBSTONED''"
      by (auto simp: collects_def)
    then show ?thesis unfolding collects_def
      by (intro exI [of _ "\<lambda>n. P n \<and> Q n"]) (auto intro: filter_cong)
  qed
qed

lemma hard_delete_one_collects:
  "i \<in> C \<Longrightarrow> geffect (collects s C) (hard_delete_one s i)"
  unfolding hard_delete_one_def
proof (intro collecting.eff_bind collecting.eff_write collecting.eff_write_checked)
  show "collects s C g (fst (DELETE_EDGES_FOR_NODE i s g))" for g
    unfolding collects_def DELETE_EDGES_FOR_NODE_def
    by (rule exI [of _ "\<lambda>_. True"]) (simp add: graph_simps)
  show "collects s C g h" if "i \<in> C" "HARD_DELETE_NODE i s g = Some (h, r)" for g h r
    unfolding collects_def using that
    by (intro exI [of _ "\<lambda>n. \<not> hard_delete_target i s n"])
      (auto simp: HARD_DELETE_NODE_def Let_def graph_simps hard_delete_target_def is_node_def
        split: if_splits)
qed

lemma collects_attempts:
  "(\<And>i. i \<in> set ids \<Longrightarrow> i \<in> C) \<Longrightarrow> geffect (collects s C) (tfor ids (\<lambda>i.
     tbind (attempt (hard_delete_one s i)) (\<lambda>r. ret (i, case r of Inl _ \<Rightarrow> False | Inr _ \<Rightarrow> True))))"
  by (intro collecting.eff_for_in collecting.eff_bind collecting.eff_attempt hard_delete_one_collects
      collecting.eff_ret) auto

lemma hard_delete_collects:
  "collects s (set (GET_TOMBSTONED_FOR_GC s (clock e (tick w)) k (gr w))) (gr w)
     (gr (snd (hard_delete s k e w)))"
proof -
  let ?ids = "GET_TOMBSTONED_FOR_GC s (clock e (tick w)) k (gr w)"
  let ?P = "\<lambda>v. collects s (set ?ids) (gr w) (gr v)"
  have refl: "?P (w\<lparr>tick := j\<rparr>)" for j using collecting.refl by simp
  have loop: "wp e (tfor ?ids (\<lambda>i. tbind (attempt (hard_delete_one s i))
      (\<lambda>r. ret (i, case r of Inl _ \<Rightarrow> False | Inr _ \<Rightarrow> True)))) (\<lambda>_. ?P) (\<lambda>_. ?P) (w\<lparr>tick := j\<rparr>)" for j
    using wp_geffect [OF collects_attempts [of ?ids "set ?ids" s], of e "w\<lparr>tick := j\<rparr>"] by simp
  have "wp e (hard_delete s k) (\<lambda>_. ?P) (\<lambda>_. ?P) w"
    unfolding hard_delete_def Let_def
    by (simp only: wp_bind wp_calls wp_store wp_ret) (use loop refl in \<open>simp add: wp_bind wp_ret\<close>)
  then show ?thesis by (auto simp: wp_def split: prod.splits sum.splits)
qed

text \<open>
  the collector removes only nodes that are tombstoned in its silo with an expired cancel
  window, whatever fails in between; ids are unique within the silo.
\<close>

theorem hard_delete_only_expired:
  assumes uniq: "distinct (map nid (silo_view s (gr w)))"
    and n: "n \<in> set (nodes (gr w))" "n \<notin> set (nodes (gr (snd (hard_delete s k e w))))"
  shows "silo n = Some s \<and> pstate n = Some ''TOMBSTONED'' \<and>
    (\<exists>t. time_of (props n ''cancel_window_expires'') = Some t \<and> t < clock e (tick w))"
proof -
  let ?ids = "GET_TOMBSTONED_FOR_GC s (clock e (tick w)) k (gr w)"
  from hard_delete_collects [of s e w k] n
  have n': "silo n = Some s" "nid n \<in> set ?ids" "pstate n = Some ''TOMBSTONED''"
    unfolding collects_def by auto
  then obtain m where m: "m \<in> set (nodes (gr w))" "silo m = Some s" "nid m = nid n"
    "case time_of (props m ''cancel_window_expires'') of None \<Rightarrow> False | Some t \<Rightarrow> t < clock e (tick w)"
    by (auto simp: GET_TOMBSTONED_FOR_GC_def dest!: in_set_takeD)
  have "m \<in> set (silo_view s (gr w))" "n \<in> set (silo_view s (gr w))"
    using m n n' by (auto simp: silo_view_def)
  with uniq m(3) have "m = n" by (auto simp: distinct_map dest: inj_onD)
  with m(4) n' show ?thesis by (auto split: option.splits)
qed

definition none_tombstoned :: "string \<Rightarrow> string \<Rightarrow> graph \<Rightarrow> bool" where
  "none_tombstoned i s g \<longleftrightarrow> (\<forall>m\<in>set (match_id g i s). pstate m \<noteq> Some ''TOMBSTONED'')"

lemma none_tombstoned_collects: "collects s C g h \<Longrightarrow> none_tombstoned i t g \<Longrightarrow> none_tombstoned i t h"
  by (auto simp: collects_def none_tombstoned_def match_id_iff)

lemma hard_delete_one_succeeds:
  assumes "\<And>k. \<not> fault e k"
  shows "wp e (hard_delete_one s i) (\<lambda>_ _. False) (\<lambda>_ v. none_tombstoned i s (gr v)) w"
proof -
  let ?g = "fst (DELETE_EDGES_FOR_NODE i s (gr w))"
  have "\<not> list_ex (touches (filter (hard_delete_target i s) (nodes ?g))) (edges ?g)"
    by (auto simp: DELETE_EDGES_FOR_NODE_def graph_simps list_ex_iff touches_def hard_delete_target_def
        match_id_def)
  then have "HARD_DELETE_NODE i s ?g = Some (del_nodes (hard_delete_target i s) ?g, ())"
    by (simp add: HARD_DELETE_NODE_def Let_def)
  moreover have "none_tombstoned i s (del_nodes (hard_delete_target i s) ?g)"
    by (auto simp: none_tombstoned_def match_id_iff graph_simps hard_delete_target_def is_node_def)
  ultimately show ?thesis using assms by (simp add: hard_delete_one_def wp_simps)
qed

lemma hard_delete_loop:
  assumes "\<And>k. \<not> fault e k"
  shows "wp e (tfor ids (\<lambda>i. tbind (attempt (hard_delete_one s i))
        (\<lambda>r. ret (i, case r of Inl _ \<Rightarrow> False | Inr _ \<Rightarrow> True)))) (\<lambda>_ _. False)
      (\<lambda>out v. out = map (\<lambda>i. (i, True)) ids \<and> (\<forall>i\<in>set ids. none_tombstoned i s (gr v))) w"
proof (induction ids arbitrary: w)
  case (Cons i ids)
  let ?F = "\<lambda>i. tbind (attempt (hard_delete_one s i))
        (\<lambda>r. ret (i, case r of Inl _ \<Rightarrow> False | Inr _ \<Rightarrow> True))"
  have rest: "wp e (tfor ids ?F) (\<lambda>_ _. False) (\<lambda>out v. out = map (\<lambda>i. (i, True)) ids \<and>
      (\<forall>i'\<in>set (i # ids). none_tombstoned i' s (gr v))) u" if "none_tombstoned i s (gr u)" for u
    by (rule wp_mono [OF wp_conj [OF Cons wp_geffect [OF collects_attempts [of ids "set ids" s]]]])
      (use that none_tombstoned_collects in auto)
  have "wp e (hard_delete_one s i) (\<lambda>_ _. False) (\<lambda>_. wp e (tfor ids ?F) (\<lambda>_ _. False)
      (\<lambda>out v. out = map (\<lambda>i. (i, True)) ids \<and> (\<forall>i'\<in>set (i # ids). none_tombstoned i' s (gr v)))) w"
    by (rule wp_mono [OF hard_delete_one_succeeds [OF assms]]) (use rest in auto)
  from wp_mono [OF this, of "\<lambda>_. wp e (tbind (tfor ids ?F) (\<lambda>ys. ret ((i, False) # ys))) (\<lambda>_ _. False)
      (\<lambda>out v. out = map (\<lambda>i. (i, True)) (i # ids) \<and> (\<forall>i'\<in>set (i # ids). none_tombstoned i' s (gr v)))"]
  show ?case by (simp add: wp_simps wp_attempt)
qed (simp add: wp_simps)

text \<open>
  without store failures the collector deletes exactly the candidates of its batch: it skips
  none, and no tombstoned node of their ids is left.
\<close>

theorem hard_delete_complete:
  assumes "\<And>k. \<not> fault e k"
  shows "\<exists>out w'. hard_delete s b e w = (Inr out, w') \<and>
    hd_deleted_ids out = GET_TOMBSTONED_FOR_GC s (clock e (tick w)) b (gr w) \<and>
    hd_deleted_count out = length (hd_deleted_ids out) \<and> hd_skipped_count out = 0 \<and>
    (\<forall>i\<in>set (hd_deleted_ids out). \<forall>m\<in>set (match_id (gr w') i s). pstate m \<noteq> Some ''TOMBSTONED'')"
proof -
  let ?ids = "GET_TOMBSTONED_FOR_GC s (clock e (tick w)) b (gr w)"
  let ?Q = "\<lambda>out v. hd_deleted_ids out = ?ids \<and> hd_deleted_count out = length (hd_deleted_ids out) \<and>
    hd_skipped_count out = 0 \<and> (\<forall>i\<in>set (hd_deleted_ids out). none_tombstoned i s (gr v))"
  have "wp e (hard_delete s b) (\<lambda>_ _. False) ?Q w"
    unfolding hard_delete_def Let_def
    by (simp only: wp_bind wp_calls wp_store wp_ret)
      (simp add: assms, rule wp_mono [OF hard_delete_loop [OF assms, unfolded wp_bind]],
       auto simp: comp_def)
  then show ?thesis by (auto simp: wp_def none_tombstoned_def split: prod.splits sum.splits)
qed

theorem hard_delete_complete_witness:
  "\<exists>out w'. hard_delete ''s1'' 10 ex_env (ex_world ex_graph) = (Inr out, w') \<and>
    hd_deleted_ids out = GET_TOMBSTONED_FOR_GC ''s1'' 1000 10 ex_graph"
  using hard_delete_complete [of ex_env "''s1''" 10 "ex_world ex_graph"] by auto

text \<open>A graph whose only node waits for the collector.\<close>

definition ex_expired :: node where
  "ex_expired = ex_node 1 [''Node'', ''Claim''] [''state'' \<mapsto> VStr ''TOMBSTONED'',
     ''cancel_window_expires'' \<mapsto> VTime 900]"

definition ex_gc_graph :: graph where
  "ex_gc_graph = \<lparr>nodes = [ex_expired], edges = [ex_edge 1 1 ''REFERENCES''], next_vid = 2\<rparr>"

lemma ex_gc_gone: "nodes (gr (snd (hard_delete ''s1'' 10 ex_env (ex_world ex_gc_graph)))) = []"
  by (simp add: hard_delete_def hard_delete_one_def attempt_def tx_prims GET_TOMBSTONED_FOR_GC_def
      ex_gc_graph_def ex_expired_def ex_node_def DELETE_EDGES_FOR_NODE_def HARD_DELETE_NODE_def
      hard_delete_target_def touches_def match_id_def is_node_def graph_simps ex_edge_def image_iff)

theorem hard_delete_only_expired_witness:
  "silo ex_expired = Some ''s1'' \<and> pstate ex_expired = Some ''TOMBSTONED'' \<and>
    (\<exists>t. time_of (props ex_expired ''cancel_window_expires'') = Some t \<and> t < clock ex_env 0)"
  using hard_delete_only_expired [of "''s1''" "ex_world ex_gc_graph" ex_expired 10 ex_env] ex_gc_gone
  by (simp add: ex_gc_graph_def silo_view_def)

end
