(* ===== verification/TxStoreCorrect.thy ===== *)
theory TxStoreCorrect
  imports TxStore Examples
begin

text \<open>
  What \<open>store_claim\<close> guarantees: evidence (INV2), no contradiction among the active claims of a
  silo (INV1), both directions of a structural conflict (INV8), and clean rejections.
\<close>

section \<open>Nodes and edges that stay\<close>

definition same_place :: "node \<Rightarrow> node \<Rightarrow> bool" where
  "same_place n m \<longleftrightarrow> vid m = vid n \<and> nid m = nid n \<and> silo m = silo n \<and> labels m = labels n"

definition grows :: "graph \<Rightarrow> graph \<Rightarrow> bool" where
  "grows g h \<longleftrightarrow> set (edges g) \<subseteq> set (edges h) \<and> (\<forall>n\<in>set (nodes g). \<exists>m\<in>set (nodes h). same_place n m)"

lemma same_place_refl [simp]: "same_place n n"
  by (simp add: same_place_def)

lemma same_place_trans: "same_place n m \<Longrightarrow> same_place m k \<Longrightarrow> same_place n k"
  by (simp add: same_place_def)

interpretation growing: graph_effect grows
proof
  show "grows g g" for g unfolding grows_def using same_place_refl by blast
  show "grows g h \<Longrightarrow> grows h k \<Longrightarrow> grows g k" for g h k
    unfolding grows_def by (meson same_place_trans subset_trans)
qed

lemma grows_update:
  assumes "\<And>n. same_place n (f n)"
  shows "grows g (update_where P f g)"
  unfolding grows_def
proof (intro conjI ballI)
  fix n assume "n \<in> set (nodes g)"
  then have "(if P n then f n else n) \<in> set (nodes (update_where P f g))" by (simp add: graph_simps)
  moreover have "same_place n (if P n then f n else n)" using assms by simp
  ultimately show "\<exists>m\<in>set (nodes (update_where P f g)). same_place n m" by blast
qed (simp add: graph_simps)

lemma merge_edge_mono: "set (edges g) \<subseteq> set (edges (merge_edge t kvs a b g))"
  by (auto simp: merge_edge_def)

lemma fold_merge_mono:
  "set (edges g) \<subseteq> set (edges (fold (\<lambda>(a, b). merge_edge t kvs (vid a) (vid b)) xs g))"
proof (induction xs arbitrary: g)
  case (Cons x xs)
  obtain a b where x: "x = (a, b)" by (cases x)
  from Cons [of "merge_edge t kvs (vid a) (vid b) g"] merge_edge_mono [of g t kvs "vid a" "vid b"]
  show ?case unfolding x by auto
qed simp

lemma merge_edges_grows: "grows g (merge_edges t kvs as bs g)"
  unfolding grows_def merge_edges_nodes
proof
  show "set (edges g) \<subseteq> set (edges (merge_edges t kvs as bs g))"
    unfolding merge_edges_def by (rule fold_merge_mono)
qed (blast intro: same_place_refl)

text \<open>After a \<open>MERGE\<close> every matched pair has an edge with the listed properties.\<close>

lemma merge_edge_present:
  "\<exists>e\<in>set (edges (merge_edge t kvs a b g)). etype e = t \<and> esrc e = a \<and> edst e = b"
proof (cases "list_ex (edge_matches t kvs a b) (edges g)")
  case True
  then show ?thesis by (auto simp: merge_edge_def list_ex_iff edge_matches_def)
qed (simp add: merge_edge_def)

lemma merge_edges_present:
  assumes "a \<in> set as" "b \<in> set bs"
  shows "\<exists>e\<in>set (edges (merge_edges t kvs as bs g)). etype e = t \<and> esrc e = vid a \<and> edst e = vid b"
proof -
  have "\<exists>e\<in>set (edges (fold (\<lambda>(a, b). merge_edge t kvs (vid a) (vid b)) xs g)).
      etype e = t \<and> esrc e = vid a \<and> edst e = vid b" if "(a, b) \<in> set xs" for xs
    using that
  proof (induction xs arbitrary: g)
    case (Cons x xs)
    show ?case
    proof (cases "x = (a, b)")
      case True
      then show ?thesis
        using merge_edge_present [of t kvs "vid a" "vid b" g]
          fold_merge_mono [of "merge_edge t kvs (vid a) (vid b) g" t kvs xs] by fastforce
    next
      case False
      then show ?thesis using Cons by (cases x) auto
    qed
  qed simp
  then show ?thesis using assms by (simp add: merge_edges_def)
qed

section \<open>INV2\<close>

lemma grows_sync: "geffect grows (sync_to_postgres i row)" "geffect grows (sync_postgres_state i s st)"
  using sync_graph growing.refl by (auto intro: geffect_weaken)

lemma grows_supersede_older: "geffect grows (supersede_older i old s)"
proof -
  have "grows g (fst (CREATE_SUPERSEDES a b s t r t' g))" for a b t r t' g
  proof -
    let ?h = "update_where (is_node b s) (\<lambda>n. set_field ''valid_to'' (Some (VTime t))
        (set_prop ''state'' (Some (VStr (state_value SUPERSEDED))) n)) g"
    have "grows g ?h" by (rule grows_update) (simp add: same_place_def)
    moreover have "grows ?h (add_edges ty ps as bs ?h)" for ty ps as bs
      by (auto simp: grows_def add_edges_def intro: bexI [of _ _ "set _"] same_place_refl)
    ultimately show ?thesis
      by (auto simp: CREATE_SUPERSEDES_def Let_def growing.refl intro: growing.trans)
  qed
  then show ?thesis
    by (auto simp: supersede_older_def create_supersedes_edge_def
        intro!: effect_intros growing.eff_write grows_sync)
qed

lemma grows_detect: "geffect grows (detect_spo_conflict i x y z s)"
proof -
  have "grows g (fst (MERGE_CONTRADICTS a b s t g))" for a b t g
    unfolding MERGE_CONTRADICTS_def Let_def fst_conv
    by (rule growing.trans) (rule merge_edges_grows)+
  moreover have "grows g (fst (SET_CONFLICT_STATUS is s st g))" for "is" st g
    unfolding SET_CONFLICT_STATUS_def fst_conv by (rule grows_update) (simp add: same_place_def)
  ultimately show ?thesis
    by (auto simp: detect_spo_conflict_def create_bidirectional_contradicts_def set_conflict_status_def
        intro!: effect_intros growing.eff_write)
qed

lemma grows_corroboration: "geffect grows (check_corroboration_of i s b)"
  using corroboration_graph(4) growing.refl by (rule geffect_weaken)

text \<open>What the checks before the write establish.\<close>

definition evidence_ok :: "string list \<Rightarrow> string \<Rightarrow> graph \<Rightarrow> bool" where
  "evidence_ok refs s g \<longleftrightarrow> refs \<noteq> [] \<and>
     (\<forall>i\<in>set (evidence_nodes refs). match_id g i s \<noteq> [] \<and>
        (\<forall>n\<in>set (match_id g i s). pstate n \<noteq> Some ''TOMBSTONED'')) \<and>
     (evidence_nodes refs \<noteq> [] \<longrightarrow>
        (\<exists>i\<in>set (evidence_nodes refs). \<exists>n\<in>set (match_id g i s). player n = Some ''memory''))"

lemma validate_evidence_returns:
  assumes "\<And>r v. gr v = gr w \<Longrightarrow> (\<forall>b. r = Inr b \<longrightarrow>
      (\<forall>i\<in>set ids. match_id (gr w) i s \<noteq> [] \<and> (\<forall>n\<in>set (match_id (gr w) i s). pstate n \<noteq> Some ''TOMBSTONED'')) \<and>
      (b \<longrightarrow> (\<exists>i\<in>set ids. \<exists>n\<in>set (match_id (gr w) i s). player n = Some ''memory''))) \<Longrightarrow> Q r v"
  shows "returns e (validate_evidence_nodes ids s) Q w"
proof -
  let ?rows = "VALIDATE_EVIDENCE ids s (gr w)"
  have found: "match_id (gr w) i s \<noteq> []" if "i \<in> set (map ev_id ?rows)" for i
  proof -
    from that obtain j n where "n \<in> set (match_id (gr w) j s)" "nid n = i"
      by (auto simp: VALIDATE_EVIDENCE_def)
    then have "n \<in> set (match_id (gr w) i s)" by (simp add: match_id_iff)
    then show ?thesis by auto
  qed
  have state: "pstate n \<noteq> Some ''TOMBSTONED''"
    if "filter (\<lambda>r. ev_state r = Some ''TOMBSTONED'') ?rows = []" "i \<in> set ids" "n \<in> set (match_id (gr w) i s)" for i n
    using that by (auto simp: VALIDATE_EVIDENCE_def filter_empty_conv)
  have layer: "\<exists>i\<in>set ids. \<exists>n\<in>set (match_id (gr w) i s). player n = Some ''memory''"
    if "list_ex (\<lambda>r. ev_layer r = Some ''memory'') ?rows"
    using that by (auto simp: VALIDATE_EVIDENCE_def list_ex_iff)
  show ?thesis
  proof (cases "ids = []")
    case True
    then show ?thesis using assms by (simp add: validate_evidence_nodes_def wp_simps)
  next
    case False
    show ?thesis unfolding validate_evidence_nodes_def if_not_P [OF False] Let_def
      by (intro returns_intros assms)
        (use found state layer in \<open>auto simp: filter_empty_conv\<close>)
  qed
qed

lemma store_claim_checks_returns:
  assumes "\<And>v. gr v = gr w \<Longrightarrow> evidence_ok refs s (gr w) \<Longrightarrow>
      (contradiction_enforcement_enabled e \<longrightarrow> (\<forall>x y z. spo_triple (ca_subject args) (ca_predicate args) (ca_object args)
         = Some (x, y, z) \<longrightarrow> FIND_SPO_CONFLICTS s x y z (gr w) = [])) \<Longrightarrow> Q () v"
  shows "returns e (store_claim_checks refs s args) Q w"
proof (cases "refs = []")
  case False
  let ?triple = "spo_triple (ca_subject args) (ca_predicate args) (ca_object args)"
  let ?contra = "tbind (asks contradiction_enforcement_enabled) (\<lambda>enforce. if enforce then
      tbind (check_contradiction_before_write (ca_subject args) (ca_predicate args) (ca_object args) s)
        (\<lambda>ids. if ids = [] then ret () else raise (ContradictionRejected ids)) else ret ())"
  have contra: "returns e ?contra Q v" if "gr v = gr w" "evidence_ok refs s (gr w)" for v
  proof (cases ?triple)
    case None
    then show ?thesis using assms that
      by (simp add: check_contradiction_before_write_def wp_simps)
  next
    case (Some t)
    obtain x y z where t: "t = (x, y, z)" by (cases t)
    show ?thesis using assms that Some t
      by (simp add: check_contradiction_before_write_def wp_simps)
  qed
  show ?thesis
  proof (cases "evidence_nodes refs = []")
    case True
    then have "evidence_ok refs s (gr w)" using False by (simp add: evidence_ok_def)
    then show ?thesis using True False contra [of w]
      unfolding store_claim_checks_def by (simp add: wp_bind wp_ret)
  next
    case ne: False
    have "returns e (validate_evidence_nodes (evidence_nodes refs) s) (\<lambda>v. returns e (case v of
        Inl code \<Rightarrow> raise (InvariantViolation code)
      | Inr m \<Rightarrow> if m then ret () else raise (InvariantViolation ''NO_MEMORY_EVIDENCE'')) (\<lambda>_. returns e ?contra Q)) w"
    proof (rule validate_evidence_returns)
      fix r :: "string + bool" and v :: world assume g: "gr v = gr w" and ok: "\<forall>b. r = Inr b \<longrightarrow>
        (\<forall>i\<in>set (evidence_nodes refs). match_id (gr w) i s \<noteq> [] \<and>
          (\<forall>n\<in>set (match_id (gr w) i s). pstate n \<noteq> Some ''TOMBSTONED'')) \<and>
        (b \<longrightarrow> (\<exists>i\<in>set (evidence_nodes refs). \<exists>n\<in>set (match_id (gr w) i s). player n = Some ''memory''))"
      show "returns e (case r of Inl code \<Rightarrow> raise (InvariantViolation code)
          | Inr m \<Rightarrow> if m then ret () else raise (InvariantViolation ''NO_MEMORY_EVIDENCE''))
          (\<lambda>_. returns e ?contra Q) v"
      proof (cases "r = Inr True")
        case True
        then have "evidence_ok refs s (gr w)" using spec [OF ok, of True] False by (simp add: evidence_ok_def)
        then show ?thesis using True contra [OF g] by (simp only: sum.case if_True wp_ret)
      qed (auto simp: wp_simps split: sum.splits)
    qed
    then show ?thesis unfolding store_claim_checks_def using False ne by (simp only: wp_bind if_False)
  qed
qed (simp add: store_claim_checks_def wp_simps)

text \<open>The claim node with its evidence edges, in a graph that has grown since they were made.\<close>

definition claim_in :: "string \<Rightarrow> string list \<Rightarrow> string \<Rightarrow> graph \<Rightarrow> bool" where
  "claim_in i refs s h \<longleftrightarrow> (\<exists>c\<in>set (nodes h). nid c = i \<and> silo c = Some s \<and> has_label ''Claim'' c \<and>
     (\<forall>j\<in>set (evidence_nodes refs). \<exists>n\<in>set (nodes h). nid n = j \<and> silo n = Some s \<and>
        (\<exists>d\<in>set (edges h). etype d = ''DERIVED_FROM'' \<and> esrc d = vid c \<and> edst d = vid n)))"

definition with_evidence :: "string \<Rightarrow> string list \<Rightarrow> string \<Rightarrow> graph \<Rightarrow> graph" where
  "with_evidence i refs s g = (if evidence_nodes refs = [] then g
     else fst (CREATE_DERIVED_FROM i (evidence_nodes refs) s g))"

lemma claim_in_grows: "grows g h \<Longrightarrow> claim_in i refs s g \<Longrightarrow> claim_in i refs s h"
proof -
  assume gr: "grows g h" and cl: "claim_in i refs s g"
  have e: "d \<in> set (edges h)" if "d \<in> set (edges g)" for d
    using gr that by (auto simp: grows_def)
  have pl: "\<exists>m\<in>set (nodes h). same_place n m" if "n \<in> set (nodes g)" for n
    using gr that by (simp add: grows_def)
  from cl obtain c where c: "c \<in> set (nodes g)" "nid c = i" "silo c = Some s" "has_label ''Claim'' c" and
    ev: "\<And>j. j \<in> set (evidence_nodes refs) \<Longrightarrow> \<exists>n\<in>set (nodes g). nid n = j \<and> silo n = Some s \<and>
        (\<exists>d\<in>set (edges g). etype d = ''DERIVED_FROM'' \<and> esrc d = vid c \<and> edst d = vid n)"
    by (auto simp: claim_in_def)
  from pl [OF c(1)] obtain c' where c': "c' \<in> set (nodes h)" "same_place c c'" by blast
  have "\<exists>n\<in>set (nodes h). nid n = j \<and> silo n = Some s \<and>
      (\<exists>d\<in>set (edges h). etype d = ''DERIVED_FROM'' \<and> esrc d = vid c' \<and> edst d = vid n)"
    if j: "j \<in> set (evidence_nodes refs)" for j
  proof -
    from ev [OF j] obtain n d where n: "n \<in> set (nodes g)" "nid n = j" "silo n = Some s" and
      d: "d \<in> set (edges g)" "etype d = ''DERIVED_FROM''" "esrc d = vid c" "edst d = vid n" by blast
    from pl [OF n(1)] obtain m where m: "m \<in> set (nodes h)" "same_place n m" by blast
    then show ?thesis using n d e [OF d(1)] c' by (intro bexI [of _ m] conjI bexI [of _ d]) (simp_all add: same_place_def)
  qed
  then show ?thesis unfolding claim_in_def using c c'
    by (intro bexI [of _ c']) (simp_all add: same_place_def has_label_def)
qed

lemma claim_in_created:
  assumes "evidence_ok refs s g"
  shows "claim_in i refs s (with_evidence i refs s (fst (CREATE_LABELLED ''Claim'' i s ct t ps g)))"
proof -
  let ?g = "fst (CREATE_LABELLED ''Claim'' i s ct t ps g)"
  let ?h = "with_evidence i refs s ?g"
  define c where "c = \<lparr>vid = next_vid g, labels = [''Node'', ''Claim''], nid = i, silo = Some s,
      attrs = node_fields ''Claim'' ct t, props = ps\<rparr>"
  have nodes: "nodes ?h = nodes g @ [c]"
    by (simp add: with_evidence_def CREATE_DERIVED_FROM_def graph_simps CREATE_LABELLED_def add_node_def c_def)
  have c: "c \<in> set (match_id ?g i s)"
    by (simp add: match_id_iff CREATE_LABELLED_def add_node_def c_def)
  have "\<exists>n\<in>set (nodes ?h). nid n = j \<and> silo n = Some s \<and>
        (\<exists>d\<in>set (edges ?h). etype d = ''DERIVED_FROM'' \<and> esrc d = vid c \<and> edst d = vid n)"
    if j: "j \<in> set (evidence_nodes refs)" for j
  proof -
    obtain n where "n \<in> set (match_id g j s)"
      using assms j unfolding evidence_ok_def by (meson last_in_set)
    then have n: "n \<in> set (match_id ?g j s)" "n \<in> set (nodes g)" "nid n = j" "silo n = Some s"
      by (simp_all add: match_id_iff CREATE_LABELLED_def add_node_def)
    have "\<exists>d\<in>set (edges ?h). etype d = ''DERIVED_FROM'' \<and> esrc d = vid c \<and> edst d = vid n"
      unfolding with_evidence_def CREATE_DERIVED_FROM_def fst_conv using j n(1) c
      by (auto intro!: merge_edges_present)
    then show ?thesis using n nodes by auto
  qed
  then show ?thesis unfolding claim_in_def using nodes
    by (intro bexI [of _ c]) (auto simp: c_def has_label_def)
qed

lemma store_claim_returns:
  "returns e (store_claim ct refs s a args opts)
     (\<lambda>(res, evs) v. evidence_ok refs s (gr w) \<and> claim_in (sc_node_id res) refs s (gr v)) w"
proof -
  have derived: "returns e (twhen (evidence_nodes refs \<noteq> []) (create_derived_from_edges i (evidence_nodes refs) s)) Q v"
    if "\<And>u. gr u = with_evidence i refs s (gr v) \<Longrightarrow> Q () u" for i Q v
    using that by (auto simp: wp_simps create_derived_from_edges_def with_evidence_def)
  show ?thesis
    unfolding store_claim_def Let_def
    by (intro returns_intros(1) store_claim_checks_returns returns_intros(6) returns_intros(7) returns_intros(9) derived
        returns_geffect [OF grows_supersede_older] returns_geffect [OF grows_detect]
        returns_geffect [OF grows_sync(1)] returns_emit_all
        returns_geffect [OF geffect_if [OF growing.eff_ret growing.eff_bind [OF grows_corroboration]]]
        effect_intros)
      (auto intro!: returns_intros, (meson claim_in_created claim_in_grows)+)
qed

text \<open>
  (INV2) when \<open>store_claim\<close> returns, the evidence was non-empty; every evidence node existed in
  the silo and was not tombstoned, and one of them was of the memory layer if nodes were given
  at all; and the new claim is in the graph with a DERIVED_FROM edge to each evidence node.
\<close>

theorem store_claim_evidence:
  assumes "store_claim ct refs s a args opts e w = (Inr (res, evs), w')"
  shows "evidence_ok refs s (gr w) \<and> claim_in (sc_node_id res) refs s (gr w')"
  using returnsD [OF store_claim_returns assms] by simp

text \<open>A graph with one memory, and a claim about it.\<close>

definition ex_memory :: node where
  "ex_memory = ex_node 1 [''Node'', ''Memory''] (ex_active(''layer'' \<mapsto> VStr ''memory''))"

definition ex_memory_graph :: graph where
  "ex_memory_graph = \<lparr>nodes = [ex_memory], edges = [], next_vid = 2\<rparr>"

definition ex_opts :: store_opts where
  "ex_opts = \<lparr>so_tags = [], so_metadata = [], so_emit = True, so_session_id = None, so_owner_id = None,
     so_model_id = None, so_embedding = None, so_document_id = None\<rparr>"

definition ex_args :: claim_args where
  "ex_args = \<lparr>ca_subject = Some ''sky'', ca_predicate = Some ''is'', ca_object = Some ''blue'',
     ca_source_tier = None, ca_confidence = 8 / 10, ca_supersedes = None, ca_embedding_service = False,
     ca_skip_sage_triggers = False\<rparr>"

definition ex_refs :: "string list" where
  "ex_refs = [node_prefix @ ex_uuid 1]"

lemma ex_evidence_nodes: "evidence_nodes ex_refs = [ex_uuid 1]"
  by (simp add: ex_refs_def evidence_nodes_def node_prefix_def numeral_eq_Suc)

lemma ex_memory_match: "match_id ex_memory_graph (ex_uuid 1) ''s1'' = [ex_memory]"
  by (simp add: match_id_def ex_memory_graph_def ex_memory_def ex_node_def is_node_def)

lemma ex_memory_props:
  "nid ex_memory = ex_uuid 1" "silo ex_memory = Some ''s1''" "pstate ex_memory = Some ''ACTIVE''"
  "player ex_memory = Some ''memory''" "vid ex_memory = 1" "\<not> has_label ''Claim'' ex_memory"
  by (simp_all add: ex_memory_def ex_node_def ex_active_def has_label_def)

section \<open>The checks are complete\<close>

text \<open>Without faults, the steps after the checks cannot raise.\<close>

abbreviation no_raise :: "env \<Rightarrow> 'a tx \<Rightarrow> bool" where
  "no_raise e m \<equiv> \<forall>w. wp e m (\<lambda>_ _. False) (\<lambda>_ _. True) w"

lemma no_raise_bind: "no_raise e m \<Longrightarrow> (\<And>a. no_raise e (f a)) \<Longrightarrow> no_raise e (tbind m f)"
  unfolding wp_bind by (blast intro: wp_mono)

lemma no_raise_sync: "no_raise e (sync_to_postgres i row)" "no_raise e (sync_postgres_state i s st)"
  by (auto simp: wp_def sync_to_postgres_def sync_postgres_state_def split: option.split)

lemma no_raise_detect:
  assumes "\<And>k. \<not> fault e k"
  shows "no_raise e (detect_spo_conflict i x y z s)"
proof -
  have "no_raise e (tfor xs (\<lambda>j. tbind (create_bidirectional_contradicts i j s t) (\<lambda>_.
      tbind (set_conflict_status i j s UNRESOLVED) (\<lambda>_. ret (conflict_event i j s t)))))" for xs t
    using assms by (intro allI wp_for_inv)
      (simp_all add: wp_simps create_bidirectional_contradicts_def set_conflict_status_def)
  then show ?thesis using assms
    by (auto simp: detect_spo_conflict_def wp_simps split: option.split)
qed

lemma validate_evidence_succeeds:
  assumes "\<And>k. \<not> fault e k" "evidence_ok refs s (gr w)" "evidence_nodes refs \<noteq> []"
  shows "wp e (validate_evidence_nodes (evidence_nodes refs) s) (\<lambda>_ _. False) (\<lambda>r v. r = Inr True \<and> gr v = gr w) w"
proof -
  let ?ids = "evidence_nodes refs" and ?rows = "VALIDATE_EVIDENCE (evidence_nodes refs) s (gr w)"
  have "j \<in> ev_id ` set ?rows" if j: "j \<in> set ?ids" for j
  proof -
    obtain n where n: "n \<in> set (match_id (gr w) j s)"
      using assms(2) j unfolding evidence_ok_def by (meson last_in_set)
    then have "nid n = j" by (simp add: match_id_iff)
    then show ?thesis using n j by (force simp: VALIDATE_EVIDENCE_def)
  qed
  moreover have "ev_silo_id r = Some s" if "r \<in> set ?rows" for r
    using that by (auto simp: VALIDATE_EVIDENCE_def match_id_iff)
  moreover have "ev_state r \<noteq> Some ''TOMBSTONED''" if "r \<in> set ?rows" for r
    using that assms(2) by (auto simp: VALIDATE_EVIDENCE_def evidence_ok_def)
  moreover have "list_ex (\<lambda>r. ev_layer r = Some ''memory'') ?rows"
    using assms(2,3) by (fastforce simp: VALIDATE_EVIDENCE_def evidence_ok_def list_ex_iff)
  ultimately show ?thesis using assms(1,3)
    by (auto simp: validate_evidence_nodes_def wp_simps Let_def filter_empty_conv)
qed

lemma checks_succeed:
  assumes "\<And>k. \<not> fault e k" "evidence_ok refs s (gr w)"
    and "\<And>x y z. spo_triple (ca_subject args) (ca_predicate args) (ca_object args) = Some (x, y, z) \<Longrightarrow>
      FIND_SPO_CONFLICTS s x y z (gr w) = []"
  shows "wp e (store_claim_checks refs s args) (\<lambda>_ _. False) (\<lambda>_ _. True) w"
proof -
  let ?contra = "tbind (asks contradiction_enforcement_enabled) (\<lambda>enforce. if enforce then
      tbind (check_contradiction_before_write (ca_subject args) (ca_predicate args) (ca_object args) s)
        (\<lambda>ids. if ids = [] then ret () else raise (ContradictionRejected ids)) else ret ())"
  have contra: "wp e ?contra (\<lambda>_ _. False) (\<lambda>_ _. True) v" if "gr v = gr w" for v
    using assms(1,3) that
    by (auto simp: check_contradiction_before_write_def wp_simps split: option.split)
  have ne: "refs \<noteq> []" using assms(2) by (simp add: evidence_ok_def)
  show ?thesis
  proof (cases "evidence_nodes refs = []")
    case True
    then show ?thesis using ne contra [of w]
      unfolding store_claim_checks_def by (simp add: wp_bind wp_ret)
  next
    case False
    have "wp e (validate_evidence_nodes (evidence_nodes refs) s) (\<lambda>_ _. False) (\<lambda>v. wp e (case v of
        Inl code \<Rightarrow> raise (InvariantViolation code)
      | Inr m \<Rightarrow> if m then ret () else raise (InvariantViolation ''NO_MEMORY_EVIDENCE''))
        (\<lambda>_ _. False) (\<lambda>_. wp e ?contra (\<lambda>_ _. False) (\<lambda>_ _. True))) w"
      by (rule wp_mono [OF validate_evidence_succeeds [OF assms(1,2) False]])
        (auto simp: wp_ret intro: contra)
    then show ?thesis unfolding store_claim_checks_def using ne False by (simp only: wp_bind if_False)
  qed
qed

lemma store_claim_total:
  assumes "\<And>k. \<not> fault e k" "evidence_ok refs s (gr w)"
    and "\<And>x y z. spo_triple (ca_subject args) (ca_predicate args) (ca_object args) = Some (x, y, z) \<Longrightarrow>
      FIND_SPO_CONFLICTS s x y z (gr w) = []"
    and "truthy (ca_supersedes args) \<Longrightarrow> uuid_ok (the (ca_supersedes args))" "\<not> ca_embedding_service args"
  shows "\<exists>res evs w'. store_claim ct refs s a args opts e w = (Inr (res, evs), w')"
proof -
  have older: "no_raise e (supersede_older i (ca_supersedes args) s)" for i
    using assms(1,4) no_raise_sync(2) by (auto simp: supersede_older_def create_supersedes_edge_def wp_simps
        intro!: wp_mono [OF no_raise_sync(2) [rule_format]])
  have corr: "no_raise e (check_corroboration_of i s (ca_embedding_service args))" for i
    using assms(1,5) by (auto simp: check_corroboration_of_def check_corroboration_def wp_simps split: list.split)
  have emit: "no_raise e (emit_all b evs)" for b evs by (simp add: wp_simps)
  have "wp e (store_claim ct refs s a args opts) (\<lambda>_ _. False) (\<lambda>_ _. True) w"
    unfolding store_claim_def Let_def wp_bind
  proof (rule wp_mono [OF checks_succeed [OF assms(1-3)]], assumption, unfold wp_bind [symmetric])
    fix u :: unit and v :: world
    let ?rest = "tbind new_uuid (\<lambda>i. tbind datetime_now (\<lambda>t.
      tbind (execute_write (CREATE_LABELLED ''Claim'' i s ct t (claim_props refs a args opts))) (\<lambda>_.
      tbind (twhen (evidence_nodes refs \<noteq> []) (create_derived_from_edges i (evidence_nodes refs) s)) (\<lambda>_.
      tbind (supersede_older i (ca_supersedes args) s) (\<lambda>sid.
      tbind (if ca_skip_sage_triggers args then ret 0
             else tbind (check_corroboration_of i s (ca_embedding_service args)) (\<lambda>(n, _). ret n)) (\<lambda>n.
      tbind (detect_spo_conflict i (ca_subject args) (ca_predicate args) (ca_object args) s) (\<lambda>cevs.
      tbind (sync_to_postgres i (shadow_of s ''knowledge'' ct a opts)) (\<lambda>_.
      tbind (emit_all (so_emit opts) (claim_events i s (ca_supersedes args) opts cevs)) (\<lambda>_.
      ret (\<lparr>sc_node_id = i, sc_created_at = t, sc_superseded_id = sid, sc_corroboration_count = n\<rparr>,
           claim_events i s (ca_supersedes args) opts cevs))))))))))"
    have "no_raise e ?rest"
      using assms(1) by (intro no_raise_bind older no_raise_detect no_raise_sync emit)
        (auto simp: wp_simps create_derived_from_edges_def case_prod_unfold intro: corr [rule_format])
    then show "wp e ?rest (\<lambda>_ _. False) (\<lambda>_ _. True) v" ..
  qed
  then show ?thesis by (auto simp: wp_def split: prod.splits sum.splits)
qed

text \<open>
  the guards of \<open>store_claim\<close> are complete: without store faults, a claim whose evidence passes
  INV2 and whose triple contradicts no active claim is always stored (the superseded id, if any,
  being a UUID), whatever the metadata, tags and embedding.
\<close>

theorem store_claim_succeeds:
  assumes "\<And>k. \<not> fault e k" "evidence_ok refs s (gr w)"
    and "\<And>x y z. spo_triple (ca_subject args) (ca_predicate args) (ca_object args) = Some (x, y, z) \<Longrightarrow>
      FIND_SPO_CONFLICTS s x y z (gr w) = []"
    and "truthy (ca_supersedes args) \<Longrightarrow> uuid_ok (the (ca_supersedes args))" "\<not> ca_embedding_service args"
  shows "\<exists>res evs w'. store_claim ct refs s a args opts e w = (Inr (res, evs), w')"
  by (rule store_claim_total) (use assms in auto)

lemma ex_evidence_ok: "evidence_ok ex_refs ''s1'' (gr (ex_world ex_memory_graph))"
  unfolding evidence_ok_def ex_evidence_nodes
  by (simp add: ex_memory_match ex_memory_props ex_refs_def del: One_nat_def)

lemma ex_no_conflict:
  "FIND_SPO_CONFLICTS ''s1'' x y z ex_memory_graph = []"
  by (simp add: FIND_SPO_CONFLICTS_def match_label_def ex_memory_graph_def ex_memory_props)

lemma ex_store_claim:
  "\<exists>res evs w'. store_claim ''c'' ex_refs ''s1'' ''agent'' ex_args ex_opts ex_env (ex_world ex_memory_graph)
     = (Inr (res, evs), w')"
  by (rule store_claim_total [OF _ ex_evidence_ok]) (simp_all add: ex_no_conflict ex_args_def)

theorem store_claim_succeeds_witness:
  "\<exists>res evs w'. store_claim ''c'' ex_refs ''s1'' ''agent'' ex_args ex_opts ex_env (ex_world ex_memory_graph)
     = (Inr (res, evs), w')"
  by (rule store_claim_succeeds [OF _ ex_evidence_ok])
    (simp_all add: ex_no_conflict ex_args_def)

theorem store_claim_evidence_witness:
  "\<exists>res evs w'. store_claim ''c'' ex_refs ''s1'' ''agent'' ex_args ex_opts ex_env (ex_world ex_memory_graph)
     = (Inr (res, evs), w') \<and> claim_in (sc_node_id res) ex_refs ''s1'' (gr w')"
  using ex_store_claim store_claim_evidence by blast

section \<open>INV1\<close>

text \<open>No two active claims of the silo give one subject and predicate two objects.\<close>

definition same_triple_key :: "node \<Rightarrow> node \<Rightarrow> bool" where
  "same_triple_key c d \<longleftrightarrow> (\<exists>x y. props c ''subject'' = Some (VStr x) \<and> props d ''subject'' = Some (VStr x) \<and>
     props c ''predicate'' = Some (VStr y) \<and> props d ''predicate'' = Some (VStr y))"

definition inv1 :: "string \<Rightarrow> graph \<Rightarrow> bool" where
  "inv1 s g \<longleftrightarrow> (\<forall>c\<in>set (match_label g ''Claim'' s). \<forall>d\<in>set (match_label g ''Claim'' s).
     pstate c = Some ''ACTIVE'' \<longrightarrow> pstate d = Some ''ACTIVE'' \<longrightarrow> same_triple_key c d \<longrightarrow>
     (\<forall>p q. props c ''object'' = Some (VStr p) \<longrightarrow> props d ''object'' = Some (VStr q) \<longrightarrow> p = q))"

text \<open>Nodes keep their triple and are never reactivated.\<close>

definition fades_node :: "node \<Rightarrow> node \<Rightarrow> bool" where
  "fades_node n m \<longleftrightarrow> (labels m, silo m) = (labels n, silo n) \<and>
     (props m ''subject'', props m ''predicate'', props m ''object'') =
       (props n ''subject'', props n ''predicate'', props n ''object'') \<and>
     (pstate m = Some ''ACTIVE'' \<longrightarrow> pstate n = Some ''ACTIVE'')"

definition fades :: "graph \<Rightarrow> graph \<Rightarrow> bool" where
  "fades g h \<longleftrightarrow> list_all2 fades_node (nodes g) (nodes h)"

lemma fades_node_refl: "fades_node n n" by (simp add: fades_node_def)

lemma fades_node_trans: "fades_node n m \<Longrightarrow> fades_node m k \<Longrightarrow> fades_node n k"
  by (simp add: fades_node_def)

interpretation fading: graph_effect fades
  by unfold_locales
    (auto simp: fades_def list.rel_refl fades_node_refl elim: list_all2_trans [rotated] intro: fades_node_trans)

lemma fades_update: "(\<And>n. fades_node n (f n)) \<Longrightarrow> fades g (update_where P f g)"
  by (simp add: fades_def graph_simps list_all2_conv_all_nth fades_node_refl)

lemma fades_nodes: "nodes h = nodes g \<Longrightarrow> fades g h"
  by (simp add: fades_def list.rel_refl fades_node_refl)

lemma fades_sync: "geffect fades (sync_to_postgres i row)" "geffect fades (sync_postgres_state i s st)"
  using sync_graph fading.refl by (auto intro: geffect_weaken)

lemma fades_supersede_older: "geffect fades (supersede_older i old s)"
proof -
  have "fades g (fst (CREATE_SUPERSEDES a b s t r t' g))" for a b t r t' g
  proof -
    let ?h = "update_where (is_node b s) (\<lambda>n. set_field ''valid_to'' (Some (VTime t))
        (set_prop ''state'' (Some (VStr (state_value SUPERSEDED))) n)) g"
    have "fades g ?h" by (rule fades_update) (simp add: fades_node_def)
    moreover have "fades ?h (add_edges ty ps as bs ?h)" for ty ps as bs
      by (rule fades_nodes) (simp add: graph_simps)
    ultimately show ?thesis
      by (auto simp: CREATE_SUPERSEDES_def Let_def fading.refl intro: fading.trans)
  qed
  then show ?thesis
    by (auto simp: supersede_older_def create_supersedes_edge_def
        intro!: effect_intros fading.eff_write fades_sync)
qed

lemma fades_detect: "geffect fades (detect_spo_conflict i x y z s)"
proof -
  have "fades g (fst (MERGE_CONTRADICTS a b s t g))" for a b t g
    by (rule fades_nodes) (simp add: MERGE_CONTRADICTS_def Let_def graph_simps)
  moreover have "fades g (fst (SET_CONFLICT_STATUS is s st g))" for "is" st g
    unfolding SET_CONFLICT_STATUS_def fst_conv by (rule fades_update) (simp add: fades_node_def)
  ultimately show ?thesis
    by (auto simp: detect_spo_conflict_def create_bidirectional_contradicts_def set_conflict_status_def
        intro!: effect_intros fading.eff_write)
qed

lemma fades_derived: "geffect fades (create_derived_from_edges i is s)"
  unfolding create_derived_from_edges_def
  by (rule fading.eff_write, rule fades_nodes) (simp add: CREATE_DERIVED_FROM_def graph_simps)

lemma fades_corroboration: "geffect fades (check_corroboration_of i s b)"
  using corroboration_graph(4) fading.refl by (rule geffect_weaken)

lemma fades_partner:
  assumes "fades g h" "m \<in> set (match_label h l s)"
  obtains n where "n \<in> set (match_label g l s)" "fades_node n m"
proof -
  from assms obtain n where n: "n \<in> set (nodes g)" "fades_node n m"
    unfolding fades_def match_label_def by (metis filter_is_subset in_set_conv_nth list_all2_conv_all_nth subsetD)
  moreover have "n \<in> set (match_label g l s)"
    using n assms(2) by (simp add: match_label_def fades_node_def has_label_def)
  ultimately show ?thesis using that by blast
qed

lemma inv1_fades: "fades g h \<Longrightarrow> inv1 s g \<Longrightarrow> inv1 s h"
  unfolding inv1_def [of s h]
proof (intro ballI impI allI)
  fix c d p q assume f: "fades g h" and i: "inv1 s g"
    and c: "c \<in> set (match_label h ''Claim'' s)" and d: "d \<in> set (match_label h ''Claim'' s)"
    and a: "pstate c = Some ''ACTIVE''" "pstate d = Some ''ACTIVE''" "same_triple_key c d"
    and o': "props c ''object'' = Some (VStr p)" "props d ''object'' = Some (VStr q)"
  obtain c' where c': "c' \<in> set (match_label g ''Claim'' s)" "fades_node c' c" using fades_partner [OF f c] .
  obtain d' where d': "d' \<in> set (match_label g ''Claim'' s)" "fades_node d' d" using fades_partner [OF f d] .
  have "same_triple_key c' d'" using a(3) c'(2) d'(2) by (simp add: same_triple_key_def fades_node_def)
  moreover have "pstate c' = Some ''ACTIVE''" "pstate d' = Some ''ACTIVE''"
    "props c' ''object'' = Some (VStr p)" "props d' ''object'' = Some (VStr q)"
    using a o' c'(2) d'(2) by (simp_all add: fades_node_def)
  ultimately show "p = q" using i c'(1) d'(1) unfolding inv1_def by blast
qed

lemma claim_props_triple:
  assumes "\<And>k. k \<in> {''subject'', ''predicate'', ''object''} \<Longrightarrow> map_of (so_metadata opts) k = None"
  shows "(claim_props refs a args opts ''subject'', claim_props refs a args opts ''predicate'',
      claim_props refs a args opts ''object'') =
    (case spo_triple (ca_subject args) (ca_predicate args) (ca_object args) of
       None \<Rightarrow> (None, None, None)
     | Some (x, y, z) \<Rightarrow> (Some (VStr x), Some (VStr y), Some (VStr z)))"
  using assms
  by (auto simp: claim_props_def Let_def set_if_def set_embedding_def map_add_def split: option.split)

lemma inv1_create:
  assumes i: "inv1 s g" and meta: "\<And>k. k \<in> {''subject'', ''predicate'', ''object''} \<Longrightarrow> map_of (so_metadata opts) k = None"
    and none: "\<And>x y z. spo_triple (ca_subject args) (ca_predicate args) (ca_object args) = Some (x, y, z) \<Longrightarrow>
      FIND_SPO_CONFLICTS s x y z g = []"
  shows "inv1 s (fst (CREATE_LABELLED ''Claim'' i s ct t (claim_props refs a args opts) g))"
proof -
  define ps where "ps = claim_props refs a args opts"
  define c where "c = \<lparr>vid = next_vid g, labels = [''Node'', ''Claim''], nid = i, silo = Some s,
      attrs = node_fields ''Claim'' ct t, props = ps\<rparr>"
  have claims: "match_label (fst (CREATE_LABELLED ''Claim'' i s ct t ps g)) ''Claim'' s = match_label g ''Claim'' s @ [c]"
    by (simp add: match_label_def CREATE_LABELLED_def add_node_def c_def has_label_def)
  have new: "p = q" if d: "d \<in> set (match_label g ''Claim'' s)" "pstate d = Some ''ACTIVE''" "same_triple_key c d"
      "props c ''object'' = Some (VStr p)" "props d ''object'' = Some (VStr q)" for d p q
  proof (cases "spo_triple (ca_subject args) (ca_predicate args) (ca_object args)")
    case None
    then have "props c ''subject'' = None"
      using claim_props_triple [OF meta, of refs a args] by (simp add: c_def ps_def)
    then show ?thesis using d(3) by (simp add: same_triple_key_def)
  next
    case (Some tr)
    obtain x y z where t: "tr = (x, y, z)" by (cases tr)
    have p: "props c ''subject'' = Some (VStr x)" "props c ''predicate'' = Some (VStr y)" "props c ''object'' = Some (VStr z)"
      using claim_props_triple [OF meta, of refs a args] Some t by (simp_all add: c_def ps_def)
    have "\<not> spo_conflict x y z d"
      using none [of x y z] Some t d(1) by (simp add: FIND_SPO_CONFLICTS_def filter_empty_conv)
    then have "\<not> prop_differs ''object'' z d"
      using d(2,3) p by (auto simp: spo_conflict_def same_triple_key_def)
    then show ?thesis using d(4,5) p by (simp add: prop_differs_def)
  qed
  show ?thesis unfolding inv1_def ps_def [symmetric] claims
  proof (intro ballI impI allI)
    fix b d p q
    assume b: "b \<in> set (match_label g ''Claim'' s @ [c])" and d: "d \<in> set (match_label g ''Claim'' s @ [c])"
      and ac: "pstate b = Some ''ACTIVE''" "pstate d = Some ''ACTIVE''" and k: "same_triple_key b d"
      and ob: "props b ''object'' = Some (VStr p)" "props d ''object'' = Some (VStr q)"
    consider "b = c" "d = c" | "b = c" "d \<in> set (match_label g ''Claim'' s)"
      | "d = c" "b \<in> set (match_label g ''Claim'' s)"
      | "b \<in> set (match_label g ''Claim'' s)" "d \<in> set (match_label g ''Claim'' s)"
      using b d by auto
    then show "p = q"
    proof cases
      case 1 then show ?thesis using ob by simp
    next
      case 2 then show ?thesis using new [of d p q] ac k ob by simp
    next
      case 3
      then have "same_triple_key c b" using k by (auto simp: same_triple_key_def)
      then show ?thesis using new [of b q p] 3 ac ob by simp
    next
      case 4 then show ?thesis using i ac k ob unfolding inv1_def by blast
    qed
  qed
qed

text \<open>
  C3: (INV1) with contradiction enforcement on, \<open>store_claim\<close> never makes two active claims of the
  silo contradict each other, provided the metadata does not smuggle in a triple of its own.
\<close>

theorem store_claim_keeps_inv1:
  assumes run: "store_claim ct refs s a args opts e w = (Inr out, w')"
    and "contradiction_enforcement_enabled e" "inv1 s (gr w)"
    and meta: "\<And>k. k \<in> {''subject'', ''predicate'', ''object''} \<Longrightarrow> map_of (so_metadata opts) k = None"
  shows "inv1 s (gr w')"
proof -
  have "returns e (store_claim ct refs s a args opts) (\<lambda>_ v. inv1 s (gr v)) w"
    unfolding store_claim_def Let_def
    by (intro returns_intros(1) store_claim_checks_returns returns_intros(6) returns_intros(7) returns_intros(9)
        returns_geffect [OF fading.eff_when [OF fades_derived]]
        returns_geffect [OF fades_supersede_older] returns_geffect [OF fades_detect]
        returns_geffect [OF fades_sync(1)] returns_emit_all
        returns_geffect [OF geffect_if [OF fading.eff_ret fading.eff_bind [OF fades_corroboration]]]
        effect_intros)
      (auto simp: assms(2) intro!: returns_intros,
        (elim inv1_fades, rule inv1_create [OF assms(3) meta], auto)+)
  from returnsD [OF this run] show ?thesis .
qed

lemma ex_inv1: "inv1 ''s1'' ex_memory_graph"
  by (simp add: inv1_def match_label_def ex_memory_graph_def ex_memory_props)

theorem store_claim_keeps_inv1_witness:
  "\<exists>out w'. store_claim ''c'' ex_refs ''s1'' ''agent'' ex_args ex_opts ex_env (ex_world ex_memory_graph)
     = (Inr out, w') \<and> inv1 ''s1'' (gr w')"
proof -
  obtain res evs w' where r: "store_claim ''c'' ex_refs ''s1'' ''agent'' ex_args ex_opts ex_env
      (ex_world ex_memory_graph) = (Inr (res, evs), w')" using ex_store_claim by blast
  have "inv1 ''s1'' (gr w')"
    by (rule store_claim_keeps_inv1 [OF r]) (simp_all add: ex_inv1 ex_env_def ex_opts_def)
  with r show ?thesis by blast
qed

section \<open>INV8\<close>

abbreviation unresolved :: "node \<Rightarrow> bool" where
  "unresolved n \<equiv> props n ''conflict_status'' = Some (VStr ''unresolved'')"

definition contradicts_edge :: "graph \<Rightarrow> node \<Rightarrow> node \<Rightarrow> bool" where
  "contradicts_edge g a b \<longleftrightarrow> (\<exists>d\<in>set (edges g). etype d = ''CONTRADICTS'' \<and> esrc d = vid a \<and> edst d = vid b)"

definition flagged :: "string \<Rightarrow> string \<Rightarrow> string \<Rightarrow> graph \<Rightarrow> bool" where
  "flagged i j s g \<longleftrightarrow> (\<forall>a\<in>set (match_id g i s). \<forall>b\<in>set (match_id g j s).
     contradicts_edge g a b \<and> contradicts_edge g b a \<and> unresolved a \<and> unresolved b)"

definition flag_node :: "node \<Rightarrow> node \<Rightarrow> bool" where
  "flag_node n m \<longleftrightarrow> same_place n m \<and> (unresolved n \<longrightarrow> unresolved m)"

definition flag_frame :: "graph \<Rightarrow> graph \<Rightarrow> bool" where
  "flag_frame g h \<longleftrightarrow> set (edges g) \<subseteq> set (edges h) \<and> list_all2 flag_node (nodes g) (nodes h)"

lemma flag_node_refl: "flag_node n n" by (simp add: flag_node_def)

lemma flag_node_trans: "flag_node n m \<Longrightarrow> flag_node m k \<Longrightarrow> flag_node n k"
  by (auto simp: flag_node_def intro: same_place_trans)

interpretation flagging: graph_effect flag_frame
proof
  show "flag_frame g g" for g by (simp add: flag_frame_def list.rel_refl flag_node_refl)
  show "flag_frame g h \<Longrightarrow> flag_frame h k \<Longrightarrow> flag_frame g k" for g h k
    unfolding flag_frame_def by (auto elim: list_all2_trans [rotated] intro: flag_node_trans)
qed

lemma flag_frame_partner:
  assumes "flag_frame g h" "m \<in> set (match_id h i s)"
  obtains n where "n \<in> set (match_id g i s)" "flag_node n m"
proof -
  from assms obtain n where n: "n \<in> set (nodes g)" "flag_node n m"
    unfolding flag_frame_def match_id_def by (metis filter_is_subset in_set_conv_nth list_all2_conv_all_nth subsetD)
  moreover have "n \<in> set (match_id g i s)"
    using n assms(2) by (simp add: match_id_iff flag_node_def same_place_def)
  ultimately show ?thesis using that by blast
qed

lemma flagged_frame: "flag_frame g h \<Longrightarrow> flagged i j s g \<Longrightarrow> flagged i j s h"
  unfolding flagged_def [of i j s h]
proof (intro ballI)
  fix a b assume f: "flag_frame g h" and fl: "flagged i j s g"
    and a: "a \<in> set (match_id h i s)" and b: "b \<in> set (match_id h j s)"
  obtain a' where a': "a' \<in> set (match_id g i s)" "flag_node a' a" using flag_frame_partner [OF f a] .
  obtain b' where b': "b' \<in> set (match_id g j s)" "flag_node b' b" using flag_frame_partner [OF f b] .
  have e: "contradicts_edge h x y" if "contradicts_edge g x y" for x y
    using that f unfolding contradicts_edge_def flag_frame_def by blast
  have v: "contradicts_edge h a b = contradicts_edge h a' b'" "contradicts_edge h b a = contradicts_edge h b' a'"
    using a'(2) b'(2) by (simp_all add: contradicts_edge_def flag_node_def same_place_def)
  show "contradicts_edge h a b \<and> contradicts_edge h b a \<and> unresolved a \<and> unresolved b"
    using fl a' b' e unfolding v flagged_def flag_node_def by blast
qed

lemma flag_frame_merge: "flag_frame g (fst (MERGE_CONTRADICTS a b s t g))"
  unfolding MERGE_CONTRADICTS_def Let_def fst_conv
proof (rule flagging.trans)
  show "flag_frame k (merge_edges ''CONTRADICTS'' ps as bs k)" for ps as bs k
    using merge_edges_grows [of k "''CONTRADICTS''" ps as bs]
    by (simp add: flag_frame_def grows_def merge_edges_nodes list.rel_refl flag_node_refl)
  then show "flag_frame k (merge_edges ''CONTRADICTS'' ps as bs k)" for ps as bs k .
qed

lemma flag_frame_status: "flag_frame g (fst (SET_CONFLICT_STATUS is s (conflict_value UNRESOLVED) g))"
  by (auto simp: SET_CONFLICT_STATUS_def flag_frame_def graph_simps list_all2_conv_all_nth flag_node_def
      same_place_def)

lemma flagged_after:
  "flagged i j s (fst (SET_CONFLICT_STATUS [i, j] s (conflict_value UNRESOLVED) (fst (MERGE_CONTRADICTS i j s t g))))"
    (is "flagged i j s ?h")
proof -
  let ?m = "fst (MERGE_CONTRADICTS i j s t g)"
  have nm: "match_id ?m x s = match_id g x s" for x
    by (simp add: MERGE_CONTRADICTS_def Let_def match_id_def graph_simps)
  have both: "contradicts_edge ?m a b \<and> contradicts_edge ?m b a"
    if a: "a \<in> set (match_id g i s)" and b: "b \<in> set (match_id g j s)" for a b
  proof
    let ?k = "merge_edges ''CONTRADICTS'' (contradicts_props t) (match_id g i s) (match_id g j s) g"
    have "contradicts_edge ?k a b"
      using merge_edges_present [OF a b, of "''CONTRADICTS''" "contradicts_props t" g]
      by (simp add: contradicts_edge_def)
    then show "contradicts_edge ?m a b"
      using merge_edges_grows [of ?k "''CONTRADICTS''" "contradicts_props t" "match_id g j s" "match_id g i s"]
      by (auto simp: MERGE_CONTRADICTS_def Let_def contradicts_edge_def grows_def)
    show "contradicts_edge ?m b a"
      using merge_edges_present [OF b a, of "''CONTRADICTS''" "contradicts_props t" ?k]
      by (simp add: MERGE_CONTRADICTS_def Let_def contradicts_edge_def)
  qed
  have edges: "edges ?h = edges ?m" by (simp add: SET_CONFLICT_STATUS_def graph_simps)
  show ?thesis unfolding flagged_def
  proof (intro ballI)
    fix a b assume a: "a \<in> set (match_id ?h i s)" and b: "b \<in> set (match_id ?h j s)"
    obtain a' where a': "a' \<in> set (match_id ?m i s)" "flag_node a' a" using flag_frame_partner [OF flag_frame_status a] .
    obtain b' where b': "b' \<in> set (match_id ?m j s)" "flag_node b' b" using flag_frame_partner [OF flag_frame_status b] .
    have un: "unresolved x" if "x \<in> set (match_id ?h k s)" "k \<in> {i, j}" for x k
    proof -
      let ?P = "\<lambda>n. silo n = Some s \<and> nid n \<in> set [i, j]"
      let ?f = "set_prop ''conflict_status'' (Some (VStr ''unresolved''))"
      have "set (nodes ?h) = (\<lambda>n. if ?P n then ?f n else n) ` set (nodes ?m)"
        unfolding SET_CONFLICT_STATUS_def fst_conv nodes_simps set_map conflict_value.simps ..
      moreover have x: "x \<in> set (nodes ?h)" "nid x = k" "silo x = Some s"
        using that(1) by (simp_all only: match_id_iff)
      ultimately have "x \<in> (\<lambda>n. if ?P n then ?f n else n) ` set (nodes ?m)" by simp
      then obtain y where y: "x = (if ?P y then ?f y else y)" by (elim imageE)
      have "?P y" using x that(2) y by (cases "?P y") auto
      then show ?thesis using y by simp
    qed
    have "contradicts_edge ?h a b = contradicts_edge ?m a' b'" "contradicts_edge ?h b a = contradicts_edge ?m b' a'"
      using a'(2) b'(2)
      by (simp_all add: contradicts_edge_def flag_node_def same_place_def edges del: conflict_value.simps)
    then show "contradicts_edge ?h a b \<and> contradicts_edge ?h b a \<and> unresolved a \<and> unresolved b"
      using both [of a' b'] a' b' un [OF a] un [OF b] by (simp add: nm)
  qed
qed

text \<open>
  (INV8) \<open>detect_spo_conflict\<close> reports every active claim of the silo with the same subject and
  predicate and another object, and leaves CONTRADICTS edges in both directions and the status
  \<open>unresolved\<close> on both sides.
\<close>

theorem detect_spo_conflict_flags:
  assumes run: "detect_spo_conflict i x y z s e w = (Inr evs, w')"
    and t: "spo_triple x y z = Some (x', y', z')"
    and j: "j \<in> set (FIND_OTHER_SPO_CONFLICTS s x' y' z' i (gr w))"
  shows "(\<exists>ts. conflict_event i j s ts \<in> set evs) \<and> flagged i j s (gr w')"
proof -
  let ?F = "\<lambda>ts j. tbind (create_bidirectional_contradicts i j s ts) (\<lambda>_.
      tbind (set_conflict_status i j s UNRESOLVED) (\<lambda>_. ret (conflict_event i j s ts)))"
  have frame: "geffect flag_frame (tfor js (?F ts))" for js ts
    by (auto simp: create_bidirectional_contradicts_def set_conflict_status_def
        simp del: conflict_value.simps intro!: flagging.eff_for flagging.eff_bind flagging.eff_write flagging.eff_ret flag_frame_merge flag_frame_status)
  have one: "returns e (?F ts k) (\<lambda>y v. y = conflict_event i k s ts \<and> flagged i k s (gr v)) v0" for k ts v0
    unfolding create_bidirectional_contradicts_def set_conflict_status_def
    by (intro returns_intros) (simp del: conflict_value.simps add: flagged_after)
  have loop: "returns e (tfor js (?F ts)) (\<lambda>evs v. evs = map (\<lambda>j. conflict_event i j s ts) js \<and>
      (\<forall>j\<in>set js. flagged i j s (gr v))) v0" for js ts v0
  proof (induction js arbitrary: v0)
    case (Cons k js)
    have rest: "returns e (tfor js (?F ts)) (\<lambda>evs v. evs = map (\<lambda>j. conflict_event i j s ts) js \<and>
        (\<forall>j\<in>set (k # js). flagged i j s (gr v))) u" if "flagged i k s (gr u)" for u
      by (rule wp_mono [OF wp_conj [OF Cons wp_geffect [OF frame]]]) (use that flagged_frame in auto)
    have "returns e (?F ts k) (\<lambda>y. returns e (tfor js (?F ts)) (\<lambda>ys v. y # ys = map (\<lambda>j. conflict_event i j s ts) (k # js) \<and>
        (\<forall>j\<in>set (k # js). flagged i j s (gr v)))) v0"
      by (rule wp_mono [OF one]) (auto intro: wp_mono [OF rest])
    then show ?case by (simp only: tfor.simps wp_bind wp_ret)
  qed (simp add: wp_simps)
  have "returns e (detect_spo_conflict i x y z s)
      (\<lambda>evs v. (\<exists>ts. conflict_event i j s ts \<in> set evs) \<and> flagged i j s (gr v)) w"
    unfolding detect_spo_conflict_def t option.case prod.case
    by (intro returns_intros(1) returns_intros(8) returns_intros(11) returns_intros(6))
      (use j in \<open>auto intro!: wp_mono [OF loop]\<close>, blast)
  from returnsD [OF this run] show ?thesis .
qed

text \<open>Two claims about the sky.\<close>

definition ex_sky :: "nat \<Rightarrow> string \<Rightarrow> node" where
  "ex_sky k colour = ex_node k [''Node'', ''Claim''] (ex_active(''subject'' \<mapsto> VStr ''sky'',
     ''predicate'' \<mapsto> VStr ''is'', ''object'' \<mapsto> VStr colour))"

definition ex_sky_graph :: graph where
  "ex_sky_graph = \<lparr>nodes = [ex_sky 1 ''blue'', ex_sky 2 ''red''], edges = [], next_vid = 3\<rparr>"

lemma ex_detect:
  "detect_spo_conflict (ex_uuid 2) (Some ''sky'') (Some ''is'') (Some ''red'') ''s1'' ex_env (ex_world ex_sky_graph) =
    (Inr [conflict_event (ex_uuid 2) (ex_uuid 1) ''s1'' 1001],
     snd (detect_spo_conflict (ex_uuid 2) (Some ''sky'') (Some ''is'') (Some ''red'') ''s1'' ex_env (ex_world ex_sky_graph)))"
  by (rule returns_run) code_simp

theorem detect_spo_conflict_flags_witness:
  "flagged (ex_uuid 2) (ex_uuid 1) ''s1'' (gr (snd (detect_spo_conflict (ex_uuid 2) (Some ''sky'') (Some ''is'')
     (Some ''red'') ''s1'' ex_env (ex_world ex_sky_graph))))"
  using detect_spo_conflict_flags [OF ex_detect, of "''sky''" "''is''" "''red''" "ex_uuid 1"]
  by (simp add: spo_triple_def FIND_OTHER_SPO_CONFLICTS_def ex_sky_graph_def ex_sky_def ex_node_def ex_active_def
      match_label_def has_label_def spo_conflict_def prop_differs_def ex_uuid_def hex_digits_def)

end
