(* ===== verification/TxLinkCorrect.thy ===== *)
theory TxLinkCorrect
  imports TxLink Examples
begin

text \<open>
  INV4: \<open>supersede\<close> and \<open>link\<close> keep the acyclic edge types acyclic when the two ids differ, and
  do not when they are equal; what a successful \<open>supersede\<close> and \<open>link\<close> leave behind.
\<close>

section \<open>Adding a product of edges to an acyclic relation\<close>

lemma product_paths:
  assumes "\<And>t s. t \<in> T \<Longrightarrow> s \<in> S \<Longrightarrow> (t, s) \<notin> E\<^sup>+" "S \<inter> T = {}" "t \<in> T"
    and "(t, z) \<in> (E \<union> S \<times> T)\<^sup>*"
  shows "(t, z) \<in> E\<^sup>*"
  using assms(4)
proof (induction rule: rtrancl_induct)
  case (step y z)
  show ?case
  proof (cases "(y, z) \<in> E")
    case True
    then show ?thesis using step.IH by auto
  next
    case False
    then have y: "y \<in> S" using step.hyps by auto
    then have "y \<noteq> t" using assms(2,3) by auto
    then have "(t, y) \<in> E\<^sup>+" using step.IH by (auto simp: rtrancl_eq_or_trancl)
    then show ?thesis using assms(1) [OF assms(3) y] by simp
  qed
qed simp

lemma trancl_Un_cases:
  "(x, y) \<in> (E \<union> B)\<^sup>+ \<Longrightarrow> (x, y) \<in> E\<^sup>+ \<or> (\<exists>s t. (s, t) \<in> B \<and> (x, s) \<in> (E \<union> B)\<^sup>* \<and> (t, y) \<in> (E \<union> B)\<^sup>*)"
proof (induction rule: trancl_induct)
  case (base y)
  then show ?case by auto
next
  case (step y z)
  show ?case
  proof (cases "(y, z) \<in> B")
    case True
    then show ?thesis using step.hyps(1) by (blast dest: trancl_into_rtrancl)
  next
    case False
    then have "(y, z) \<in> E" using step.hyps(2) by auto
    then show ?thesis using step.IH by (blast intro: trancl_into_trancl rtrancl_into_rtrancl)
  qed
qed

lemma acyclic_product:
  assumes "acyclic E" "\<And>t s. t \<in> T \<Longrightarrow> s \<in> S \<Longrightarrow> (t, s) \<notin> E\<^sup>+" "S \<inter> T = {}"
  shows "acyclic (E \<union> S \<times> T)"
proof (rule acyclicI, intro allI notI)
  fix x assume x: "(x, x) \<in> (E \<union> S \<times> T)\<^sup>+"
  from trancl_Un_cases [OF x] show False
  proof
    assume "(x, x) \<in> E\<^sup>+"
    then show False using assms(1) by (auto simp: acyclic_def)
  next
    assume "\<exists>s t. (s, t) \<in> S \<times> T \<and> (x, s) \<in> (E \<union> S \<times> T)\<^sup>* \<and> (t, x) \<in> (E \<union> S \<times> T)\<^sup>*"
    then obtain s t where st: "s \<in> S" "t \<in> T" "(t, s) \<in> (E \<union> S \<times> T)\<^sup>*"
      by (auto intro: rtrancl_trans)
    have "(t, s) \<in> E\<^sup>*" by (rule product_paths [OF assms(2,3) st(2,3)])
    moreover have "t \<noteq> s" using st assms(3) by auto
    ultimately show False using assms(2) [OF st(2,1)] by (auto simp: rtrancl_eq_or_trancl)
  qed
qed

section \<open>Edges of a type\<close>

lemma type_edges_add:
  "type_edges (add_edges t ps as bs g) u =
     type_edges g u @ (if t = u then concat (map (\<lambda>a. map (\<lambda>b. (vid a, vid b)) bs) as) else [])"
  by (simp add: type_edges_def add_edges_def filter_concat map_concat comp_def filter_map)

lemma set_type_edges_add:
  "set (type_edges (add_edges t ps as bs g) u) =
     set (type_edges g u) \<union> (if t = u then (vid ` set as) \<times> (vid ` set bs) else {})"
  by (auto simp: type_edges_add)

lemma type_edges_update [simp]: "type_edges (update_where P f g) u = type_edges g u"
  by (simp add: type_edges_def graph_simps)

lemma type_edges_nodes: "edges g = edges h \<Longrightarrow> type_edges g u = type_edges h u"
  by (simp add: type_edges_def)

lemma match_id_disjoint:
  assumes "graph_wf g" "i \<noteq> j"
  shows "vid ` set (match_id g i s) \<inter> vid ` set (match_id g j s) = {}"
  using assms by (auto simp: match_id_iff dest: wf_vid_inj)

definition acyclic_type :: "graph \<Rightarrow> string \<Rightarrow> bool" where
  "acyclic_type g t \<longleftrightarrow> acyclic (set (type_edges g t))"

lemma acyclic_add_checked:
  assumes "graph_wf g" "acyclic_type g u" "i \<noteq> j" "\<not> WOULD_CYCLE i j u s g"
  shows "acyclic_type (add_edges u ps (match_id g i s) (match_id g j s) g) u"
  unfolding acyclic_type_def set_type_edges_add if_P [OF refl]
proof (rule acyclic_product)
  show "acyclic (set (type_edges g u))" using assms(2) by (simp add: acyclic_type_def)
  show "(t, q) \<notin> (set (type_edges g u))\<^sup>+"
    if "t \<in> vid ` set (match_id g j s)" "q \<in> vid ` set (match_id g i s)" for t q
    using assms(4) that by (auto simp: WOULD_CYCLE_def path_exists_iff)
qed (rule match_id_disjoint [OF assms(1,3)])

lemma edges_fold_update: "edges (fold (\<lambda>x. update_where (P x) (f x)) xs g) = edges g"
  by (induction xs arbitrary: g) (simp_all add: graph_simps)

lemma edges_propagated: "edges (fst (UPDATE_PROPAGATED_CONFIDENCE ups s t g)) = edges g"
  using edges_fold_update [of "\<lambda>(i, c). is_node i s" "\<lambda>(i, c) n. set_field ''confidence_updated_at''
     (Some (VTime t)) (set_field ''confidence'' (Some (VNum c)) n)" ups g]
  by (simp add: UPDATE_PROPAGATED_CONFIDENCE_def case_prod_unfold)

definition same_edges :: "graph \<Rightarrow> graph \<Rightarrow> bool" where
  "same_edges g h \<longleftrightarrow> edges h = edges g"

interpretation keep_edges: graph_effect same_edges
  by unfold_locales (auto simp: same_edges_def)

lemma propagation_keeps_edges: "geffect same_edges (run_incremental_propagation i s)"
  by (auto simp: run_incremental_propagation_def Let_def edges_propagated same_edges_def
      intro!: keep_edges.eff_bind keep_edges.eff_query keep_edges.eff_ret keep_edges.eff_raise
        keep_edges.eff_write keep_edges.eff_calls geffect_if geffect_option)

section \<open>INV4\<close>

lemma returns_validate_link:
  assumes "ty \<in> set ACYCLIC_EDGE_TYPES"
    and "\<And>err v. gr v = gr w \<Longrightarrow> err = None \<Longrightarrow> \<not> WOULD_CYCLE a b (link_value ty) s (gr w) \<Longrightarrow> Q err v"
    and "\<And>x v. Q (Some x) v"
  shows "returns e (validate_link a b ty s) Q w"
  using assms unfolding validate_link_def would_create_cycle_any_def
  by (auto intro!: returns_intros simp: wp_simps split: list.split)

text \<open>
  C20: \<open>link\<close> keeps every hierarchical edge type acyclic: from a well-formed graph whose edges of the
  type form no cycle, a link of the type between two different ids that returns leaves none.
\<close>

theorem link_keeps_acyclic:
  assumes "link a b ty s ag md wt em e w = (Inr out, w')" "ty \<in> set ACYCLIC_EDGE_TYPES"
    and "graph_wf (gr w)" "acyclic_type (gr w) (link_value ty)" "a \<noteq> b"
  shows "acyclic_type (gr w') (link_value ty)"
proof -
  have ne: "ty \<noteq> SUPPORTS" "ty \<noteq> CONTRADICTS" using assms(2) by (auto simp: ACYCLIC_EDGE_TYPES_def)
  have add: "acyclic_type (add_edges (link_value ty) ps (match_id (gr w) a s) (match_id (gr w) b s) (gr w)) (link_value ty)"
    if "\<not> WOULD_CYCLE a b (link_value ty) s (gr w)" for ps
    by (rule acyclic_add_checked [OF assms(3-5) that])
  have "returns e (link a b ty s ag md wt em) (\<lambda>_ v. acyclic_type (gr v) (link_value ty)) w"
    unfolding link_def Let_def
    by (intro returns_intros(1) returns_validate_link assms(2))
      (auto intro!: returns_intros returns_emit_all simp: ne CREATE_LINK_def add)
  from returnsD [OF this assms(1)] show ?thesis .
qed

lemma ex_graph_wf: "graph_wf ex_graph"
  by (simp add: graph_wf_def ex_graph_def ex_node_defs ex_edge_def)

lemma ex_acyclic: "t \<noteq> ''SYNTHESIZED_FROM'' \<Longrightarrow> acyclic_type ex_graph t"
  by (simp add: acyclic_type_def type_edges_def ex_graph_def ex_edge_def acyclic_def)

lemma ex_uuid_distinct: "ex_uuid 5 \<noteq> ex_uuid 2"
  by (simp add: ex_uuid_def hex_digits_def)

lemma ex_link:
  "link (ex_uuid 5) (ex_uuid 2) REFINES ''s1'' ''agent'' [] 1 True ex_env (ex_world ex_graph) =
     (Inr (\<lparr>lk_edge_id = ex_uuid 3, lk_source_id = ex_uuid 5, lk_target_id = ex_uuid 2, lk_edge_type = REFINES\<rparr>,
           link_events (ex_uuid 5) (ex_uuid 2) ''s1'' REFINES),
      snd (link (ex_uuid 5) (ex_uuid 2) REFINES ''s1'' ''agent'' [] 1 True ex_env (ex_world ex_graph)))"
  by (rule returns_run) code_simp

theorem link_keeps_acyclic_witness:
  "acyclic_type (gr (snd (link (ex_uuid 5) (ex_uuid 2) REFINES ''s1'' ''agent'' [] 1 True ex_env
     (ex_world ex_graph)))) ''REFINES''"
  using link_keeps_acyclic [OF ex_link]
  by (simp add: ex_graph_wf ACYCLIC_EDGE_TYPES_def ex_acyclic ex_uuid_distinct)

lemma returns_validate_supersession:
  assumes "\<And>err v. gr v = gr w \<Longrightarrow> err = None \<Longrightarrow> \<not> WOULD_CYCLE a b ''SUPERSEDES'' s (gr w) \<Longrightarrow>
      (\<exists>row rest. GET_PAIR a b s (gr w) = row # rest \<and> pa_source_state row = Some ''ACTIVE'' \<and>
         pa_target_state row = Some ''ACTIVE'') \<Longrightarrow> Q err v"
    and "\<And>x v. Q (Some x) v"
  shows "returns e (validate_supersession a b s) Q w"
  unfolding validate_supersession_def
proof (rule returns_intros(1), rule returns_intros(8), goal_cases)
  case 1
  show ?case
  proof (cases "GET_PAIR a b s (gr w)")
    case (Cons row rest)
    then show ?thesis
      unfolding Cons list.case would_create_cycle_any_def
      by (intro returns_intros; (cases "WOULD_CYCLE a b ''SUPERSEDES'' s (gr w)")?)
        (simp_all add: assms(2), rule assms(1), simp_all add: Cons)
  qed (simp add: wp_simps assms(2))
qed

lemma sync_state_gr: "returns e (sync_postgres_state i s st) Q w" if "\<And>v. gr v = gr w \<Longrightarrow> Q () v"
  by (rule wp_mono [OF wp_geffect [OF sync_graph(2)]]) (use that in auto)

lemma match_id_nonempty_pair: "GET_PAIR a b s g = row # rest \<Longrightarrow> match_id g a s \<noteq> [] \<and> match_id g b s \<noteq> []"
proof -
  assume p: "GET_PAIR a b s g = row # rest"
  have "List.product (match_id g a s) (match_id g b s) \<noteq> []"
  proof
    assume "List.product (match_id g a s) (match_id g b s) = []"
    then show False using p unfolding GET_PAIR_def by simp
  qed
  then have "length (match_id g a s) * length (match_id g b s) \<noteq> 0"
    unfolding length_0_conv [symmetric] length_product .
  then show ?thesis by simp
qed

text \<open>The graph after a \<open>supersede\<close> that returned.\<close>

lemma supersede_graph:
  assumes "supersede a b s r em e w = (Inr out, w')"
  obtains t t' where "gr w' = fst (CREATE_SUPERSEDES a b s t (reason_value r) t' (gr w))"
    "\<not> WOULD_CYCLE a b ''SUPERSEDES'' s (gr w)" "match_id (gr w) a s \<noteq> []" "match_id (gr w) b s \<noteq> []"
proof -
  let ?Q = "\<lambda>v. (\<exists>t t'. gr v = fst (CREATE_SUPERSEDES a b s t (reason_value r) t' (gr w))) \<and>
    \<not> WOULD_CYCLE a b ''SUPERSEDES'' s (gr w) \<and> match_id (gr w) a s \<noteq> [] \<and> match_id (gr w) b s \<noteq> []"
  have "returns e (supersede a b s r em) (\<lambda>_. ?Q) w"
    unfolding supersede_def Let_def
    by (intro returns_intros(1) returns_validate_supersession)
      (auto intro!: returns_intros returns_emit_all sync_state_gr simp: create_supersedes_edge_def
        dest!: match_id_nonempty_pair, blast+)
  from returnsD [OF this assms] that show ?thesis by blast
qed

text \<open>
  C4: \<open>supersede\<close> keeps the SUPERSEDES edges acyclic when winner and loser differ.
\<close>

theorem supersede_keeps_acyclic:
  assumes run: "supersede a b s r em e w = (Inr out, w')"
    and "graph_wf (gr w)" "acyclic_type (gr w) ''SUPERSEDES''" "a \<noteq> b"
  shows "acyclic_type (gr w') ''SUPERSEDES''"
proof -
  from supersede_graph [OF run] obtain t t' where
    g: "gr w' = fst (CREATE_SUPERSEDES a b s t (reason_value r) t' (gr w))" and
    c: "\<not> WOULD_CYCLE a b ''SUPERSEDES'' s (gr w)" and m: "match_id (gr w) a s \<noteq> []" .
  have "set (type_edges (gr w') ''SUPERSEDES'') =
      set (type_edges (add_edges ''SUPERSEDES'' Map.empty (match_id (gr w) a s) (match_id (gr w) b s) (gr w))
        ''SUPERSEDES'')"
    unfolding g CREATE_SUPERSEDES_def Let_def fst_conv if_not_P [OF m] set_type_edges_add by simp
  then show ?thesis
    using acyclic_add_checked [OF assms(2,3,4) c, of Map.empty] by (simp add: acyclic_type_def)
qed

lemma ex_supersede:
  "supersede (ex_uuid 5) (ex_uuid 2) ''s1'' EVIDENCE_SHIFT True ex_env (ex_world ex_graph) =
     (Inr (\<lparr>ss_edge_id = ex_uuid 2, ss_winner_id = ex_uuid 5, ss_loser_id = ex_uuid 2, ss_reason = EVIDENCE_SHIFT\<rparr>,
           [reaction CASCADE_STALENESS (ex_uuid 2) ''s1'' [(''depth'', VInt 1)]]),
      snd (supersede (ex_uuid 5) (ex_uuid 2) ''s1'' EVIDENCE_SHIFT True ex_env (ex_world ex_graph)))"
  by (rule returns_run) code_simp

theorem supersede_keeps_acyclic_witness:
  "acyclic_type (gr (snd (supersede (ex_uuid 5) (ex_uuid 2) ''s1'' EVIDENCE_SHIFT True ex_env
     (ex_world ex_graph)))) ''SUPERSEDES''"
  using supersede_keeps_acyclic [OF ex_supersede] by (simp add: ex_graph_wf ex_acyclic ex_uuid_distinct)

text \<open>
  after a \<open>supersede\<close> that returned, the loser is SUPERSEDED, and a SUPERSEDES edge with the
  reason leads from the winner to it.
\<close>

theorem supersede_effect:
  assumes run: "supersede a b s r em e w = (Inr out, w')" and "a \<noteq> b"
  shows "(\<forall>m\<in>set (match_id (gr w') b s). pstate m = Some ''SUPERSEDED'') \<and>
    (\<exists>n\<in>set (match_id (gr w') a s). \<exists>m\<in>set (match_id (gr w') b s). \<exists>d\<in>set (edges (gr w')).
       esrc d = vid n \<and> edst d = vid m \<and> etype d = ''SUPERSEDES'' \<and> eprops d ''reason'' = Some (VStr (reason_value r)))"
proof -
  from supersede_graph [OF run] obtain t t' where
    g: "gr w' = fst (CREATE_SUPERSEDES a b s t (reason_value r) t' (gr w))" and
    m: "match_id (gr w) a s \<noteq> []" "match_id (gr w) b s \<noteq> []" .
  define f where "f = (\<lambda>n. set_field ''valid_to'' (Some (VTime t))
      (set_prop ''state'' (Some (VStr (state_value SUPERSEDED))) n))"
  have fp: "vid (f n) = vid n" "nid (f n) = nid n" "silo (f n) = silo n" "pstate (f n) = Some ''SUPERSEDED''" for n
    by (simp_all add: f_def)
  let ?h = "update_where (is_node b s) f (gr w)"
  have g': "gr w' = add_edges ''SUPERSEDES'' [''reason'' \<mapsto> VStr (reason_value r), ''created_at'' \<mapsto> VTime t']
      (match_id (gr w) a s) (match_id (gr w) b s) ?h"
    unfolding g CREATE_SUPERSEDES_def Let_def fst_conv if_not_P [OF m(1)] f_def ..
  have nodes: "nodes (gr w') = map (\<lambda>n. if is_node b s n then f n else n) (nodes (gr w))"
    unfolding g' by (simp add: graph_simps)
  have los: "match_id (gr w') b s = map f (match_id (gr w) b s)"
  proof -
    have "filter (is_node b s) (map (\<lambda>n. if is_node b s n then f n else n) ns) = map f (filter (is_node b s) ns)" for ns
      by (induction ns) (simp_all add: is_node_def fp)
    then show ?thesis by (simp add: match_id_def nodes)
  qed
  have win: "match_id (gr w') a s = match_id (gr w) a s"
  proof -
    have "filter (is_node a s) (map (\<lambda>n. if is_node b s n then f n else n) ns) = filter (is_node a s) ns" for ns
      using assms(2) by (induction ns) (simp_all add: is_node_def fp)
    then show ?thesis by (simp add: match_id_def nodes)
  qed
  obtain n ns where n: "match_id (gr w) a s = n # ns" using m(1) by (cases "match_id (gr w) a s") auto
  obtain l ls where l: "match_id (gr w) b s = l # ls" using m(2) by (cases "match_id (gr w) b s") auto
  let ?d = "\<lparr>esrc = vid n, edst = vid l, etype = ''SUPERSEDES'',
      eprops = [''reason'' \<mapsto> VStr (reason_value r), ''created_at'' \<mapsto> VTime t']\<rparr>"
  have "?d \<in> set (edges (gr w'))" unfolding g' n l by (simp add: add_edges_def)
  moreover have "esrc ?d = vid n" "edst ?d = vid (f l)" "etype ?d = ''SUPERSEDES''"
    "eprops ?d ''reason'' = Some (VStr (reason_value r))" by (simp_all add: fp)
  ultimately have "\<exists>d\<in>set (edges (gr w')). esrc d = vid n \<and> edst d = vid (f l) \<and> etype d = ''SUPERSEDES'' \<and>
      eprops d ''reason'' = Some (VStr (reason_value r))" by blast
  then show ?thesis unfolding los win n l using fp by auto
qed

theorem supersede_effect_witness:
  "list_all (\<lambda>m. pstate m = Some ''SUPERSEDED'')
     (match_id (gr (snd (supersede (ex_uuid 5) (ex_uuid 2) ''s1'' EVIDENCE_SHIFT True ex_env
        (ex_world ex_graph)))) (ex_uuid 2) ''s1'')"
  unfolding list_all_iff using supersede_effect [OF ex_supersede ex_uuid_distinct] by blast

text \<open>
  the cycle check only asks for a path from target to source, so a node may be linked to
  itself with an acyclic edge type: the call succeeds and the type is cyclic afterwards (INV4
  does not hold of self-links).
\<close>

theorem link_admits_self_loop:
  assumes "uuid_ok a" "match_id (gr w) a s = [n]" "pstate n = Some ''ACTIVE''" "\<And>k. \<not> fault e k"
    and "ty \<in> set ACYCLIC_EDGE_TYPES" "type_edges (gr w) (link_value ty) = []"
  shows "\<exists>out w'. link a a ty s ag md wt em e w = (Inr out, w') \<and> \<not> acyclic_type (gr w') (link_value ty)"
proof -
  have ne: "ty \<noteq> SUPPORTS" "ty \<noteq> CONTRADICTS" using assms(5) by (auto simp: ACYCLIC_EDGE_TYPES_def)
  have "\<not> WOULD_CYCLE a a (link_value ty) s (gr w)"
    using assms(6) by (simp add: WOULD_CYCLE_def path_exists_iff)
  moreover have "FIND_EDGES a a (link_value ty) s (gr w) = []"
    using assms(6) by (auto simp: FIND_EDGES_def type_edges_def filter_empty_conv)
  moreover have "silo n = Some s" using assms(2) match_id_iff [of n "gr w" a s] by simp
  moreover have "\<not> acyclic_type (add_edges (link_value ty) ps [n] [n] (gr w)) (link_value ty)" for ps
    by (auto simp: acyclic_type_def set_type_edges_add assms(6) acyclic_def)
  ultimately have "wp e (link a a ty s ag md wt em) (\<lambda>_ _. False)
      (\<lambda>_ v. \<not> acyclic_type (gr v) (link_value ty)) w"
    using assms unfolding link_def validate_link_def would_create_cycle_any_def
    by (simp add: wp_simps GET_PAIR_def Let_def CREATE_LINK_def ne)
  then show ?thesis by (auto simp: wp_def split: prod.splits sum.splits)
qed

theorem link_admits_self_loop_witness:
  "\<exists>out w'. link (ex_uuid 5) (ex_uuid 5) DERIVED_FROM ''s1'' ''agent'' [] 1 True ex_env (ex_world ex_graph) = (Inr out, w')
    \<and> \<not> acyclic_type (gr w') (link_value DERIVED_FROM)"
proof (rule link_admits_self_loop)
  show "uuid_ok (ex_uuid 5)" by code_simp
  show "match_id (gr (ex_world ex_graph)) (ex_uuid 5) ''s1'' = [ex_claim5]"
    by (simp add: ex_graph_def ex_node_defs match_id_def is_node_def ex_uuid_def hex_digits_def)
  show "type_edges (gr (ex_world ex_graph)) (link_value DERIVED_FROM) = []"
    by (simp add: type_edges_def ex_graph_def ex_edge_def)
qed (simp_all add: ex_node_defs ACYCLIC_EDGE_TYPES_def)

end
