(* ===== verification/TxLayerCorrect.thy ===== *)
theory TxLayerCorrect
  imports TxLayer Examples
begin

text \<open>
  What promotion and demotion guarantee: when a claim may become a fact, what exactly changes,
  that the \<open>Fact\<close> label and the \<open>claim_status\<close> of active claims never drift apart, and what
  the two confidence updates do.
\<close>

section \<open>Promotion\<close>

text \<open>A completed promotion, with or without the clean-up of the sources.\<close>

definition promoted_graph :: "string \<Rightarrow> string \<Rightarrow> int \<Rightarrow> real \<Rightarrow> graph \<Rightarrow> graph" where
  "promoted_graph i s t c g = fst (UPDATE_CLAIM_TO_PROMOTED i s t c g)"

definition promoted_to :: "string \<Rightarrow> string \<Rightarrow> int \<Rightarrow> real \<Rightarrow> graph \<Rightarrow> graph \<Rightarrow> bool" where
  "promoted_to i s t c g h \<longleftrightarrow> h = promoted_graph i s t c g \<or>
     h = fst (CLEANUP_SOURCES i s (promoted_graph i s t c g))"

lemma wp_promote_checked:
  "wp e (promote_checked i s x n)
     (\<lambda>_ v. gr v = gr w \<or> (\<exists>t c. x = Some c \<and> promoted_to i s t (boosted c n) (gr w) (gr v)))
     (\<lambda>(r, evs) v. evs = [] \<and> (\<exists>t c p. x = Some c \<and>
         r = Some \<lparr>pm_claim_id = p, pm_promoted_at = t, pm_new_confidence = Some (boosted c n),
                   pm_corroboration_count = n\<rparr> \<and>
         promoted_to i s t (boosted c n) (gr w) (gr v))) w"
  by (cases x)
    (auto simp: promote_checked_def need_num_def cleanup_sources_def wp_simps Let_def
      promoted_to_def promoted_graph_def)

text \<open>The promotion, seen from its first read: the row decides whether it may write.\<close>

definition promotable_row :: "claim_row \<Rightarrow> int \<Rightarrow> bool" where
  "promotable_row r n \<longleftrightarrow> cr_state r = Some ''ACTIVE'' \<and> cr_claim_status r \<noteq> Some ''PROMOTED'' \<and>
     int PROMOTION_THRESHOLD \<le> n"

definition effective_count :: "claim_row \<Rightarrow> int option \<Rightarrow> int" where
  "effective_count r k = (case k of Some n \<Rightarrow> n
     | None \<Rightarrow> (case cr_corroboration r of Some n \<Rightarrow> n | None \<Rightarrow> 0))"

definition promotion_of ::
  "string \<Rightarrow> string \<Rightarrow> int option \<Rightarrow> graph \<Rightarrow> graph \<Rightarrow> int \<Rightarrow> real \<Rightarrow> int \<Rightarrow> bool" where
  "promotion_of i s k g h t c n \<longleftrightarrow> (\<exists>r rows. GET_CLAIM_FOR_PROMOTE i s g = r # rows \<and>
     promotable_row r n \<and> n = effective_count r k \<and> cr_confidence r = Some c \<and>
     promoted_to i s t (boosted c n) g h)"

definition already_promoted :: "string \<Rightarrow> string \<Rightarrow> graph \<Rightarrow> bool" where
  "already_promoted i s g \<longleftrightarrow> (\<exists>r rows. GET_CLAIM_FOR_PROMOTE i s g = r # rows \<and>
     cr_claim_status r = Some ''PROMOTED'')"

lemma wp_unchanged: "geffect (=) m \<Longrightarrow> wp e m (\<lambda>_ v. gr v = gr w) (\<lambda>_ v. gr v = gr w) w"
  using geffectD [of "(=)" m w e] by (auto simp: wp_def split: prod.splits sum.splits)

lemma wp_promote:
  "wp e (promote i s k l)
     (\<lambda>_ v. gr v = gr w \<or> (\<exists>t c n. promotion_of i s k (gr w) (gr v) t c n))
     (\<lambda>(r, evs) v. evs = [] \<and> ((r = None \<or> already_promoted i s (gr w)) \<and> gr v = gr w \<or>
       (\<exists>t c n p. promotion_of i s k (gr w) (gr v) t c n \<and>
         r = Some \<lparr>pm_claim_id = p, pm_promoted_at = t, pm_new_confidence = Some (boosted c n),
                   pm_corroboration_count = n\<rparr>))) w" (is "wp e _ ?E ?Q w")
proof -
  let ?w = "w\<lparr>tick := Suc (tick w)\<rparr>"
  have step: "wp e (tbind (if l then verify_sources i s else ret True)
       (\<lambda>ok. if \<not> ok then ret (None, []) else promote_checked i s (cr_confidence r) n)) ?E ?Q ?w"
    if r: "GET_CLAIM_FOR_PROMOTE i s (gr w) = r # rows" "promotable_row r n" "n = effective_count r k"
    for r rows n
  proof -
    have g: "geffect (=) (if l then verify_sources i s else ret True)"
      by (auto intro!: effect_intros verify_graph)
    have c: "wp e (if \<not> ok then ret (None, []) else promote_checked i s (cr_confidence r) n) ?E ?Q v"
      if v: "gr v = gr w" for ok v
    proof (cases ok)
      case True
      have "wp e (promote_checked i s (cr_confidence r) n) ?E ?Q v"
        by (rule wp_mono [OF wp_promote_checked [of e i s "cr_confidence r" n v]])
          (use v r in \<open>auto simp: promotion_of_def\<close>)
      with True show ?thesis by simp
    qed (simp add: wp_simps v)
    show ?thesis unfolding wp_bind
      by (rule wp_mono [OF wp_unchanged [OF g]], simp, rule c, simp)
  qed
  show ?thesis
  proof (cases "GET_CLAIM_FOR_PROMOTE i s (gr w)")
    case Nil
    then show ?thesis by (simp add: promote_def wp_simps)
  next
    case (Cons r rows)
    from step [OF Cons, of "effective_count r k"] show ?thesis
      by (simp add: promote_def wp_simps Cons Let_def effective_count_def [symmetric]
          promotable_row_def already_promoted_def not_le not_less)
  qed
qed




text \<open>What the update does to the nodes of the claim, and what the clean-up removes.\<close>

lemma promoted_nodes:
  "nodes (promoted_graph i s t c g) = map (\<lambda>n. if promotable i s n
     then n\<lparr>labels := (if has_label ''Fact'' n then labels n else labels n @ [''Fact'']),
            props := (props n)(''claim_status'' \<mapsto> VStr ''PROMOTED'', ''promoted_at'' \<mapsto> VTime t,
              ''confidence'' \<mapsto> VNum c)\<rparr> else n) (nodes g)"
  by (simp add: promoted_graph_def UPDATE_CLAIM_TO_PROMOTED_def graph_simps)

lemma cleanup_nodes:
  assumes "graph_wf g"
  shows "n \<in> set (nodes (fst (CLEANUP_SOURCES i s g))) \<longleftrightarrow>
     n \<in> set (nodes g) \<and> n \<notin> set (source_nodes g (match_id g i s))"
proof -
  have sub: "m \<in> set (nodes g)" if "m \<in> set (source_nodes g ms)" for m ms
    using that by (auto simp: source_nodes_def dest: out_nodes_in)
  have "vid n \<in> vid ` set (source_nodes g ms) \<longleftrightarrow> n \<in> set (source_nodes g ms)" if "n \<in> set (nodes g)" for ms
    using wf_vid_inj [OF assms that] sub by (metis imageE imageI)
  then show ?thesis
    by (auto simp: CLEANUP_SOURCES_def detach_delete_def graph_simps)
qed

lemma promoted_graph_inv:
  assumes "graph_wf g" "no_cross_silo g"
  shows "graph_wf (promoted_graph i s t c g)" "no_cross_silo (promoted_graph i s t c g)"
  using gsteps_invariant [OF gsteps_promoted assms] by (auto simp: promoted_graph_def)

lemma promoted_to_nodes:
  assumes p: "promoted_to i s t c g h" and g: "graph_wf g" "no_cross_silo g"
  shows "n \<in> set (nodes h) \<Longrightarrow> n \<in> set (nodes (promoted_graph i s t c g))"
    and "n \<in> set (nodes (promoted_graph i s t c g)) \<Longrightarrow> n \<notin> set (nodes h) \<Longrightarrow>
      has_label ''Source'' n \<and> silo n = Some s"
  using p cleanup_nodes [OF promoted_graph_inv(1) [OF g]] source_nodes_in [OF promoted_graph_inv(2) [OF g]]
  unfolding promoted_to_def by auto

lemma promote_result:
  assumes run: "promote i s k l e w = (Inr (Some r, evs), w')"
    and fresh: "\<not> already_promoted i s (gr w)"
    and inv: "graph_wf (gr w)" "no_cross_silo (gr w)"
  shows "evs = []" and "3 \<le> pm_corroboration_count r"
    and "n \<in> set (nodes (gr w)) \<Longrightarrow> promotable i s n \<Longrightarrow> \<not> has_label ''Source'' n \<Longrightarrow>
      \<exists>m\<in>set (nodes (gr w')). vid m = vid n \<and> has_label ''Fact'' m \<and>
        str_of (props m ''claim_status'') = Some ''PROMOTED'' \<and>
        num_of (props m ''confidence'') = pm_new_confidence r"
    and "n \<in> set (nodes (gr w)) \<Longrightarrow> \<not> promotable i s n \<Longrightarrow>
      n \<in> set (nodes (gr w')) \<or> has_label ''Source'' n \<and> silo n = Some s"
    and "m \<in> set (nodes (gr w')) \<Longrightarrow> \<not> promotable i s m \<and> vid m \<in> vid ` set (nodes (gr w))"
proof -
  obtain t c n' p where pr: "promotion_of i s k (gr w) (gr w') t c n'" and ev: "evs = []"
    and r: "r = \<lparr>pm_claim_id = p, pm_promoted_at = t, pm_new_confidence = Some (boosted c n'),
                 pm_corroboration_count = n'\<rparr>"
    using wp_promote [of e i s k l w] run fresh by (auto simp: wp_def)
  have to: "promoted_to i s t (boosted c n') (gr w) (gr w')" and th: "3 \<le> n'"
    using pr by (auto simp: promotion_of_def promotable_row_def PROMOTION_THRESHOLD_def)
  note nodes_to = promoted_to_nodes [OF to inv]
  show "evs = []" by (rule ev)
  show "3 \<le> pm_corroboration_count r" using th r by simp
  show "\<exists>m\<in>set (nodes (gr w')). vid m = vid n \<and> has_label ''Fact'' m \<and>
      str_of (props m ''claim_status'') = Some ''PROMOTED'' \<and>
      num_of (props m ''confidence'') = pm_new_confidence r"
    if n: "n \<in> set (nodes (gr w))" "promotable i s n" "\<not> has_label ''Source'' n" for n
  proof -
    define m where "m = n\<lparr>labels := (if has_label ''Fact'' n then labels n else labels n @ [''Fact'']),
            props := (props n)(''claim_status'' \<mapsto> VStr ''PROMOTED'', ''promoted_at'' \<mapsto> VTime t,
              ''confidence'' \<mapsto> VNum (boosted c n'))\<rparr>"
    have "m \<in> set (nodes (promoted_graph i s t (boosted c n') (gr w)))"
      unfolding promoted_nodes set_map by (rule image_eqI [OF _ n(1)]) (simp add: m_def n)
    moreover have "\<not> has_label ''Source'' m" using n(3) by (simp add: m_def has_label_def)
    ultimately have "m \<in> set (nodes (gr w'))" using nodes_to(2) by blast
    then show ?thesis by (rule bexI [rotated]) (simp add: m_def has_label_def r)
  qed
  show "n \<in> set (nodes (gr w')) \<or> has_label ''Source'' n \<and> silo n = Some s"
    if n: "n \<in> set (nodes (gr w))" "\<not> promotable i s n" for n
  proof -
    have "n \<in> set (nodes (promoted_graph i s t (boosted c n') (gr w)))"
      unfolding promoted_nodes set_map by (rule image_eqI [OF _ n(1)]) (simp add: n)
    then show ?thesis using nodes_to(2) by blast
  qed
  show "\<not> promotable i s m \<and> vid m \<in> vid ` set (nodes (gr w))" if m: "m \<in> set (nodes (gr w'))" for m
    using nodes_to(1) [OF m] by (auto simp: promoted_nodes promotable_def)
qed

text \<open>
  a promotion that reports a result did what it says.  It emits nothing, its count is at least
  three, and the confidence it reports is the boosted one; every promotable claim of the id that
  is no source carries the \<open>Fact\<close> label, the status and that confidence, none of the id is left
  promotable, every other node that is no source of the silo is untouched, and nothing is added.
\<close>

theorem promote_effect:
  assumes "promote i s k l e w = (Inr (Some r, evs), w')"
    and "\<not> already_promoted i s (gr w)" and "graph_wf (gr w)" "no_cross_silo (gr w)"
  shows "evs = [] \<and> 3 \<le> pm_corroboration_count r \<and>
    (\<forall>n\<in>set (nodes (gr w)). promotable i s n \<and> \<not> has_label ''Source'' n \<longrightarrow>
      (\<exists>m\<in>set (nodes (gr w')). vid m = vid n \<and> has_label ''Fact'' m \<and>
        str_of (props m ''claim_status'') = Some ''PROMOTED'' \<and>
        num_of (props m ''confidence'') = pm_new_confidence r)) \<and>
    (\<forall>n\<in>set (nodes (gr w)). \<not> promotable i s n \<longrightarrow>
      n \<in> set (nodes (gr w')) \<or> has_label ''Source'' n \<and> silo n = Some s) \<and>
    (\<forall>m\<in>set (nodes (gr w')). \<not> promotable i s m \<and> vid m \<in> vid ` set (nodes (gr w)))"
  using promote_result [OF assms] by blast

lemma ex_graph_inv: "graph_wf ex_graph" "no_cross_silo ex_graph"
  by (auto simp: graph_wf_def no_cross_silo_def ex_graph_def ex_node_defs ex_edge_def)

lemma ex_promote_run:
  "promote (ex_uuid 5) ''s1'' None False ex_env (ex_world ex_graph) =
     (Inr (Some \<lparr>pm_claim_id = ex_uuid 5, pm_promoted_at = 1001, pm_new_confidence = Some 1,
                 pm_corroboration_count = 4\<rparr>, []),
      snd (promote (ex_uuid 5) ''s1'' None False ex_env (ex_world ex_graph)))"
  by (rule returns_run) code_simp

lemma ex_not_promoted: "\<not> already_promoted (ex_uuid 5) ''s1'' ex_graph"
proof -
  have "map cr_claim_status (GET_CLAIM_FOR_PROMOTE (ex_uuid 5) ''s1'' ex_graph) = [Some ''UNPROMOTED'']"
    by code_simp
  then show ?thesis by (auto simp: already_promoted_def)
qed

theorem promote_effect_witness:
  "\<exists>m\<in>set (nodes (gr (snd (promote (ex_uuid 5) ''s1'' None False ex_env (ex_world ex_graph))))).
     vid m = 5 \<and> has_label ''Fact'' m \<and> num_of (props m ''confidence'') = Some 1"
proof -
  have "promotable (ex_uuid 5) ''s1'' ex_claim5" "\<not> has_label ''Source'' ex_claim5" "vid ex_claim5 = 5"
    by (simp_all add: promotable_def is_node_def has_label_def ex_node_defs)
  then show ?thesis
    using promote_effect [OF ex_promote_run] ex_not_promoted ex_graph_inv ex_graph_nodes(3) by fastforce
qed

section \<open>Facts and promoted claims\<close>

text \<open>
  The layer invariant: among the active claims of the graph, the ones labelled \<open>Fact\<close> are exactly
  the promoted ones.
\<close>

definition layer_ok :: "node \<Rightarrow> bool" where
  "layer_ok n \<longleftrightarrow> (has_label ''Claim'' n \<and> pstate n = Some ''ACTIVE'' \<longrightarrow>
     (has_label ''Fact'' n \<longleftrightarrow> str_of (props n ''claim_status'') = Some ''PROMOTED''))"

definition layers_kept :: "graph \<Rightarrow> graph \<Rightarrow> bool" where
  "layers_kept g h \<longleftrightarrow> ((\<forall>n\<in>set (nodes g). layer_ok n) \<longrightarrow> (\<forall>n\<in>set (nodes h). layer_ok n))"

interpretation layers: graph_effect layers_kept
  by unfold_locales (auto simp: layers_kept_def)

lemma layers_writes:
  "layers_kept g (fst (UPDATE_CLAIM_TO_PROMOTED i s t c g))"
  "layers_kept g (fst (UPDATE_FACT_TO_DEMOTED i s t c g))"
  "layers_kept g (fst (CLEANUP_SOURCES i s g))"
  by (auto simp: layers_kept_def UPDATE_CLAIM_TO_PROMOTED_def UPDATE_FACT_TO_DEMOTED_def
      CLEANUP_SOURCES_def detach_delete_def graph_simps layer_ok_def has_label_def)

lemma layers_kept_refl: "layers_kept g g"
  by (simp add: layers_kept_def)

lemma layers_promote: "geffect layers_kept (promote i s k l)"
  unfolding promote_def promote_checked_def cleanup_sources_def need_num_def Let_def
  by (intro effect_intros layers.eff_write layers_writes geffect_weaken [OF verify_graph(2)] layers_kept_refl)

lemma layers_demote: "geffect layers_kept (demote i s b)"
  unfolding demote_def demote_unchanged_def need_num_def Let_def
  by (intro effect_intros layers.eff_write layers_writes)

text \<open>
  promotion and demotion keep the two markers of a fact in step.  If in the whole graph the
  active claims with the label \<open>Fact\<close> are those with the status \<open>PROMOTED\<close>, the same holds after
  a call of either transaction, whichever store calls fail on the way.
\<close>

theorem layers_stay_in_step:
  assumes "\<forall>n\<in>set (nodes (gr w)). layer_ok n"
  shows "(\<forall>n\<in>set (nodes (gr (snd (promote i s k l e w)))). layer_ok n) \<and>
    (\<forall>n\<in>set (nodes (gr (snd (demote j s b e w)))). layer_ok n)"
  using geffectD [OF layers_promote, of w i s k l e] geffectD [OF layers_demote, of w j s b e] assms
  unfolding layers_kept_def by blast

definition ex_layers :: graph where
  "ex_layers = \<lparr>nodes = [ex_claim5, ex_fact2], edges = [], next_vid = 6\<rparr>"

theorem layers_stay_in_step_witness:
  "list_all layer_ok (nodes (gr (snd (promote (ex_uuid 5) ''s1'' None False ex_env (ex_world ex_layers))))) \<and>
   list_all layer_ok (nodes (gr (snd (demote (ex_uuid 2) ''s1'' True ex_env (ex_world ex_layers)))))"
  unfolding list_all_iff
  by (rule layers_stay_in_step) (auto simp: ex_layers_def layer_ok_def has_label_def ex_node_defs)

section \<open>Demotion\<close>

definition demoted_graph :: "string \<Rightarrow> string \<Rightarrow> int \<Rightarrow> real \<Rightarrow> graph \<Rightarrow> graph" where
  "demoted_graph i s t c g = fst (UPDATE_FACT_TO_DEMOTED i s t c g)"

lemma demoted_nodes:
  "nodes (demoted_graph i s t c g) = map (\<lambda>n. if demotable i s n
     then n\<lparr>labels := filter (\<lambda>l. l \<noteq> ''Fact'') (labels n),
            props := (props n)(''claim_status'' \<mapsto> VStr ''UNPROMOTED'', ''demoted_at'' \<mapsto> VTime t,
              ''confidence'' \<mapsto> VNum c)\<rparr> else n) (nodes g)"
  by (simp add: demoted_graph_def UPDATE_FACT_TO_DEMOTED_def graph_simps)

lemma returns_demote:
  "returns e (demote i s b) (\<lambda>(r, evs) v.
      evs = [] \<and> gr v = gr w \<and> emitted v = emitted w \<or>
      evs = [reaction CASCADE_STALENESS i s [(''depth'', VInt 1)]] \<and>
        emitted v = emitted w @ (if b then evs else []) \<and> RECOUNT_CORROBORATION i s (gr w) < 3 \<and>
        (\<exists>t c row rows. GET_FACT_FOR_DEMOTE i s (gr w) = row # rows \<and> cr_confidence row = Some c \<and>
          dm_new_confidence r = Some (lowered c) \<and> gr v = demoted_graph i s t (lowered c) (gr w))) w"
proof (cases "GET_FACT_FOR_DEMOTE i s (gr w)")
  case Nil
  then show ?thesis by (simp add: demote_def wp_simps)
next
  case (Cons row rows)
  show ?thesis
    by (cases "cr_confidence row")
      (auto simp: demote_def demote_unchanged_def wp_simps Cons need_num_def Let_def
        demoted_graph_def PROMOTION_THRESHOLD_def)
qed

text \<open>
  a demotion that returns either did nothing at all, or found fewer than three pieces of
  evidence, and then it asks for exactly one staleness cascade from the fact, takes the \<open>Fact\<close>
  label and the status from every promoted active fact of the id, lowers their confidence by a tenth but
  not below one tenth, and keeps every other node and every edge.
\<close>

theorem demote_effect:
  assumes "demote i s b e w = (Inr (r, evs), w')"
  shows "evs = [] \<and> gr w' = gr w \<or>
    evs = [reaction CASCADE_STALENESS i s [(''depth'', VInt 1)]] \<and>
    emitted w' = emitted w @ (if b then evs else []) \<and>
    RECOUNT_CORROBORATION i s (gr w) < 3 \<and> edges (gr w') = edges (gr w) \<and>
    (\<exists>c. dm_new_confidence r = Some (lowered c) \<and>
      list_all2 (\<lambda>n m. if demotable i s n
          then vid m = vid n \<and> \<not> has_label ''Fact'' m \<and>
               str_of (props m ''claim_status'') = Some ''UNPROMOTED'' \<and>
               num_of (props m ''confidence'') = Some (lowered c)
          else m = n) (nodes (gr w)) (nodes (gr w')))"
proof -
  have d: "list_all2 (\<lambda>n m. if demotable i s n
          then vid m = vid n \<and> \<not> has_label ''Fact'' m \<and>
               str_of (props m ''claim_status'') = Some ''UNPROMOTED'' \<and>
               num_of (props m ''confidence'') = Some c
          else m = n) (nodes g) (nodes (demoted_graph i s t c g))" for t c g
    unfolding demoted_nodes by (auto simp: list_all2_conv_all_nth has_label_def)
  have "edges (demoted_graph i s t c g) = edges g" for t c g
    by (simp add: demoted_graph_def UPDATE_FACT_TO_DEMOTED_def graph_simps)
  note e = this
  from returnsD [OF returns_demote assms, unfolded prod.case] show ?thesis
  proof (elim disjE conjE exE)
    fix t c row rows
    assume "evs = [reaction CASCADE_STALENESS i s [(''depth'', VInt 1)]]"
      and "emitted w' = emitted w @ (if b then evs else [])" "RECOUNT_CORROBORATION i s (gr w) < 3"
      and "dm_new_confidence r = Some (lowered c)" "gr w' = demoted_graph i s t (lowered c) (gr w)"
    then show ?thesis using d [of "lowered c" "gr w" t] e [of t "lowered c" "gr w"]
      by (intro disjI2 conjI exI [of _ c]) (simp_all only:)
  qed simp
qed

lemma ex_demote_run:
  "demote (ex_uuid 2) ''s1'' True ex_env (ex_world ex_graph) =
     (Inr (\<lparr>dm_fact_id = ex_uuid 2, dm_demoted_at = 1002, dm_new_confidence = Some (8 / 10),
            dm_corroboration_count = Some 0\<rparr>,
           [reaction CASCADE_STALENESS (ex_uuid 2) ''s1'' [(''depth'', VInt 1)]]),
      snd (demote (ex_uuid 2) ''s1'' True ex_env (ex_world ex_graph)))"
  by (rule returns_run) code_simp

theorem demote_effect_witness:
  "emitted (snd (demote (ex_uuid 2) ''s1'' True ex_env (ex_world ex_graph))) =
     [reaction CASCADE_STALENESS (ex_uuid 2) ''s1'' [(''depth'', VInt 1)]]"
  using demote_effect [OF ex_demote_run] by (simp add: ex_world_def)

text \<open>
  a demotion undoes a promotion.  Promoting a claim that is not a fact and demoting it again
  gives it back the labels it had and all its properties but the two time stamps and the
  confidence; the confidence stays in the unit interval, a promotion never lowers it, and after
  the round trip it is at least what it was, or nine tenths.
\<close>

theorem promote_demote_roundtrip:
  assumes n: "n \<in> set (nodes g)" "promotable i s n" "\<not> has_label ''Fact'' n"
    and c: "0 \<le> c" "c \<le> 1" and k: "3 \<le> k"
  shows "c \<le> boosted c k \<and> boosted c k \<le> 1 \<and> lowered (boosted c k) \<le> 1 \<and>
    min c (9 / 10) \<le> lowered (boosted c k) \<and>
    (\<exists>m\<in>set (nodes (demoted_graph i s t' (lowered (boosted c k)) (promoted_graph i s t (boosted c k) g))).
       vid m = vid n \<and> labels m = labels n \<and> attrs m = attrs n \<and>
       num_of (props m ''confidence'') = Some (lowered (boosted c k)) \<and>
       (\<forall>x. x \<notin> {''promoted_at'', ''demoted_at'', ''confidence''} \<longrightarrow> props m x = props n x))"
    (is "?A \<and> ?B \<and> ?C \<and> ?D \<and> (\<exists>m\<in>set (nodes ?g). ?P m)")
proof -
  let ?c = "boosted c k" and ?d = "lowered (boosted c k)"
  let ?p = "n\<lparr>labels := labels n @ [''Fact''], props := (props n)(''claim_status'' \<mapsto> VStr ''PROMOTED'',
      ''promoted_at'' \<mapsto> VTime t, ''confidence'' \<mapsto> VNum ?c)\<rparr>"
  let ?m = "?p\<lparr>labels := labels n, props := (props ?p)(''claim_status'' \<mapsto> VStr ''UNPROMOTED'',
      ''demoted_at'' \<mapsto> VTime t', ''confidence'' \<mapsto> VNum ?d)\<rparr>"
  have k': "1 / 10 \<le> 1 / 10 * real_of_int (k - int PROMOTION_THRESHOLD + 1)"
    using k by (simp add: PROMOTION_THRESHOLD_def)
  then have arith: "?A" "?B" "?C" "?D"
    using c unfolding boosted_def lowered_def by linarith+
  have "?p \<in> set (nodes (promoted_graph i s t ?c g))"
    unfolding promoted_nodes set_map by (rule image_eqI [OF _ n(1)]) (simp add: n)
  moreover have "demotable i s ?p"
    using n(2) by (auto simp: promotable_def demotable_def is_node_def has_label_def)
  moreover have "filter (\<lambda>l. l \<noteq> ''Fact'') (labels n) = labels n"
    using n(3) by (intro filter_True) (auto simp: has_label_def)
  ultimately have m: "?m \<in> set (nodes ?g)"
    unfolding demoted_nodes set_map by (intro image_eqI [where x = ?p]) simp_all
  have "props n ''claim_status'' = Some (VStr ''UNPROMOTED'')"
    using n(2) by (simp add: promotable_def)
  then have "?P ?m" by auto
  with m arith show ?thesis by blast
qed

theorem promote_demote_roundtrip_witness:
  "\<exists>m\<in>set (nodes (demoted_graph (ex_uuid 5) ''s1'' 20 (lowered (boosted (9 / 10) 4))
        (promoted_graph (ex_uuid 5) ''s1'' 10 (boosted (9 / 10) 4) ex_graph))).
     labels m = [''Node'', ''Claim''] \<and> num_of (props m ''confidence'') = Some (9 / 10)"
proof -
  have p: "promotable (ex_uuid 5) ''s1'' ex_claim5" "\<not> has_label ''Fact'' ex_claim5"
    by (simp_all add: promotable_def is_node_def has_label_def ex_node_defs)
  have "lowered (boosted (9 / 10) 4) = 9 / 10" "labels ex_claim5 = [''Node'', ''Claim'']"
    by (simp_all add: lowered_def boosted_def PROMOTION_THRESHOLD_def ex_node_defs)
  then show ?thesis
    using promote_demote_roundtrip [OF ex_graph_nodes(3) p, of "9 / 10" 4 20 10] by fastforce
qed

end
