(* ===== verification/TxWisdomCorrect.thy ===== *)
theory TxWisdomCorrect
  imports TxWisdom Examples
begin

text \<open>
  What the wisdom transactions guarantee: commitments are about existing nodes and all or
  nothing, a hypothesis crystallizes once, proposals are accepted once and only with enough
  sources, and the revision of a belief never leaves it locked.
\<close>

section \<open>Commitments\<close>

lemma wp_validate_about_refs:
  "wp e (validate_about_refs refs s) (\<lambda>_ v. gr v = gr w)
     (\<lambda>r v. gr v = gr w \<and> (r = None \<longrightarrow> refs \<noteq> [] \<and>
        (\<forall>i\<in>set refs. \<exists>n\<in>set (nodes (gr w)). is_node i s n) \<and>
        (\<forall>i\<in>set refs. \<forall>n\<in>set (nodes (gr w)). is_node i s n \<longrightarrow> pstate n \<noteq> Some ''TOMBSTONED''))) w"
proof -
  let ?rows = "VALIDATE_ABOUT_REFS refs s (gr w)"
  have f: "\<exists>n\<in>set (nodes (gr w)). is_node i s n"
    if "filter (\<lambda>i. i \<notin> set (map fst ?rows)) refs = []" "i \<in> set refs" for i
  proof -
    have "i \<in> set (map fst ?rows)" using that by (auto simp: filter_empty_conv)
    then show ?thesis by (auto simp: VALIDATE_ABOUT_REFS_def match_id_iff is_node_def)
  qed
  have t: False
    if "filter (\<lambda>r. snd r = Some ''TOMBSTONED'') ?rows = []" "i \<in> set refs" "n \<in> set (nodes (gr w))"
      "is_node i s n" "props n ''state'' = Some (VStr ''TOMBSTONED'')" for i n
  proof -
    have "(nid n, pstate n) \<in> set ?rows"
      using that(2-4) unfolding VALIDATE_ABOUT_REFS_def set_concat set_map
      by (intro UN_I [of "map (\<lambda>n. (nid n, pstate n)) (match_id (gr w) i s)"])
        (auto simp: match_id_iff is_node_def)
    with that(1,5) show ?thesis by (auto simp: filter_empty_conv)
  qed
  show ?thesis
    unfolding validate_about_refs_def
    by (auto simp: wp_simps Let_def simp del: set_map intro: f dest: t)
qed

lemma wp_enforce_ncb:
  "wp e (enforce_ncb is s) (\<lambda>_ v. gr v = gr w)
     (\<lambda>_ v. gr v = gr w \<and> (ncb_enforcement_enabled e \<and> is \<noteq> [] \<longrightarrow> FIND_NCB_CONFLICTS is s (gr w) = [])) w"
  by (auto simp: enforce_ncb_def check_ncb_before_write_def wp_simps)

text \<open>What \<open>CREATE_COMMITMENT_WITH_ABOUT\<close> leaves in the graph.\<close>

lemma declare_edges:
  "edges (fold (\<lambda>_. add_edges t ps [c] as) ts g) =
     edges g @ concat (map (\<lambda>_. map (\<lambda>a. \<lparr>esrc = vid c, edst = vid a, etype = t, eprops = ps\<rparr>) as) ts)"
  "nodes (fold (\<lambda>_. add_edges t ps [c] as) ts g) = nodes g"
  by (induction ts arbitrary: g) (auto simp: graph_simps add_edges_def)

lemma merge_agent_facts:
  "edges (merge_agent i g) = edges g" "n \<in> set (nodes g) \<Longrightarrow> n \<in> set (nodes (merge_agent i g))"
  "agents_with_id (merge_agent i g) i \<noteq> []"
  by (auto simp: merge_agent_def graph_simps) (auto simp: add_node_def agents_with_id_def has_label_def)

definition commitment_in ::
  "string \<Rightarrow> string \<Rightarrow> string list \<Rightarrow> string \<Rightarrow> pymap \<Rightarrow> graph \<Rightarrow> graph \<Rightarrow> bool" where
  "commitment_in i s refs agent ps g h \<longleftrightarrow> (\<exists>c\<in>set (nodes h). nid c = i \<and> silo c = Some s \<and>
     has_label ''Commitment'' c \<and> props c = ps \<and> vid c = next_vid g \<and>
     (\<forall>r\<in>set refs. \<forall>n\<in>set (nodes g). is_node r s n \<longrightarrow>
        (\<exists>d\<in>set (edges h). esrc d = vid c \<and> edst d = vid n \<and> etype d = ''ABOUT'')) \<and>
     (refs \<noteq> [] \<longrightarrow> (\<exists>a\<in>set (nodes h). has_label ''Agent'' a \<and> nid a = agent \<and>
        (\<exists>d\<in>set (edges h). esrc d = vid c \<and> edst d = vid a \<and> etype d = ''DECLARED_BY''))))"

lemma commitment_created:
  assumes "\<forall>r\<in>set refs. \<exists>n\<in>set (nodes g). is_node r s n"
  shows "commitment_in i s refs ag ps g (fst (CREATE_COMMITMENT_WITH_ABOUT i s x t ps refs ag g))"
proof -
  let ?fs = "[''created_at'' \<mapsto> VTime t](''content'' := map_option VStr x)"
  let ?c = "\<lparr>vid = next_vid g, labels = [''Node'', ''Commitment''], nid = i, silo = Some s,
      attrs = ?fs, props = ps\<rparr>"
  let ?g1 = "add_node [''Node'', ''Commitment''] i (Some s) ?fs ps g"
  define ts where "ts = concat (map (\<lambda>a. match_id ?g1 a s) refs)"
  define g2 where "g2 = add_edges ''ABOUT'' Map.empty [?c] ts ?g1"
  let ?g3 = "merge_agent ag g2"
  let ?h = "fst (CREATE_COMMITMENT_WITH_ABOUT i s x t ps refs ag g)"
  have n1: "n \<in> set (nodes ?g1)" if "n \<in> set (nodes g)" for n
    using that by (simp add: add_node_def)
  have c1: "?c \<in> set (nodes g2)" by (simp add: g2_def add_node_def graph_simps)
  have h: "?h = (if ts = [] then g2 else fold (\<lambda>_. add_edges ''DECLARED_BY''
      [''created_at'' \<mapsto> VTime t] [?c] (agents_with_id ?g3 ag)) ts ?g3)"
    by (simp add: CREATE_COMMITMENT_WITH_ABOUT_def Let_def ts_def g2_def del: concat_eq_Nil_conv)
  have nodes2: "n \<in> set (nodes g2) \<Longrightarrow> n \<in> set (nodes ?h)" for n
    unfolding h by (simp add: declare_edges merge_agent_facts)
  have edges2: "d \<in> set (edges g2) \<Longrightarrow> d \<in> set (edges ?h)" for d
    unfolding h by (simp add: declare_edges merge_agent_facts)
  have in_ts: "n \<in> set ts" if "r \<in> set refs" "n \<in> set (nodes g)" "is_node r s n" for r n
    using that n1 by (auto simp: ts_def match_id_def)
  have about: "\<exists>d\<in>set (edges ?h). esrc d = vid ?c \<and> edst d = vid n \<and> etype d = ''ABOUT''"
    if "r \<in> set refs" "n \<in> set (nodes g)" "is_node r s n" for r n
  proof -
    let ?d = "\<lparr>esrc = vid ?c, edst = vid n, etype = ''ABOUT'', eprops = Map.empty\<rparr>"
    have "?d \<in> set (edges g2)" using in_ts [OF that] by (auto simp: g2_def add_edges_def)
    from edges2 [OF this] show ?thesis by (rule bexI [rotated]) simp
  qed
  have declared: "\<exists>a\<in>set (nodes ?h). has_label ''Agent'' a \<and> nid a = ag \<and>
        (\<exists>d\<in>set (edges ?h). esrc d = vid ?c \<and> edst d = vid a \<and> etype d = ''DECLARED_BY'')"
    if "refs \<noteq> []"
  proof -
    from that obtain r where r: "r \<in> set refs" by (cases refs) auto
    with assms obtain n where "n \<in> set (nodes g)" "is_node r s n" by blast
    with in_ts r have tn: "n \<in> set ts" by blast
    then have ne: "ts \<noteq> []" by (metis empty_iff empty_set)
    obtain a where a: "a \<in> set (agents_with_id ?g3 ag)"
      using merge_agent_facts(3) [of ag g2] by (cases "agents_with_id ?g3 ag") auto
    let ?d = "\<lparr>esrc = vid ?c, edst = vid a, etype = ''DECLARED_BY'', eprops = [''created_at'' \<mapsto> VTime t]\<rparr>"
    have hh: "?h = fold (\<lambda>_. add_edges ''DECLARED_BY'' [''created_at'' \<mapsto> VTime t] [?c]
        (agents_with_id ?g3 ag)) ts ?g3" using h ne by simp
    have "?d \<in> set (edges ?h)"
      unfolding hh declare_edges using ne a by (auto split: if_splits)
    moreover have "a \<in> set (nodes ?h)"
      unfolding hh declare_edges using a by (simp add: agents_with_id_def)
    ultimately show ?thesis using a by (intro bexI [of _ a]) (auto simp: agents_with_id_def intro: bexI [of _ ?d])
  qed
  show ?thesis unfolding commitment_in_def
    by (rule bexI [OF _ nodes2 [OF c1]]) (use about declared in \<open>auto simp: has_label_def\<close>)
qed

lemma wp_commit:
  "wp e (commit x refs s a c md b) (\<lambda>_ v. gr v = gr w)
     (\<lambda>(r, evs) v. (refs \<noteq> [] \<and> (\<forall>i\<in>set refs. \<exists>n\<in>set (nodes (gr w)). is_node i s n) \<and>
        (\<forall>i\<in>set refs. \<forall>n\<in>set (nodes (gr w)). is_node i s n \<longrightarrow> pstate n \<noteq> Some ''TOMBSTONED'')) \<and>
      (ncb_enforcement_enabled e \<longrightarrow> FIND_NCB_CONFLICTS refs s (gr w) = []) \<and>
      (\<exists>t. gr v = fst (CREATE_COMMITMENT_WITH_ABOUT (co_commitment_id r) s (Some x) t
                        (commitment_props c a ++ map_of md) refs a (gr w)))) w" (is "wp e _ ?E ?Q w")
proof -
  let ?ok = "refs \<noteq> [] \<and> (\<forall>i\<in>set refs. \<exists>n\<in>set (nodes (gr w)). is_node i s n) \<and>
        (\<forall>i\<in>set refs. \<forall>n\<in>set (nodes (gr w)). is_node i s n \<longrightarrow> pstate n \<noteq> Some ''TOMBSTONED'')"
  have rest: "wp e (tbind new_uuid (\<lambda>i. tbind datetime_now (\<lambda>t.
       tbind (execute_write (CREATE_COMMITMENT_WITH_ABOUT i s (Some x) t
                (commitment_props c a ++ map_of md) refs a)) (\<lambda>_.
       tbind (sync_to_postgres i (wisdom_row s x)) (\<lambda>_.
       let events = access_events i s ''WRITE'' in tbind (emit_all b events) (\<lambda>_.
       ret (\<lparr>co_commitment_id = i, co_created_at = t, co_confidence = c\<rparr>, events))))))) ?E ?Q v"
    if v: "gr v = gr w" "?ok" "ncb_enforcement_enabled e \<longrightarrow> FIND_NCB_CONFLICTS refs s (gr w) = []" for v
    using v by (auto simp: wp_simps Let_def intro!: wp_sync)
  show ?thesis
    unfolding commit_def wp_bind
  proof (rule wp_mono [OF wp_validate_about_refs], goal_cases)
    case (2 r v)
    show ?case
    proof (cases r)
      case None
      with 2 show ?thesis unfolding None option.case wp_ret
        by (intro wp_mono [OF wp_enforce_ncb]) (use rest [unfolded wp_bind] in auto)
    qed (use 2 in \<open>simp add: wp_simps\<close>)
  qed simp
qed

text \<open>
  a commitment that returns is about something.  Its references are not empty, each is a node
  of the silo that is not tombstoned, and when the neighbourhood check is on none of them has an
  active contradiction; the new commitment has an \<open>ABOUT\<close> edge to every node it refers to and a
  \<open>DECLARED_BY\<close> edge to its agent (INV7).  A commitment that raises, for whatever reason, leaves
  the graph as it was.
\<close>

theorem commit_all_or_nothing:
  "case commit x refs s a c md b e w of
     (Inl err, w') \<Rightarrow> gr w' = gr w
   | (Inr (r, evs), w') \<Rightarrow> refs \<noteq> [] \<and>
       (\<forall>i\<in>set refs. (\<exists>n\<in>set (nodes (gr w)). is_node i s n) \<and>
          (\<forall>n\<in>set (nodes (gr w)). is_node i s n \<longrightarrow> pstate n \<noteq> Some ''TOMBSTONED'')) \<and>
       (ncb_enforcement_enabled e \<longrightarrow> FIND_NCB_CONFLICTS refs s (gr w) = []) \<and>
       commitment_in (co_commitment_id r) s refs a (commitment_props c a ++ map_of md) (gr w) (gr w')"
proof (cases "commit x refs s a c md b e w")
  case (Pair res w')
  show ?thesis
  proof (cases res)
    case (Inl err)
    with Pair show ?thesis using wp_commit [of e x refs s a c md b w] by (simp add: wp_def)
  next
    case (Inr p)
    obtain r evs where p: "p = (r, evs)" by (cases p)
    from Pair Inr p wp_commit [of e x refs s a c md b w]
    have ok: "refs \<noteq> []" "\<forall>i\<in>set refs. \<exists>n\<in>set (nodes (gr w)). is_node i s n"
      "\<forall>i\<in>set refs. \<forall>n\<in>set (nodes (gr w)). is_node i s n \<longrightarrow> pstate n \<noteq> Some ''TOMBSTONED''"
      "ncb_enforcement_enabled e \<longrightarrow> FIND_NCB_CONFLICTS refs s (gr w) = []"
      and g: "\<exists>t. gr w' = fst (CREATE_COMMITMENT_WITH_ABOUT (co_commitment_id r) s (Some x) t
                        (commitment_props c a ++ map_of md) refs a (gr w))"
      by (simp_all add: wp_def)
    from g commitment_created [OF ok(2)]
    have "commitment_in (co_commitment_id r) s refs a (commitment_props c a ++ map_of md) (gr w) (gr w')"
      by auto
    with Pair Inr p ok show ?thesis by simp
  qed
qed

lemma ex_commit_run:
  "commit ''x'' [ex_uuid 5] ''s1'' ''agent'' (8 / 10) [] True ex_env (ex_world ex_graph) =
     (Inr (\<lparr>co_commitment_id = ex_uuid 2, co_created_at = 1003, co_confidence = 8 / 10\<rparr>,
           access_events (ex_uuid 2) ''s1'' ''WRITE''),
      snd (commit ''x'' [ex_uuid 5] ''s1'' ''agent'' (8 / 10) [] True ex_env (ex_world ex_graph)))"
  by (rule returns_run) code_simp

theorem commit_all_or_nothing_witness:
  "commitment_in (ex_uuid 2) ''s1'' [ex_uuid 5] ''agent'' (commitment_props (8 / 10) ''agent'' ++ map_of [])
     ex_graph (gr (snd (commit ''x'' [ex_uuid 5] ''s1'' ''agent'' (8 / 10) [] True ex_env (ex_world ex_graph))))"
  using commit_all_or_nothing [where x = "''x''" and refs = "[ex_uuid 5]" and s = "''s1''" and
      a = "''agent''" and c = "8 / 10" and md = "[]" and b = True and e = ex_env and w = "ex_world ex_graph"]
  by (subst (asm) ex_commit_run) simp

section \<open>Hypotheses\<close>

lemma crystallized_marks:
  assumes "match_id g c s \<noteq> []" "n \<in> set (nodes (fst (CREATE_CRYSTALLIZED_FROM_EDGE c h s t g)))"
    and "is_node h s n"
  shows "attrs n ''crystallized'' = Some (VBool True)"
proof -
  define f where "f = (\<lambda>n. set_field ''crystallized_into'' (Some (VStr c)) (set_field ''crystallized'' (Some (VBool True)) n))"
  have "nodes (fst (CREATE_CRYSTALLIZED_FROM_EDGE c h s t g)) = nodes (update_where (is_node h s) f g)"
    using assms(1) by (simp add: CREATE_CRYSTALLIZED_FROM_EDGE_def graph_simps f_def)
  with assms(2) have "n \<in> set (nodes (update_where (is_node h s) f g))" by simp
  then show ?thesis by (rule update_whereE) (use assms(3) in \<open>simp_all add: f_def set_field_def\<close>)
qed

lemma returns_crystallize:
  "returns e (crystallize h s a ss b)
     (\<lambda>r v. \<forall>n\<in>set (nodes (gr v)). is_node h s n \<longrightarrow> attrs n ''crystallized'' = Some (VBool True)) w"
proof -
  let ?P = "\<lambda>v. \<forall>n\<in>set (nodes (gr v)). is_node h s n \<longrightarrow> attrs n ''crystallized'' = Some (VBool True)"
  have new: "match_id (fst (CREATE_COMMITMENT_WITH_ABOUT i s c t ps refs ag g)) i s \<noteq> []" for i c t ps refs ag g
  proof -
    let ?h = "fst (CREATE_COMMITMENT_WITH_ABOUT i s c t ps refs ag g)"
    let ?n = "\<lparr>vid = next_vid g, labels = [''Node'', ''Commitment''], nid = i, silo = Some s,
      attrs = [''created_at'' \<mapsto> VTime t](''content'' := map_option VStr c), props = ps\<rparr>"
    have "?n \<in> set (nodes ?h)"
      by (simp add: CREATE_COMMITMENT_WITH_ABOUT_def Let_def declare_edges graph_simps merge_agent_facts
          add_node_def del: concat_eq_Nil_conv)
    then have "?n \<in> set (match_id ?h i s)" by (simp add: match_id_iff)
    then show ?thesis by (metis empty_iff empty_set)
  qed
  have w: "returns e (crystallize_write h s a c x refs) (\<lambda>_. ?P) v" for c x refs v
    unfolding crystallize_write_def
    by (intro returns_intros) (use crystallized_marks [OF new] in auto)
  have rest: "returns e (crystallize_write h s a c x refs)
      (\<lambda>p. returns e (case p of (i, t) \<Rightarrow> tbind (parse_uuid h) (\<lambda>u.
         let events = access_events i s ''WRITE'' in tbind (emit_all b events) (\<lambda>_.
         ret (\<lparr>cy_commitment_id = i, cy_hypothesis_id = u, cy_created_at = t, cy_confidence = x\<rparr>,
              events)))) (\<lambda>_. ?P)) v" for c x refs v
    by (rule wp_mono [OF w]) (auto simp: wp_simps Let_def split: prod.splits)
  show ?thesis
    unfolding crystallize_def validate_hypothesis_def to_float_def
    by (auto simp: wp_simps split: list.split option.split intro!: rest [unfolded Let_def wp_bind] simp: Let_def)
qed

text \<open>
  a hypothesis crystallizes once.  After a call of \<open>crystallize\<close> that returned, a further call
  for the same hypothesis (by any agent, in any session) does not return, and it leaves the graph
  as it was.
\<close>

theorem crystallize_once:
  assumes "crystallize h s a ss b e w = (Inr r, w')" and "gr w2 = gr w'"
  shows "\<exists>err w3. crystallize h s a' ss' b' e' w2 = (Inl err, w3) \<and> gr w3 = gr w'"
proof -
  have "\<forall>n\<in>set (nodes (gr w2)). is_node h s n \<longrightarrow> attrs n ''crystallized'' = Some (VBool True)"
    using returnsD [OF returns_crystallize assms(1)] assms(2) by simp
  then have "\<forall>row\<in>set (case ss' of Some session \<Rightarrow> GET_HYPOTHESIS_FOR_CRYSTALLIZE h s session (gr w2)
         | None \<Rightarrow> GET_HYPOTHESIS_BY_ID h s (gr w2)). hy_crystallized row"
    by (auto simp: GET_HYPOTHESIS_FOR_CRYSTALLIZE_def GET_HYPOTHESIS_BY_ID_def match_label_id_def
        match_id_def hypothesis_row_of_def split: option.split)
  then have "wp e' (crystallize h s a' ss' b') (\<lambda>_ v. gr v = gr w2) (\<lambda>_ _. False) w2"
    unfolding crystallize_def validate_hypothesis_def wp_bind
    by (cases ss') (auto simp: wp_simps split: list.split)
  then show ?thesis using assms(2)
    by (auto simp: wp_def split: prod.splits sum.splits)
qed

definition ex_hypothesis :: graph where
  "ex_hypothesis = \<lparr>nodes = [ex_claim5,
      \<lparr>vid = 7, labels = [''WorkingHypothesis''], nid = ex_uuid 7, silo = Some ''s1'',
       attrs = [''content'' \<mapsto> VStr ''h'', ''confidence'' \<mapsto> VNum (7 / 10)], props = Map.empty\<rparr>],
     edges = [ex_edge 7 5 ''ABOUT''], next_vid = 8\<rparr>"

lemma ex_crystallize_run:
  "crystallize (ex_uuid 7) ''s1'' ''agent'' None True ex_env (ex_world ex_hypothesis) =
     (Inr (\<lparr>cy_commitment_id = ex_uuid 2, cy_hypothesis_id = ex_uuid 7, cy_created_at = 1003,
            cy_confidence = 7 / 10\<rparr>, access_events (ex_uuid 2) ''s1'' ''WRITE''),
      snd (crystallize (ex_uuid 7) ''s1'' ''agent'' None True ex_env (ex_world ex_hypothesis)))"
  by (rule returns_run) code_simp

theorem crystallize_once_witness:
  "\<exists>err w3. crystallize (ex_uuid 7) ''s1'' ''other'' None True ex_env
      (snd (crystallize (ex_uuid 7) ''s1'' ''agent'' None True ex_env (ex_world ex_hypothesis))) = (Inl err, w3)"
  using crystallize_once [OF ex_crystallize_run refl] by blast

section \<open>Proposals\<close>

text \<open>The graphs an acceptance can leave: with or without a reason to record.\<close>

definition accepted_graph :: "string \<Rightarrow> string \<Rightarrow> int \<Rightarrow> real option \<Rightarrow> graph \<Rightarrow> graph" where
  "accepted_graph p s t oc g = fst (ACCEPT_PENDING_BELIEF p s t oc g)"

definition accepted_to :: "string \<Rightarrow> string \<Rightarrow> string \<Rightarrow> real option \<Rightarrow> graph \<Rightarrow> graph \<Rightarrow> bool" where
  "accepted_to p s a oc g h \<longleftrightarrow> (\<exists>t. h = accepted_graph p s t oc g \<or>
     (\<exists>i r. h = fst (SET_ACCEPTANCE i s r a (accepted_graph p s t oc g))))"

lemma accepted_toI:
  "accepted_to p s a oc g (fst (ACCEPT_PENDING_BELIEF p s t oc g))"
  "accepted_to p s a oc g (fst (SET_ACCEPTANCE i s r a (fst (ACCEPT_PENDING_BELIEF p s t oc g))))"
  unfolding accepted_to_def accepted_graph_def by blast+

lemma returns_accept_write:
  "returns e (accept_write p s a row reason oc b) (\<lambda>_ v. accepted_to p s a oc (gr w) (gr v)) w"
  unfolding accept_write_def to_float_def
  by (auto simp: wp_simps Let_def accepted_toI split: list.split option.split intro!: wp_sync)

lemma returns_accept_checks:
  "returns e (accept_checks row s) (\<lambda>_ v. gr v = gr w \<and> pr_status row = Some ''pending'' \<and>
      3 \<le> length (pr_sources row)) w"
  unfolding accept_checks_def SYNTHESIS_THRESHOLD_def
  by (auto simp: wp_simps intro: wp_mono [OF wp_enforce_ncb])

definition accepted_from :: "string \<Rightarrow> string \<Rightarrow> graph \<Rightarrow> proposal_row \<Rightarrow> bool" where
  "accepted_from p s g row \<longleftrightarrow> (\<exists>rows. GET_PENDING_BELIEF p s g = row # rows) \<and>
     pr_status row = Some ''pending'' \<and> 3 \<le> length (pr_sources row)"

lemma returns_accept_proposal:
  "returns e (accept_proposal p s a reason oc b) (\<lambda>(r, evs) v. evs \<noteq> [] \<longrightarrow>
     accepted_to p s a oc (gr w) (gr v) \<and> (\<exists>row. accepted_from p s (gr w) row)) w"
proof (cases "GET_PENDING_BELIEF p s (gr w)")
  case Nil
  then show ?thesis by (simp add: accept_proposal_def wp_simps)
next
  case (Cons row rows)
  let ?Q = "\<lambda>(r, evs) v. evs \<noteq> [] \<longrightarrow>
     accepted_to p s a oc (gr w) (gr v) \<and> (\<exists>row. accepted_from p s (gr w) row)"
  have old: "returns e (accepted_before p s) ?Q v" for v
    unfolding accepted_before_def to_float_def
    by (auto simp: wp_simps split: list.split option.split)
  have new: "returns e (accept_write p s a row reason oc b) ?Q v"
    if "gr v = gr w" "pr_status row = Some ''pending''" "3 \<le> length (pr_sources row)" for v
    by (rule wp_mono [OF returns_accept_write]) (use that Cons in \<open>auto simp: accepted_from_def\<close>)
  have "returns e (tbind (accept_checks row s) (\<lambda>_. accept_write p s a row reason oc b)) ?Q v"
    if "gr v = gr w" for v
    unfolding wp_bind by (rule wp_mono [OF returns_accept_checks]) (use that new in auto)
  with old show ?thesis
    unfolding accept_proposal_def by (simp add: wp_bind wp_store Cons)
qed

lemma accept_props_kept:
  "labels (accept_props t oc n) = labels n" "nid (accept_props t oc n) = nid n"
  "silo (accept_props t oc n) = silo n" "vid (accept_props t oc n) = vid n"
  "attrs (accept_props t oc n) ''status'' = Some (VStr ''active'')"
  by (simp_all add: accept_props_def)

lemma accepted_to_facts:
  assumes "accepted_to p s a oc g h"
  shows "edges h = edges g" "map vid (nodes h) = map vid (nodes g)" "map nid (nodes h) = map nid (nodes g)"
    and "n \<in> set (nodes h) \<Longrightarrow> \<not> pending_belief p s n"
    and "map (\<lambda>n. str_of (attrs n ''status'')) (match_label_id h l i s') =
      map (\<lambda>n. if pending_belief p s n then Some ''active'' else str_of (attrs n ''status'')) (match_label_id g l i s')"
proof -
  obtain t where t: "h = accepted_graph p s t oc g \<or> (\<exists>i r. h = fst (SET_ACCEPTANCE i s r a (accepted_graph p s t oc g)))"
    using assms by (auto simp: accepted_to_def)
  let ?k = "accepted_graph p s t oc g"
  have k: "?k = update_where (pending_belief p s) (accept_props t oc) g"
    by (simp add: accepted_graph_def ACCEPT_PENDING_BELIEF_def)
  have np: "\<not> pending_belief p s n" if "n \<in> set (nodes ?k)" for n
    using that unfolding k
    by (rule update_whereE) (auto simp: pending_belief_def accept_props_kept)
  have base: "edges ?k = edges g" "map vid (nodes ?k) = map vid (nodes g)" "map nid (nodes ?k) = map nid (nodes g)"
    "map (\<lambda>n. str_of (attrs n ''status'')) (match_label_id ?k l i s') =
      map (\<lambda>n. if pending_belief p s n then Some ''active'' else str_of (attrs n ''status'')) (match_label_id g l i s')"
    unfolding k by (simp_all add: graph_simps match_label_id_update accept_props_kept)
  define f where "f r = (\<lambda>n. set_field ''accepted_by'' (Some (VStr a))
      (set_field ''acceptance_reason'' (Some (VStr r)) n))" for r
  have kept: "labels (f r n) = labels n" "nid (f r n) = nid n" "silo (f r n) = silo n" "vid (f r n) = vid n"
    "attrs (f r n) ''status'' = attrs n ''status''" for r n
    by (simp_all add: f_def set_field_def)
  have m: "fst (SET_ACCEPTANCE i s r a ?k) = update_where (is_belief i s) (f r) ?k" for i r
    by (simp add: SET_ACCEPTANCE_def f_def)
  have np': "\<not> pending_belief p s n" if n: "n \<in> set (nodes (update_where (is_belief i s) (f r) ?k))" for i r n
    using n by (rule update_whereE)
      (use np in \<open>auto simp: pending_belief_def kept is_node_def has_label_def\<close>)
  have more: "edges (update_where (is_belief j s) (f r) ?k) = edges ?k"
    "map vid (nodes (update_where (is_belief j s) (f r) ?k)) = map vid (nodes ?k)"
    "map nid (nodes (update_where (is_belief j s) (f r) ?k)) = map nid (nodes ?k)"
    "map (\<lambda>n. str_of (attrs n ''status'')) (match_label_id (update_where (is_belief j s) (f r) ?k) l i s') =
     map (\<lambda>n. str_of (attrs n ''status'')) (match_label_id ?k l i s')" for j r
    by (simp_all add: graph_simps match_label_id_update kept)
  show "edges h = edges g" "map vid (nodes h) = map vid (nodes g)" "map nid (nodes h) = map nid (nodes g)"
    "map (\<lambda>n. str_of (attrs n ''status'')) (match_label_id h l i s') =
      map (\<lambda>n. if pending_belief p s n then Some ''active'' else str_of (attrs n ''status'')) (match_label_id g l i s')"
    using t base more unfolding m by (metis (no_types, lifting))+
  show "n \<in> set (nodes h) \<Longrightarrow> \<not> pending_belief p s n" using t np np' unfolding m by blast
qed

text \<open>
  a proposal is accepted only when it is pending and derived from at least three facts
  (INV3).  An acceptance adds no node and no edge: it only turns every pending belief of the id
  into one that is not pending, so the identifier it reports, a fresh one, names a node of the
  graph only if one had it before.
\<close>

theorem accept_proposal_effect:
  assumes "accept_proposal p s a reason oc b e w = (Inr (r, evs), w')" and "evs \<noteq> []"
  shows "(\<exists>n\<in>set (nodes (gr w)). is_node p s n \<and> has_label ''Belief'' n \<and>
       str_of (attrs n ''status'') = Some ''pending'' \<and>
       3 \<le> length (filter (has_label ''Fact'') (out_nodes (gr w) ''SYNTHESIZED_FROM'' n))) \<and>
    edges (gr w') = edges (gr w) \<and> map vid (nodes (gr w')) = map vid (nodes (gr w)) \<and>
    map nid (nodes (gr w')) = map nid (nodes (gr w)) \<and>
    (\<forall>n\<in>set (nodes (gr w')). \<not> pending_belief p s n) \<and>
    (ap_belief_id r \<notin> nid ` set (nodes (gr w)) \<longrightarrow> ap_belief_id r \<notin> nid ` set (nodes (gr w')))"
proof -
  from returnsD [OF returns_accept_proposal assms(1)] assms(2)
  obtain row where to: "accepted_to p s a oc (gr w) (gr w')" and "accepted_from p s (gr w) row" by auto
  then obtain rows where row: "GET_PENDING_BELIEF p s (gr w) = row # rows"
    "pr_status row = Some ''pending''" "3 \<le> length (pr_sources row)"
    by (auto simp: accepted_from_def)
  obtain n ns where n: "match_label_id (gr w) ''Belief'' p s = n # ns"
    using row(1) by (cases "match_label_id (gr w) ''Belief'' p s") (simp_all add: GET_PENDING_BELIEF_def)
  then have "n \<in> set (match_label_id (gr w) ''Belief'' p s)" by simp
  then have "n \<in> set (nodes (gr w))" "is_node p s n" "has_label ''Belief'' n"
    by (auto simp: match_label_id_def match_id_def)
  moreover have "str_of (attrs n ''status'') = Some ''pending''"
    "3 \<le> length (filter (has_label ''Fact'') (out_nodes (gr w) ''SYNTHESIZED_FROM'' n))"
    using row n by (auto simp: GET_PENDING_BELIEF_def)
  moreover have "nid ` set (nodes (gr w')) = nid ` set (nodes (gr w))"
    by (metis accepted_to_facts(3) [OF to] set_map)
  ultimately show ?thesis using accepted_to_facts(1-4) [OF to] by blast
qed

text \<open>
  a proposal is accepted once.  After an acceptance a second call for the same proposal does
  not return, whoever makes it, and it changes nothing; without a failing store call it is refused
  with \<open>INVALID_STATUS\<close>, because the first call set the status \<open>active\<close> and the branch for
  accepted proposals asks for \<open>accepted\<close>.
\<close>

theorem accept_proposal_once:
  assumes "accept_proposal p s a reason oc b e w = (Inr (r, evs), w')" and "evs \<noteq> []" and "gr w2 = gr w'"
  shows "\<exists>err w3. accept_proposal p s a' reason' oc' b' e' w2 = (Inl err, w3) \<and> gr w3 = gr w' \<and>
    (\<not> fault e' (tick w2) \<longrightarrow> err = InvariantViolation ''INVALID_STATUS'')"
proof -
  from returnsD [OF returns_accept_proposal assms(1)] assms(2)
  obtain row where to: "accepted_to p s a oc (gr w) (gr w')" and "accepted_from p s (gr w) row" by auto
  then obtain rows where row: "GET_PENDING_BELIEF p s (gr w) = row # rows" "pr_status row = Some ''pending''"
    by (auto simp: accepted_from_def)
  obtain n ns where n: "match_label_id (gr w) ''Belief'' p s = n # ns"
    using row(1) by (cases "match_label_id (gr w) ''Belief'' p s") (simp_all add: GET_PENDING_BELIEF_def)
  then have "n \<in> set (match_label_id (gr w) ''Belief'' p s)" by simp
  then have pend: "pending_belief p s n"
    using row n by (auto simp: match_label_id_def match_id_def pending_belief_def GET_PENDING_BELIEF_def)
  have "map (\<lambda>n. str_of (attrs n ''status'')) (match_label_id (gr w') ''Belief'' p s) =
      Some ''active'' # map (\<lambda>n. if pending_belief p s n then Some ''active'' else str_of (attrs n ''status'')) ns"
    unfolding accepted_to_facts(5) [OF to] n using pend by simp
  then obtain m ms where m: "match_label_id (gr w') ''Belief'' p s = m # ms"
    "str_of (attrs m ''status'') = Some ''active''"
    by (cases "match_label_id (gr w') ''Belief'' p s") auto
  then have "\<exists>row2 rows2. GET_PENDING_BELIEF p s (gr w2) = row2 # rows2 \<and> pr_status row2 = Some ''active''"
    using assms(3) by (simp add: GET_PENDING_BELIEF_def)
  then have "wp e' (accept_proposal p s a' reason' oc' b') (\<lambda>err v. gr v = gr w2 \<and>
      (\<not> fault e' (tick w2) \<longrightarrow> err = InvariantViolation ''INVALID_STATUS'')) (\<lambda>_ _. False) w2"
    by (auto simp: accept_proposal_def accept_checks_def wp_simps)
  then show ?thesis using assms(3)
    by (auto simp: wp_def split: prod.splits sum.splits)
qed

definition ex_proposal :: graph where
  "ex_proposal = ex_graph\<lparr>nodes := ex_belief1\<lparr>attrs := [''status'' \<mapsto> VStr ''pending'',
      ''content'' \<mapsto> VStr ''b'', ''confidence'' \<mapsto> VNum (9 / 10)]\<rparr> # tl (nodes ex_graph)\<rparr>"

lemma ex_accept_run:
  "accept_proposal (ex_uuid 1) ''s1'' ''agent'' None None True ex_env (ex_world ex_proposal) =
     (Inr (\<lparr>ap_belief_id = ex_uuid 3, ap_proposal_id = ex_uuid 1, ap_accepted_at = 1002,
            ap_confidence = 9 / 10\<rparr>, accept_events (ex_uuid 3) ''s1''),
      snd (accept_proposal (ex_uuid 1) ''s1'' ''agent'' None None True ex_env (ex_world ex_proposal)))"
  by (rule returns_run) code_simp

lemma accept_events_some: "accept_events i s \<noteq> []"
  by (simp add: accept_events_def)

theorem accept_proposal_effect_witness:
  "edges (gr (snd (accept_proposal (ex_uuid 1) ''s1'' ''agent'' None None True ex_env (ex_world ex_proposal))))
     = edges ex_graph"
  using accept_proposal_effect [OF ex_accept_run accept_events_some] by (simp add: ex_proposal_def)

theorem accept_proposal_once_witness:
  "\<exists>w3. accept_proposal (ex_uuid 1) ''s1'' ''other'' None None True ex_env
      (snd (accept_proposal (ex_uuid 1) ''s1'' ''agent'' None None True ex_env (ex_world ex_proposal)))
     = (Inl (InvariantViolation ''INVALID_STATUS''), w3)"
  using accept_proposal_once [OF ex_accept_run accept_events_some refl, where a' = "''other''" and
      reason' = None and oc' = None and b' = True and e' = ex_env] by auto

section \<open>Synthesis\<close>

lemma returns_confidences:
  "returns e (confidences_of facts) (\<lambda>cs v. gr v = gr w \<and> map Some cs = map fa_confidence facts) w"
proof (induction facts arbitrary: w)
  case (Cons f facts)
  show ?case
  proof (cases "fa_confidence f")
    case (Some c)
    have "returns e (confidences_of facts) (\<lambda>cs v. gr v = gr w \<and> map Some (c # cs) = map fa_confidence (f # facts)) w"
      by (rule wp_mono [OF Cons.IH]) (simp_all add: Some)
    then show ?thesis
      by (simp add: confidences_of_def to_float_def wp_simps Some)
  qed (simp add: confidences_of_def to_float_def wp_simps)
qed (simp add: confidences_of_def wp_simps)

text \<open>A synthesis has enough facts and confidence.\<close>

definition synthesis_ok :: "fact_row list \<Rightarrow> bool" where
  "synthesis_ok facts \<longleftrightarrow> 3 \<le> length facts \<and>
     (\<exists>cs. map Some cs = map fa_confidence facts \<and> 6 / 10 \<le> noisy_or_aggregate cs)"

lemma returns_synthesize:
  "returns e (synthesize_from_facts ids s) (\<lambda>(r, evs) v.
     case sf_belief_id r of
       None \<Rightarrow> evs = [] \<and> gr v = gr w
     | Some i \<Rightarrow> evs = [reaction COMPUTE_EMBEDDING i s []] \<and> 3 \<le> length ids \<and>
         synthesis_ok (GET_FACTS_BY_IDS ids s (gr w)) \<and>
         (\<exists>x c t. gr v = fst (CREATE_PROPOSED_BELIEF_V2 i s x c t (t + proposal_lifetime) ids (gr w)) \<and>
            sf_confidence r = Some c \<and> 6 / 10 \<le> c)) w"
proof -
  let ?Q = "\<lambda>(r, evs) v. case sf_belief_id r of
       None \<Rightarrow> evs = [] \<and> gr v = gr w
     | Some i \<Rightarrow> evs = [reaction COMPUTE_EMBEDDING i s []] \<and> 3 \<le> length ids \<and>
         synthesis_ok (GET_FACTS_BY_IDS ids s (gr w)) \<and>
         (\<exists>x c t. gr v = fst (CREATE_PROPOSED_BELIEF_V2 i s x c t (t + proposal_lifetime) ids (gr w)) \<and>
            sf_confidence r = Some c \<and> 6 / 10 \<le> c)"
  let ?facts = "GET_FACTS_BY_IDS ids s (gr w)"
  have small: "returns e (not_synthesized n c t) ?Q v" if "gr v = gr w" for n c t v
    using that by (simp add: not_synthesized_def wp_simps)
  have body: "returns e (let agg = noisy_or_aggregate cs in
          if agg < SYNTHESIS_CONFIDENCE_THRESHOLD then not_synthesized (length ?facts) (Some agg) False
          else tbind llm_synthesize (\<lambda>res.
            if ls_timed_out res \<or> \<not> ls_success res
            then not_synthesized (length ?facts) (Some agg) (ls_timed_out res)
            else tbind new_uuid (\<lambda>i. tbind datetime_now (\<lambda>t.
              tbind (execute_write (CREATE_PROPOSED_BELIEF_V2 i s (ls_content res) agg t
                        (t + proposal_lifetime) ids)) (\<lambda>_.
              ret (\<lparr>sf_belief_id = Some i, sf_fact_count = length ?facts,
                    sf_confidence = Some agg, sf_timed_out = False\<rparr>,
                   [reaction COMPUTE_EMBEDDING i s []])))))) ?Q v"
    if v: "gr v = gr w" and cs: "map Some cs = map fa_confidence ?facts" and n: "3 \<le> length ids"
      "3 \<le> length ?facts" for cs v
  proof (cases "noisy_or_aggregate cs < SYNTHESIS_CONFIDENCE_THRESHOLD")
    case False
    then have agg: "6 / 10 \<le> noisy_or_aggregate cs" by (simp add: SYNTHESIS_CONFIDENCE_THRESHOLD_def)
    with cs n have ok: "synthesis_ok ?facts" unfolding synthesis_ok_def by blast
    show ?thesis using False n agg
      by (auto simp: Let_def llm_synthesize_def wp_simps v ok intro!: small)
  qed (simp add: Let_def small v)
  show ?thesis
  proof (cases "length ids < 3 \<or> length ?facts < 3")
    case True
    then show ?thesis
      unfolding synthesize_from_facts_def SYNTHESIS_THRESHOLD_def
      by (auto simp: wp_bind wp_store intro!: small)
  next
    case False
    have "returns e (confidences_of ?facts) (\<lambda>cs v. gr v = gr w \<and> map Some cs = map fa_confidence ?facts)
        (w\<lparr>tick := Suc (tick w)\<rparr>)"
      using returns_confidences [of e ?facts "w\<lparr>tick := Suc (tick w)\<rparr>"] by simp
    with False show ?thesis
      unfolding synthesize_from_facts_def SYNTHESIS_THRESHOLD_def
      by (auto simp: wp_bind [of _ "confidences_of _"] wp_bind [of _ "execute_query _"] wp_store
          intro!: wp_mono [OF _ _ body])
  qed
qed

text \<open>
  a proposal is synthesized only from enough.  When \<open>synthesize_from_facts\<close> reports a belief,
  the query found at least three active facts, each with a confidence, and their noisy-or is at least six tenths;
  the proposal is created pending, with that confidence, expires after seven days and asks for
  its embedding.  Otherwise the graph is untouched and there is no event.
\<close>

theorem synthesize_only_from_enough:
  assumes "synthesize_from_facts ids s e w = (Inr (r, evs), w')"
  shows "case sf_belief_id r of
       None \<Rightarrow> evs = [] \<and> gr w' = gr w
     | Some i \<Rightarrow> evs = [reaction COMPUTE_EMBEDDING i s []] \<and> 3 \<le> length ids \<and>
         synthesis_ok (GET_FACTS_BY_IDS ids s (gr w)) \<and>
         (\<exists>x c t. gr w' = fst (CREATE_PROPOSED_BELIEF_V2 i s x c t (t + 7 * 24 * 3600) ids (gr w)) \<and>
            sf_confidence r = Some c \<and> 6 / 10 \<le> c)"
  using returnsD [OF returns_synthesize assms] unfolding proposal_lifetime_def prod.case .

definition ex_state_facts :: graph where
  "ex_state_facts = ex_graph\<lparr>nodes := map (\<lambda>n. n\<lparr>attrs := [''state'' \<mapsto> VStr ''ACTIVE'',
      ''confidence'' \<mapsto> VNum (9 / 10), ''content'' \<mapsto> VStr ''f'']\<rparr>) (nodes ex_graph)\<rparr>"

lemma ex_synthesize_run:
  "synthesize_from_facts [ex_uuid 2, ex_uuid 3, ex_uuid 4] ''s1'' ex_env (ex_world ex_state_facts) =
     (Inr (\<lparr>sf_belief_id = Some (ex_uuid 2), sf_fact_count = 3, sf_confidence = Some (999 / 1000),
            sf_timed_out = False\<rparr>, [reaction COMPUTE_EMBEDDING (ex_uuid 2) ''s1'' []]),
      snd (synthesize_from_facts [ex_uuid 2, ex_uuid 3, ex_uuid 4] ''s1'' ex_env (ex_world ex_state_facts)))"
  by (rule returns_run) code_simp

theorem synthesize_only_from_enough_witness:
  "synthesis_ok (GET_FACTS_BY_IDS [ex_uuid 2, ex_uuid 3, ex_uuid 4] ''s1'' ex_state_facts)"
  using synthesize_only_from_enough [OF ex_synthesize_run] by simp

section \<open>Revision\<close>

text \<open>A belief that a later revision can take up again, or that has been replaced.\<close>

definition unlocked :: "string \<Rightarrow> string \<Rightarrow> graph \<Rightarrow> bool" where
  "unlocked i s g \<longleftrightarrow> (\<forall>n\<in>set (nodes g). is_belief i s n \<longrightarrow>
     props n ''revision_in_progress'' \<noteq> Some (VBool True) \<or> pstate n = Some ''SUPERSEDED'')"

lemma unlocked_update: "unlocked i s (fst (UPDATE_BELIEF_AFTER_REVISION i s st g))"
  unfolding unlocked_def UPDATE_BELIEF_AFTER_REVISION_def fst_conv
proof (intro ballI impI)
  fix n assume n: "n \<in> set (nodes (update_where (is_belief i s)
     (\<lambda>n. set_prop ''revision_in_progress'' (Some (VBool False))
       (set_prop ''synthesis_state'' (Some (VStr (synthesis_value st))) n)) g))" and b: "is_belief i s n"
  show "props n ''revision_in_progress'' \<noteq> Some (VBool True) \<or> pstate n = Some ''SUPERSEDED''"
    using n by (rule update_whereE) (use b in \<open>simp_all add: set_prop_def\<close>)
qed

lemma unlocked_superseded:
  assumes "match_id g j s \<noteq> []"
  shows "unlocked i s (fst (CREATE_SUPERSEDES j i s t r t' g))"
  unfolding unlocked_def
proof (intro ballI impI)
  let ?f = "\<lambda>n. set_field ''valid_to'' (Some (VTime t)) (set_prop ''state'' (Some (VStr (state_value SUPERSEDED))) n)"
  fix n assume n: "n \<in> set (nodes (fst (CREATE_SUPERSEDES j i s t r t' g)))" and b: "is_belief i s n"
  have "n \<in> set (nodes (update_where (is_node i s) ?f g))"
    using n assms by (simp add: CREATE_SUPERSEDES_def Let_def graph_simps)
  then show "props n ''revision_in_progress'' \<noteq> Some (VBool True) \<or> pstate n = Some ''SUPERSEDED''"
    by (rule update_whereE) (use b in \<open>simp_all add: set_prop_def set_field_def is_belief_def\<close>)
qed

lemma returns_not_revised:
  assumes "geffect (=) release"
  shows "returns e (not_revised i s st release) (\<lambda>_ v. unlocked i s (gr v)) w"
proof -
  have rel: "returns e release (\<lambda>_ v. returns e (tbind (parse_uuid i) (\<lambda>u. ret
      (\<lparr>rb_new_belief_id = None, rb_old_belief_id = u, rb_content_changed = False,
        rb_invalidated = (st = INVALIDATED)\<rparr>, []))) (\<lambda>_ v. unlocked i s (gr v)) v) v"
    if "unlocked i s (gr v)" for v
    by (rule returns_geffect [OF assms]) (use that in \<open>auto simp: wp_simps\<close>)
  show ?thesis
    unfolding not_revised_def wp_bind [of _ "execute_write _"] wp_bind [of _ release]
    by (auto simp: wp_store unlocked_update intro!: rel)
qed

lemma created_matches:
  "match_id (fst (CREATE_BELIEF_WITH_SYNTHESIZED_FROM j s x t ps fs g)) j s \<noteq> []"
  by (simp add: CREATE_BELIEF_WITH_SYNTHESIZED_FROM_def Let_def match_id_def graph_simps add_node_def
      is_node_def)

lemma returns_replace_belief:
  assumes "geffect (=) finish"
  shows "returns e (replace_belief i s x fs c cl finish b) (\<lambda>_ v. unlocked i s (gr v)) w"
proof -
  have fin: "returns e finish (\<lambda>_ v. returns e (let events = access_events j s ''SYNTHESIS'' in
      tbind (emit_all b events) (\<lambda>_. tbind (parse_uuid i) (\<lambda>u.
      ret (\<lparr>rb_new_belief_id = Some j, rb_old_belief_id = u, rb_content_changed = True,
           rb_invalidated = False\<rparr>, events)))) (\<lambda>_ v. unlocked i s (gr v)) v) v"
    if "unlocked i s (gr v)" for j v
    by (rule returns_geffect [OF assms]) (use that in \<open>auto simp: wp_simps Let_def\<close>)
  show ?thesis
    unfolding replace_belief_def create_supersedes_edge_def
    by (auto simp: wp_bind wp_calls wp_store unlocked_superseded created_matches Let_def
        intro!: wp_sync fin [unfolded Let_def wp_bind])
qed

lemma returns_revise_from:
  assumes "\<And>st. geffect (=) (release st)" "geffect (=) finish"
  shows "returns e (revise_from i s oc fs cl release finish b) (\<lambda>_ v. unlocked i s (gr v)) w"
  unfolding revise_from_def confidences_of_def to_float_def llm_synthesize_def Let_def
  by (intro returns_intros returns_not_revised returns_replace_belief assms
      wp_for_inv [where I = "\<lambda>_. True", THEN wp_mono])
    (auto simp: wp_simps split: option.split llm_outcome.split
      intro!: returns_not_revised returns_replace_belief assms)

lemma cluster_reads:
  "geffect (=) (release_cluster c s st)"
  "geffect (=) (tbind (execute_write (UPDATE_CLUSTER_AFTER_SYNTHESIS c s)) (\<lambda>_. ret ()))"
  by (auto simp: geffect_def release_cluster_def RELEASE_CLUSTER_LOCK_def
      UPDATE_CLUSTER_AFTER_SYNTHESIS_def tbind_def ret_def execute_write_def)

lemma returns_revise_inner:
  "returns e (revise_belief_v2 i s oc b) (\<lambda>_ v. unlocked i s (gr v)) w"
  "returns e (revise_belief_v1 i s oc cl b) (\<lambda>_ v. unlocked i s (gr v)) w"
  unfolding revise_belief_v1_def revise_belief_v2_def release_cluster_def [of cl s "''STALE''"]
  by (auto simp: wp_bind wp_catch wp_store wp_raise wp_ret
      intro!: returns_revise_from wp_mono [OF returns_revise_from] cluster_reads read_only.eff_ret)

lemma unlocked_no_fault:
  assumes "\<And>v. returns e m (\<lambda>_ v. unlocked i s (gr v)) v" "\<And>k. \<not> fault e k"
  shows "wp e (tcatch m (\<lambda>x. tbind (execute_write (UPDATE_BELIEF_AFTER_REVISION i s STALE)) (\<lambda>_. raise x)))
     (\<lambda>_ v. unlocked i s (gr v)) (\<lambda>_ v. unlocked i s (gr v)) w"
  unfolding wp_catch
  by (rule wp_mono [OF assms(1)]) (auto simp: wp_simps assms(2) unlocked_update)

lemma unlocked_returned:
  assumes "\<And>v. returns e m (\<lambda>_ v. unlocked i s (gr v)) v"
  shows "returns e (tcatch m (\<lambda>x. tbind (execute_write (UPDATE_BELIEF_AFTER_REVISION i s STALE)) (\<lambda>_. raise x)))
     (\<lambda>_ v. unlocked i s (gr v)) w"
  unfolding wp_catch
  by (rule wp_mono [OF assms(1)]) (auto simp: wp_simps)

text \<open>The belief passes the checks of \<open>revise_belief\<close>.\<close>

definition revisable :: "string \<Rightarrow> string \<Rightarrow> graph \<Rightarrow> bool" where
  "revisable i s g \<longleftrightarrow> (case GET_BELIEF_FOR_REVISION i s g of [] \<Rightarrow> False
     | r # _ \<Rightarrow> be_state r = Some ''ACTIVE'' \<and> be_synthesis r = Some ''STALE'' \<and> \<not> be_in_progress r)"

lemma revise_cases:
  "returns e (case cl of None \<Rightarrow> revise_belief_v2 i s oc b | Some c \<Rightarrow> revise_belief_v1 i s oc c b)
     (\<lambda>_ v. unlocked i s (gr v)) v"
  by (cases cl) (simp_all add: returns_revise_inner)

lemma wp_revise_returned: "returns e (revise_belief i s b) (\<lambda>_ v. unlocked i s (gr v)) w"
  unfolding revise_belief_def revise_guard_def
  by (auto simp: wp_bind wp_store wp_raise wp_ret split: list.split intro!: unlocked_returned revise_cases)

lemma wp_revise_no_fault:
  assumes "\<And>k. \<not> fault e k" "revisable i s (gr w)"
  shows "wp e (revise_belief i s b) (\<lambda>_ v. unlocked i s (gr v)) (\<lambda>_ v. unlocked i s (gr v)) w"
  using assms unfolding revise_belief_def revise_guard_def revisable_def
  by (auto simp: wp_bind wp_store wp_raise wp_ret split: list.splits
      intro!: unlocked_no_fault revise_cases)

text \<open>
  C39: a revision releases the belief it marked as in progress.  Whenever \<open>revise_belief\<close> returns,
  and also when it raises (a missing content, a malformed id, a missing confidence) as long as
  the store itself does not fail, every belief of the id either is no longer in progress or has
  been superseded by the new belief.
\<close>

theorem revise_belief_unlocks:
  assumes "revisable i s (gr w)"
    and "(\<forall>k. \<not> fault e k) \<or> (\<exists>r. fst (revise_belief i s b e w) = Inr r)"
  shows "unlocked i s (gr (snd (revise_belief i s b e w)))"
  using assms wp_revise_returned [of e i s b w] wp_revise_no_fault [of e i s w b]
  by (cases "revise_belief i s b e w") (auto simp: wp_def split: sum.splits)

definition ex_stale :: "string option \<Rightarrow> graph" where
  "ex_stale cluster = ex_graph\<lparr>nodes := ex_belief1\<lparr>attrs := [''content'' \<mapsto> VStr ''old''],
      props := (props ex_belief1)(''synthesis_state'' \<mapsto> VStr ''STALE'',
        ''source_cluster_id'' := map_option VStr cluster)\<rparr> # tl (nodes ex_graph)\<rparr>"

lemma ex_stale_revisable: "revisable (ex_uuid 1) ''s1'' (ex_stale None)"
  "revisable (ex_uuid 1) ''s1'' (ex_stale (Some ''c''))"
  by code_simp+

theorem revise_belief_unlocks_witness:
  "unlocked (ex_uuid 1) ''s1'' (gr (snd (revise_belief (ex_uuid 1) ''s1'' True ex_env (ex_world (ex_stale None)))))"
  using revise_belief_unlocks [of "ex_uuid 1" "''s1''" "ex_world (ex_stale None)" ex_env True]
    ex_stale_revisable(1) by simp

text \<open>
  a belief that still carries a cluster id can never be refreshed: without faults and with a
  well-formed id, its revision always returns and reports it invalidated, and the graph only
  gets that mark: no new belief is created, whatever the LLM would say, because the cluster query returns no fact.
\<close>

theorem revise_clustered_invalidates:
  assumes "GET_BELIEF_FOR_REVISION i s (gr w) = r # rows" and "be_cluster r = Some c"
    and "revisable i s (gr w)" and "uuid_ok i" and "\<And>k. \<not> fault e k"
  shows "\<exists>w'. revise_belief i s b e w =
      (Inr (\<lparr>rb_new_belief_id = None, rb_old_belief_id = i, rb_content_changed = False,
             rb_invalidated = True\<rparr>, []), w') \<and>
    gr w' = fst (UPDATE_BELIEF_AFTER_REVISION i s INVALIDATED
       (fst (MARK_BELIEF_REVISION_IN_PROGRESS i s (gr w))))"
proof -
  have "wp e (revise_belief i s b) (\<lambda>_ _. False) (\<lambda>a v. a = (\<lparr>rb_new_belief_id = None, rb_old_belief_id = i,
      rb_content_changed = False, rb_invalidated = True\<rparr>, []) \<and>
      gr v = fst (UPDATE_BELIEF_AFTER_REVISION i s INVALIDATED
       (fst (MARK_BELIEF_REVISION_IN_PROGRESS i s (gr w))))) w"
    using assms by (simp add: revise_belief_def revise_guard_def revisable_def revise_belief_v1_def
        revise_from_def not_revised_def release_cluster_def GET_FACTS_IN_CLUSTER_def
        SYNTHESIS_THRESHOLD_def RELEASE_CLUSTER_LOCK_def wp_simps)
  then show ?thesis by (auto simp: wp_def split: prod.splits sum.splits)
qed

theorem revise_clustered_invalidates_witness:
  "fst (revise_belief (ex_uuid 1) ''s1'' True ex_env (ex_world (ex_stale (Some ''c'')))) =
     Inr (\<lparr>rb_new_belief_id = None, rb_old_belief_id = ex_uuid 1, rb_content_changed = False,
           rb_invalidated = True\<rparr>, [])"
proof -
  obtain r where r: "GET_BELIEF_FOR_REVISION (ex_uuid 1) ''s1'' (ex_stale (Some ''c'')) = [r]"
    "be_cluster r = Some ''c''"
    by (simp add: ex_stale_def GET_BELIEF_FOR_REVISION_def match_label_id_def match_id_def is_node_def
        has_label_def ex_graph_def ex_node_defs ex_uuid_def hex_digits_def)
  have "uuid_ok (ex_uuid 1)" by code_simp
  then show ?thesis
    using revise_clustered_invalidates [of "ex_uuid 1" "''s1''" "ex_world (ex_stale (Some ''c''))" r "[]" "''c''" ex_env True]
      r ex_stale_revisable(2) by auto
qed

end
