(* ===== verification/ConflictsCorrect.thy ===== *)
theory ConflictsCorrect
  imports Conflicts TxLinkCorrect Examples
begin

text \<open>
  What the consolidation of a conflict does: the order in which the two claims are named does not
  matter, a conflict that can be read is settled in favour of one of them, and a second delivery
  finds nothing left to do but an error.  What it misses: the contradictions agents link
  are never consolidated, and two claims can not be merged.
\<close>

section \<open>The signals gathered\<close>

lemma gather_ids:
  assumes "gather_signals tt a b s e w = (Inr (sa, sb), w1)"
  shows "cs_node_id sa = a \<and> cs_node_id sb = b"
proof -
  have build: "returns e (build_signals tt rows i) (\<lambda>r _. cs_node_id r = i) v" for rows i v
    unfolding build_signals_def Let_def by (simp add: wp_bind wp_ret wp_calls) (auto simp: wp_def split: prod.split sum.split)
  have "returns e (gather_signals tt a b s) (\<lambda>(x, y) _. cs_node_id x = a \<and> cs_node_id y = b) w"
    unfolding gather_signals_def by (intro returns_intros(1,8) wp_mono [OF build]) (simp_all add: wp_ret)
  from returnsD [OF this assms] show ?thesis by simp
qed

section \<open>The resolver\<close>

lemma isclose_commute: "isclose x y = isclose y x"
  by (simp add: isclose_def abs_minus_commute max.commute)

lemma isclose_refl: "isclose x x"
  by (simp add: isclose_def le_max_iff_disj)

lemma tiebreak_commute: "cs_node_id a \<noteq> cs_node_id b \<Longrightarrow> tiebreak a b = tiebreak b a"
  by (auto simp: tiebreak_def Let_def)

lemma ranked_commute: "cs_node_id a \<noteq> cs_node_id b \<Longrightarrow> fst (ranked a b x y) = fst (ranked b a y x)"
  by (cases x y rule: linorder_cases) (auto simp: ranked_def isclose_commute [of y x] isclose_refl tiebreak_commute)

lemma ranked_cases: "fst (ranked a b x y) = (a, b) \<or> fst (ranked a b x y) = (b, a)"
  by (auto simp: ranked_def tiebreak_def Let_def)

lemma resolve_run:
  "resolve a b e w = (Inr (case ranked a b (score a (clock e (tick w))) (score b (clock e (Suc (tick w)))) of ((x, y), why) \<Rightarrow>
     \<lparr>rr_action = SUPERSEDE, rr_winner = Some (cs_node_id x), rr_loser = Some (cs_node_id y), rr_rationale = why, rr_merged = None\<rparr>),
     w\<lparr>tick := Suc (Suc (tick w))\<rparr>)"
  by (simp add: resolve_def tx_prims split: prod.split)

text \<open>
  C21: the order in which a conflict is reported does not matter.  For two nodes and a clock that
  does not move between the two scores, the resolver picks the same winner and the same loser whichever is
  named first, and it always picks one.
\<close>

theorem resolve_symmetric:
  assumes "cs_node_id a \<noteq> cs_node_id b" "clock e (Suc (tick w)) = clock e (tick w)"
  shows "\<exists>r r'. resolve a b e w = (Inr r, w\<lparr>tick := Suc (Suc (tick w))\<rparr>) \<and> resolve b a e w = (Inr r', w\<lparr>tick := Suc (Suc (tick w))\<rparr>) \<and>
    rr_winner r = rr_winner r' \<and> rr_loser r = rr_loser r' \<and>
    {rr_winner r, rr_loser r} = {Some (cs_node_id a), Some (cs_node_id b)} \<and> rr_action r = SUPERSEDE"
proof -
  let ?t = "clock e (tick w)"
  have "fst (ranked a b (score a ?t) (score b ?t)) = fst (ranked b a (score b ?t) (score a ?t))"
    by (rule ranked_commute [OF assms(1)])
  then show ?thesis
    using ranked_cases [of a b "score a ?t" "score b ?t"] unfolding resolve_run assms(2)
    by (cases "ranked a b (score a ?t) (score b ?t)"; cases "ranked b a (score b ?t) (score a ?t)") auto
qed

section \<open>A conflict that can be read is settled\<close>

text \<open>What one supersession between two active nodes leaves, when no call fails.\<close>

definition superseded :: "string \<Rightarrow> string \<Rightarrow> string \<Rightarrow> SupersedeReason \<Rightarrow> graph \<Rightarrow> graph \<Rightarrow> bool" where
  "superseded x y s r g h \<longleftrightarrow> (\<exists>t t'. h = fst (CREATE_SUPERSEDES x y s t (reason_value r) t' g))"

lemma supersede_returns:
  assumes ok: "\<And>k. \<not> fault e k" and m: "match_id (gr w) x s = [n]" "match_id (gr w) y s = [m]"
    and act: "pstate n = Some ''ACTIVE''" "pstate m = Some ''ACTIVE''"
    and "\<not> WOULD_CYCLE x y ''SUPERSEDES'' s (gr w)" "uuid_ok x" "uuid_ok y"
  shows "wp e (supersede x y s r True) (\<lambda>_ _. False)
    (\<lambda>_ w'. superseded x y s r (gr w) (gr w') \<and> emitted w' = emitted w @ [reaction CASCADE_STALENESS y s [(''depth'', VInt 1)]]) w"
proof -
  have silo: "silo n = Some s" "silo m = Some s" using m match_id_iff [of _ "gr w"] by (metis list.set_intros(1))+
  have pair: "GET_PAIR x y s (gr w) =
      [\<lparr>pa_source_silo = Some s, pa_target_silo = Some s, pa_source_state = Some ''ACTIVE'', pa_target_state = Some ''ACTIVE''\<rparr>]"
    using m act silo by (simp add: GET_PAIR_def)
  show ?thesis
    unfolding supersede_def validate_supersession_def would_create_cycle_any_def create_supersedes_edge_def Let_def
    by (simp add: wp_simps ok pair assms(6-8)) (intro wp_sync(2); auto simp: wp_simps superseded_def assms(7,8))
qed

text \<open>What the worker leaves: the winner, the loser, the other nodes and the edges.\<close>

definition settled_for :: "string \<Rightarrow> string \<Rightarrow> string \<Rightarrow> graph \<Rightarrow> graph \<Rightarrow> bool" where
  "settled_for x y s g h \<longleftrightarrow>
     list_all (\<lambda>n. pstate n = Some ''ACTIVE'' \<and> props n ''conflict_status'' = Some (VStr ''resolved_supersede'')) (match_id h x s) \<and>
     list_all (\<lambda>n. pstate n = Some ''SUPERSEDED'' \<and> props n ''conflict_status'' = Some (VStr ''resolved_supersede'')) (match_id h y s) \<and>
     filter (\<lambda>n. \<not> is_node x s n \<and> \<not> is_node y s n) (nodes h) = filter (\<lambda>n. \<not> is_node x s n \<and> \<not> is_node y s n) (nodes g) \<and>
     (\<exists>d. edges h = edges g @ [d] \<and> etype d = ''SUPERSEDES'' \<and> eprops d ''reason'' = Some (VStr ''contradiction'') \<and>
        map vid (match_id g x s) = [esrc d] \<and> map vid (match_id g y s) = [edst d])"

lemma settled_forI:
  assumes "superseded x y s CONTRADICTION g h" "x \<noteq> y" "match_id g x s = [n]" "match_id g y s = [m]" "pstate n = Some ''ACTIVE''"
    and that: "{a, b} = {x, y}"
  shows "settled_for x y s g (fst (SET_CONFLICT_STATUS [a, b] s ''resolved_supersede'' h))"
proof -
  obtain t t' where h: "h = fst (CREATE_SUPERSEDES x y s t (reason_value CONTRADICTION) t' g)"
    using assms(1) unfolding superseded_def by blast
  define f where "f = (\<lambda>k. set_field ''valid_to'' (Some (VTime t)) (set_prop ''state'' (Some (VStr (state_value SUPERSEDED))) k))"
  define F where "F = (\<lambda>k. if silo k = Some s \<and> nid k \<in> {x, y} then set_prop ''conflict_status'' (Some (VStr ''resolved_supersede''))
      (if is_node y s k then f k else k) else k)"
  let ?h = "fst (SET_CONFLICT_STATUS [a, b] s ''resolved_supersede'' h)"
  have fp: "vid (f k) = vid k" "nid (f k) = nid k" "silo (f k) = silo k" for k by (simp_all add: f_def)
  have F: "nid (F k) = nid k" "silo (F k) = silo k" for k by (simp_all add: F_def fp)
  have "nodes h = map (\<lambda>k. if is_node y s k then f k else k) (nodes g)"
    unfolding h CREATE_SUPERSEDES_def Let_def fst_conv using assms(3) by (simp add: graph_simps f_def)
  moreover have "set [a, b] = {x, y}" using that by simp
  ultimately have nodes: "nodes ?h = map F (nodes g)"
    unfolding SET_CONFLICT_STATUS_def fst_conv by (auto simp: graph_simps F_def fp is_node_def)
  have at: "match_id ?h i s = map F (match_id g i s)" for i
  proof -
    have "filter (is_node i s) (map F ks) = map F (filter (is_node i s) ks)" for ks
      by (induction ks) (simp_all add: is_node_def F)
    then show ?thesis unfolding match_id_def nodes .
  qed
  have n: "nid n = x" "silo n = Some s" "nid m = y" "silo m = Some s"
    using assms(3,4) match_id_iff [of _ g] by (metis list.set_intros(1))+
  have "filter (\<lambda>k. \<not> is_node x s k \<and> \<not> is_node y s k) (map F ks) = filter (\<lambda>k. \<not> is_node x s k \<and> \<not> is_node y s k) ks" for ks
    by (induction ks) (simp_all add: is_node_def F, auto simp: F_def)
  moreover have "edges ?h = edges g @ [\<lparr>esrc = vid n, edst = vid m, etype = ''SUPERSEDES'',
      eprops = [''reason'' \<mapsto> VStr ''contradiction'', ''created_at'' \<mapsto> VTime t']\<rparr>]"
    unfolding SET_CONFLICT_STATUS_def h CREATE_SUPERSEDES_def Let_def fst_conv
    using assms(3,4) by (simp add: graph_simps add_edges_def)
  ultimately show ?thesis
    unfolding settled_for_def at assms(3,4) nodes
    using n assms(2,5) by (auto simp: F_def is_node_def f_def)
qed

text \<open>
  C9: a conflict is settled for good.  When no call fails and both claims are active, readable and not
  linked by supersession already, the worker returns: the node with the higher score (or the one the
  tie-break names) stays active, the other is superseded by it, both are marked as resolved,
  no other node changes, and the staleness cascade of the loser is queued.
\<close>

theorem conflict_settled:
  assumes "\<forall>k. \<not> fault e k" and "gather_signals tt a b s e w = (Inr (sa, sb), w1)"
    and "a \<noteq> b" "match_id (gr w) a s = [n]" "match_id (gr w) b s = [m]"
    and "pstate n = Some ''ACTIVE''" "pstate m = Some ''ACTIVE''" "uuid_ok a" "uuid_ok b"
    and "\<not> WOULD_CYCLE a b ''SUPERSEDES'' s (gr w)" "\<not> WOULD_CYCLE b a ''SUPERSEDES'' s (gr w)"
  shows "\<exists>r w' x y. process_conflict tt resolve a b s e w = (Inr r, w') \<and>
    fst (ranked sa sb (score sa (clock e (tick w1))) (score sb (clock e (Suc (tick w1))))) = (x, y) \<and>
    rr_winner r = Some (cs_node_id x) \<and> rr_loser r = Some (cs_node_id y) \<and> {cs_node_id x, cs_node_id y} = {a, b} \<and>
    settled_for (cs_node_id x) (cs_node_id y) s (gr w) (gr w') \<and>
    emitted w' = emitted w1 @ [reaction CASCADE_STALENESS (cs_node_id y) s [(''depth'', VInt 1)]]"
proof -
  have ids: "cs_node_id sa = a" "cs_node_id sb = b" using gather_ids [OF assms(2)] by auto
  have g: "gr w1 = gr w" using geffectD [OF process_conflict_reads(1), of w tt a b s e] assms(2) by simp
  obtain x y why where r: "ranked sa sb (score sa (clock e (tick w1))) (score sb (clock e (Suc (tick w1)))) = ((x, y), why)"
    by (metis prod.exhaust)
  let ?r = "\<lparr>rr_action = SUPERSEDE, rr_winner = Some (cs_node_id x), rr_loser = Some (cs_node_id y), rr_rationale = why, rr_merged = None\<rparr>"
  let ?w2 = "w1\<lparr>tick := Suc (Suc (tick w1))\<rparr>" and ?x = "cs_node_id x" and ?y = "cs_node_id y"
  have "(x, y) = (sa, sb) \<or> (x, y) = (sb, sa)"
    using ranked_cases [of sa sb "score sa (clock e (tick w1))" "score sb (clock e (Suc (tick w1)))"] r by auto
  then have xy: "?x = a \<and> ?y = b \<or> ?x = b \<and> ?y = a" using ids by auto
  obtain p q where m: "match_id (gr ?w2) ?x s = [p]" "match_id (gr ?w2) ?y s = [q]" "pstate p = Some ''ACTIVE''" "pstate q = Some ''ACTIVE''"
    using xy assms(4-7) g by auto
  have u: "uuid_ok ?x" "uuid_ok ?y" "\<not> WOULD_CYCLE ?x ?y ''SUPERSEDES'' s (gr ?w2)" "{a, b} = {?x, ?y}" "?x \<noteq> ?y"
    using xy assms(3,8-11) g by auto
  then have named: "truthy (Some ?x)" "truthy (Some ?y)" by (auto simp: uuid_ok_def)
  have "wp e (apply_resolution a b s sa sb ?r) (\<lambda>_ _. False)
      (\<lambda>_ w'. settled_for ?x ?y s (gr w) (gr w') \<and> emitted w' = emitted w1 @ [reaction CASCADE_STALENESS ?y s [(''depth'', VInt 1)]]) ?w2"
  proof -
    have "wp e (supersede ?x ?y s CONTRADICTION True) (\<lambda>_ _. False)
        (\<lambda>_. wp e (set_resolved_status a b s RESOLVED_SUPERSEDE) (\<lambda>_ _. False)
          (\<lambda>_ w'. settled_for ?x ?y s (gr w) (gr w') \<and> emitted w' = emitted w1 @ [reaction CASCADE_STALENESS ?y s [(''depth'', VInt 1)]])) ?w2"
      by (rule wp_mono [OF supersede_returns [OF assms(1) [rule_format] m u(3,1,2)]])
        (use settled_forI [OF _ u(5) m(1,2,3) u(4)] g in \<open>auto simp: set_resolved_status_def wp_simps assms(1)\<close>)
    then show ?thesis using named by (simp add: apply_resolution_def wp_bind)
  qed
  then obtain w' where w': "apply_resolution a b s sa sb ?r e ?w2 = (Inr (), w')" "settled_for ?x ?y s (gr w) (gr w')"
    "emitted w' = emitted w1 @ [reaction CASCADE_STALENESS ?y s [(''depth'', VInt 1)]]"
    unfolding wp_def by (auto split: prod.splits sum.splits)
  have "process_conflict tt resolve a b s e w = (Inr ?r, w')"
    unfolding process_conflict_def using assms(2) w'(1) by (simp add: tbind_def resolve_run r ret_def)
  then show ?thesis using w'(2,3) r u(4) by auto
qed

section \<open>A second delivery\<close>

text \<open>
  the queue may deliver a conflict twice, and the second delivery is an error.  Once one of
  the two nodes is no longer active the worker raises, whatever the scores say now, and leaves the graph as it is.
\<close>

theorem redelivered_conflict_raises:
  assumes "match_id (gr w) a s = [n]" "match_id (gr w) b s = [m]" "a \<noteq> []" "b \<noteq> []"
    and "\<not> (pstate n = Some ''ACTIVE'' \<and> pstate m = Some ''ACTIVE'')"
  shows "\<exists>x w'. process_conflict tt resolve a b s e w = (Inl x, w') \<and> gr w' = gr w"
proof -
  have raises: "wp e (supersede x y s r True) (\<lambda>_ v'. gr v' = gr w) (\<lambda>_ _. False) v"
    if "{x, y} = {a, b}" "gr v = gr w" for x y r v
  proof -
    have "x = a \<and> y = b \<or> x = b \<and> y = a" using that(1) by (simp add: doubleton_eq_iff)
    then have "\<exists>p q. match_id (gr w) x s = [p] \<and> match_id (gr w) y s = [q] \<and> \<not> (pstate p = Some ''ACTIVE'' \<and> pstate q = Some ''ACTIVE'')"
      using assms(1,2,5) by auto
    then obtain p q where pq: "match_id (gr w) x s = [p]" "match_id (gr w) y s = [q]" "\<not> (pstate p = Some ''ACTIVE'' \<and> pstate q = Some ''ACTIVE'')"
      by blast
    have "silo p = Some s" "silo q = Some s" using pq match_id_iff [of _ "gr w"] by (metis list.set_intros(1))+
    then have "GET_PAIR x y s (gr w) = [\<lparr>pa_source_silo = Some s, pa_target_silo = Some s, pa_source_state = pstate p, pa_target_state = pstate q\<rparr>]"
      using pq(1,2) by (simp add: GET_PAIR_def)
    with pq(3) that(2) show ?thesis
      unfolding supersede_def validate_supersession_def by (auto simp: wp_simps)
  qed
  have "wp e (process_conflict tt resolve a b s) (\<lambda>_ v'. gr v' = gr w) (\<lambda>_ _. False) w"
  proof (cases "gather_signals tt a b s e w")
    case (Pair r w1)
    have g: "gr w1 = gr w" using geffectD [OF process_conflict_reads(1), of w tt a b s e] Pair by simp
    show ?thesis
    proof (cases r)
      case (Inl x)
      then show ?thesis using Pair g by (simp add: process_conflict_def wp_def tbind_def)
    next
      case (Inr ss)
      obtain sa sb where ss: "ss = (sa, sb)" by (cases ss)
      have ids: "cs_node_id sa = a" "cs_node_id sb = b" using gather_ids [OF Pair [unfolded Inr ss]] by auto
      obtain x y why where k: "ranked sa sb (score sa (clock e (tick w1))) (score sb (clock e (Suc (tick w1)))) = ((x, y), why)"
        by (metis prod.exhaust)
      have xy: "{cs_node_id x, cs_node_id y} = {a, b}"
        using ranked_cases [of sa sb "score sa (clock e (tick w1))" "score sb (clock e (Suc (tick w1)))"] k ids by auto
      then have "truthy (Some (cs_node_id x))" "truthy (Some (cs_node_id y))" using assms(3,4) by (auto simp: doubleton_eq_iff)
      then have "wp e (apply_resolution a b s sa sb \<lparr>rr_action = SUPERSEDE, rr_winner = Some (cs_node_id x), rr_loser = Some (cs_node_id y),
          rr_rationale = why, rr_merged = None\<rparr>) (\<lambda>_ v'. gr v' = gr w) (\<lambda>_ _. False) (w1\<lparr>tick := Suc (Suc (tick w1))\<rparr>)"
        unfolding apply_resolution_def
        by (simp add: wp_bind) (rule wp_mono [OF raises [OF xy]], simp_all add: g)
      then show ?thesis using Pair Inr ss
        by (simp add: process_conflict_def wp_def tbind_def resolve_run k ret_def split: prod.splits sum.splits)
    qed
  qed
  then show ?thesis by (auto simp: wp_def split: prod.splits sum.splits)
qed

section \<open>Merging\<close>

text \<open>
  two claims can not be merged.  Whatever a resolver proposes, the merged claim cites only the two
  nodes in conflict, so unless one of them is a memory it is refused for want of evidence, and
  the conflict stays as it was.
\<close>

theorem merge_of_claims_refused:
  assumes "rr_action r = MERGE" "truthy (rr_merged r)"
    and "\<forall>i \<in> {a, b}. \<forall>n \<in> set (match_id (gr w) i s). player n \<noteq> Some ''memory''"
  shows "\<exists>x w'. apply_resolution a b s sa sb r e w = (Inl x, w') \<and> gr w' = gr w"
proof -
  have nodes: "evidence_nodes [node_prefix @ a, node_prefix @ b] = [a, b]" by (simp add: evidence_nodes_def node_prefix_def)
  have checks: "wp e (store_claim_checks [node_prefix @ a, node_prefix @ b] s args) (\<lambda>_ v. gr v = gr w) (\<lambda>_ _. False) w" for args
    unfolding store_claim_checks_def nodes validate_evidence_nodes_def VALIDATE_EVIDENCE_def Let_def
    using assms(3) by (auto simp: wp_simps list_ex_iff)
  have "wp e (apply_resolution a b s sa sb r) (\<lambda>_ v. gr v = gr w) (\<lambda>_ _. False) w"
    using assms(1,2) unfolding apply_resolution_def store_claim_def
    by (simp add: wp_bind) (rule wp_mono [OF checks], simp_all)
  then show ?thesis by (auto simp: wp_def split: prod.splits sum.splits)
qed

section \<open>Contradictions that are linked\<close>

lemma returns_any: "(\<And>a w'. returns e (f a) Q w') \<Longrightarrow> returns e (tbind m f) Q w"
  unfolding wp_bind by (subst wp_def) (simp split: prod.split sum.split)

lemma returns_option:
  "returns e m Q w \<Longrightarrow> (\<And>a. returns e (f a) Q w) \<Longrightarrow> returns e (case x of None \<Rightarrow> m | Some a \<Rightarrow> f a) Q w"
  by (cases x) simp_all

lemma link_out: "link i j ty s a md wt em e w = (Inr (out, evs), w') \<Longrightarrow> evs = link_events i j s ty"
proof -
  assume run: "link i j ty s a md wt em e w = (Inr (out, evs), w')"
  have "returns e (link i j ty s a md wt em) (\<lambda>(_, evs) _. evs = link_events i j s ty) w"
    unfolding link_def Let_def
    by (intro returns_any returns_option returns_intros(3)) (simp add: wp_ret)
  from returnsD [OF this run] show ?thesis by simp
qed

text \<open>
  C10: a contradiction that an agent links is flagged but never consolidated.  The event of the
  link names the other node under a key the task does not read, so delivering the events of the
  link, at any time and in any world, queues no consolidation and changes the state of no node.
\<close>

theorem linked_contradiction_never_consolidated:
  assumes "link i j ty s a md wt em e w = (Inr (out, evs), w')" "ev \<in> set evs"
  shows "emitted (snd (deliver tt k ev e2 w2)) = emitted w2 \<and>
    map props (nodes (gr (snd (deliver tt k ev e2 w2)))) = map props (nodes (gr w2))"
proof -
  have "ev \<in> set (link_events i j s ty)" using link_out [OF assms(1)] assms(2) by simp
  then have "event_type ev = UPDATE_HEAT \<or> event_type ev = FLAG_CONTRADICTION \<and> kwarg ev ''conflict_node_id'' = None"
    by (auto simp: link_events_def reaction_def kwarg_def split: if_splits)
  then show ?thesis
  proof
    assume "event_type ev = UPDATE_HEAT"
    then show ?thesis
      by (simp add: deliver_def update_heat_task_def execute_write_def graph_simps o_def if_distrib cong: if_cong)
  next
    assume "event_type ev = FLAG_CONTRADICTION \<and> kwarg ev ''conflict_node_id'' = None"
    then show ?thesis
      by (simp add: deliver_def flag_contradiction_task_def tbind_def ret_def execute_write_def graph_simps o_def if_distrib cong: if_cong)
  qed
qed

section \<open>A conflict, concretely\<close>

definition ex_texts :: texts where
  "ex_texts = \<lparr>text_time = \<lambda>_. None, text_float = \<lambda>_. None, text_int = \<lambda>_. None, text_str = \<lambda>_. ''''\<rparr>"

definition ex_dated :: "nat \<Rightarrow> int \<Rightarrow> node" where
  "ex_dated k t = (ex_node k [''Node'', ''Claim''] ex_active)\<lparr>attrs := [''created_at'' \<mapsto> VTime t]\<rparr>"

definition ex_dispute :: graph where
  "ex_dispute = \<lparr>nodes = [ex_dated 1 0, ex_dated 2 5], edges = [], next_vid = 3\<rparr>"

definition ex_signals :: "nat \<Rightarrow> int \<Rightarrow> ConflictSignals" where
  "ex_signals k t = \<lparr>cs_node_id = ex_uuid k, cs_credibility = 4 / 10, cs_corroboration_count = 1, cs_created_at = t,
     cs_agent_id = [], cs_source_tier = ''unknown''\<rparr>"

lemma ex_dispute_ids: "ex_uuid 1 \<noteq> ex_uuid 2" "ex_uuid 2 \<noteq> ex_uuid 1" "uuid_ok (ex_uuid 1)" "uuid_ok (ex_uuid 2)"
  by (simp add: ex_uuid_def hex_digits_def) (simp add: ex_uuid_def hex_digits_def, code_simp, code_simp)

lemma ex_dated_simps [simp]:
  "nid (ex_dated k t) = ex_uuid k" "silo (ex_dated k t) = Some ''s1''" "pstate (ex_dated k t) = Some ''ACTIVE''"
  "props (ex_dated k t) ''layer'' = None" "vid (ex_dated k t) = k"
  by (simp_all add: ex_dated_def ex_node_def ex_active_def)

lemma ex_dispute_matches:
  "match_id ex_dispute (ex_uuid 1) ''s1'' = [ex_dated 1 0]" "match_id ex_dispute (ex_uuid 2) ''s1'' = [ex_dated 2 5]"
  using ex_dispute_ids by (simp_all add: match_id_def is_node_def ex_dispute_def)

lemma ex_gather:
  "gather_signals ex_texts (ex_uuid 1) (ex_uuid 2) ''s1'' ex_env (ex_world ex_dispute) =
     (Inr (ex_signals 1 0, ex_signals 2 5), (ex_world ex_dispute)\<lparr>tick := 3\<rparr>)"
  using ex_dispute_ids
  by (simp add: gather_signals_def build_signals_def tx_prims GET_SIGNALS_def signal_row_of_def ex_dispute_def Let_def
      ex_dated_def ex_node_def ex_active_def read_time_def read_float_def read_int_def read_text_def val_or_def ex_signals_def)

theorem resolve_symmetric_witness:
  "\<exists>r r'. fst (resolve (ex_signals 1 0) (ex_signals 2 5) (ex_env\<lparr>clock := \<lambda>_. 9\<rparr>) (ex_world ex_dispute)) = Inr r \<and>
     fst (resolve (ex_signals 2 5) (ex_signals 1 0) (ex_env\<lparr>clock := \<lambda>_. 9\<rparr>) (ex_world ex_dispute)) = Inr r' \<and>
     rr_winner r = rr_winner r' \<and> rr_loser r = rr_loser r'"
  using resolve_symmetric [of "ex_signals 1 0" "ex_signals 2 5" "ex_env\<lparr>clock := \<lambda>_. 9\<rparr>" "ex_world ex_dispute"] ex_dispute_ids
  by (auto simp: ex_signals_def)

theorem conflict_settled_witness:
  "\<exists>r w'. process_conflict ex_texts resolve (ex_uuid 1) (ex_uuid 2) ''s1'' ex_env (ex_world ex_dispute) = (Inr r, w') \<and>
     (settled_for (ex_uuid 1) (ex_uuid 2) ''s1'' ex_dispute (gr w') \<or> settled_for (ex_uuid 2) (ex_uuid 1) ''s1'' ex_dispute (gr w'))"
proof -
  have "\<not> WOULD_CYCLE (ex_uuid 1) (ex_uuid 2) ''SUPERSEDES'' ''s1'' ex_dispute"
    "\<not> WOULD_CYCLE (ex_uuid 2) (ex_uuid 1) ''SUPERSEDES'' ''s1'' ex_dispute"
    by (simp_all add: WOULD_CYCLE_def path_exists_iff type_edges_def, simp_all add: ex_dispute_def)
  from conflict_settled [OF _ ex_gather ex_dispute_ids(1), unfolded ex_world_simps, OF _ ex_dispute_matches _ _ ex_dispute_ids(3,4) this]
  show ?thesis by (auto simp: doubleton_eq_iff)
qed

theorem redelivered_conflict_raises_witness:
  "\<exists>x w'. process_conflict ex_texts resolve (ex_uuid 1) (ex_uuid 2) ''s1'' ex_env
     (ex_world (fst (CREATE_SUPERSEDES (ex_uuid 1) (ex_uuid 2) ''s1'' 9 ''contradiction'' 9 ex_dispute))) = (Inl x, w')"
proof -
  let ?g = "fst (CREATE_SUPERSEDES (ex_uuid 1) (ex_uuid 2) ''s1'' 9 ''contradiction'' 9 ex_dispute)"
  let ?n = "set_field ''valid_to'' (Some (VTime 9)) (set_prop ''state'' (Some (VStr ''SUPERSEDED'')) (ex_dated 2 5))"
  have "match_id ?g (ex_uuid 1) ''s1'' = [ex_dated 1 0]" "match_id ?g (ex_uuid 2) ''s1'' = [?n]"
    using ex_dispute_ids(1,2) by (simp_all add: CREATE_SUPERSEDES_def ex_dispute_def match_id_def is_node_def graph_simps)
  with redelivered_conflict_raises [of "ex_world ?g" "ex_uuid 1" "''s1''" "ex_dated 1 0" "ex_uuid 2" ?n ex_texts ex_env]
  show ?thesis by (auto simp: ex_uuid_def)
qed

theorem merge_of_claims_refused_witness:
  "\<exists>x w'. apply_resolution (ex_uuid 1) (ex_uuid 2) ''s1'' (ex_signals 1 0) (ex_signals 2 5)
     \<lparr>rr_action = MERGE, rr_winner = None, rr_loser = None, rr_rationale = Stated None, rr_merged = Some ''both''\<rparr>
     ex_env (ex_world ex_dispute) = (Inl x, w') \<and> gr w' = ex_dispute"
  using merge_of_claims_refused [of "\<lparr>rr_action = MERGE, rr_winner = None, rr_loser = None, rr_rationale = Stated None, rr_merged = Some ''both''\<rparr>"
      "ex_uuid 1" "ex_uuid 2" "ex_world ex_dispute" "''s1''" "ex_signals 1 0" "ex_signals 2 5" ex_env] ex_dispute_matches
  by simp

lemma propagate_incremental_total: "\<exists>us. propagate_incremental x is cred pos neg d al eta = Some us"
  by (auto simp: propagate_incremental_def propagate_confidence_def Let_def split: prod.splits)

lemma propagation_returns:
  assumes "\<And>k. \<not> fault e k"
  shows "wp e (run_incremental_propagation i s) (\<lambda>_ _. False) (\<lambda>_ _. True) w"
proof -
  have "wp e (case propagate_incremental i ns cred pos neg 2 (8 / 10) 1 of None \<Rightarrow> raise ValueError
      | Some us \<Rightarrow> tbind (if us = [] then ret () else tbind datetime_now (\<lambda>t. execute_write (UPDATE_PROPAGATED_CONFIDENCE us s t)))
          (\<lambda>_. ret (length us))) (\<lambda>_ _. False) (\<lambda>_ _. True) v" for ns cred pos neg v
    using propagate_incremental_total [of i ns cred pos neg 2 "8 / 10" 1] assms by (auto simp: wp_simps)
  then show ?thesis
    unfolding run_incremental_propagation_def Let_def by (simp add: wp_simps assms)
qed

lemma linked_contradiction_returns:
  assumes ok: "\<And>k. \<not> fault e k" and m: "match_id (gr w) i s = [n]" "match_id (gr w) j s = [n']"
    and act: "pstate n = Some ''ACTIVE''" "pstate n' = Some ''ACTIVE''" "FIND_EDGES i j ''CONTRADICTS'' s (gr w) = []"
    and u: "uuid_ok i" "uuid_ok j"
  shows "\<exists>out w'. link i j CONTRADICTS s a md wt em e w = (Inr (out, link_events i j s CONTRADICTS), w')"
proof -
  have "silo n = Some s" "silo n' = Some s" using m match_id_iff [of _ "gr w"] by (metis list.set_intros(1))+
  then have pair: "GET_PAIR i j s (gr w) =
      [\<lparr>pa_source_silo = Some s, pa_target_silo = Some s, pa_source_state = Some ''ACTIVE'', pa_target_state = Some ''ACTIVE''\<rparr>]"
    using m act by (simp add: GET_PAIR_def)
  have "wp e (link i j CONTRADICTS s a md wt em) (\<lambda>_ _. False) (\<lambda>(_, evs) _. evs = link_events i j s CONTRADICTS) w"
    unfolding link_def validate_link_def Let_def
    by (simp add: wp_simps ok pair act(3) u ACYCLIC_EDGE_TYPES_def) (rule wp_mono [OF propagation_returns [OF ok]]; simp add: wp_simps)
  then show ?thesis by (auto simp: wp_def split: prod.splits sum.splits)
qed

theorem linked_contradiction_never_consolidated_witness:
  "\<exists>out evs w'. link (ex_uuid 1) (ex_uuid 2) CONTRADICTS ''s1'' ''agent'' [] 1 True ex_env (ex_world ex_dispute) = (Inr (out, evs), w') \<and>
     reaction FLAG_CONTRADICTION (ex_uuid 1) ''s1'' [(''contradicting_node_id'', VStr (ex_uuid 2))] \<in> set evs \<and>
     emitted (snd (deliver ex_texts 3 (reaction FLAG_CONTRADICTION (ex_uuid 1) ''s1'' [(''contradicting_node_id'', VStr (ex_uuid 2))])
       ex_env (ex_world ex_dispute))) = []"
proof -
  let ?ev = "reaction FLAG_CONTRADICTION (ex_uuid 1) ''s1'' [(''contradicting_node_id'', VStr (ex_uuid 2))]"
  have none: "FIND_EDGES (ex_uuid 1) (ex_uuid 2) ''CONTRADICTS'' ''s1'' ex_dispute = []" by (simp add: FIND_EDGES_def ex_dispute_def)
  obtain out w' where run: "link (ex_uuid 1) (ex_uuid 2) CONTRADICTS ''s1'' ''agent'' [] 1 True ex_env (ex_world ex_dispute) =
      (Inr (out, link_events (ex_uuid 1) (ex_uuid 2) ''s1'' CONTRADICTS), w')"
    using linked_contradiction_returns [OF _ _ _ _ _ _ ex_dispute_ids(3,4), of ex_env "ex_world ex_dispute" "''s1''" "ex_dated 1 0" "ex_dated 2 5"
        "''agent''" "[]" 1 True] none ex_dispute_matches by auto
  have "?ev \<in> set (link_events (ex_uuid 1) (ex_uuid 2) ''s1'' CONTRADICTS)" by (simp add: link_events_def)
  with linked_contradiction_never_consolidated [OF run this, of ex_texts 3 ex_env "ex_world ex_dispute"] run
  show ?thesis by (auto simp: ex_world_def)
qed

end
