(* ===== verification/ConflictToolsCorrect.thy ===== *)
theory ConflictToolsCorrect
  imports ConflictsCorrect
begin

text \<open>
  The conflicts an operator sees: one that is detected is listed until it is settled, and its
  settlement touches no other conflict of the same graph but those of the same id.  Then the
  cascade of a tombstoned reasoning chain to the facts that rest on it.
\<close>

section \<open>The list of conflicts\<close>

text \<open>A conflict of the silo is listed under a status, when the limit does not cut the list.\<close>

definition listed :: "string \<Rightarrow> string \<Rightarrow> string \<Rightarrow> graph \<Rightarrow> bool" where
  "listed c s status g \<longleftrightarrow> list_ex (\<lambda>x. cf_id x = Some (VStr c)) (LIST_CONFLICTS s None status (length (edges g)) g)"

lemma silo_conflicts_iff:
  "(a, b, r) \<in> set (silo_conflicts s g) \<longleftrightarrow> r \<in> set (edges g) \<and> etype r = ''CONTRADICTS'' \<and>
     node_at g (esrc r) = Some a \<and> node_at g (edst r) = Some b \<and> silo a = Some s \<and> silo b = Some s"
  by (auto simp: silo_conflicts_def split: option.splits if_splits)

lemma length_silo_conflicts: "length (silo_conflicts s g) \<le> length (edges g)"
proof -
  have *: "length (concat (map f rs)) \<le> length rs" if "\<And>r. length (f r) \<le> 1" for f :: "edge \<Rightarrow> (node \<times> node \<times> edge) list" and rs
  proof (induction rs)
    case (Cons r rs)
    then show ?case using that [of r] by simp
  qed simp
  have "length (silo_conflicts s g) \<le> length (filter (\<lambda>r. etype r = ''CONTRADICTS'') (edges g))"
    unfolding silo_conflicts_def by (rule *) (simp split: option.split)
  then show ?thesis using length_filter_le [of _ "edges g"] le_trans by blast
qed

lemma listed_iff:
  "listed c s status g \<longleftrightarrow> (\<exists>a b r. (a, b, r) \<in> set (silo_conflicts s g) \<and> eprops r ''resolution_status'' = Some (VStr status) \<and>
     eprops r ''id'' = Some (VStr c))"
proof -
  let ?l = "filter (\<lambda>(a, b, r). eprops r ''resolution_status'' = Some (VStr status)) (silo_conflicts s g)"
  have "length ?l \<le> length (edges g)" using length_silo_conflicts le_trans length_filter_le by blast
  then show ?thesis
    unfolding listed_def LIST_CONFLICTS_def by (auto simp: list_ex_iff conflict_of_def)
qed

lemma node_at_wf: "graph_wf g \<Longrightarrow> n \<in> set (nodes g) \<Longrightarrow> node_at g (vid n) = Some n"
proof -
  have "distinct (map vid ns) \<Longrightarrow> n \<in> set ns \<Longrightarrow> find (\<lambda>m. vid m = vid n) ns = Some n" for ns
    by (induction ns) auto
  then show "graph_wf g \<Longrightarrow> n \<in> set (nodes g) \<Longrightarrow> node_at g (vid n) = Some n" by (simp add: graph_wf_def node_at_def)
qed

text \<open>The settlement of a conflict, wherever its id occurs.\<close>

lemma update_conflict_status_run:
  assumes "\<And>k. \<not> fault e k" "listed c s st (gr w)"
  shows "\<exists>t. update_conflict_status c s status ag e w =
    (Inr True, w\<lparr>gr := fst (UPDATE_CONFLICT_STATUS c status ag t (gr w)), tick := tick w + 3\<rparr>)"
proof -
  obtain a b r where r: "(a, b, r) \<in> set (silo_conflicts s (gr w))" "eprops r ''id'' = Some (VStr c)"
    using assms(2) by (auto simp: listed_iff)
  then have "GET_CONFLICT c s (gr w) \<noteq> []" by (auto simp: GET_CONFLICT_def filter_empty_conv)
  moreover have "snd (UPDATE_CONFLICT_STATUS c status ag t (gr w)) \<noteq> []" for t
    using r by (auto simp: UPDATE_CONFLICT_STATUS_def Let_def filter_empty_conv silo_conflicts_iff)
  ultimately show ?thesis using assms(1) by (auto simp: update_conflict_status_def tx_prims numeral_3_eq_3)
qed

lemma listed_after_update:
  "listed d t st (fst (UPDATE_CONFLICT_STATUS c status ag tm g)) \<longleftrightarrow>
     (if d = c then st = status \<and> (\<exists>a b r. (a, b, r) \<in> set (silo_conflicts t g) \<and> eprops r ''id'' = Some (VStr c))
      else listed d t st g)"
proof -
  define F where "F = (\<lambda>r :: edge. if etype r = ''CONTRADICTS'' \<and> eprops r ''id'' = Some (VStr c)
    then r\<lparr>eprops := (eprops r)(''resolution_status'' \<mapsto> VStr status, ''resolved_by'' \<mapsto> VStr ag, ''resolved_at'' \<mapsto> VTime tm)\<rparr> else r)"
  let ?h = "fst (UPDATE_CONFLICT_STATUS c status ag tm g)"
  have F: "etype (F r) = etype r" "esrc (F r) = esrc r" "edst (F r) = edst r" "eprops (F r) ''id'' = eprops r ''id''" for r
    by (simp_all add: F_def)
  have h: "nodes ?h = nodes g" "edges ?h = map F (edges g)"
    by (simp_all add: UPDATE_CONFLICT_STATUS_def Let_def graph_simps F_def)
  then have at: "node_at ?h v = node_at g v" for v by (simp add: node_at_def)
  have eq: "(a, b, r) \<in> set (silo_conflicts t ?h) \<longleftrightarrow> (\<exists>r0. r = F r0 \<and> (a, b, r0) \<in> set (silo_conflicts t g))" for a b r
    unfolding silo_conflicts_iff at h by (auto simp: F)
  have *: "listed d t st ?h \<longleftrightarrow> (\<exists>a b r. (a, b, r) \<in> set (silo_conflicts t g) \<and>
      eprops (F r) ''resolution_status'' = Some (VStr st) \<and> eprops r ''id'' = Some (VStr d))"
  proof
    assume "listed d t st ?h"
    then obtain a b r where r: "(a, b, r) \<in> set (silo_conflicts t ?h)" "eprops r ''resolution_status'' = Some (VStr st)"
      "eprops r ''id'' = Some (VStr d)" unfolding listed_iff by blast
    then obtain r0 where "r = F r0" "(a, b, r0) \<in> set (silo_conflicts t g)" unfolding eq by blast
    then show "\<exists>a b r. (a, b, r) \<in> set (silo_conflicts t g) \<and> eprops (F r) ''resolution_status'' = Some (VStr st) \<and>
        eprops r ''id'' = Some (VStr d)"
      using r(2,3) F(4) by (intro exI [of _ a] exI [of _ b] exI [of _ r0]) simp
  next
    assume "\<exists>a b r. (a, b, r) \<in> set (silo_conflicts t g) \<and> eprops (F r) ''resolution_status'' = Some (VStr st) \<and>
        eprops r ''id'' = Some (VStr d)"
    then obtain a b r where "(a, b, r) \<in> set (silo_conflicts t g)" "eprops (F r) ''resolution_status'' = Some (VStr st)"
      "eprops r ''id'' = Some (VStr d)" by blast
    then show "listed d t st ?h" unfolding listed_iff eq using F(4) by (intro exI [of _ a] exI [of _ b] exI [of _ "F r"]) auto
  qed
  note *
  also have "\<dots> \<longleftrightarrow> (\<exists>a b r. (a, b, r) \<in> set (silo_conflicts t g) \<and>
      (if d = c then Some (VStr status) else eprops r ''resolution_status'') = Some (VStr st) \<and> eprops r ''id'' = Some (VStr d))"
    by (intro ex_cong1) (auto simp: F_def silo_conflicts_iff)
  finally show ?thesis by (cases "d = c") (simp_all add: listed_iff, blast)
qed

lemma merge_edge_with_append:
  "merge_edge_with t kvs extra a b (g\<lparr>edges := E\<rparr>) =
     g\<lparr>edges := E @ (if list_ex (edge_matches t kvs a b) E then [] else [\<lparr>esrc = a, edst = b, etype = t, eprops = map_of (kvs @ extra)\<rparr>])\<rparr>"
  by (simp add: merge_edge_with_def)

lemma detected_edges:
  assumes "\<forall>r \<in> set (edges g). eprops r ''id'' \<noteq> Some (VStr c)"
  shows "\<exists>es. fold (\<lambda>(a, b). merge_edge_with ''CONTRADICTS'' [(''id'', VStr c)] kvs (vid a) (vid b)) ps g = g\<lparr>edges := edges g @ es\<rparr> \<and>
    (ps \<noteq> [] \<longrightarrow> es \<noteq> []) \<and> (\<forall>r \<in> set es. etype r = ''CONTRADICTS'' \<and> eprops r = map_of ((''id'', VStr c) # kvs) \<and>
       (\<exists>(a, b) \<in> set ps. esrc r = vid a \<and> edst r = vid b))"
proof (induction ps rule: rev_induct)
  case (snoc p ps)
  obtain a b where p: "p = (a, b)" by (cases p)
  from snoc obtain es where es: "fold (\<lambda>(a, b). merge_edge_with ''CONTRADICTS'' [(''id'', VStr c)] kvs (vid a) (vid b)) ps g = g\<lparr>edges := edges g @ es\<rparr>"
    "ps \<noteq> [] \<longrightarrow> es \<noteq> []" "\<forall>r \<in> set es. etype r = ''CONTRADICTS'' \<and> eprops r = map_of ((''id'', VStr c) # kvs) \<and>
       (\<exists>(a, b) \<in> set ps. esrc r = vid a \<and> edst r = vid b)" by blast
  let ?F = "\<lambda>(a, b). merge_edge_with ''CONTRADICTS'' [(''id'', VStr c)] kvs (vid a) (vid b)"
  let ?P = "list_ex (edge_matches ''CONTRADICTS'' [(''id'', VStr c)] (vid a) (vid b)) (edges g @ es)"
  let ?d = "\<lparr>esrc = vid a, edst = vid b, etype = ''CONTRADICTS'', eprops = map_of ([(''id'', VStr c)] @ kvs)\<rparr>"
  have "fold ?F (ps @ [p]) g = ?F p (fold ?F ps g)" by simp
  also have "\<dots> = g\<lparr>edges := (edges g @ es) @ (if ?P then [] else [?d])\<rparr>"
    unfolding es(1) p split_conv by (rule merge_edge_with_append)
  finally have step: "fold ?F (ps @ [p]) g = g\<lparr>edges := edges g @ (es @ (if ?P then [] else [?d]))\<rparr>" by simp
  obtain ds where ds: "ds = (if ?P then [] else [?d])" "set ds \<subseteq> {?d}" by simp
  have "?P \<Longrightarrow> es \<noteq> []" using assms by (auto simp: list_ex_iff edge_matches_def)
  then have ne: "es @ ds \<noteq> []" using ds(1) by (cases es) auto
  let ?Q = "\<lambda>r. etype r = ''CONTRADICTS'' \<and> eprops r = map_of ((''id'', VStr c) # kvs) \<and>
    (\<exists>(a, b) \<in> set (ps @ [p]). esrc r = vid a \<and> edst r = vid b)"
  have "?Q r" if "r \<in> set (es @ ds)" for r
  proof (cases "r \<in> set es")
    case True
    then show ?thesis using es(3) by fastforce
  next
    case False
    then have "r = ?d" using that ds(2) by auto
    then show ?thesis using p by simp
  qed
  then show ?case using step ne unfolding ds(1) [symmetric] by (intro exI [of _ "es @ ds"]) blast
qed (auto intro: exI [of _ "[]"])

text \<open>
  C11: a conflict that is detected is listed until it is settled.  When no call fails, the edge between two nodes
  of the silo is created with a fresh id and the conflict is listed as unresolved; after its
  dismissal it is listed as dismissed and no longer as unresolved, and neither call
  changes a node or what is listed of any other conflict.
\<close>

theorem detected_conflict_tracked:
  assumes c: "c = uuid4 e (tick w)" and ok: "\<forall>k. \<not> fault e k" and wf: "graph_wf (gr w)"
    and m: "match_id (gr w) a s \<noteq> []" "match_id (gr w) b s \<noteq> []"
    and fresh: "\<forall>r \<in> set (edges (gr w)). eprops r ''id'' \<noteq> Some (VStr c)"
  shows "\<exists>w1 w2. create_contradicts_edge a b s e w = (Inr (Some c), w1) \<and>
    listed c s ''unresolved'' (gr w1) \<and>
    dismiss_conflict c s agent e w1 = (Inr (Some ''dismissed''), w2) \<and>
    listed c s ''dismissed'' (gr w2) \<and> \<not> listed c s ''unresolved'' (gr w2) \<and>
    nodes (gr w1) = nodes (gr w) \<and> nodes (gr w2) = nodes (gr w) \<and>
    (\<forall>d t st. d \<noteq> c \<longrightarrow> listed d t st (gr w1) = listed d t st (gr w) \<and> listed d t st (gr w2) = listed d t st (gr w))"
proof -
  let ?g = "gr w" and ?t = "clock e (Suc (tick w))"
  let ?kvs = "[(''detected_by'', VStr ''system''), (''resolution_status'', VStr ''unresolved''), (''detected_at'', VTime ?t)]"
  let ?ps = "List.product (match_id ?g a s) (match_id ?g b s)"
  let ?h = "fst (CREATE_CONTRADICTS_EDGE c a b s ?t ?g)"
  obtain es where es: "?h = ?g\<lparr>edges := edges ?g @ es\<rparr>" "?ps \<noteq> [] \<longrightarrow> es \<noteq> []"
    "\<forall>r \<in> set es. etype r = ''CONTRADICTS'' \<and> eprops r = map_of ((''id'', VStr c) # ?kvs) \<and>
       (\<exists>(x, y) \<in> set ?ps. esrc r = vid x \<and> edst r = vid y)"
    using detected_edges [OF fresh, of ?kvs ?ps] unfolding CREATE_CONTRADICTS_EDGE_def Let_def fst_conv by blast
  have ne: "?ps \<noteq> []" using m by (cases "match_id ?g a s"; cases "match_id ?g b s") auto
  then obtain r where r: "r \<in> set es" using es(2) by (cases es) auto
  then obtain x y where xy: "x \<in> set (match_id ?g a s)" "y \<in> set (match_id ?g b s)" "esrc r = vid x" "edst r = vid y"
    using es(3) by auto
  have at: "node_at ?h v = node_at ?g v" for v by (simp add: es(1) node_at_def)
  have "(x, y, r) \<in> set (silo_conflicts s ?h)"
    unfolding silo_conflicts_iff at using xy r es node_at_wf [OF wf] by (auto simp: match_id_iff)
  then have new: "listed c s ''unresolved'' ?h" using r es(3) unfolding listed_iff by fastforce
  have old: "listed d t st ?h = listed d t st ?g" if "d \<noteq> c" for d t st
    unfolding listed_iff silo_conflicts_iff at using that es by fastforce
  let ?w1 = "w\<lparr>gr := ?h, tick := tick w + 3\<rparr>"
  have run: "create_contradicts_edge a b s e w = (Inr (Some c), ?w1)"
    using ne ok by (simp add: create_contradicts_edge_def tx_prims CREATE_CONTRADICTS_EDGE_def Let_def c numeral_3_eq_3)
  obtain t where upd: "update_conflict_status c s ''dismissed'' agent e ?w1 =
      (Inr True, ?w1\<lparr>gr := fst (UPDATE_CONFLICT_STATUS c ''dismissed'' agent t ?h), tick := tick ?w1 + 3\<rparr>)"
    using update_conflict_status_run [of e c s "''unresolved''" ?w1 "''dismissed''" agent] ok new by auto
  let ?w2 = "?w1\<lparr>gr := fst (UPDATE_CONFLICT_STATUS c ''dismissed'' agent t ?h), tick := tick ?w1 + 3\<rparr>"
  have "dismiss_conflict c s agent e ?w1 = (Inr (Some ''dismissed''), ?w2)"
    by (simp add: dismiss_conflict_def tbind_def upd ret_def)
  moreover have "nodes (gr ?w2) = nodes ?g" by (simp add: UPDATE_CONFLICT_STATUS_def Let_def graph_simps es(1))
  moreover have "\<exists>a b r. (a, b, r) \<in> set (silo_conflicts s ?h) \<and> eprops r ''id'' = Some (VStr c)"
    using new by (auto simp: listed_iff)
  then have "listed c s ''dismissed'' (gr ?w2)" "\<not> listed c s ''unresolved'' (gr ?w2)" by (auto simp: listed_after_update)
  moreover have "listed d t' st (gr ?w2) = listed d t' st ?g" if "d \<noteq> c" for d t' st
    using that old [OF that] by (simp add: listed_after_update)
  ultimately show ?thesis using run new old es(1) by (intro exI [of _ ?w1] exI [of _ ?w2]) simp
qed

text \<open>
  The update names the edge by its id alone.  The ids of the edges that extraction writes are hashes of
  the claims, the same in every silo with the same claims: where two silos have a conflict of
  the same id, a dismissal in one settles it in the other.
\<close>

theorem dismissal_crosses_silos:
  assumes "\<forall>k. \<not> fault e k" "listed c s st (gr w)" "listed c t ''unresolved'' (gr w)"
  shows "\<exists>w'. dismiss_conflict c s agent e w = (Inr (Some ''dismissed''), w') \<and>
    listed c t ''dismissed'' (gr w') \<and> \<not> listed c t ''unresolved'' (gr w')"
proof -
  obtain tm where "update_conflict_status c s ''dismissed'' agent e w =
      (Inr True, w\<lparr>gr := fst (UPDATE_CONFLICT_STATUS c ''dismissed'' agent tm (gr w)), tick := tick w + 3\<rparr>)"
    using update_conflict_status_run [of e c s st w "''dismissed''" agent] assms(1,2) by auto
  moreover have "\<exists>a b r. (a, b, r) \<in> set (silo_conflicts t (gr w)) \<and> eprops r ''id'' = Some (VStr c)"
    using assms(3) by (auto simp: listed_iff)
  ultimately show ?thesis by (simp add: dismiss_conflict_def tbind_def ret_def listed_after_update)
qed

section \<open>The facts of a tombstoned chain\<close>

text \<open>All that the cascade does to the graph: some nodes become tombstones.\<close>

definition buries :: "(node \<Rightarrow> node) \<Rightarrow> bool" where
  "buries F \<longleftrightarrow> (\<forall>n. vid (F n) = vid n \<and> nid (F n) = nid n \<and> silo (F n) = silo n \<and> labels (F n) = labels n \<and>
     (props (F n) ''state'' = props n ''state'' \<or> props (F n) ''state'' = Some (VStr ''TOMBSTONED'')))"

definition tombstones :: "graph \<Rightarrow> graph \<Rightarrow> bool" where
  "tombstones g h \<longleftrightarrow> edges h = edges g \<and> (\<exists>F. buries F \<and> nodes h = map F (nodes g))"

lemma buriesD:
  "buries F \<Longrightarrow> vid (F n) = vid n" "buries F \<Longrightarrow> nid (F n) = nid n" "buries F \<Longrightarrow> silo (F n) = silo n"
  "buries F \<Longrightarrow> is_node i s (F n) = is_node i s n"
  "buries F \<Longrightarrow> props (F n) ''state'' = props n ''state'' \<or> props (F n) ''state'' = Some (VStr ''TOMBSTONED'')"
  by (simp_all add: buries_def is_node_def)

lemma tombstones_refl: "tombstones g g"
  unfolding tombstones_def by (intro conjI exI [of _ id]) (simp_all add: buries_def)

lemma tombstones_trans: "tombstones g h \<Longrightarrow> tombstones h k \<Longrightarrow> tombstones g k"
proof -
  assume "tombstones g h" "tombstones h k"
  then obtain F G where FG: "edges k = edges g" "buries F" "buries G" "nodes k = map (G \<circ> F) (nodes g)"
    unfolding tombstones_def by auto
  then have "buries (G \<circ> F)" unfolding buries_def comp_def by metis
  then show "tombstones g k" using FG(1,4) unfolding tombstones_def by blast
qed

lemma tombstones_fact: "tombstones g (fst (TOMBSTONE_FACT i s t x g))"
proof -
  let ?P = "\<lambda>f. is_node i s f \<and> (case props f ''state'' of None \<Rightarrow> False | Some v \<Rightarrow> v \<noteq> VStr ''TOMBSTONED'' \<and> v \<noteq> VStr ''DELETED'')"
  let ?f = "\<lambda>f. set_prop ''cancel_window_expires'' (Some (VTime x)) (set_prop ''tombstone_reason'' (Some (VStr ''consensus_chain_count_below_threshold''))
      (set_prop ''tombstoned_at'' (Some (VTime t)) (set_prop ''state'' (Some (VStr ''TOMBSTONED'')) f)))"
  have "buries (\<lambda>n. if ?P n then ?f n else n)" unfolding buries_def by simp
  then show ?thesis unfolding tombstones_def TOMBSTONE_FACT_def fst_conv graph_simps by blast
qed

lemma tombstones_match:
  assumes "tombstones g h"
  obtains F where "buries F" "\<And>i s. match_id h i s = map F (match_id g i s)" "\<And>v. node_at h v = map_option F (node_at g v)"
proof -
  obtain F where F: "buries F" "nodes h = map F (nodes g)" using assms unfolding tombstones_def by blast
  have "filter (is_node i s) (map F ns) = map F (filter (is_node i s) ns)" for i s ns
    by (induction ns) (simp_all add: buriesD [OF F(1)])
  moreover have "find (\<lambda>n. vid n = v) (map F ns) = map_option F (find (\<lambda>n. vid n = v) ns)" for v ns
    by (induction ns) (simp_all add: buriesD [OF F(1)])
  ultimately show ?thesis using that [of F] F by (simp add: match_id_def node_at_def)
qed

lemma remaining_chains_less: "tombstones g h \<Longrightarrow> REMAINING_CHAINS f s c h \<le> REMAINING_CHAINS f s c g"
proof -
  assume t: "tombstones g h"
  then obtain F where F: "buries F" "\<And>v. node_at h v = map_option F (node_at g v)" by (rule tombstones_match) blast
  have len: "length (filter P xs) \<le> length (filter Q xs)" if "\<And>x. P x \<Longrightarrow> Q x" for P Q and xs :: "edge list"
    using that by (induction xs) auto
  have act: "props (F n) ''state'' = None \<or> pstate (F n) = Some ''ACTIVE'' \<Longrightarrow> props n ''state'' = None \<or> pstate n = Some ''ACTIVE''" for n
    using buriesD(5) [OF F(1), of n] by auto
  have "edges h = edges g" using t by (simp add: tombstones_def)
  then show ?thesis
    unfolding REMAINING_CHAINS_def F(2) using act by (auto intro!: len simp: buriesD [OF F(1)] split: option.splits)
qed

lemma chain_fact_step:
  assumes "\<And>k. \<not> fault e k"
  shows "wp e (chain_tombstoned_fact k c s x) (\<lambda>_ _. False)
    (\<lambda>_ v. tombstones (gr w) (gr v) \<and> set (emitted w) \<subseteq> set (emitted v)) w"
  by (cases x) (auto simp: chain_tombstoned_fact_def wp_simps assms tombstones_refl tombstones_fact)

definition withdrawn :: "string \<Rightarrow> string \<Rightarrow> string \<Rightarrow> world \<Rightarrow> bool" where
  "withdrawn f c s w \<longleftrightarrow> list_all (\<lambda>n. pstate n = Some ''TOMBSTONED'') (match_id (gr w) f s) \<and>
     reaction CASCADE_STALENESS f s [(''reason'', VStr ''chain_tombstoned''), (''chain_id'', VStr c)] \<in> set (emitted w)"

lemma withdrawn_kept: "withdrawn f c s w \<Longrightarrow> tombstones (gr w) (gr v) \<Longrightarrow> set (emitted w) \<subseteq> set (emitted v) \<Longrightarrow> withdrawn f c s v"
proof -
  assume w: "withdrawn f c s w" "tombstones (gr w) (gr v)" "set (emitted w) \<subseteq> set (emitted v)"
  obtain F where F: "buries F" "\<And>i s. match_id (gr v) i s = map F (match_id (gr w) i s)"
    using w(2) by (rule tombstones_match) blast
  have "pstate (F n) = Some ''TOMBSTONED''" if "pstate n = Some ''TOMBSTONED''" for n
    using buriesD(5) [OF F(1), of n] that by auto
  then show "withdrawn f c s v" using w(1,3) by (auto simp: withdrawn_def F(2) list_all_iff)
qed

lemma chain_fact_target:
  assumes ok: "\<And>k. \<not> fault e k" and "f \<noteq> []" "REMAINING_CHAINS f s c (gr w) < k"
    and "list_all (\<lambda>n. pstate n = Some ''ACTIVE'' \<or> pstate n = Some ''TOMBSTONED'') (match_id (gr w) f s)"
  shows "wp e (chain_tombstoned_fact k c s (f, Some ''ACTIVE'')) (\<lambda>_ _. False) (\<lambda>_ v. withdrawn f c s v) w"
proof -
  have "pstate m = Some ''TOMBSTONED''" if m: "m \<in> set (match_id (fst (TOMBSTONE_FACT f s t x (gr w))) f s)" for m t x
  proof -
    let ?P = "\<lambda>f'. is_node f s f' \<and> (case props f' ''state'' of None \<Rightarrow> False | Some v \<Rightarrow> v \<noteq> VStr ''TOMBSTONED'' \<and> v \<noteq> VStr ''DELETED'')"
    let ?f = "\<lambda>f. set_prop ''cancel_window_expires'' (Some (VTime x)) (set_prop ''tombstone_reason'' (Some (VStr ''consensus_chain_count_below_threshold''))
      (set_prop ''tombstoned_at'' (Some (VTime t)) (set_prop ''state'' (Some (VStr ''TOMBSTONED'')) f)))"
    have "m \<in> (\<lambda>n. if ?P n then ?f n else n) ` set (nodes (gr w))"
      using m unfolding match_id_iff TOMBSTONE_FACT_def fst_conv graph_simps by simp
    then obtain n where n: "n \<in> set (nodes (gr w))" "m = (if ?P n then ?f n else n)" by blast
    have "nid n = nid m" "silo n = silo m" unfolding n(2) by simp_all
    then have "n \<in> set (match_id (gr w) f s)" using n(1) m by (simp add: match_id_iff)
    then have "pstate n = Some ''ACTIVE'' \<or> pstate n = Some ''TOMBSTONED''" "is_node f s n"
      using assms(4) by (auto simp: list_all_iff match_id_iff is_node_def)
    then show ?thesis
    proof (elim disjE)
      assume "pstate n = Some ''ACTIVE''"
      then have "?P n" using \<open>is_node f s n\<close> by (auto split: option.split)
      then show ?thesis unfolding n(2) by simp
    next
      assume t: "pstate n = Some ''TOMBSTONED''"
      then have "\<not> ?P n" by simp
      with t show ?thesis unfolding n(2) by simp
    qed
  qed
  then have "list_all (\<lambda>n. pstate n = Some ''TOMBSTONED'') (match_id (fst (TOMBSTONE_FACT f s t x (gr w))) f s)" for t x
    by (simp add: list_all_iff)
  then show ?thesis
    using assms(2,3) by (simp add: chain_tombstoned_fact_def wp_simps ok withdrawn_def)
qed

text \<open>
  C22: a fact does not outlive its consensus.  When a reasoning chain is tombstoned and no call fails, the task returns,
  and every active fact that rests on the chain, and that without it has fewer active chains than the
  minimum, is a tombstone; the staleness cascade of the fact is queued, and no edge changes.
\<close>

theorem orphaned_consensus_withdrawn:
  assumes ok: "\<forall>k. \<not> fault e k" and f: "match_id (gr w) f s = [n]" "f \<noteq> []" "has_label ''Fact'' n" "pstate n = Some ''ACTIVE''"
    and d: "d \<in> set (edges (gr w))" "consensus_edge d" "node_at (gr w) (esrc d) = Some n" "node_at (gr w) (edst d) = Some m" "is_node c s m"
    and few: "REMAINING_CHAINS f s c (gr w) < k"
  shows "\<exists>w'. chain_tombstoned_task k c s e w = (Inr (), w') \<and> withdrawn f c s w' \<and> edges (gr w') = edges (gr w)"
proof -
  have ok': "\<And>k. \<not> fault e k" using ok by simp
  have nid: "nid n = f" using f(1) match_id_iff [of n "gr w" f s] by simp
  have row: "(f, Some ''ACTIVE'') \<in> set (CONSENSUS_FACTS c s (gr w))"
    using d f(3,4) nid unfolding CONSENSUS_FACTS_def by (auto intro!: bexI [of _ d])
  have loop: "wp e (tfor rows (chain_tombstoned_fact k c s)) (\<lambda>_ _. False) (\<lambda>_ v. withdrawn f c s v \<and> tombstones (gr w) (gr v)) v"
    if "(f, Some ''ACTIVE'') \<in> set rows" "tombstones (gr w) (gr v)" for rows v
    using that
  proof (induction rows arbitrary: v)
    case (Cons x rows)
    have less: "REMAINING_CHAINS f s c (gr v) < k" using remaining_chains_less [OF Cons.prems(2)] few by (meson le_less_trans)
    have states: "list_all (\<lambda>n. pstate n = Some ''ACTIVE'' \<or> pstate n = Some ''TOMBSTONED'') (match_id (gr v) f s)"
    proof -
      obtain F where "buries F" "match_id (gr v) f s = map F (match_id (gr w) f s)"
        using Cons.prems(2) by (rule tombstones_match) blast
      then show ?thesis using buriesD(5) [of F n] f(1,4) by auto
    qed
    have step: "wp e (chain_tombstoned_fact k c s x) (\<lambda>_ _. False) (\<lambda>_ v'. tombstones (gr w) (gr v') \<and> (x = (f, Some ''ACTIVE'') \<longrightarrow> withdrawn f c s v')) v"
    proof (cases "x = (f, Some ''ACTIVE'')")
      case True
      have "wp e (chain_tombstoned_fact k c s x) (\<lambda>_ _. False)
          (\<lambda>_ v'. (tombstones (gr v) (gr v') \<and> set (emitted v) \<subseteq> set (emitted v')) \<and> withdrawn f c s v') v"
        using chain_fact_step [OF ok', of k c s x v] chain_fact_target [OF ok' f(2) less states] True
        by (auto simp: wp_def split: prod.splits sum.splits)
      then show ?thesis by (rule wp_mono) (use Cons.prems(2) tombstones_trans in blast)+
    next
      case False
      then show ?thesis by (intro wp_mono [OF chain_fact_step [OF ok', of k c s x v]]) (use Cons.prems(2) tombstones_trans in blast)+
    qed
    have rest: "wp e (tfor rows (chain_tombstoned_fact k c s)) (\<lambda>_ _. False) (\<lambda>_ v. withdrawn f c s v \<and> tombstones (gr w) (gr v)) v'"
      if "tombstones (gr w) (gr v')" "x = (f, Some ''ACTIVE'') \<longrightarrow> withdrawn f c s v'" for v'
    proof (cases "x = (f, Some ''ACTIVE'')")
      case True
      then show ?thesis using that
        by (intro wp_for_inv) (auto intro!: wp_mono [OF chain_fact_step [OF ok']] intro: withdrawn_kept tombstones_trans)
    next
      case False
      then show ?thesis using Cons.prems(1) that(1) by (intro Cons.IH) auto
    qed
    show ?case by (simp add: wp_bind wp_ret) (rule wp_mono [OF step], simp, rule wp_mono [OF rest], auto)
  qed simp
  have "wp e (chain_tombstoned_task k c s) (\<lambda>_ _. False) (\<lambda>_ v. withdrawn f c s v \<and> tombstones (gr w) (gr v)) w"
    unfolding chain_tombstoned_task_def by (simp add: wp_bind wp_store wp_ret ok) (rule loop [OF row], simp add: tombstones_refl)
  then show ?thesis by (auto simp: wp_def tombstones_def split: prod.splits sum.splits)
qed

definition ex_consensus :: graph where
  "ex_consensus = \<lparr>nodes = [(ex_dated 1 0)\<lparr>labels := [''Node'', ''Claim'', ''Fact'']\<rparr>, ex_dated 2 5],
     edges = [\<lparr>esrc = 1, edst = 2, etype = ''EDGE'', eprops = [''type'' \<mapsto> VStr ''CONSENSUS_FROM'']\<rparr>], next_vid = 3\<rparr>"

theorem orphaned_consensus_withdrawn_witness:
  "\<exists>w'. chain_tombstoned_task 2 (ex_uuid 2) ''s1'' ex_env (ex_world ex_consensus) = (Inr (), w') \<and> withdrawn (ex_uuid 1) (ex_uuid 2) ''s1'' w'"
proof -
  let ?n = "(ex_dated 1 0)\<lparr>labels := [''Node'', ''Claim'', ''Fact'']\<rparr>"
    and ?d = "\<lparr>esrc = 1, edst = 2, etype = ''EDGE'', eprops = [''type'' \<mapsto> VStr ''CONSENSUS_FROM'']\<rparr>"
  have simps: "nid ?n = ex_uuid 1" "silo ?n = Some ''s1''" "vid ?n = 1" "pstate ?n = Some ''ACTIVE''"
    by (simp_all add: ex_dated_def ex_node_def ex_active_def)
  have "\<exists>w'. chain_tombstoned_task 2 (ex_uuid 2) ''s1'' ex_env (ex_world ex_consensus) = (Inr (), w') \<and>
      withdrawn (ex_uuid 1) (ex_uuid 2) ''s1'' w' \<and> edges (gr w') = edges (gr (ex_world ex_consensus))"
  proof (rule orphaned_consensus_withdrawn)
    show "match_id (gr (ex_world ex_consensus)) (ex_uuid 1) ''s1'' = [?n]"
      using ex_dispute_ids simps by (simp add: ex_consensus_def match_id_def is_node_def)
    show "ex_uuid 1 \<noteq> []" by (simp add: ex_uuid_def)
    show "pstate ?n = Some ''ACTIVE''" by (rule simps)
    show "?d \<in> set (edges (gr (ex_world ex_consensus)))" by (simp add: ex_consensus_def)
    show "node_at (gr (ex_world ex_consensus)) (esrc ?d) = Some ?n" using simps by (simp add: ex_consensus_def node_at_def)
    show "node_at (gr (ex_world ex_consensus)) (edst ?d) = Some (ex_dated 2 5)" using simps by (simp add: ex_consensus_def node_at_def)
    show "REMAINING_CHAINS (ex_uuid 1) ''s1'' (ex_uuid 2) (gr (ex_world ex_consensus)) < 2"
      by (simp add: REMAINING_CHAINS_def ex_consensus_def split: option.split)
  qed (simp_all add: ex_env_def has_label_def consensus_edge_def is_node_def)
  then show ?thesis by blast
qed

theorem detected_conflict_tracked_witness:
  "\<exists>w1 w2. create_contradicts_edge (ex_uuid 1) (ex_uuid 2) ''s1'' ex_env (ex_world ex_dispute) = (Inr (Some (ex_uuid 0)), w1) \<and>
     listed (ex_uuid 0) ''s1'' ''unresolved'' (gr w1) \<and>
     dismiss_conflict (ex_uuid 0) ''s1'' ''agent'' ex_env w1 = (Inr (Some ''dismissed''), w2) \<and>
     \<not> listed (ex_uuid 0) ''s1'' ''unresolved'' (gr w2)"
proof -
  have "graph_wf ex_dispute" by (simp add: graph_wf_def ex_dispute_def)
  with detected_conflict_tracked [of "ex_uuid 0" ex_env "ex_world ex_dispute" "ex_uuid 1" "''s1''" "ex_uuid 2" "''agent''"] ex_dispute_matches
  have "\<exists>w1 w2. create_contradicts_edge (ex_uuid 1) (ex_uuid 2) ''s1'' ex_env (ex_world ex_dispute) = (Inr (Some (ex_uuid 0)), w1) \<and>
    listed (ex_uuid 0) ''s1'' ''unresolved'' (gr w1) \<and>
    dismiss_conflict (ex_uuid 0) ''s1'' ''agent'' ex_env w1 = (Inr (Some ''dismissed''), w2) \<and>
    listed (ex_uuid 0) ''s1'' ''dismissed'' (gr w2) \<and> \<not> listed (ex_uuid 0) ''s1'' ''unresolved'' (gr w2) \<and>
    nodes (gr w1) = nodes ex_dispute \<and> nodes (gr w2) = nodes ex_dispute \<and>
    (\<forall>d t st. d \<noteq> ex_uuid 0 \<longrightarrow> listed d t st (gr w1) = listed d t st ex_dispute \<and> listed d t st (gr w2) = listed d t st ex_dispute)"
    by (simp add: ex_dispute_def)
  then show ?thesis by blast
qed

end
