(* ===== verification/Markers.thy ===== *)
theory Markers
  imports GraphSteps "HOL-Library.Product_Lexorder" "HOL-Library.List_Lexorder" "HOL-Library.Char_ord"
begin

text \<open>
  Markers of contradictions and stale commitments (\<open>engine/markers.py\<close>): nodes of the graph, found
  through an index in Redis; the touches that escalate them (\<open>engine/touch_counter.py\<close>); what a recall
  is told about them (\<open>engine/engagement.py\<close>); their dismissal (\<open>mcp/tools/dismiss.py\<close>), their expiry
  (\<open>pipelines/assets/marker_cleanup.py\<close>) and the gates of a recall (\<open>mcp/tools/recall.py\<close>,
  \<open>mcp/tools/trust_gate.py\<close>).

  The graph is authoritative and any call of either store may fail.  A pipeline of Redis is not a
  transaction: when it raises, some first part of its commands may have run.
\<close>

section \<open>State and environment\<close>

text \<open>A sorted set is the list of its members with their scores, in the order of Redis.\<close>

type_synonym zset = "(int \<times> string) list"

record marker_state =
  mk_world :: world
  about_index :: "string \<Rightarrow> zset"
  touch_sets :: "string \<Rightarrow> zset"
  redis_calls :: nat

text \<open>
  \<open>pipeline_cut k = Some n\<close>: the \<open>k\<close>-th pipeline raises after its first \<open>n\<close> commands.  The clocks of
  the touch counter are read once for each of its pipelines.
\<close>

record marker_env =
  mk_env :: env
  pipeline_cut :: "nat \<Rightarrow> nat option"
  ms_clock :: "nat \<Rightarrow> int"
  ns_clock :: "nat \<Rightarrow> nat"
  iso_text :: "int \<Rightarrow> string"
  redis_configured :: bool
  engagement_decay_window_ms :: int
  engagement_escalation_threshold :: nat
  engagement_hard_enabled :: bool

datatype marker_error = Store exn | RuntimeError

type_synonym 'a mop = "marker_env \<Rightarrow> marker_state \<Rightarrow> (marker_error + 'a) \<times> marker_state"

definition mret :: "'a \<Rightarrow> 'a mop" where
  "mret a = (\<lambda>en st. (Inr a, st))"

definition mraise :: "'a mop" where
  "mraise = (\<lambda>en st. (Inl RuntimeError, st))"

definition mbind :: "'a mop \<Rightarrow> ('a \<Rightarrow> 'b mop) \<Rightarrow> 'b mop" where
  "mbind m f = (\<lambda>en st. case m en st of (Inl x, st') \<Rightarrow> (Inl x, st') | (Inr a, st') \<Rightarrow> f a en st')"

lemma mbind_Inr: "m en st = (Inr a, st') \<Longrightarrow> mbind m f en st = f a en st'"
  by (simp add: mbind_def)

lemma mbind_Inl: "m en st = (Inl x, st') \<Longrightarrow> mbind m f en st = (Inl x, st')"
  by (simp add: mbind_def)

definition mcatch :: "'a mop \<Rightarrow> (marker_error \<Rightarrow> 'a mop) \<Rightarrow> 'a mop" where
  "mcatch m h = (\<lambda>en st. case m en st of (Inl x, st') \<Rightarrow> h x en st' | (Inr a, st') \<Rightarrow> (Inr a, st'))"

definition on_graph :: "'a tx \<Rightarrow> 'a mop" where
  "on_graph m = (\<lambda>en st. case m (mk_env en) (mk_world st) of
     (r, w) \<Rightarrow> (case r of Inl x \<Rightarrow> Inl (Store x) | Inr a \<Rightarrow> Inr a, st\<lparr>mk_world := w\<rparr>))"

definition masks :: "(marker_env \<Rightarrow> 'a) \<Rightarrow> 'a mop" where
  "masks f = (\<lambda>en st. (Inr (f en), st))"

text \<open>A pipeline: whether it returned; the reads of a pipeline that returned are made in \<open>read\<close>.\<close>

definition run_pipe :: "(marker_state \<Rightarrow> marker_state) list \<Rightarrow> (marker_state \<Rightarrow> 'a) \<Rightarrow> 'a option mop" where
  "run_pipe cmds read = (\<lambda>en st.
     case pipeline_cut en (redis_calls st) of
       None \<Rightarrow> (let st' = fold (\<lambda>c. c) cmds (st\<lparr>redis_calls := Suc (redis_calls st)\<rparr>) in (Inr (Some (read st')), st'))
     | Some n \<Rightarrow> (Inr None, fold (\<lambda>c. c) (take n cmds) (st\<lparr>redis_calls := Suc (redis_calls st)\<rparr>)))"

section \<open>The index\<close>

definition about_key :: "string \<Rightarrow> string \<Rightarrow> string" where
  "about_key silo_id node_id = ''markers:'' @ silo_id @ '':about:'' @ node_id"

definition zadd :: "string \<Rightarrow> int \<Rightarrow> zset \<Rightarrow> zset" where
  "zadd member score z = insort (score, member) (filter (\<lambda>x. snd x \<noteq> member) z)"

definition zrem :: "string \<Rightarrow> zset \<Rightarrow> zset" where
  "zrem member z = filter (\<lambda>x. snd x \<noteq> member) z"

definition add_to_index :: "string \<Rightarrow> string \<Rightarrow> int \<Rightarrow> marker_state \<Rightarrow> marker_state" where
  "add_to_index key member score st = st\<lparr>about_index := (about_index st)(key := zadd member score (about_index st key))\<rparr>"

definition remove_from_index :: "string \<Rightarrow> string \<Rightarrow> marker_state \<Rightarrow> marker_state" where
  "remove_from_index key member st = st\<lparr>about_index := (about_index st)(key := zrem member (about_index st key))\<rparr>"

definition index_marker :: "string \<Rightarrow> string \<Rightarrow> string list \<Rightarrow> int \<Rightarrow> unit mop" where
  "index_marker silo_id marker_id about_ids score =
     mbind (run_pipe (map (\<lambda>n. add_to_index (about_key silo_id n) marker_id score) about_ids) (\<lambda>_. ())) (\<lambda>_. mret ())"

definition deindex_marker :: "string \<Rightarrow> string \<Rightarrow> string list \<Rightarrow> unit mop" where
  "deindex_marker silo_id marker_id about_ids =
     mbind (run_pipe (map (\<lambda>n. remove_from_index (about_key silo_id n) marker_id) about_ids) (\<lambda>_. ())) (\<lambda>_. mret ())"

definition get_markers_for_about_set :: "string \<Rightarrow> string list \<Rightarrow> string list mop" where
  "get_markers_for_about_set silo_id about_ids =
     (if about_ids = [] then mret []
      else mbind (run_pipe [] (\<lambda>st. map (\<lambda>n. map snd (about_index st (about_key silo_id n))) about_ids)) (\<lambda>results.
        case results of None \<Rightarrow> mret [] | Some buckets \<Rightarrow> mret (dedup (concat buckets))))"

section \<open>Markers in the graph\<close>

definition marker_types :: "string list" where
  "marker_types = [''Contradiction'', ''StaleCommitment'']"

definition CREATE_CONTRADICTION ::
  "string \<Rightarrow> string \<Rightarrow> string \<Rightarrow> string \<Rightarrow> string list \<Rightarrow> real \<Rightarrow> string \<Rightarrow> string \<Rightarrow> graph \<Rightarrow> graph \<times> string list" where
  "CREATE_CONTRADICTION i silo_id a b about_ids conf detected expires g =
     (add_node [''Contradiction''] i (Some silo_id)
        [''status'' \<mapsto> VStr ''pending'', ''node_a_id'' \<mapsto> VStr a, ''node_b_id'' \<mapsto> VStr b, ''about_ids'' \<mapsto> VStrs about_ids,
         ''confidence'' \<mapsto> VNum conf, ''detected_at'' \<mapsto> VStr detected, ''expires_at'' \<mapsto> VStr expires] Map.empty g, [i])"

definition CREATE_STALE_COMMITMENT ::
  "string \<Rightarrow> string \<Rightarrow> string \<Rightarrow> string list \<Rightarrow> string list \<Rightarrow> string \<Rightarrow> string \<Rightarrow> graph \<Rightarrow> graph \<times> string list" where
  "CREATE_STALE_COMMITMENT i silo_id commitment evidence about_ids detected expires g =
     (add_node [''StaleCommitment''] i (Some silo_id)
        [''status'' \<mapsto> VStr ''pending'', ''commitment_id'' \<mapsto> VStr commitment, ''evidence_ids'' \<mapsto> VStrs evidence,
         ''about_ids'' \<mapsto> VStrs about_ids, ''detected_at'' \<mapsto> VStr detected, ''expires_at'' \<mapsto> VStr expires] Map.empty g, [i])"

text \<open>A row of a query over both labels: a node with both labels gives two.\<close>

record marker_row =
  m_id :: string
  m_type :: string
  m_status :: "val option"
  m_detected :: "val option"
  m_about :: "string list"
  m_node_a :: "val option"
  m_node_b :: "val option"
  m_commitment :: "val option"

definition marker_row :: "string \<Rightarrow> node \<Rightarrow> marker_row" where
  "marker_row l n = \<lparr>m_id = nid n, m_type = l, m_status = attrs n ''status'', m_detected = attrs n ''detected_at'',
     m_about = strs_of (attrs n ''about_ids''),
     m_node_a = (if l = ''Contradiction'' then attrs n ''node_a_id'' else None),
     m_node_b = (if l = ''Contradiction'' then attrs n ''node_b_id'' else None),
     m_commitment = (if l = ''Contradiction'' then None else attrs n ''commitment_id'')\<rparr>"

definition marker_rows :: "graph \<Rightarrow> string \<Rightarrow> (node \<Rightarrow> bool) \<Rightarrow> marker_row list" where
  "marker_rows g silo_id P = concat (map (\<lambda>l. map (marker_row l) (filter P (match_label g l silo_id))) marker_types)"

definition GET_MARKERS_BY_IDS :: "string \<Rightarrow> string list \<Rightarrow> graph \<Rightarrow> marker_row list" where
  "GET_MARKERS_BY_IDS silo_id ids g = marker_rows g silo_id (\<lambda>n. nid n \<in> set ids)"

text \<open>\<open>x > datetime()\<close> for a property: a comparison with a text never holds.\<close>

definition after_time :: "int \<Rightarrow> val option \<Rightarrow> bool" where
  "after_time t v = (case v of Some (VTime x) \<Rightarrow> t < x | _ \<Rightarrow> False)"

text \<open>\<open>ORDER BY detected_at DESC\<close>: a \<open>null\<close> comes first.\<close>

definition latest_first :: "marker_row list \<Rightarrow> marker_row list" where
  "latest_first rows = rev (sort_key (\<lambda>r. case str_of (m_detected r) of None \<Rightarrow> (True, []) | Some s \<Rightarrow> (False, s)) rows)"

definition GET_ALL_PENDING_MARKERS_FOR_SILO :: "string \<Rightarrow> int \<Rightarrow> graph \<Rightarrow> marker_row list" where
  "GET_ALL_PENDING_MARKERS_FOR_SILO silo_id t g =
     latest_first (marker_rows g silo_id (\<lambda>n. attrs n ''status'' = Some (VStr ''pending'') \<and>
       (attrs n ''expires_at'' = None \<or> after_time t (attrs n ''expires_at''))))"

definition UPDATE_MARKER_STATUS ::
  "string \<Rightarrow> string \<Rightarrow> string \<Rightarrow> string \<Rightarrow> string \<Rightarrow> graph \<Rightarrow> graph \<times> (string \<times> string) list" where
  "UPDATE_MARKER_STATUS i silo_id status resolved_at resolution g =
     (update_where (\<lambda>n. is_node i silo_id n \<and> list_ex (\<lambda>l. has_label l n) marker_types)
        (\<lambda>n. set_field ''status'' (Some (VStr status)) (set_field ''resolved_at'' (Some (VStr resolved_at))
               (set_field ''resolution'' (Some (VStr resolution)) n))) g,
      map (\<lambda>r. (m_id r, m_type r)) (GET_MARKERS_BY_IDS silo_id [i] g))"

text \<open>Text comparison; the rows are read before the nodes are deleted.\<close>

definition expired_marker :: "string \<Rightarrow> string \<Rightarrow> node \<Rightarrow> bool" where
  "expired_marker silo_id now n \<longleftrightarrow> silo n = Some silo_id \<and> list_ex (\<lambda>l. has_label l n) marker_types \<and>
     (case attrs n ''expires_at'' of Some (VStr x) \<Rightarrow> x < now | _ \<Rightarrow> False)"

definition DELETE_EXPIRED_MARKERS_ATOMIC :: "string \<Rightarrow> string \<Rightarrow> graph \<Rightarrow> graph \<times> marker_row list" where
  "DELETE_EXPIRED_MARKERS_ATOMIC silo_id now g =
     (detach_delete (filter (expired_marker silo_id now) (nodes g)) g,
      map (\<lambda>n. marker_row (if has_label ''Contradiction'' n then ''Contradiction'' else ''StaleCommitment'') n)
        (filter (\<lambda>n. expired_marker silo_id now n \<and> has_label ''Contradiction'' n) (nodes g) @
         filter (\<lambda>n. expired_marker silo_id now n \<and> \<not> has_label ''Contradiction'' n) (nodes g)))"

section \<open>Creating and settling markers\<close>

definition create_contradiction ::
  "string \<Rightarrow> string \<Rightarrow> string \<Rightarrow> string list \<Rightarrow> real \<Rightarrow> int \<Rightarrow> string mop" where
  "create_contradiction silo_id a b about_ids conf expires_hours =
     mbind (on_graph datetime_now) (\<lambda>now.
     mbind (on_graph new_uuid) (\<lambda>marker_id.
     mbind (masks iso_text) (\<lambda>isoformat.
     mbind (on_graph (execute_write (CREATE_CONTRADICTION marker_id silo_id a b about_ids conf (isoformat now)
              (isoformat (now + 3600 * expires_hours))))) (\<lambda>rows.
     if rows = [] then mraise
     else mbind (index_marker silo_id marker_id about_ids now) (\<lambda>_. mret marker_id)))))"

definition create_stale_commitment ::
  "string \<Rightarrow> string \<Rightarrow> string list \<Rightarrow> string list \<Rightarrow> int \<Rightarrow> string mop" where
  "create_stale_commitment silo_id commitment_id evidence_ids about_ids expires_hours =
     mbind (on_graph datetime_now) (\<lambda>now.
     mbind (on_graph new_uuid) (\<lambda>marker_id.
     mbind (masks iso_text) (\<lambda>isoformat.
     mbind (on_graph (execute_write (CREATE_STALE_COMMITMENT marker_id silo_id commitment_id evidence_ids about_ids
              (isoformat now) (isoformat (now + 3600 * expires_hours))))) (\<lambda>rows.
     if rows = [] then mraise
     else mbind (index_marker silo_id marker_id about_ids now) (\<lambda>_. mret marker_id)))))"

definition transition_marker :: "string \<Rightarrow> string \<Rightarrow> string \<Rightarrow> string \<Rightarrow> (string \<times> string) mop" where
  "transition_marker silo_id marker_id status reason =
     mbind (on_graph (execute_query (GET_MARKERS_BY_IDS silo_id [marker_id]))) (\<lambda>detail_rows.
     let about_ids = (case detail_rows of [] \<Rightarrow> [] | r # _ \<Rightarrow> m_about r) in
     mbind (on_graph datetime_now) (\<lambda>now.
     mbind (masks iso_text) (\<lambda>isoformat.
     mbind (on_graph (execute_write (UPDATE_MARKER_STATUS marker_id silo_id status (isoformat now) reason))) (\<lambda>update_rows.
     case update_rows of [] \<Rightarrow> mraise
     | (i, _) # _ \<Rightarrow>
         mbind (if about_ids \<noteq> [] then deindex_marker silo_id marker_id about_ids else mret ()) (\<lambda>_.
         mret (i, isoformat now))))))"

definition resolve_marker :: "string \<Rightarrow> string \<Rightarrow> string \<Rightarrow> (string \<times> string) mop" where
  "resolve_marker silo_id marker_id resolution = transition_marker silo_id marker_id ''resolved'' resolution"

definition dismiss_marker :: "string \<Rightarrow> string \<Rightarrow> string \<Rightarrow> (string \<times> string) mop" where
  "dismiss_marker silo_id marker_id reason = transition_marker silo_id marker_id ''dismissed'' reason"

definition get_all_pending_markers :: "string \<Rightarrow> string list mop" where
  "get_all_pending_markers silo_id =
     mbind (on_graph datetime_now) (\<lambda>t.
     mbind (on_graph (execute_query (GET_ALL_PENDING_MARKERS_FOR_SILO silo_id t))) (\<lambda>rows.
     mret (filter (\<lambda>i. i \<noteq> []) (map m_id rows))))"

definition get_marker_details :: "string \<Rightarrow> string list \<Rightarrow> marker_row list mop" where
  "get_marker_details silo_id marker_ids =
     (if marker_ids = [] then mret [] else on_graph (execute_query (GET_MARKERS_BY_IDS silo_id marker_ids)))"

text \<open>The clean-up of expired markers.  \<open>None\<close>: the pipeline raised, and the asset with it.\<close>

definition marker_cleanup :: "string \<Rightarrow> (nat \<times> nat) option mop" where
  "marker_cleanup silo_id =
     mbind (on_graph datetime_now) (\<lambda>now.
     mbind (masks iso_text) (\<lambda>isoformat.
     mbind (on_graph (execute_write (DELETE_EXPIRED_MARKERS_ATOMIC silo_id (isoformat now)))) (\<lambda>deleted_rows.
     let counts = (length (filter (\<lambda>r. m_type r = ''Contradiction'') deleted_rows),
                   length (filter (\<lambda>r. m_type r \<noteq> ''Contradiction'') deleted_rows)) in
     if deleted_rows = [] then mret (Some counts)
     else run_pipe (concat (map (\<lambda>r. map (\<lambda>n. remove_from_index (about_key silo_id n) (m_id r)) (m_about r)) deleted_rows))
            (\<lambda>_. counts))))"

section \<open>Touches\<close>

definition touches_key :: "string \<Rightarrow> string \<Rightarrow> string" where
  "touches_key silo_id marker_id = ''touches:'' @ silo_id @ '':'' @ marker_id"

definition digit :: "nat \<Rightarrow> char" where
  "digit d = char_of (48 + d)"

fun decimal :: "nat \<Rightarrow> string" where
  "decimal n = (if n < 10 then [digit n] else decimal (n div 10) @ [digit (n mod 10)])"

declare decimal.simps [simp del]

definition update_touches :: "string \<Rightarrow> (zset \<Rightarrow> zset) \<Rightarrow> marker_state \<Rightarrow> marker_state" where
  "update_touches key f st = st\<lparr>touch_sets := (touch_sets st)(key := f (touch_sets st key))\<rparr>"

definition record_touch :: "string \<Rightarrow> string \<Rightarrow> string \<Rightarrow> nat mop" where
  "record_touch silo_id marker_id session_id = (\<lambda>en st.
     let key = touches_key silo_id marker_id;
         now = ms_clock en (redis_calls st);
         cutoff = now - engagement_decay_window_ms en;
         member = session_id @ '':'' @ decimal (ns_clock en (redis_calls st));
         prefix = session_id @ '':''
     in mbind (run_pipe [update_touches key (zadd member now), update_touches key (filter (\<lambda>x. \<not> fst x \<le> cutoff))]
                (\<lambda>st. filter (\<lambda>x. cutoff + 1 \<le> fst x) (touch_sets st key)))
          (\<lambda>members. case members of None \<Rightarrow> mret 0
             | Some z \<Rightarrow> mret (length (filter (\<lambda>x. take (length prefix) (snd x) = prefix) z))) en st)"

definition clear_touches :: "string \<Rightarrow> string \<Rightarrow> unit mop" where
  "clear_touches silo_id marker_id =
     mbind (run_pipe [update_touches (touches_key silo_id marker_id) (\<lambda>_. [])] (\<lambda>_. ())) (\<lambda>_. mret ())"

section \<open>Engagement\<close>

text \<open>\<open>str(x)\<close> in an f-string: \<open>null\<close> is \<open>None\<close>; other values are texts here.\<close>

definition shown :: "val option \<Rightarrow> string" where
  "shown v = (case v of Some (VStr s) \<Rightarrow> s | _ \<Rightarrow> ''None'')"

definition build_summary :: "marker_row \<Rightarrow> string" where
  "build_summary m =
     (if m_type m = ''Contradiction'' then ''Contradiction between '' @ shown (m_node_a m) @ '' and '' @ shown (m_node_b m)
      else if m_type m = ''StaleCommitment'' then ''Commitment '' @ shown (m_commitment m) @ '' may be stale''
      else ''Unknown marker'')"

text \<open>The summary of a proposal raises on a content that is \<open>null\<close> (\<open>None\<close> here).\<close>

definition proposal_summary :: "val option \<Rightarrow> string option" where
  "proposal_summary content = (case content of
     Some (VStr s) \<Rightarrow> Some (''System synthesized belief: '' @ (if 80 < length s then take 80 s @ ''...'' else s))
   | _ \<Rightarrow> None)"

definition get_decision_required :: "string \<Rightarrow> string" where
  "get_decision_required marker_type = (if marker_type = ''ProposedBelief'' then ''accept'' else ''dismiss'')"

record marker_out =
  o_id :: string
  o_type :: string
  o_summary :: string
  o_nodes :: "string list"
  o_detected :: "val option"
  o_decision :: string

definition out_of_row :: "marker_row \<Rightarrow> marker_out" where
  "out_of_row m = \<lparr>o_id = m_id m, o_type = m_type m, o_summary = build_summary m, o_nodes = m_about m,
     o_detected = m_detected m, o_decision = get_decision_required (m_type m)\<rparr>"

definition marker_outs :: "marker_row list \<Rightarrow> marker_out list" where
  "marker_outs rows = map out_of_row (filter (\<lambda>m. m_status m = Some (VStr ''pending'')) rows)"

text \<open>Rows of proposals: id, content, creation time and facts.\<close>

type_synonym proposal = "string \<times> val option \<times> val option \<times> string list"

definition pending_proposal :: "string \<Rightarrow> node \<Rightarrow> bool" where
  "pending_proposal silo_id b \<longleftrightarrow> has_label ''Belief'' b \<and> silo b = Some silo_id \<and>
     attrs b ''status'' = Some (VStr ''pending'') \<and> attrs b ''tombstoned_at'' = None"

definition created_key :: "val option \<Rightarrow> bool \<times> string" where
  "created_key v = (case str_of v of None \<Rightarrow> (True, []) | Some s \<Rightarrow> (False, s))"

definition GET_PENDING_BELIEFS_FOR_FACTS :: "string \<Rightarrow> string list \<Rightarrow> int \<Rightarrow> graph \<Rightarrow> proposal list" where
  "GET_PENDING_BELIEFS_FOR_FACTS silo_id about_ids t g =
     (let bs = filter (\<lambda>b. pending_proposal silo_id b \<and> (attrs b ''expires_at'' = None \<or> after_time t (attrs b ''expires_at'')) \<and>
                 list_ex (\<lambda>f. has_label ''Fact'' f \<and> silo f = Some silo_id \<and> nid f \<in> set about_ids) (out_nodes g ''SYNTHESIZED_FROM'' b))
               (nodes g);
          rows = dedup (map (\<lambda>b. (nid b, attrs b ''content'', attrs b ''confidence'', attrs b ''created_at'')) bs)
      in map (\<lambda>(i, content, _, created). (i, content, created, [])) (rev (sort_key (\<lambda>(_, _, _, created). created_key created) rows)))"

definition GET_PENDING_BELIEFS_FOR_SILO :: "string \<Rightarrow> nat \<Rightarrow> graph \<Rightarrow> proposal list" where
  "GET_PENDING_BELIEFS_FOR_SILO silo_id limit g =
     take limit (rev (sort_key (\<lambda>(_, _, created, _). created_key created)
       (map (\<lambda>b. (nid b, attrs b ''content'', attrs b ''created_at'', map nid (filter (has_label ''Fact'') (out_nodes g ''SYNTHESIZED_FROM'' b))))
         (filter (pending_proposal silo_id) (nodes g)))))"

text \<open>The loop over proposals: a summary that raises ends it, the entries before it stay.\<close>

fun proposal_outs :: "proposal list \<Rightarrow> marker_out list" where
  "proposal_outs [] = []"
| "proposal_outs ((i, content, created, facts) # rows) =
     (case proposal_summary content of
        None \<Rightarrow> []
      | Some s \<Rightarrow> \<lparr>o_id = i, o_type = ''ProposedBelief'', o_summary = s, o_nodes = facts, o_detected = created,
                    o_decision = ''accept''\<rparr> # proposal_outs rows)"

definition try_proposals :: "proposal list mop \<Rightarrow> marker_out list mop" where
  "try_proposals q = mcatch (mbind q (\<lambda>rows. mret (proposal_outs rows))) (\<lambda>_. mret [])"

datatype engagement_mode = MODE_SOFT | MODE_HARD

record engagement =
  e_mode :: engagement_mode
  e_markers :: "marker_out list"

fun touch_all :: "string \<Rightarrow> string \<Rightarrow> marker_out list \<Rightarrow> bool mop" where
  "touch_all silo_id session_id [] = mret False"
| "touch_all silo_id session_id (m # ms) =
     mbind (record_touch silo_id (o_id m) session_id) (\<lambda>touch_count.
     mbind (masks engagement_escalation_threshold) (\<lambda>threshold.
     mbind (touch_all silo_id session_id ms) (\<lambda>escalated. mret (threshold \<le> touch_count \<or> escalated))))"

definition effective_session :: "string option \<Rightarrow> string" where
  "effective_session session_id = or_else session_id ''default''"

definition get_engagement_for_about_set :: "string \<Rightarrow> string list \<Rightarrow> string option \<Rightarrow> engagement option mop" where
  "get_engagement_for_about_set silo_id about_ids session_id =
     (if about_ids = [] then mret None
      else mbind (get_markers_for_about_set silo_id about_ids) (\<lambda>marker_ids.
        mbind (get_marker_details silo_id marker_ids) (\<lambda>details.
        mbind (try_proposals (mbind (on_graph datetime_now) (\<lambda>t. on_graph (execute_query (GET_PENDING_BELIEFS_FOR_FACTS silo_id about_ids t))))) (\<lambda>proposals.
        let markers = marker_outs details @ proposals in
        if markers = [] then mret None
        else mbind (touch_all silo_id (effective_session session_id) markers) (\<lambda>escalated.
          mbind (masks engagement_hard_enabled) (\<lambda>hard_enabled.
          mret (Some \<lparr>e_mode = (if escalated \<and> hard_enabled then MODE_HARD else MODE_SOFT), e_markers = markers\<rparr>)))))))"

definition get_engagement_for_silo :: "string \<Rightarrow> engagement option mop" where
  "get_engagement_for_silo silo_id =
     mbind (get_all_pending_markers silo_id) (\<lambda>marker_ids.
     mbind (get_marker_details silo_id marker_ids) (\<lambda>details.
     mbind (try_proposals (on_graph (execute_query (GET_PENDING_BELIEFS_FOR_SILO silo_id 50)))) (\<lambda>proposals.
     let markers = marker_outs details @ proposals in
     mret (if markers = [] then None else Some \<lparr>e_mode = MODE_SOFT, e_markers = markers\<rparr>))))"

section \<open>The dismissal\<close>

datatype dismissal =
    Refused string
  | Rejected string string string
  | Dismissed string string string

text \<open>\<open>REJECT_PROPOSED_BELIEF\<close> is \<open>REJECT_PENDING_BELIEF\<close>.\<close>

definition REJECT_PENDING_BELIEF :: "string \<Rightarrow> string \<Rightarrow> string \<Rightarrow> string \<Rightarrow> graph \<Rightarrow> graph \<times> string list" where
  "REJECT_PENDING_BELIEF i silo_id rejected_at reason g =
     (let P = (\<lambda>b. is_node i silo_id b \<and> has_label ''Belief'' b \<and> attrs b ''status'' = Some (VStr ''pending''))
      in (update_where P (\<lambda>n. set_field ''status'' (Some (VStr ''rejected'')) (set_field ''rejected_at'' (Some (VStr rejected_at))
            (set_field ''rejection_reason'' (Some (VStr reason)) (set_field ''updated_at'' (Some (VStr rejected_at))
            (set_field ''tombstoned_at'' (Some (VStr rejected_at)) n))))) g,
          map nid (filter P (nodes g))))"

definition proposal_check :: "string \<Rightarrow> string \<Rightarrow> graph \<Rightarrow> val option list" where
  "proposal_check silo_id i g = map (\<lambda>n. attrs n ''status'') (match_label_id g ''ProposedBelief'' i silo_id)"

definition reject_proposal :: "string \<Rightarrow> string \<Rightarrow> string \<Rightarrow> dismissal mop" where
  "reject_proposal silo_id marker_id reason =
     mbind (on_graph datetime_now) (\<lambda>now.
     mbind (masks iso_text) (\<lambda>isoformat.
     mbind (on_graph (execute_write (REJECT_PENDING_BELIEF marker_id silo_id (isoformat now) reason))) (\<lambda>rejected.
     mret (if rejected = [] then Refused ''reject_failed'' else Rejected marker_id reason (isoformat now)))))"

definition dismiss_pending :: "string \<Rightarrow> string \<Rightarrow> string \<Rightarrow> dismissal mop" where
  "dismiss_pending silo_id marker_id reason =
     mbind (masks redis_configured) (\<lambda>configured.
     if \<not> configured then mret (Refused ''service_unavailable'')
     else mbind (get_marker_details silo_id [marker_id]) (\<lambda>details.
       case details of
         [] \<Rightarrow> mret (Refused ''not_found'')
       | m # _ \<Rightarrow>
           if m_status m \<noteq> Some (VStr ''pending'') then mret (Refused ''invalid_status'')
           else mbind (dismiss_marker silo_id marker_id reason) (\<lambda>(i, resolved_at).
             mbind (clear_touches silo_id marker_id) (\<lambda>_. mret (Dismissed i reason resolved_at)))))"

definition dismiss :: "string \<Rightarrow> string \<Rightarrow> string \<Rightarrow> dismissal mop" where
  "dismiss silo_id marker_id reason =
     mbind (on_graph (execute_query (proposal_check silo_id marker_id))) (\<lambda>proposals.
     case proposals of
       status # _ \<Rightarrow>
         if status \<noteq> Some (VStr ''pending'') then mret (Refused ''invalid_status'')
         else reject_proposal silo_id marker_id reason
     | [] \<Rightarrow> dismiss_pending silo_id marker_id reason)"

section \<open>The gates of a recall\<close>

text \<open>An item of a recall: what the gates read of it, and the rest.\<close>

record 'r recalled =
  r_node :: "string option"
  r_conflict :: "string option"
  r_confidence :: "real option"
  r_rest :: 'r

definition gate_reason :: "real \<Rightarrow> bool \<Rightarrow> 'r recalled \<Rightarrow> string option" where
  "gate_reason confidence_floor withhold_conflicts item =
     (let status = or_else (r_conflict item) ''none'';
          conf = (case r_confidence item of None \<Rightarrow> 1 | Some x \<Rightarrow> x)
      in if withhold_conflicts \<and> status = ''unresolved'' then Some ''unresolved_conflict''
         else if conf < confidence_floor then Some ''low_confidence'' else None)"

record withheld_summary =
  withheld_count :: nat
  unresolved_conflict :: nat
  low_confidence :: nat

definition apply_trust_gate :: "real \<Rightarrow> bool \<Rightarrow> bool \<Rightarrow> 'r recalled list \<Rightarrow> 'r recalled list \<times> withheld_summary" where
  "apply_trust_gate confidence_floor withhold_conflicts include_withheld results =
     (if include_withheld then (results, \<lparr>withheld_count = 0, unresolved_conflict = 0, low_confidence = 0\<rparr>)
      else (let reason = gate_reason confidence_floor withhold_conflicts in
        (filter (\<lambda>x. reason x = None) results,
         \<lparr>withheld_count = length (filter (\<lambda>x. reason x \<noteq> None) results),
          unresolved_conflict = length (filter (\<lambda>x. reason x = Some ''unresolved_conflict'') results),
          low_confidence = length (filter (\<lambda>x. reason x = Some ''low_confidence'') results)\<rparr>)))"

text \<open>
  The checkpoint of a recall: the engagement of the nodes found, \<open>None\<close> where looking for it fails, and
  the results, none under a hard checkpoint.
\<close>

definition checkpoint :: "string \<Rightarrow> string option \<Rightarrow> 'r recalled list \<Rightarrow> (engagement option \<times> 'r recalled list) mop" where
  "checkpoint silo_id session_id results =
     (let about_ids = concat (map (\<lambda>x. case r_node x of None \<Rightarrow> [] | Some i \<Rightarrow> if i = [] then [] else [i]) results) in
      mbind (masks redis_configured) (\<lambda>configured.
      mbind (if about_ids \<noteq> [] \<and> configured
             then mcatch (get_engagement_for_about_set silo_id about_ids (Some (effective_session session_id))) (\<lambda>_. mret None)
             else mret None) (\<lambda>eng.
      mret (eng, case eng of Some e \<Rightarrow> if e_mode e = MODE_HARD then [] else results | None \<Rightarrow> results))))"

section \<open>Effects\<close>

text \<open>What an operation may do to the state: a reflexive and transitive relation its steps keep.\<close>

definition meffect :: "(marker_env \<Rightarrow> marker_state \<Rightarrow> marker_state \<Rightarrow> bool) \<Rightarrow> 'a mop \<Rightarrow> bool" where
  "meffect R m \<longleftrightarrow> (\<forall>en st. R en st (snd (m en st)))"

lemma meffectD: "meffect R m \<Longrightarrow> m en st = (r, st') \<Longrightarrow> R en st st'"
  unfolding meffect_def by (metis snd_conv)

locale marker_effect =
  fixes R :: "marker_env \<Rightarrow> marker_state \<Rightarrow> marker_state \<Rightarrow> bool"
  assumes refl: "R en st st"
    and trans: "R en st st' \<Longrightarrow> R en st' st'' \<Longrightarrow> R en st st''"
begin

lemma eff_pure: "meffect R (mret a)" "meffect R mraise" "meffect R (masks f)"
  by (simp_all add: meffect_def mret_def mraise_def masks_def refl)

lemma eff_bind: "meffect R m \<Longrightarrow> (\<And>a. meffect R (f a)) \<Longrightarrow> meffect R (mbind m f)"
  unfolding meffect_def mbind_def by (auto split: prod.splits sum.splits) (metis snd_conv trans)+

lemma eff_catch: "meffect R m \<Longrightarrow> (\<And>x. meffect R (h x)) \<Longrightarrow> meffect R (mcatch m h)"
  unfolding meffect_def mcatch_def by (auto split: prod.splits sum.splits) (metis snd_conv trans)+

lemma eff_cases:
  "(b \<Longrightarrow> meffect R m) \<Longrightarrow> (\<not> b \<Longrightarrow> meffect R m') \<Longrightarrow> meffect R (if b then m else m')"
  "meffect R n \<Longrightarrow> (\<And>a. meffect R (f a)) \<Longrightarrow> meffect R (case opt of None \<Rightarrow> n | Some a \<Rightarrow> f a)"
  "meffect R n \<Longrightarrow> (\<And>x xs. meffect R (g x xs)) \<Longrightarrow> meffect R (case l of [] \<Rightarrow> n | x # xs \<Rightarrow> g x xs)"
  "(\<And>a b. meffect R (h a b)) \<Longrightarrow> meffect R (case p of (a, b) \<Rightarrow> h a b)"
  by (simp_all split: option.split list.split prod.split)

lemma eff_pipe:
  assumes "\<And>en st. R en st (st\<lparr>redis_calls := Suc (redis_calls st)\<rparr>)"
    and "\<And>c en st. c \<in> set cmds \<Longrightarrow> R en st (c st)"
  shows "meffect R (run_pipe cmds read)"
proof -
  have "set cs \<subseteq> set cmds \<Longrightarrow> R en st (fold (\<lambda>c. c) cs st)" for cs en st
  proof (induction cs arbitrary: st)
    case (Cons c cs)
    then show ?case using trans [OF assms(2) [of c en st] Cons.IH [of "c st"]] by simp
  qed (simp add: refl)
  then show ?thesis
    using trans [OF assms(1)] set_take_subset [of _ cmds]
    unfolding meffect_def run_pipe_def Let_def by (auto split: option.split)
qed

lemma eff_on_graph:
  assumes "\<And>en st. R en st (st\<lparr>mk_world := snd (m (mk_env en) (mk_world st))\<rparr>)"
  shows "meffect R (on_graph m)"
  using assms unfolding meffect_def on_graph_def by (simp add: split_beta)

lemmas eff_intros = eff_pure eff_bind eff_catch eff_cases

end

text \<open>
  A relation that does not look at the clocks of the stores nor at the touches is kept by every
  operation that only reads the graph and the index.
\<close>

locale marker_frame = marker_effect +
  assumes ticks: "R en st (st\<lparr>mk_world := (mk_world st)\<lparr>tick := Suc (tick (mk_world st))\<rparr>\<rparr>)"
    and calls: "R en st (st\<lparr>redis_calls := Suc (redis_calls st)\<rparr>)"
    and touches: "R en st (update_touches key f st)"
begin

lemma eff_reads:
  "meffect R (on_graph datetime_now)" "meffect R (on_graph new_uuid)" "meffect R (on_graph (execute_query q))"
  unfolding meffect_def by (auto simp: on_graph_def datetime_now_def new_uuid_def execute_query_def ticks)

lemma eff_lookup: "meffect R (get_markers_for_about_set s abouts)"
  unfolding get_markers_for_about_set_def by (intro eff_intros eff_pipe calls) auto

lemma eff_details: "meffect R (get_marker_details s ids)" "meffect R (get_all_pending_markers s)"
  unfolding get_marker_details_def get_all_pending_markers_def by (intro eff_intros eff_reads)+

lemma eff_touch: "meffect R (record_touch s i sess)"
proof -
  have "meffect R (run_pipe [update_touches k f, update_touches k h] read)" for k f h and read :: "marker_state \<Rightarrow> zset"
    by (intro eff_pipe calls) (auto intro: touches)
  then have "meffect R (mbind (run_pipe [update_touches k f, update_touches k h] read)
      (\<lambda>x. case x of None \<Rightarrow> mret 0 | Some z \<Rightarrow> mret (g z)))" for k f h and read :: "marker_state \<Rightarrow> zset" and g
    by (intro eff_intros)
  from this [unfolded meffect_def, rule_format] show ?thesis
    unfolding meffect_def record_touch_def Let_def by (intro allI) simp
qed

lemma eff_touch_all: "meffect R (touch_all s sess ms)"
  by (induction s sess ms rule: touch_all.induct) (simp_all add: eff_intros eff_touch)

lemma eff_clear_touches: "meffect R (clear_touches s i)"
  unfolding clear_touches_def by (intro eff_intros eff_pipe calls) (auto intro: touches)

lemma eff_engagement: "meffect R (get_engagement_for_about_set s abouts sess)" "meffect R (get_engagement_for_silo s)"
  unfolding get_engagement_for_about_set_def get_engagement_for_silo_def try_proposals_def Let_def
  by (intro eff_intros eff_lookup eff_details eff_reads eff_touch_all)+

lemma eff_checkpoint: "meffect R (checkpoint s sess results)"
  unfolding checkpoint_def Let_def by (intro eff_intros eff_engagement)

end

end
