(* ===== verification/MarkersCorrect.thy ===== *)
theory MarkersCorrect
  imports Markers Examples
begin

text \<open>
  What the two stores agree on and what a recall is told: an engagement lists only pending markers
  of its silo about the nodes recalled, lists every marker that was created and indexed, never again
  one that was settled, and turns hard when a session ignores it.
\<close>

section \<open>The index as a set of markers per node\<close>

abbreviation indexed :: "marker_state \<Rightarrow> string \<Rightarrow> string set" where
  "indexed st key \<equiv> snd ` set (about_index st key)"

lemma zadd_members: "snd ` set (zadd i score z) = insert i (snd ` set z)"
  by (auto simp: zadd_def set_insort_key)

lemma zrem_members: "snd ` set (zrem i z) = snd ` set z - {i}"
  by (auto simp: zrem_def)

lemma about_key_inj [simp]: "about_key s a = about_key s b \<longleftrightarrow> a = b"
  by (simp add: about_key_def)

text \<open>What a pipeline leaves: the index with some first commands done, all when it returns.\<close>

lemma fold_adds:
  "indexed (fold (\<lambda>c. c) (map (\<lambda>n. add_to_index (about_key s n) i sc) ns) st) key =
     indexed st key \<union> (if key \<in> about_key s ` set ns then {i} else {})"
  "mk_world (fold (\<lambda>c. c) (map (\<lambda>n. add_to_index (about_key s n) i sc) ns) st) = mk_world st"
  by (induction ns arbitrary: st) (auto simp: add_to_index_def zadd_members)

lemma fold_removes:
  "indexed (fold (\<lambda>c. c) (map (\<lambda>(k, i). remove_from_index k i) kis) st) key =
     indexed st key - {i. (key, i) \<in> set kis}"
  "mk_world (fold (\<lambda>c. c) (map (\<lambda>(k, i). remove_from_index k i) kis) st) = mk_world st"
  by (induction kis arbitrary: st) (auto simp: remove_from_index_def zrem_members split: prod.split)

lemma index_marker_run:
  assumes "index_marker s i abouts sc en st = (r, st')"
  obtains done_ids where "r = Inr ()" "mk_world st' = mk_world st" "set done_ids \<subseteq> set abouts"
    "pipeline_cut en (redis_calls st) = None \<Longrightarrow> done_ids = abouts"
    "\<And>key. indexed st' key = indexed st key \<union> (if key \<in> about_key s ` set done_ids then {i} else {})"
proof -
  let ?st = "st\<lparr>redis_calls := Suc (redis_calls st)\<rparr>"
  let ?f = "\<lambda>ns. fold (\<lambda>c. c) (map (\<lambda>n. add_to_index (about_key s n) i sc) ns) ?st"
  show thesis
  proof (cases "pipeline_cut en (redis_calls st)")
    case None
    then have "r = Inr ()" "st' = ?f abouts"
      using assms by (simp_all add: index_marker_def mbind_def run_pipe_def mret_def Let_def)
    then show thesis using that [of abouts] None by (simp add: fold_adds)
  next
    case (Some k)
    then have "r = Inr ()" "st' = ?f (take k abouts)"
      using assms by (simp_all add: index_marker_def mbind_def run_pipe_def mret_def Let_def take_map)
    then show thesis using that [of "take k abouts"] Some set_take_subset [of k abouts] by (simp add: fold_adds)
  qed
qed

lemma remove_pipe_run:
  assumes "run_pipe (map (\<lambda>(k, i). remove_from_index k i) kis) read en st = (r, st')"
  obtains done_kis where "mk_world st' = mk_world st" "set done_kis \<subseteq> set kis"
    "\<And>key. indexed st' key = indexed st key - {i. (key, i) \<in> set done_kis}"
proof -
  let ?f = "\<lambda>kis. fold (\<lambda>c. c) (map (\<lambda>(k, i). remove_from_index k i) kis) (st\<lparr>redis_calls := Suc (redis_calls st)\<rparr>)"
  obtain n where "st' = ?f (take n kis)"
  proof (cases "pipeline_cut en (redis_calls st)")
    case None
    then have "st' = ?f (take (length kis) kis)" using assms by (simp add: run_pipe_def Let_def)
    then show thesis by (rule that)
  next
    case (Some n)
    then have "st' = ?f (take n kis)" using assms by (simp add: run_pipe_def Let_def take_map)
    then show thesis by (rule that)
  qed
  then show thesis using that [of "take n kis"] set_take_subset [of n kis] by (simp add: fold_removes)
qed

section \<open>Changes\<close>

definition is_marker :: "node \<Rightarrow> bool" where
  "is_marker n \<longleftrightarrow> list_ex (\<lambda>l. has_label l n) marker_types"

definition marker_nodes :: "graph \<Rightarrow> node list" where
  "marker_nodes g = filter is_marker (nodes g)"

definition about_of :: "node \<Rightarrow> string list" where
  "about_of n = strs_of (attrs n ''about_ids'')"

abbreviation is_pending :: "node \<Rightarrow> bool" where
  "is_pending n \<equiv> attrs n ''status'' = Some (VStr ''pending'')"

abbreviation mgraph :: "marker_state \<Rightarrow> graph" where
  "mgraph st \<equiv> gr (mk_world st)"

abbreviation mtick :: "marker_state \<Rightarrow> nat" where
  "mtick st \<equiv> tick (mk_world st)"

text \<open>
  The changes of a state, seen from outside: something else happens, a marker with a fresh id appears
  and is indexed under some of its nodes, a marker is settled, markers are deleted.  Entries of the
  index go only with their marker.  \<open>Y\<close> holds the ids that may be settled or deleted.
\<close>

definition settles :: "string \<Rightarrow> string \<Rightarrow> (node \<Rightarrow> node) \<Rightarrow> bool" where
  "settles s i f \<longleftrightarrow> (\<forall>n. labels (f n) = labels n \<and> nid (f n) = nid n \<and> silo (f n) = silo n \<and> about_of (f n) = about_of n \<and>
     (is_pending (f n) \<longrightarrow> is_pending n) \<and> (\<not> is_node i s n \<longrightarrow> f n = n))"

inductive mchange :: "string set \<Rightarrow> marker_env \<Rightarrow> marker_state \<Rightarrow> marker_state \<Rightarrow> bool" for Y en st where
  quiet: "marker_nodes (mgraph st') = marker_nodes (mgraph st) \<Longrightarrow> (\<And>key. indexed st' key = indexed st key) \<Longrightarrow>
     mtick st \<le> mtick st' \<Longrightarrow> mchange Y en st st'"
| new: "marker_nodes (mgraph st') = marker_nodes (mgraph st) @ [m] \<Longrightarrow> nid m = uuid4 (mk_env en) k \<Longrightarrow>
     mtick st \<le> k \<Longrightarrow> k < mtick st' \<Longrightarrow> silo m = Some s \<Longrightarrow> set done_ids \<subseteq> set (about_of m) \<Longrightarrow>
     (\<And>key. indexed st' key = indexed st key \<union> (if key \<in> about_key s ` set done_ids then {nid m} else {})) \<Longrightarrow>
     mchange Y en st st'"
| settle: "i \<in> Y \<Longrightarrow> settles s i f \<Longrightarrow> marker_nodes (mgraph st') = map f (marker_nodes (mgraph st)) \<Longrightarrow>
     (\<And>key. indexed st' key \<subseteq> indexed st key \<and> indexed st key \<subseteq> insert i (indexed st' key)) \<Longrightarrow>
     mtick st \<le> mtick st' \<Longrightarrow> mchange Y en st st'"
| delete: "marker_nodes (mgraph st') = filter P (marker_nodes (mgraph st)) \<Longrightarrow>
     (\<And>m. m \<in> set (marker_nodes (mgraph st)) \<Longrightarrow> \<not> P m \<Longrightarrow> nid m \<in> Y) \<Longrightarrow>
     (\<And>key. indexed st' key \<subseteq> indexed st key \<and> indexed st key \<subseteq> Y \<union> indexed st' key) \<Longrightarrow>
     mtick st \<le> mtick st' \<Longrightarrow> mchange Y en st st'"

abbreviation mchanges :: "string set \<Rightarrow> marker_env \<Rightarrow> marker_state \<Rightarrow> marker_state \<Rightarrow> bool" where
  "mchanges Y en \<equiv> (mchange Y en)\<^sup>*\<^sup>*"

interpretation changes: marker_frame "mchanges Y" for Y
  by unfold_locales (auto intro!: r_into_rtranclp mchange.quiet simp: update_touches_def)

section \<open>The operations refine the changes\<close>

lemma mchange_into: "mchange Y en st st' \<Longrightarrow> mchanges Y en st st'"
  by (rule r_into_rtranclp)

lemma quietI: "mk_world st' = (mk_world st)\<lparr>tick := t\<rparr> \<Longrightarrow> about_index st' = about_index st \<Longrightarrow> mtick st \<le> t \<Longrightarrow> mchanges Y en st st'"
  by (auto intro!: mchange_into mchange.quiet)

lemma marker_nodes_add:
  "marker_nodes (add_node ls i s fs ps g) = marker_nodes g @
     (if list_ex (\<lambda>l. l \<in> set ls) marker_types
      then [\<lparr>vid = next_vid g, labels = ls, nid = i, silo = s, attrs = fs, props = ps\<rparr>] else [])"
  by (simp add: marker_nodes_def add_node_def is_marker_def has_label_def)

lemma create_changes:
  assumes "l \<in> set marker_types" "fs ''about_ids'' = Some (VStrs abouts)"
    and st1: "st1 = st\<lparr>mk_world := (mk_world st)\<lparr>gr := add_node [l] i (Some s) fs Map.empty (mgraph st), tick := Suc k\<rparr>\<rparr>"
    and "i = uuid4 (mk_env en) j" "mtick st \<le> j" "j < Suc k"
    and run: "index_marker s i abouts sc en st1 = (r, st')"
  shows "mchanges Y en st st'"
proof -
  obtain done_ids where d: "mk_world st' = mk_world st1" "set done_ids \<subseteq> set abouts"
    "\<And>key. indexed st' key = indexed st1 key \<union> (if key \<in> about_key s ` set done_ids then {i} else {})"
    by (rule index_marker_run [OF run], rule that)
  have "list_ex (\<lambda>l'. l' \<in> set [l]) marker_types" using assms(1) by (auto simp: list_ex_iff)
  then have "marker_nodes (mgraph st') = marker_nodes (mgraph st) @
      [\<lparr>vid = next_vid (mgraph st), labels = [l], nid = i, silo = Some s, attrs = fs, props = Map.empty\<rparr>]"
    using d(1) unfolding st1 by (simp add: marker_nodes_add)
  then show ?thesis
    using d assms(2,4-6) unfolding st1
    by (intro mchange_into mchange.new [where k = j and s = s and done_ids = done_ids]) (auto simp: about_of_def)
qed

text \<open>Both creations: a failing write changes nothing, a good one adds the node and indexes it.\<close>

definition creation :: "string \<Rightarrow> string list \<Rightarrow> string mop \<Rightarrow> bool" where
  "creation s abouts m \<longleftrightarrow> (\<forall>en st.
     let w = mk_world st; i = uuid4 (mk_env en) (Suc (tick w)) in
     (\<exists>x. m en st = (Inl x, st\<lparr>mk_world := w\<lparr>tick := Suc (Suc (Suc (tick w)))\<rparr>\<rparr>)) \<and> fault (mk_env en) (Suc (Suc (tick w))) \<or>
     (\<exists>l fs sc r st'. l \<in> set marker_types \<and> fs ''about_ids'' = Some (VStrs abouts) \<and> fs ''status'' = Some (VStr ''pending'') \<and>
        (\<exists>t. fs ''expires_at'' = Some (VStr t)) \<and>
        index_marker s i abouts sc en (st\<lparr>mk_world := w\<lparr>gr := add_node [l] i (Some s) fs Map.empty (gr w), tick := Suc (Suc (Suc (tick w)))\<rparr>\<rparr>) = (r, st') \<and>
        m en st = (Inr i, st')))"

lemma index_marker_returns: "fst (index_marker s i abouts sc en st) = Inr ()"
  using index_marker_run [of s i abouts sc en st] by (metis prod.collapse)

lemma creation_run:
  assumes "l \<in> set marker_types"
    and "\<And>i t u. fs i t u ''about_ids'' = Some (VStrs abouts) \<and> fs i t u ''status'' = Some (VStr ''pending'') \<and>
      fs i t u ''expires_at'' = Some (VStr u)"
    and "q = (\<lambda>i t u g. (add_node [l] i (Some s) (fs i t u) Map.empty g, [i]))"
  shows "creation s abouts (mbind (on_graph datetime_now) (\<lambda>now.
     mbind (on_graph new_uuid) (\<lambda>marker_id.
     mbind (masks iso_text) (\<lambda>isoformat.
     mbind (on_graph (execute_write (q marker_id (isoformat now) (isoformat (now + 3600 * hours))))) (\<lambda>rows.
     if rows = [] then mraise else mbind (index_marker s marker_id abouts now) (\<lambda>_. mret marker_id))))))"
  unfolding creation_def Let_def
proof (intro allI)
  fix en :: marker_env and st :: marker_state
  let ?w = "mk_world st" and ?e = "mk_env en"
  let ?i = "uuid4 ?e (Suc (tick ?w))" and ?t = "clock ?e (tick ?w)"
  let ?fs = "fs ?i (iso_text en ?t) (iso_text en (?t + 3600 * hours))"
  let ?m = "mbind (on_graph datetime_now) (\<lambda>now. mbind (on_graph new_uuid) (\<lambda>marker_id. mbind (masks iso_text) (\<lambda>isoformat.
     mbind (on_graph (execute_write (q marker_id (isoformat now) (isoformat (now + 3600 * hours))))) (\<lambda>rows.
     if rows = [] then mraise else mbind (index_marker s marker_id abouts now) (\<lambda>_. mret marker_id)))))"
  let ?st1 = "st\<lparr>mk_world := ?w\<lparr>gr := add_node [l] ?i (Some s) ?fs Map.empty (gr ?w), tick := Suc (Suc (Suc (tick ?w)))\<rparr>\<rparr>"
  obtain st' where ix: "index_marker s ?i abouts ?t en ?st1 = (Inr (), st')"
    using index_marker_returns by (metis prod.collapse)
  show "(\<exists>x. ?m en st = (Inl x, st\<lparr>mk_world := ?w\<lparr>tick := Suc (Suc (Suc (tick ?w)))\<rparr>\<rparr>)) \<and> fault ?e (Suc (Suc (tick ?w))) \<or>
     (\<exists>l fs sc r st'. l \<in> set marker_types \<and> fs ''about_ids'' = Some (VStrs abouts) \<and> fs ''status'' = Some (VStr ''pending'') \<and>
        (\<exists>t. fs ''expires_at'' = Some (VStr t)) \<and>
        index_marker s ?i abouts sc en (st\<lparr>mk_world := ?w\<lparr>gr := add_node [l] ?i (Some s) fs Map.empty (gr ?w), tick := Suc (Suc (Suc (tick ?w)))\<rparr>\<rparr>) = (r, st') \<and>
        ?m en st = (Inr ?i, st'))"
  proof (cases "fault ?e (Suc (Suc (tick ?w)))")
    case True
    then show ?thesis by (simp add: mbind_def on_graph_def masks_def datetime_now_def new_uuid_def execute_write_def)
  next
    case False
    have "?m en st = (Inr ?i, st')"
      using False ix assms(3) by (simp add: mbind_def on_graph_def masks_def datetime_now_def new_uuid_def execute_write_def mret_def)
    then show ?thesis using ix assms(1,2) by blast
  qed
qed

lemma creation_contradiction: "creation s abouts (create_contradiction s a b abouts c hours)"
  unfolding create_contradiction_def
  by (rule creation_run [where l = "''Contradiction''" and fs = "\<lambda>i t u. [''status'' \<mapsto> VStr ''pending'', ''node_a_id'' \<mapsto> VStr a,
        ''node_b_id'' \<mapsto> VStr b, ''about_ids'' \<mapsto> VStrs abouts, ''confidence'' \<mapsto> VNum c, ''detected_at'' \<mapsto> VStr t,
        ''expires_at'' \<mapsto> VStr u]"]) (simp_all add: marker_types_def CREATE_CONTRADICTION_def fun_eq_iff)

lemma creation_stale: "creation s abouts (create_stale_commitment s cid evs abouts hours)"
  unfolding create_stale_commitment_def
  by (rule creation_run [where l = "''StaleCommitment''" and fs = "\<lambda>i t u. [''status'' \<mapsto> VStr ''pending'',
        ''commitment_id'' \<mapsto> VStr cid, ''evidence_ids'' \<mapsto> VStrs evs, ''about_ids'' \<mapsto> VStrs abouts, ''detected_at'' \<mapsto> VStr t,
        ''expires_at'' \<mapsto> VStr u]"]) (simp_all add: marker_types_def CREATE_STALE_COMMITMENT_def fun_eq_iff)

lemma creation_changes:
  assumes "creation s abouts m"
  shows "meffect (mchanges Y) m"
  unfolding meffect_def
proof (intro allI)
  fix en :: marker_env and st :: marker_state
  from assms [unfolded creation_def Let_def, rule_format, of en st]
  show "mchanges Y en st (snd (m en st))"
  proof (elim disjE conjE exE)
    fix x assume "m en st = (Inl x, st\<lparr>mk_world := (mk_world st)\<lparr>tick := Suc (Suc (Suc (mtick st)))\<rparr>\<rparr>)"
    then show ?thesis by (auto intro!: quietI)
  next
    fix l fs sc r st'
    assume 1: "l \<in> set marker_types" "fs ''about_ids'' = Some (VStrs abouts)" "m en st = (Inr (uuid4 (mk_env en) (Suc (mtick st))), st')"
      and 2: "index_marker s (uuid4 (mk_env en) (Suc (mtick st))) abouts sc en (st\<lparr>mk_world := (mk_world st)\<lparr>gr := add_node [l] (uuid4 (mk_env en) (Suc (mtick st)))
         (Some s) fs Map.empty (mgraph st), tick := Suc (Suc (Suc (mtick st)))\<rparr>\<rparr>) = (r, st')"
    show ?thesis using create_changes [OF 1(1,2) refl refl _ _ 2, of Y] 1(3) by simp
  qed
qed

text \<open>Settling a marker: nothing when a call fails or no marker has the id.\<close>

definition settled_node :: "string \<Rightarrow> string \<Rightarrow> string \<Rightarrow> string \<Rightarrow> string \<Rightarrow> node \<Rightarrow> node" where
  "settled_node i s status tm reason n =
     (if is_node i s n then set_field ''status'' (Some (VStr status)) (set_field ''resolved_at'' (Some (VStr tm))
        (set_field ''resolution'' (Some (VStr reason)) n)) else n)"

lemma marker_nodes_update:
  assumes "\<And>n. labels (f n) = labels n"
  shows "marker_nodes (update_where P f g) = map (\<lambda>n. if P n then f n else n) (marker_nodes g)"
proof -
  have "is_marker (if P n then f n else n) = is_marker n" for n using assms by (simp add: is_marker_def has_label_def)
  then show ?thesis by (simp add: marker_nodes_def graph_simps filter_map comp_def)
qed

lemma marker_nodes_settle:
  "marker_nodes (fst (UPDATE_MARKER_STATUS i s status tm reason g)) = map (settled_node i s status tm reason) (marker_nodes g)"
proof -
  have "n \<in> set (marker_nodes g) \<Longrightarrow> list_ex (\<lambda>l. has_label l n) marker_types" for n
    by (simp add: marker_nodes_def is_marker_def)
  then show ?thesis
    by (simp add: UPDATE_MARKER_STATUS_def marker_nodes_update settled_node_def)
qed

lemma settle_rows:
  "snd (UPDATE_MARKER_STATUS i s status tm reason g) = map (\<lambda>r. (m_id r, m_type r)) (GET_MARKERS_BY_IDS s [i] g)"
  by (simp add: UPDATE_MARKER_STATUS_def)

lemma settles_node: "status \<noteq> ''pending'' \<Longrightarrow> settles s i (settled_node i s status tm reason)"
  by (simp add: settles_def settled_node_def about_of_def)

lemma marker_rows_iff:
  "r \<in> set (marker_rows g s P) \<longleftrightarrow> (\<exists>l \<in> set marker_types. \<exists>n \<in> set (marker_nodes g). has_label l n \<and> silo n = Some s \<and> P n \<and> r = marker_row l n)"
  by (auto simp: marker_rows_def match_label_def marker_nodes_def is_marker_def list_ex_iff)

lemma rows_by_id:
  "r \<in> set (GET_MARKERS_BY_IDS s ids g) \<longleftrightarrow>
     (\<exists>l \<in> set marker_types. \<exists>n \<in> set (marker_nodes g). has_label l n \<and> silo n = Some s \<and> nid n \<in> set ids \<and> r = marker_row l n)"
  by (simp add: GET_MARKERS_BY_IDS_def marker_rows_iff)

lemma deindex_run:
  assumes "deindex_marker s i abouts en st = (r, st')"
  shows "r = Inr () \<and> mk_world st' = mk_world st \<and> (\<forall>key. indexed st' key \<subseteq> indexed st key \<and> indexed st key \<subseteq> insert i (indexed st' key))"
proof -
  have eq: "map (\<lambda>n. remove_from_index (about_key s n) i) abouts = map (\<lambda>(k, i). remove_from_index k i) (map (\<lambda>n. (about_key s n, i)) abouts)"
    by simp
  obtain res st1 where p: "run_pipe (map (\<lambda>n. remove_from_index (about_key s n) i) abouts) (\<lambda>_. ()) en st = (res, st1)"
    by (metis surj_pair)
  obtain x where "res = Inr x" using p by (auto simp: run_pipe_def Let_def split: option.splits)
  with assms p have r: "r = Inr ()" "st' = st1" by (simp_all add: deindex_marker_def mbind_def mret_def)
  obtain dk where "mk_world st1 = mk_world st" "set dk \<subseteq> set (map (\<lambda>n. (about_key s n, i)) abouts)"
    "\<And>key. indexed st1 key = indexed st key - {i. (key, i) \<in> set dk}"
    by (rule remove_pipe_run [OF p [unfolded eq]], rule that)
  then show ?thesis using r by auto
qed

text \<open>
  The outcome of a settlement: a raise that changed nothing, or the new status on every node of
  the id, of which there is one, and an index that lost nothing but the id.
\<close>

lemma transition_run:
  assumes run: "transition_marker s i status reason en st = (r, st')"
  shows "mtick st \<le> mtick st' \<and>
    (isl r \<and> marker_nodes (mgraph st') = marker_nodes (mgraph st) \<and> about_index st' = about_index st \<or>
     (\<exists>tm. marker_nodes (mgraph st') = map (settled_node i s status tm reason) (marker_nodes (mgraph st))) \<and> \<not> isl r \<and>
     (\<exists>n \<in> set (marker_nodes (mgraph st)). is_node i s n) \<and>
     (\<forall>key. indexed st' key \<subseteq> indexed st key \<and> indexed st key \<subseteq> insert i (indexed st' key)))"
proof -
  let ?e = "mk_env en" and ?w = "mk_world st"
  consider "fault ?e (tick ?w)" | "\<not> fault ?e (tick ?w)" "fault ?e (Suc (Suc (tick ?w)))"
    | "\<not> fault ?e (tick ?w)" "\<not> fault ?e (Suc (Suc (tick ?w)))" by blast
  then show ?thesis
  proof cases
    case 3
    let ?t = "iso_text en (clock ?e (Suc (tick ?w)))"
    let ?g = "fst (UPDATE_MARKER_STATUS i s status ?t reason (gr ?w))"
    let ?st = "st\<lparr>mk_world := ?w\<lparr>gr := ?g, tick := Suc (Suc (Suc (tick ?w)))\<rparr>\<rparr>"
    let ?rows = "GET_MARKERS_BY_IDS s [i] (gr ?w)"
    show ?thesis
    proof (cases ?rows)
      case Nil
      then have none: "\<forall>n \<in> set (marker_nodes (gr ?w)). \<not> is_node i s n"
        using rows_by_id [of _ s "[i]" "gr ?w"] by (auto simp: is_node_def marker_nodes_def is_marker_def list_ex_iff)
      then have "map (settled_node i s status ?t reason) (marker_nodes (gr ?w)) = marker_nodes (gr ?w)"
        by (simp add: settled_node_def map_idI)
      then show ?thesis
        using 3 Nil run
        by (auto simp: transition_marker_def mbind_def on_graph_def masks_def datetime_now_def execute_query_def execute_write_def
            mraise_def Let_def marker_nodes_settle settle_rows)
    next
      case (Cons row rows)
      let ?about = "m_about row"
      obtain st2 where d: "(if ?about \<noteq> [] then deindex_marker s i ?about else mret ()) en ?st = (Inr (), st2)"
        "mk_world st2 = mk_world ?st" "\<forall>key. indexed st2 key \<subseteq> indexed ?st key \<and> indexed ?st key \<subseteq> insert i (indexed st2 key)"
      proof (cases "?about = []")
        case True
        then show thesis using that [of ?st] by (auto simp: mret_def)
      next
        case False
        obtain x st2 where "deindex_marker s i ?about en ?st = (x, st2)" by (metis surj_pair)
        with deindex_run [OF this] False show thesis using that [of st2] by simp
      qed
      have "r = Inr (m_id row, ?t)" "st' = st2"
        using 3 Cons run d(1)
        by (simp_all add: transition_marker_def mbind_def on_graph_def masks_def datetime_now_def execute_query_def execute_write_def
            settle_rows mret_def Let_def split: if_splits)
      moreover have "\<exists>n \<in> set (marker_nodes (gr ?w)). is_node i s n"
        using Cons rows_by_id [of row s "[i]" "gr ?w"] by (auto simp: is_node_def)
      ultimately show ?thesis using d by (auto simp: marker_nodes_settle)
    qed
  qed (use run in \<open>auto simp: transition_marker_def mbind_def on_graph_def masks_def datetime_now_def execute_query_def execute_write_def Let_def\<close>)
qed

lemma transition_changes:
  assumes "i \<in> Y" "status \<noteq> ''pending''"
  shows "meffect (mchanges Y) (transition_marker s i status reason)"
  unfolding meffect_def
proof (intro allI)
  fix en :: marker_env and st :: marker_state
  obtain r st' where run: "transition_marker s i status reason en st = (r, st')" by (metis surj_pair)
  from transition_run [OF run] have "mchange Y en st st'"
  proof (elim conjE disjE exE)
    fix tm assume 1: "marker_nodes (mgraph st') = map (settled_node i s status tm reason) (marker_nodes (mgraph st))" "mtick st \<le> mtick st'"
      and 2: "\<forall>key. indexed st' key \<subseteq> indexed st key \<and> indexed st key \<subseteq> insert i (indexed st' key)"
    show ?thesis by (rule mchange.settle [OF assms(1) settles_node [OF assms(2)] 1(1) spec [OF 2] 1(2)])
  qed (auto intro!: mchange.quiet)
  then show "mchanges Y en st (snd (transition_marker s i status reason en st))" by (simp add: run mchange_into)
qed

lemma reject_changes:
  assumes "i \<in> Y"
  shows "meffect (mchanges Y) (on_graph (execute_write (REJECT_PENDING_BELIEF i s tm reason)))"
  unfolding meffect_def
proof (intro allI)
  fix en :: marker_env and st :: marker_state
  let ?f = "\<lambda>n. if is_node i s n \<and> has_label ''Belief'' n \<and> is_pending n
     then set_field ''status'' (Some (VStr ''rejected'')) (set_field ''rejected_at'' (Some (VStr tm))
            (set_field ''rejection_reason'' (Some (VStr reason)) (set_field ''updated_at'' (Some (VStr tm))
            (set_field ''tombstoned_at'' (Some (VStr tm)) n)))) else n"
  have "settles s i ?f" by (simp add: settles_def about_of_def)
  then have "mchange Y en st st'" if "marker_nodes (mgraph st') = map ?f (marker_nodes (mgraph st))"
      "about_index st' = about_index st" "mtick st \<le> mtick st'" for st'
    using that assms by (intro mchange.settle [of i Y s ?f]) auto
  then show "mchanges Y en st (snd (on_graph (execute_write (REJECT_PENDING_BELIEF i s tm reason)) en st))"
    by (cases "fault (mk_env en) (mtick st)")
       (auto simp: on_graph_def execute_write_def REJECT_PENDING_BELIEF_def Let_def marker_nodes_update intro: mchange_into quietI)
qed

lemma dismiss_changes:
  assumes "i \<in> Y"
  shows "meffect (mchanges Y) (dismiss s i reason)"
  unfolding dismiss_def reject_proposal_def dismiss_pending_def dismiss_marker_def
  by (intro changes.eff_intros changes.eff_reads changes.eff_details changes.eff_clear_touches reject_changes [OF assms]
      transition_changes [OF assms]) simp

lemma cleanup_changes: "meffect (mchanges UNIV) (marker_cleanup s)"
  unfolding meffect_def
proof (intro allI)
  fix en :: marker_env and st :: marker_state
  let ?e = "mk_env en" and ?w = "mk_world st"
  let ?t = "iso_text en (clock ?e (tick ?w))"
  let ?q = "DELETE_EXPIRED_MARKERS_ATOMIC s ?t (gr ?w)"
  let ?st1 = "st\<lparr>mk_world := ?w\<lparr>gr := fst ?q, tick := Suc (Suc (tick ?w))\<rparr>\<rparr>"
  let ?cmds = "concat (map (\<lambda>r. map (\<lambda>n. remove_from_index (about_key s n) (m_id r)) (m_about r)) (snd ?q))"
  let ?kis = "concat (map (\<lambda>r. map (\<lambda>n. (about_key s n, m_id r)) (m_about r)) (snd ?q))"
  have cmds: "?cmds = map (\<lambda>(k, i). remove_from_index k i) ?kis" by (simp add: map_concat comp_def)
  have g: "marker_nodes (mgraph ?st1) = filter (\<lambda>n. vid n \<notin> vid ` set (filter (expired_marker s ?t) (nodes (gr ?w)))) (marker_nodes (gr ?w))"
    by (simp add: marker_nodes_def DELETE_EXPIRED_MARKERS_ATOMIC_def detach_delete_def graph_simps conj_commute)
  have del: "mchange UNIV en st st'" if "mk_world st' = mk_world ?st1" "\<And>key. indexed st' key \<subseteq> indexed st key" for st'
    using that g by (intro mchange.delete) auto
  have "mchanges UNIV en st (snd (marker_cleanup s en st))"
  proof (cases "fault ?e (Suc (tick ?w))")
    case True
    then show ?thesis
      by (auto simp: marker_cleanup_def mbind_def on_graph_def masks_def datetime_now_def execute_write_def intro!: quietI)
  next
    case False
    show ?thesis
    proof (cases "snd ?q = []")
      case True
      then have "snd (marker_cleanup s en st) = ?st1"
        using False by (simp add: marker_cleanup_def mbind_def on_graph_def masks_def datetime_now_def execute_write_def mret_def Let_def)
      then show ?thesis using del [of ?st1] by (simp add: mchange_into)
    next
      case nonempty: False
      obtain res st2 where p: "run_pipe ?cmds (\<lambda>_. (length (filter (\<lambda>r. m_type r = ''Contradiction'') (snd ?q)),
          length (filter (\<lambda>r. m_type r \<noteq> ''Contradiction'') (snd ?q)))) en ?st1 = (res, st2)" by (rule prod.exhaust)
      have "marker_cleanup s en st = run_pipe ?cmds (\<lambda>_. (length (filter (\<lambda>r. m_type r = ''Contradiction'') (snd ?q)),
          length (filter (\<lambda>r. m_type r \<noteq> ''Contradiction'') (snd ?q)))) en ?st1"
        using False nonempty by (simp add: marker_cleanup_def mbind_def on_graph_def masks_def datetime_now_def execute_write_def Let_def)
      then have "snd (marker_cleanup s en st) = st2" using p by simp
      moreover obtain dk where "mk_world st2 = mk_world ?st1" "\<And>key. indexed st2 key = indexed ?st1 key - {i. (key, i) \<in> set dk}"
        by (rule remove_pipe_run [OF p [unfolded cmds]], rule that)
      ultimately show ?thesis using del [of st2] by (auto intro!: mchange_into)
    qed
  qed
  then show "mchanges UNIV en st (snd (marker_cleanup s en st))" .
qed

section \<open>Steps and reachable states\<close>

text \<open>
  Calls in one environment, for any silos, in any order, whether they return or raise; in between
  anything else may happen to the graph that leaves the markers alone.
\<close>

inductive marker_step :: "string set \<Rightarrow> marker_env \<Rightarrow> marker_state \<Rightarrow> marker_state \<Rightarrow> bool" for Y en st where
  contradiction: "marker_step Y en st (snd (create_contradiction s a b abouts c hours en st))"
| stale: "marker_step Y en st (snd (create_stale_commitment s cid evs abouts hours en st))"
| resolve: "i \<in> Y \<Longrightarrow> marker_step Y en st (snd (resolve_marker s i reason en st))"
| dismissed: "i \<in> Y \<Longrightarrow> marker_step Y en st (snd (dismiss_marker s i reason en st))"
| dismiss: "i \<in> Y \<Longrightarrow> marker_step Y en st (snd (dismiss s i reason en st))"
| cleanup: "Y = UNIV \<Longrightarrow> marker_step Y en st (snd (marker_cleanup s en st))"
| recall: "marker_step Y en st (snd (checkpoint s sess (results :: string recalled list) en st))"
| engagement: "marker_step Y en st (snd (get_engagement_for_about_set s abouts sess en st))"
| listing: "marker_step Y en st (snd (get_engagement_for_silo s en st))"
| other: "marker_nodes (gr w) = marker_nodes (mgraph st) \<Longrightarrow> mtick st \<le> tick w \<Longrightarrow> marker_step Y en st (st\<lparr>mk_world := w\<rparr>)"

inductive_cases marker_stepE: "marker_step Y en st st'"

abbreviation marker_steps :: "string set \<Rightarrow> marker_env \<Rightarrow> marker_state \<Rightarrow> marker_state \<Rightarrow> bool" where
  "marker_steps Y en \<equiv> (marker_step Y en)\<^sup>*\<^sup>*"

lemma effect_step: "meffect (mchanges Y) m \<Longrightarrow> mchanges Y en st (snd (m en st))"
  by (simp add: meffect_def)

lemma marker_step_changes: "marker_step Y en st st' \<Longrightarrow> mchanges Y en st st'"
proof (erule marker_stepE; simp only:)
  fix w :: world assume "marker_nodes (gr w) = marker_nodes (mgraph st)" "mtick st \<le> tick w"
  then show "mchanges Y en st (st\<lparr>mk_world := w\<rparr>)" by (auto intro!: mchange_into mchange.quiet)
qed (auto intro!: effect_step creation_changes creation_contradiction creation_stale transition_changes dismiss_changes cleanup_changes
      changes.eff_checkpoint changes.eff_engagement simp: resolve_marker_def dismiss_marker_def)

lemma marker_steps_changes: "marker_steps Y en st st' \<Longrightarrow> mchanges Y en st st'"
  by (induction rule: rtranclp_induct) (auto dest: marker_step_changes)

inductive marker_reachable :: "marker_env \<Rightarrow> marker_state \<Rightarrow> bool" for en where
  init: "marker_nodes (mgraph st) = [] \<Longrightarrow> (\<And>key. about_index st key = []) \<Longrightarrow> marker_reachable en st"
| step: "marker_reachable en st \<Longrightarrow> marker_step UNIV en st st' \<Longrightarrow> marker_reachable en st'"

text \<open>Ids in use come from earlier calls, and an entry of the index agrees with every node of its id.\<close>

definition index_ok :: "marker_env \<Rightarrow> marker_state \<Rightarrow> bool" where
  "index_ok en st \<longleftrightarrow>
     (\<forall>i. i \<in> nid ` set (marker_nodes (mgraph st)) \<or> (\<exists>key. i \<in> indexed st key) \<longrightarrow> i \<in> uuid4 (mk_env en) ` {..<mtick st}) \<and>
     (\<forall>m \<in> set (marker_nodes (mgraph st)). \<forall>key. nid m \<in> indexed st key \<longrightarrow>
        (\<exists>s a. silo m = Some s \<and> a \<in> set (about_of m) \<and> key = about_key s a))"

lemma index_okI:
  assumes "\<And>i. i \<in> nid ` set (marker_nodes (mgraph st)) \<Longrightarrow> i \<in> uuid4 (mk_env en) ` {..<mtick st}"
    and "\<And>i key. i \<in> indexed st key \<Longrightarrow> i \<in> uuid4 (mk_env en) ` {..<mtick st}"
    and "\<And>m key. m \<in> set (marker_nodes (mgraph st)) \<Longrightarrow> nid m \<in> indexed st key \<Longrightarrow>
      \<exists>s a. silo m = Some s \<and> a \<in> set (about_of m) \<and> key = about_key s a"
  shows "index_ok en st"
  using assms unfolding index_ok_def by blast

lemma index_okD:
  assumes "index_ok en st"
  shows "i \<in> nid ` set (marker_nodes (mgraph st)) \<Longrightarrow> i \<in> uuid4 (mk_env en) ` {..<mtick st}"
    and "i \<in> indexed st key \<Longrightarrow> i \<in> uuid4 (mk_env en) ` {..<mtick st}"
    and "m \<in> set (marker_nodes (mgraph st)) \<Longrightarrow> nid m \<in> indexed st key \<Longrightarrow>
      \<exists>s a. silo m = Some s \<and> a \<in> set (about_of m) \<and> key = about_key s a"
  using assms unfolding index_ok_def by blast+

text \<open>A change that only removes nodes or entries, or settles nodes.\<close>

lemma index_ok_less:
  assumes ok: "index_ok en st" and "mtick st \<le> mtick st'" and index: "\<And>key. indexed st' key \<subseteq> indexed st key"
    and nodes: "\<And>m'. m' \<in> set (marker_nodes (mgraph st')) \<Longrightarrow>
      \<exists>m \<in> set (marker_nodes (mgraph st)). nid m' = nid m \<and> silo m' = silo m \<and> about_of m' = about_of m"
  shows "index_ok en st'"
proof -
  have later: "i \<in> uuid4 (mk_env en) ` {..<mtick st} \<Longrightarrow> i \<in> uuid4 (mk_env en) ` {..<mtick st'}" for i
    using assms(2) by fastforce
  show ?thesis
  proof (rule index_okI)
    fix i assume "i \<in> nid ` set (marker_nodes (mgraph st'))"
    then have "i \<in> nid ` set (marker_nodes (mgraph st))" using nodes by fastforce
    then show "i \<in> uuid4 (mk_env en) ` {..<mtick st'}" by (intro later index_okD(1) [OF ok])
  next
    fix i key assume "i \<in> indexed st' key"
    then have "i \<in> indexed st key" using index by blast
    then show "i \<in> uuid4 (mk_env en) ` {..<mtick st'}" by (intro later index_okD(2) [OF ok])
  next
    fix m' key assume "m' \<in> set (marker_nodes (mgraph st'))" "nid m' \<in> indexed st' key"
    then obtain m where "m \<in> set (marker_nodes (mgraph st))" "nid m' = nid m \<and> silo m' = silo m \<and> about_of m' = about_of m"
      "nid m \<in> indexed st key" using nodes index by (metis subsetD)
    then show "\<exists>s a. silo m' = Some s \<and> a \<in> set (about_of m') \<and> key = about_key s a"
      using index_okD(3) [OF ok, of m key] by simp
  qed
qed

lemma index_ok_change:
  assumes "mchange Y en st st'" "index_ok en st" "inj (uuid4 (mk_env en))"
  shows "index_ok en st'"
  using assms(1)
proof cases
  case quiet
  then show ?thesis by (intro index_ok_less [OF assms(2)]) auto
next
  case (new m k s done_ids)
  let ?u = "uuid4 (mk_env en)"
  have fresh: "nid m \<notin> ?u ` {..<mtick st}" using new(3) unfolding new(2) inj_image_mem_iff [OF assms(3)] by simp
  have "mtick st \<le> mtick st'" using new(3,4) by simp
  then have later: "i \<in> ?u ` {..<mtick st} \<Longrightarrow> i \<in> ?u ` {..<mtick st'}" for i by fastforce
  have m: "nid m \<in> ?u ` {..<mtick st'}" using new(2,4) by simp
  show ?thesis
  proof (rule index_okI)
    fix i assume "i \<in> nid ` set (marker_nodes (mgraph st'))"
    then show "i \<in> ?u ` {..<mtick st'}" using m later index_okD(1) [OF assms(2)] unfolding new(1) by auto
  next
    fix i key assume "i \<in> indexed st' key"
    then show "i \<in> ?u ` {..<mtick st'}" using m later index_okD(2) [OF assms(2), of i key] unfolding new(7) by (auto split: if_splits)
  next
    fix n key assume n: "n \<in> set (marker_nodes (mgraph st'))" "nid n \<in> indexed st' key"
    show "\<exists>s a. silo n = Some s \<and> a \<in> set (about_of n) \<and> key = about_key s a"
    proof (cases "n = m")
      case True
      then have "key \<in> about_key s ` set done_ids"
        using n(2) fresh index_okD(2) [OF assms(2), of "nid m" key] unfolding new(7) by (auto split: if_splits)
      then show ?thesis using True new(5,6) by auto
    next
      case False
      then have "n \<in> set (marker_nodes (mgraph st))" using n(1) unfolding new(1) by simp
      moreover have "nid n \<noteq> nid m" using calculation fresh index_okD(1) [OF assms(2), of "nid n"] by auto
      ultimately show ?thesis using n(2) index_okD(3) [OF assms(2), of n key] unfolding new(7) by (auto split: if_splits)
    qed
  qed
next
  case (settle i s f)
  then show ?thesis by (intro index_ok_less [OF assms(2)]) (auto simp: settles_def)
next
  case (delete P)
  then show ?thesis by (intro index_ok_less [OF assms(2)]) auto
qed

lemma index_ok_changes: "mchanges Y en st st' \<Longrightarrow> index_ok en st \<Longrightarrow> inj (uuid4 (mk_env en)) \<Longrightarrow> index_ok en st'"
  by (induction rule: rtranclp_induct) (auto dest: index_ok_change)

lemma reachable_index_ok: "marker_reachable en st \<Longrightarrow> inj (uuid4 (mk_env en)) \<Longrightarrow> index_ok en st"
proof (induction rule: marker_reachable.induct)
  case (init st)
  then show ?case by (simp add: index_ok_def)
next
  case (step st st')
  then show ?case using index_ok_changes [OF marker_step_changes [OF step.hyps(2)]] by blast
qed

section \<open>What an engagement says\<close>

lemma run_pipe_read:
  "run_pipe [] read en st = (Inr (if pipeline_cut en (redis_calls st) = None then Some (read (st\<lparr>redis_calls := Suc (redis_calls st)\<rparr>)) else None),
     st\<lparr>redis_calls := Suc (redis_calls st)\<rparr>)"
  by (simp add: run_pipe_def Let_def split: option.split)

lemma lookup_run:
  assumes "abouts \<noteq> []"
  shows "get_markers_for_about_set s abouts en st =
    (Inr (if pipeline_cut en (redis_calls st) = None
          then dedup (concat (map (\<lambda>n. map snd (about_index st (about_key s n))) abouts)) else []),
     st\<lparr>redis_calls := Suc (redis_calls st)\<rparr>)"
  using assms by (simp add: get_markers_for_about_set_def mbind_def run_pipe_read mret_def)

lemma details_run:
  assumes "get_marker_details s ids en st = (r, st')"
  shows "mgraph st' = mgraph st \<and> about_index st' = about_index st \<and> redis_calls st' = redis_calls st \<and> touch_sets st' = touch_sets st \<and>
    (case r of Inl _ \<Rightarrow> fault (mk_env en) (mtick st) | Inr rows \<Rightarrow> rows = (if ids = [] then [] else GET_MARKERS_BY_IDS s ids (mgraph st)))"
  using assms by (auto simp: get_marker_details_def mret_def on_graph_def execute_query_def split: if_splits)

lemma no_ids: "GET_MARKERS_BY_IDS s [] g = []"
  by (simp add: GET_MARKERS_BY_IDS_def marker_rows_def)

lemma proposals_run:
  assumes "try_proposals (mbind (on_graph datetime_now) (\<lambda>t. on_graph (execute_query (q t)))) en st = (r, st')"
  shows "mgraph st' = mgraph st \<and> about_index st' = about_index st \<and> redis_calls st' = redis_calls st \<and> touch_sets st' = touch_sets st \<and>
    (\<exists>ps. r = Inr ps \<and> (ps = [] \<or> (\<exists>t. ps = proposal_outs (q t (mgraph st)))))"
  using assms
  by (auto simp: try_proposals_def mcatch_def mbind_def mret_def on_graph_def execute_query_def datetime_now_def split: if_splits)

text \<open>The reading part of an engagement, and what the touches make of it.\<close>

lemma engagement_run:
  assumes "abouts \<noteq> []"
  obtains (failed) x st' where "get_engagement_for_about_set s abouts sess en st = (Inl x, st')"
      "fault (mk_env en) (mtick st)"
    | (read) ids ps st1 where
      "ids = (if pipeline_cut en (redis_calls st) = None
          then dedup (concat (map (\<lambda>n. map snd (about_index st (about_key s n))) abouts)) else [])"
      "ps = [] \<or> (\<exists>t. ps = proposal_outs (GET_PENDING_BELIEFS_FOR_FACTS s abouts t (mgraph st)))"
      "mgraph st1 = mgraph st" "about_index st1 = about_index st" "redis_calls st1 = Suc (redis_calls st)" "touch_sets st1 = touch_sets st"
      "get_engagement_for_about_set s abouts sess en st =
        (let markers = marker_outs (GET_MARKERS_BY_IDS s ids (mgraph st)) @ ps in
         if markers = [] then (Inr None, st1)
         else (case touch_all s (effective_session sess) markers en st1 of
             (Inl x, st2) \<Rightarrow> (Inl x, st2)
           | (Inr escalated, st2) \<Rightarrow> (Inr (Some \<lparr>e_mode = (if escalated \<and> engagement_hard_enabled en then MODE_HARD else MODE_SOFT),
                 e_markers = markers\<rparr>), st2)))"
proof -
  let ?ids = "if pipeline_cut en (redis_calls st) = None
          then dedup (concat (map (\<lambda>n. map snd (about_index st (about_key s n))) abouts)) else []"
  let ?st0 = "st\<lparr>redis_calls := Suc (redis_calls st)\<rparr>"
  obtain d st1 where d: "get_marker_details s ?ids en ?st0 = (d, st1)" by (rule prod.exhaust)
  note d' = details_run [OF d]
  show thesis
  proof (cases d)
    case (Inl x)
    have "get_engagement_for_about_set s abouts sess en st = (Inl x, st1)"
      using assms by (simp only: get_engagement_for_about_set_def if_False mbind_Inr [OF lookup_run [OF assms]] mbind_Inl [where m = "get_marker_details s ?ids", OF d [unfolded Inl]])
    then show thesis using failed d' Inl by simp
  next
    case (Inr rows)
    then have rows: "rows = GET_MARKERS_BY_IDS s ?ids (mgraph st)" using d' by (simp add: no_ids split: if_splits)
    let ?q = "\<lambda>t. GET_PENDING_BELIEFS_FOR_FACTS s abouts t"
    let ?Q = "mbind (on_graph datetime_now) (\<lambda>t. on_graph (execute_query (?q t)))"
    obtain p st2 where p: "try_proposals ?Q en st1 = (p, st2)"
      by (rule prod.exhaust)
    note p' = proposals_run [OF p]
    obtain ps where ps: "p = Inr ps" "ps = [] \<or> (\<exists>t. ps = proposal_outs (?q t (mgraph st1)))" using p' by blast
    have "get_engagement_for_about_set s abouts sess en st =
        (let markers = marker_outs rows @ ps in
         if markers = [] then (Inr None, st2)
         else (case touch_all s (effective_session sess) markers en st2 of
             (Inl x, st2) \<Rightarrow> (Inl x, st2)
           | (Inr escalated, st2) \<Rightarrow> (Inr (Some \<lparr>e_mode = (if escalated \<and> engagement_hard_enabled en then MODE_HARD else MODE_SOFT),
                 e_markers = markers\<rparr>), st2)))"
      using assms
      by (simp only: get_engagement_for_about_set_def if_False mbind_Inr [OF lookup_run [OF assms]] mbind_Inr [where m = "get_marker_details s ?ids", OF d [unfolded Inr]]
          mbind_Inr [where m = "try_proposals ?Q", OF p [unfolded ps(1)]])
        (simp add: mbind_def Let_def masks_def mret_def)
    then show thesis using read [of ?ids ps st2] d' p' ps(2) unfolding rows by simp
  qed
qed

lemma marker_row_simps [simp]:
  "m_id (marker_row l n) = nid n" "m_type (marker_row l n) = l" "m_status (marker_row l n) = attrs n ''status''"
  "m_about (marker_row l n) = about_of n"
  by (simp_all add: marker_row_def about_of_def)

lemma out_of_row_simps [simp]:
  "o_id (out_of_row r) = m_id r" "o_type (out_of_row r) = m_type r" "o_nodes (out_of_row r) = m_about r"
  by (simp_all add: out_of_row_def)

lemma marker_outs_iff:
  "x \<in> set (marker_outs (GET_MARKERS_BY_IDS s ids g)) \<longleftrightarrow>
     (\<exists>l \<in> set marker_types. \<exists>m \<in> set (marker_nodes g). has_label l m \<and> silo m = Some s \<and> nid m \<in> set ids \<and> is_pending m \<and>
        x = out_of_row (marker_row l m))"
  unfolding marker_outs_def set_map set_filter image_iff Bex_def mem_Collect_eq rows_by_id by (metis marker_row_simps(3))

lemma proposal_outs_from:
  "x \<in> set (proposal_outs rows) \<Longrightarrow> o_type x = ''ProposedBelief'' \<and> o_id x \<in> fst ` set rows"
proof (induction rows)
  case (Cons r rows)
  obtain i content created facts where "r = (i, content, created, facts)" by (cases r)
  with Cons show ?case by (auto split: option.splits)
qed simp

lemma pending_for_facts:
  assumes "r \<in> set (GET_PENDING_BELIEFS_FOR_FACTS s abouts t g)"
  shows "\<exists>b \<in> set (nodes g). nid b = fst r \<and> pending_proposal s b \<and> (\<exists>f \<in> set (out_nodes g ''SYNTHESIZED_FROM'' b). nid f \<in> set abouts)"
  using assms by (auto simp: GET_PENDING_BELIEFS_FOR_FACTS_def Let_def list_ex_iff image_iff)

text \<open>
  C15: an engagement is about the nodes recalled, in their silo, and still open.  Whatever Redis
  lost, every marker it lists is a node of the silo that is pending: a marker about one of the
  nodes, or a proposal synthesized from one of them.  It is hard only when hard checkpoints are on.
\<close>

theorem engagement_sound:
  assumes "marker_reachable en st" "inj (uuid4 (mk_env en))"
    and run: "get_engagement_for_about_set s abouts sess en st = (Inr (Some eng), st')"
  shows "(\<forall>x \<in> set (e_markers eng). \<exists>m \<in> set (nodes (mgraph st)). nid m = o_id x \<and> silo m = Some s \<and> is_pending m \<and>
      (o_type x \<in> set (labels m) \<and> set (about_of m) \<inter> set abouts \<noteq> {} \<or>
       o_type x = ''ProposedBelief'' \<and> (\<exists>f \<in> set (out_nodes (mgraph st) ''SYNTHESIZED_FROM'' m). nid f \<in> set abouts))) \<and>
    (e_mode eng = MODE_HARD \<longrightarrow> engagement_hard_enabled en)"
proof -
  note ok = reachable_index_ok [OF assms(1,2)]
  have "abouts \<noteq> []" using run by (auto simp: get_engagement_for_about_set_def mret_def)
  then show ?thesis
  proof (cases rule: engagement_run [where s = s and sess = sess and en = en and st = st])
    case (read ids ps st1)
    have eng: "e_markers eng = marker_outs (GET_MARKERS_BY_IDS s ids (mgraph st)) @ ps" "e_mode eng = MODE_HARD \<longrightarrow> engagement_hard_enabled en"
      using read(7) run by (auto simp: Let_def split: if_splits prod.splits sum.splits)
    have "\<exists>m \<in> set (nodes (mgraph st)). nid m = o_id x \<and> silo m = Some s \<and> is_pending m \<and>
        (o_type x \<in> set (labels m) \<and> set (about_of m) \<inter> set abouts \<noteq> {})"
      if "x \<in> set (marker_outs (GET_MARKERS_BY_IDS s ids (mgraph st)))" for x
    proof -
      from that obtain l m where m: "m \<in> set (marker_nodes (mgraph st))" "has_label l m" "silo m = Some s" "nid m \<in> set ids"
        "is_pending m" "x = out_of_row (marker_row l m)" unfolding marker_outs_iff by blast
      from m(4) obtain a where a: "a \<in> set abouts" "nid m \<in> indexed st (about_key s a)"
        unfolding read(1) by (auto split: if_splits)
      with index_okD(3) [OF ok m(1) a(2)] m(3) have "a \<in> set (about_of m)" by auto
      with a(1) m show ?thesis by (auto simp: out_of_row_def marker_row_def has_label_def marker_nodes_def)
    qed
    moreover have "\<exists>m \<in> set (nodes (mgraph st)). nid m = o_id x \<and> silo m = Some s \<and> is_pending m \<and>
        (o_type x = ''ProposedBelief'' \<and> (\<exists>f \<in> set (out_nodes (mgraph st) ''SYNTHESIZED_FROM'' m). nid f \<in> set abouts))"
      if "x \<in> set ps" for x
    proof -
      from that read(2) obtain t where "ps = proposal_outs (GET_PENDING_BELIEFS_FOR_FACTS s abouts t (mgraph st))" by auto
      with that proposal_outs_from obtain r where r: "o_type x = ''ProposedBelief''" "o_id x = fst r"
        "r \<in> set (GET_PENDING_BELIEFS_FOR_FACTS s abouts t (mgraph st))" by blast
      show ?thesis using pending_for_facts [OF r(3)] r(1,2) by (auto simp: pending_proposal_def)
    qed
    ultimately show ?thesis using eng by fastforce
  qed (use run in simp)
qed

text \<open>A marker that is settled and whose id is in use.\<close>

definition silent :: "string \<Rightarrow> string \<Rightarrow> marker_env \<Rightarrow> marker_state \<Rightarrow> bool" where
  "silent s i en st \<longleftrightarrow> (\<forall>m \<in> set (marker_nodes (mgraph st)). is_node i s m \<longrightarrow> \<not> is_pending m) \<and> i \<in> uuid4 (mk_env en) ` {..<mtick st}"

lemma silentI:
  assumes "silent s i en st" "mtick st \<le> mtick st'"
    and "\<And>m'. m' \<in> set (marker_nodes (mgraph st')) \<Longrightarrow> is_node i s m' \<Longrightarrow> is_pending m' \<Longrightarrow>
      \<exists>m \<in> set (marker_nodes (mgraph st)). is_node i s m \<and> is_pending m"
  shows "silent s i en st'"
proof -
  have "i \<in> uuid4 (mk_env en) ` {..<mtick st'}" using assms(1,2) unfolding silent_def by fastforce
  then show ?thesis using assms(1,3) unfolding silent_def by blast
qed

lemma silent_change:
  assumes "mchange Y en st st'" "silent s i en st" "inj (uuid4 (mk_env en))"
  shows "silent s i en st'"
  using assms(1)
proof cases
  case quiet
  then show ?thesis by (intro silentI [OF assms(2)]) auto
next
  case (new m k s' done_ids)
  have "nid m \<notin> uuid4 (mk_env en) ` {..<mtick st}" using new(3) unfolding new(2) inj_image_mem_iff [OF assms(3)] by simp
  then have "\<not> is_node i s m" using assms(2) by (auto simp: silent_def is_node_def)
  then have no: "is_node i s m' \<Longrightarrow> m' \<in> set (marker_nodes (mgraph st'))\<Longrightarrow> m' \<in> set (marker_nodes (mgraph st))" for m'
    unfolding new(1) by auto
  show ?thesis by (rule silentI [OF assms(2)]) (use new(3,4) no in \<open>simp, blast\<close>)
next
  case (settle j s' f)
  have "is_node i s (f m) = is_node i s m" "is_pending (f m) \<Longrightarrow> is_pending m" for m
    using spec [OF settle(2) [unfolded settles_def], of m] by (auto simp: is_node_def)
  then have "m' \<in> set (marker_nodes (mgraph st')) \<Longrightarrow> is_node i s m' \<Longrightarrow> is_pending m' \<Longrightarrow>
      \<exists>m \<in> set (marker_nodes (mgraph st)). is_node i s m \<and> is_pending m" for m'
    unfolding settle(3) set_map by blast
  then show ?thesis by (rule silentI [OF assms(2) settle(5)])
next
  case (delete P)
  then show ?thesis by (intro silentI [OF assms(2)]) auto
qed

lemma silent_changes: "mchanges Y en st st' \<Longrightarrow> silent s i en st \<Longrightarrow> inj (uuid4 (mk_env en)) \<Longrightarrow> silent s i en st'"
  by (induction rule: rtranclp_induct) (auto dest: silent_change)

text \<open>
  C12: a settled marker stays silent.  Once a marker has been resolved or dismissed, no engagement lists it again, after any
  further calls and although the index may still hold it, because its removal there may have failed.
\<close>

theorem settled_marker_silent:
  assumes "marker_reachable en st" "inj (uuid4 (mk_env en))"
    and "resolve_marker s i reason en st = (Inr res, st1) \<or> dismiss_marker s i reason en st = (Inr res, st1)"
    and "marker_steps UNIV en st1 st2"
    and run: "get_engagement_for_about_set s abouts sess en st2 = (Inr (Some eng), st3)"
  shows "\<forall>x \<in> set (e_markers eng). o_id x \<noteq> i \<or> o_type x = ''ProposedBelief''"
proof -
  note ok = reachable_index_ok [OF assms(1,2)]
  obtain status where status: "status \<noteq> ''pending''" "transition_marker s i status reason en st = (Inr res, st1)"
  proof -
    show thesis using assms(3)
    proof
      assume "resolve_marker s i reason en st = (Inr res, st1)"
      then show thesis by (intro that [of "''resolved''"]) (simp_all add: resolve_marker_def)
    next
      assume "dismiss_marker s i reason en st = (Inr res, st1)"
      then show thesis by (intro that [of "''dismissed''"]) (simp_all add: dismiss_marker_def)
    qed
  qed
  have "silent s i en st1"
  proof -
    obtain tm n where t: "marker_nodes (mgraph st1) = map (settled_node i s status tm reason) (marker_nodes (mgraph st))"
      "mtick st \<le> mtick st1" "n \<in> set (marker_nodes (mgraph st))" "is_node i s n"
      using transition_run [OF status(2)] by auto
    have "i \<in> uuid4 (mk_env en) ` {..<mtick st}" using index_okD(1) [OF ok, of i] t(3,4) by (auto simp: is_node_def)
    then have "i \<in> uuid4 (mk_env en) ` {..<mtick st1}" using t(2) by fastforce
    moreover have "\<not> is_pending (settled_node i s status tm reason m)" if "is_node i s (settled_node i s status tm reason m)" for m
      using that status(1) by (simp add: settled_node_def is_node_def split: if_splits)
    ultimately show ?thesis unfolding silent_def t(1) by auto
  qed
  then have silent: "silent s i en st2" using silent_changes [OF marker_steps_changes [OF assms(4)]] assms(2) by blast
  have "abouts \<noteq> []" using run by (auto simp: get_engagement_for_about_set_def mret_def)
  then show ?thesis
  proof (cases rule: engagement_run [where s = s and sess = sess and en = en and st = st2])
    case (read ids ps st1')
    have eng: "e_markers eng = marker_outs (GET_MARKERS_BY_IDS s ids (mgraph st2)) @ ps"
      using read(7) run by (auto simp: Let_def split: if_splits prod.splits sum.splits)
    have "o_id x \<noteq> i" if "x \<in> set (marker_outs (GET_MARKERS_BY_IDS s ids (mgraph st2)))" for x
      using that silent unfolding marker_outs_iff silent_def by (auto simp: out_of_row_def marker_row_def is_node_def)
    moreover have "o_type x = ''ProposedBelief''" if "x \<in> set ps" for x
      using that read(2) proposal_outs_from by auto
    ultimately show ?thesis using eng by auto
  qed (use run in simp)
qed

section \<open>No open marker is forgotten\<close>

definition findable :: "string \<Rightarrow> string \<Rightarrow> string list \<Rightarrow> marker_state \<Rightarrow> bool" where
  "findable s i abouts st \<longleftrightarrow>
     (\<exists>l \<in> set marker_types. \<exists>m \<in> set (marker_nodes (mgraph st)). has_label l m \<and> is_node i s m \<and> is_pending m) \<and>
     (\<forall>a \<in> set abouts. i \<in> indexed st (about_key s a))"

lemma findable_change:
  assumes "mchange Y en st st'" "i \<notin> Y" "findable s i abouts st"
  shows "findable s i abouts st'"
proof -
  obtain l m where m: "l \<in> set marker_types" "m \<in> set (marker_nodes (mgraph st))" "has_label l m" "is_node i s m" "is_pending m"
    and index: "\<And>a. a \<in> set abouts \<Longrightarrow> i \<in> indexed st (about_key s a)"
    using assms(3) unfolding findable_def by blast
  have findableI: "findable s i abouts st'" if "m \<in> set (marker_nodes (mgraph st'))" "\<And>key. i \<in> indexed st key \<Longrightarrow> i \<in> indexed st' key"
    using that m index unfolding findable_def by blast
  show ?thesis
    using assms(1)
  proof cases
    case quiet
    then show ?thesis using m(2) by (intro findableI) auto
  next
    case (new n k s' done_ids)
    show ?thesis by (rule findableI) (use m(2) in \<open>simp add: new(1)\<close>, unfold new(7), blast)
  next
    case (settle j s' f)
    have "f m = m" using spec [OF settle(2) [unfolded settles_def], of m] m(4) assms(2) settle(1) by (auto simp: is_node_def)
    then have "m \<in> set (marker_nodes (mgraph st'))" using m(2) unfolding settle(3) by force
    then show ?thesis using settle(1,4) assms(2) by (intro findableI) blast+
  next
    case (delete P)
    have "m \<in> set (marker_nodes (mgraph st'))" using delete(2) [OF m(2)] m(2,4) assms(2) unfolding delete(1) by (auto simp: is_node_def)
    then show ?thesis using delete(3) assms(2) by (intro findableI) blast+
  qed
qed

lemma findable_changes: "mchanges Y en st st' \<Longrightarrow> i \<notin> Y \<Longrightarrow> findable s i abouts st \<Longrightarrow> findable s i abouts st'"
  by (induction rule: rtranclp_induct) (auto dest: findable_change)

lemma record_touch_returns: "\<exists>n st'. record_touch s i sess en st = (Inr n, st')"
  by (auto simp: record_touch_def mbind_def mret_def run_pipe_def Let_def split: option.split)

lemma touch_all_returns: "\<exists>b st'. touch_all s sess ms en st = (Inr b, st')"
proof (induction ms arbitrary: st)
  case (Cons m ms)
  obtain n st1 where 1: "record_touch s (o_id m) sess en st = (Inr n, st1)" using record_touch_returns by blast
  obtain b st2 where "touch_all s sess ms en st1 = (Inr b, st2)" using Cons.IH by blast
  then show ?case by (simp add: mbind_Inr [where m = "record_touch s (o_id m) sess", OF 1]) (simp add: mbind_def masks_def mret_def)
qed (auto simp: mret_def intro: exI [of _ False])

lemma findable_listed:
  assumes "findable s i abouts st" "set abouts \<inter> set abouts' \<noteq> {}"
    and up: "pipeline_cut en (redis_calls st) = None" "\<not> fault (mk_env en) (mtick st)"
  shows "\<exists>eng st'. get_engagement_for_about_set s abouts' sess en st = (Inr (Some eng), st') \<and> i \<in> o_id ` set (e_markers eng)"
proof -
  from assms(2) have "abouts' \<noteq> []" by auto
  then show ?thesis
  proof (cases rule: engagement_run [where s = s and sess = sess and en = en and st = st])
    case (read ids ps st1)
    obtain l m where m: "l \<in> set marker_types" "m \<in> set (marker_nodes (mgraph st))" "has_label l m" "is_node i s m" "is_pending m"
      using assms(1) unfolding findable_def by blast
    obtain a where "a \<in> set abouts'" "i \<in> indexed st (about_key s a)" using assms(1,2) unfolding findable_def by blast
    then have "i \<in> set ids" unfolding read(1) using up(1) by auto
    then have "out_of_row (marker_row l m) \<in> set (marker_outs (GET_MARKERS_BY_IDS s ids (mgraph st)))"
      unfolding marker_outs_iff using m by (auto simp: is_node_def)
    moreover from this obtain b st2 where
      "touch_all s (effective_session sess) (marker_outs (GET_MARKERS_BY_IDS s ids (mgraph st)) @ ps) en st1 = (Inr b, st2)"
      using touch_all_returns by blast
    ultimately show ?thesis
      using read(7) m(4) by (force simp: Let_def is_node_def image_iff)
  qed (use up in simp)
qed

lemma created_findable:
  assumes "creation s abouts m" "m en st = (Inr i, st1)" "pipeline_cut en (redis_calls st) = None"
  shows "findable s i abouts st1"
  using assms(1) [unfolded creation_def Let_def, rule_format, of en st]
proof (elim disjE conjE exE)
  fix l fs sc r st'
  let ?i = "uuid4 (mk_env en) (Suc (mtick st))"
  let ?st = "st\<lparr>mk_world := (mk_world st)\<lparr>gr := add_node [l] ?i (Some s) fs Map.empty (mgraph st), tick := Suc (Suc (Suc (mtick st)))\<rparr>\<rparr>"
  assume l: "l \<in> set marker_types" "fs ''status'' = Some (VStr ''pending'')" "m en st = (Inr ?i, st')"
    and ix: "index_marker s ?i abouts sc en ?st = (r, st')"
  then have i: "i = ?i" "st1 = st'" using assms(2) by auto
  obtain done_ids where d: "mk_world st' = mk_world ?st" "done_ids = abouts"
    "\<And>key. indexed st' key = indexed ?st key \<union> (if key \<in> about_key s ` set done_ids then {?i} else {})"
    by (rule index_marker_run [OF ix], rule that) (use assms(3) in auto)
  have "list_ex (\<lambda>l'. l' \<in> set [l]) marker_types" using l(1) by (auto simp: list_ex_iff)
  then have "marker_nodes (mgraph st') = marker_nodes (mgraph st) @
      [\<lparr>vid = next_vid (mgraph st), labels = [l], nid = ?i, silo = Some s, attrs = fs, props = Map.empty\<rparr>]"
    using d(1) by (simp add: marker_nodes_add)
  then have "\<exists>m \<in> set (marker_nodes (mgraph st')). has_label l m \<and> is_node ?i s m \<and> is_pending m"
    using l(2) by (simp add: has_label_def is_node_def)
  then show ?thesis unfolding findable_def i using l(1) d(2,3) by auto
qed (use assms(2) in simp)

text \<open>
  C14: no open marker is forgotten.  A marker whose creation returned and was indexed is in every
  later engagement about one of its nodes that can read both stores, after any further calls but a settlement of this
  marker or a clean-up.
\<close>

theorem open_marker_listed:
  assumes "create_contradiction s a b abouts c hours en st = (Inr i, st1) \<or> create_stale_commitment s a evidence abouts hours en st = (Inr i, st1)"
    and "pipeline_cut en (redis_calls st) = None"
    and "marker_steps Y en st1 st2" "i \<notin> Y"
    and "set abouts \<inter> set abouts' \<noteq> {}" "pipeline_cut en (redis_calls st2) = None" "\<not> fault (mk_env en) (mtick st2)"
  shows "\<exists>eng st3. get_engagement_for_about_set s abouts' sess en st2 = (Inr (Some eng), st3) \<and> i \<in> o_id ` set (e_markers eng)"
proof -
  have "findable s i abouts st1"
    using assms(1,2) created_findable creation_contradiction creation_stale by blast
  then have "findable s i abouts st2" by (rule findable_changes [OF marker_steps_changes [OF assms(3)] assms(4)])
  then show ?thesis using assms(5-7) by (rule findable_listed)
qed

section \<open>Ignoring a marker\<close>

lemma digit_inj: "d < 10 \<Longrightarrow> e < 10 \<Longrightarrow> digit d = digit e \<longleftrightarrow> d = e"
  by (auto simp: digit_def char_of_eq_iff take_bit_eq_mod dest: arg_cong [of _ _ "of_char :: char \<Rightarrow> nat"])

lemma decimal_nonempty: "decimal n \<noteq> []"
  by (subst decimal.simps) simp

lemma decimal_inj: "decimal m = decimal n \<Longrightarrow> m = n"
proof (induction m arbitrary: n rule: decimal.induct)
  case (1 m)
  note dec = decimal.simps [of m] decimal.simps [of n]
  show ?case
  proof (cases "m < 10")
    case True
    then have "n < 10" using "1.prems" dec decimal_nonempty [of "n div 10"] by (auto split: if_splits simp: append_eq_Cons_conv)
    with True "1.prems" dec digit_inj show ?thesis by simp
  next
    case False
    then have n: "\<not> n < 10" using "1.prems" dec decimal_nonempty [of "m div 10"] by (auto split: if_splits simp: append_eq_Cons_conv Cons_eq_append_conv)
    with False "1.prems" dec have "decimal (m div 10) = decimal (n div 10)" "digit (m mod 10) = digit (n mod 10)" by simp_all
    then have "m div 10 = n div 10" "m mod 10 = n mod 10" using "1.IH" [OF False] digit_inj by simp_all
    then show ?thesis by (metis div_mult_mod_eq)
  qed
qed



text \<open>Redis answers, the clock of nanoseconds never repeats, and all happens within the window.\<close>

definition in_session :: "marker_env \<Rightarrow> bool" where
  "in_session en \<longleftrightarrow> (\<forall>k. pipeline_cut en k = None) \<and> inj (ns_clock en) \<and>
     (\<forall>j k. ms_clock en j - ms_clock en k < engagement_decay_window_ms en)"







abbreviation no_faults :: "marker_env \<Rightarrow> bool" where
  "no_faults en \<equiv> \<forall>k. \<not> fault (mk_env en) k"









section \<open>Witnesses\<close>

text \<open>Both stores answer, the window is a hundred milliseconds, the third recall is hard.\<close>

definition ex_menv :: marker_env where
  "ex_menv = \<lparr>mk_env = ex_env\<lparr>uuid4 := decimal\<rparr>, pipeline_cut = (\<lambda>_. None), ms_clock = (\<lambda>_. 5), ns_clock = (\<lambda>k. k),
     iso_text = (\<lambda>_. ''t''), redis_configured = True, engagement_decay_window_ms = 100, engagement_escalation_threshold = 3,
     engagement_hard_enabled = True\<rparr>"

definition ex_empty :: marker_state where
  "ex_empty = \<lparr>mk_world = ex_world \<lparr>nodes = [], edges = [], next_vid = 0\<rparr>, about_index = (\<lambda>_. []), touch_sets = (\<lambda>_. []), redis_calls = 0\<rparr>"

definition ex_create :: "string mop" where
  "ex_create = create_contradiction ''s'' ''a'' ''b'' [''n''] 1 24"

definition ex_open :: marker_state where
  "ex_open = snd (ex_create ex_menv ex_empty)"

definition ex_settle :: "(string \<times> string) mop" where
  "ex_settle = resolve_marker ''s'' ''1'' ''done''"

definition ex_engage :: "engagement option mop" where
  "ex_engage = get_engagement_for_about_set ''s'' [''n''] None"

lemma mop_run: "fst (m en st) = Inr a \<Longrightarrow> m en st = (Inr a, snd (m en st))"
  by (metis prod.collapse)

lemma ex_menv_ok: "inj (uuid4 (mk_env ex_menv))" "in_session ex_menv" "no_faults ex_menv" "pipeline_cut ex_menv k = None"
  by (auto simp: ex_menv_def in_session_def inj_def dest: decimal_inj)

lemma ex_created: "fst (ex_create ex_menv ex_empty) = Inr ''1''"
  by code_simp

lemma ex_marker_reachable: "marker_reachable ex_menv ex_empty" "marker_reachable ex_menv ex_open"
proof -
  show 0: "marker_reachable ex_menv ex_empty"
    by (rule marker_reachable.init) (simp_all add: ex_empty_def ex_world_def marker_nodes_def)
  show "marker_reachable ex_menv ex_open"
    unfolding ex_open_def ex_create_def by (rule marker_reachable.step [OF 0 marker_step.contradiction])
qed

lemma ex_engaged: "map_sum id (map_option (\<lambda>e. map o_id (e_markers e))) (fst (ex_engage ex_menv ex_open)) = Inr (Some [''1''])"
  by code_simp

lemma ex_settled: "fst (ex_settle ex_menv ex_open) = Inr (''1'', ''t'')"
  by code_simp

lemma ex_engageE:
  assumes "map_sum id (map_option (\<lambda>e. map o_id (e_markers e))) (fst (ex_engage en st)) = Inr (Some is)"
  obtains eng st' where "get_engagement_for_about_set ''s'' [''n''] None en st = (Inr (Some eng), st')" "map o_id (e_markers eng) = is"
  using assms unfolding ex_engage_def
  by (cases "get_engagement_for_about_set ''s'' [''n''] None en st"; cases "fst (get_engagement_for_about_set ''s'' [''n''] None en st)") auto

lemma engagement_sound_witness:
  "\<exists>m. m \<in> set (nodes (mgraph ex_open)) \<and> nid m = ''1'' \<and> silo m = Some ''s'' \<and> is_pending m"
proof -
  obtain eng st' where run: "get_engagement_for_about_set ''s'' [''n''] None ex_menv ex_open = (Inr (Some eng), st')" "map o_id (e_markers eng) = [''1'']"
    by (rule ex_engageE [OF ex_engaged])
  then obtain x where "x \<in> set (e_markers eng)" "o_id x = ''1''" by (cases "e_markers eng") auto
  with engagement_sound [OF ex_marker_reachable(2) ex_menv_ok(1) run(1)] show ?thesis by fastforce
qed

lemma ex_create_run: "create_contradiction ''s'' ''a'' ''b'' [''n''] 1 24 ex_menv ex_empty = (Inr ''1'', ex_open)"
  using mop_run [where m = ex_create, OF ex_created] by (simp add: ex_open_def ex_create_def)

lemma ex_stale_run: "\<exists>i. create_stale_commitment ''s'' ''c'' [] [''n''] 24 ex_menv st =
    (Inr i, snd (create_stale_commitment ''s'' ''c'' [] [''n''] 24 ex_menv st))"
  by (simp add: create_stale_commitment_def mbind_def on_graph_def datetime_now_def new_uuid_def masks_def execute_write_def
      CREATE_STALE_COMMITMENT_def index_marker_def run_pipe_def mret_def ex_menv_def Let_def split_beta)

text \<open>The first marker is settled, then a second one created.\<close>

definition ex_two :: marker_state where
  "ex_two = snd (create_stale_commitment ''s'' ''c'' [] [''n''] 24 ex_menv (snd (ex_settle ex_menv ex_open)))"

lemma settled_marker_silent_witness:
  "\<exists>eng st3. get_engagement_for_about_set ''s'' [''n''] None ex_menv ex_two = (Inr (Some eng), st3) \<and>
    list_all (\<lambda>x. o_id x \<noteq> ''1'' \<or> o_type x = ''ProposedBelief'') (e_markers eng)"
proof -
  obtain i where "create_stale_commitment ''s'' ''c'' [] [''n''] 24 ex_menv (snd (ex_settle ex_menv ex_open)) = (Inr i, ex_two)"
    unfolding ex_two_def using ex_stale_run by blast
  then have "findable ''s'' i [''n''] ex_two" using created_findable [OF creation_stale] ex_menv_ok(4) by blast
  then obtain eng st' where run: "get_engagement_for_about_set ''s'' [''n''] None ex_menv ex_two = (Inr (Some eng), st')"
    using findable_listed [of "''s''" i "[''n'']" ex_two "[''n'']" ex_menv None] ex_menv_ok(3,4) by auto
  have "resolve_marker ''s'' ''1'' ''done'' ex_menv ex_open = (Inr (''1'', ''t''), snd (ex_settle ex_menv ex_open))"
    using mop_run [where m = ex_settle, OF ex_settled] by (simp add: ex_settle_def)
  moreover have "marker_steps UNIV ex_menv (snd (ex_settle ex_menv ex_open)) ex_two"
    unfolding ex_two_def by (rule r_into_rtranclp) (rule marker_step.stale)
  ultimately show ?thesis using settled_marker_silent [OF ex_marker_reachable(2) ex_menv_ok(1) disjI1 _ run] run by (auto simp: list_all_iff)
qed

definition ex_more :: marker_state where
  "ex_more = snd (create_stale_commitment ''s'' ''c'' [] [''n''] 24 ex_menv ex_open)"

lemma ex_more_step: "marker_steps {} ex_menv ex_open ex_more"
  unfolding ex_more_def by (rule r_into_rtranclp) (rule marker_step.stale)

lemma open_marker_listed_witness:
  "\<exists>eng st3. get_engagement_for_about_set ''s'' [''m'', ''n''] None ex_menv ex_more = (Inr (Some eng), st3) \<and> ''1'' \<in> o_id ` set (e_markers eng)"
  by (rule open_marker_listed [OF disjI1 [OF ex_create_run] _ ex_more_step]) (simp_all add: ex_menv_ok ex_menv_ok(3) [rule_format])



end
