(* ===== verification/PropagationCorrect.thy ===== *)
theory PropagationCorrect
  imports Propagation
begin

text \<open>
  Bounds, fixed values, convergence and neighbourhoods of confidence propagation, the range of
  the corroboration weight, and what column normalisation does to a PageRank without support.
\<close>

section \<open>The adjacency matrices\<close>

definition square :: "nat \<Rightarrow> mat \<Rightarrow> bool" where
  "square n m \<longleftrightarrow> length m = n \<and> (\<forall>r\<in>set m. length r = n)"

definition nonneg :: "mat \<Rightarrow> bool" where
  "nonneg m \<longleftrightarrow> (\<forall>r\<in>set m. \<forall>x\<in>set r. 0 \<le> x)"

definition zero_row :: "nat \<Rightarrow> mat \<Rightarrow> bool" where
  "zero_row i m \<longleftrightarrow> (\<forall>x\<in>set (m ! i). x = 0)"

lemma id_to_idxD: "id_to_idx ids x = Some i \<Longrightarrow> i < length ids \<and> ids ! i = x"
  by (auto simp: id_to_idx_def dest!: map_of_SomeD simp: set_zip)

lemma set_entry_square: "square n m \<Longrightarrow> i < n \<Longrightarrow> square n (set_entry m i j w)"
  by (auto simp: square_def set_entry_def dest!: set_update_subset_insert [THEN subsetD])

lemma put_edge_square: "square (length ids) m \<Longrightarrow> square (length ids) (put_edge (id_to_idx ids) e m)"
  by (auto simp: put_edge_def split: prod.splits option.splits intro!: set_entry_square dest: id_to_idxD)

lemma put_edges_square:
  "square (length ids) m \<Longrightarrow> square (length ids) (fold (put_edge (id_to_idx ids)) es m)"
  by (induction es arbitrary: m) (auto intro: put_edge_square)

lemma set_entry_nonneg:
  assumes "nonneg m" "0 \<le> w" "i < length m"
  shows "nonneg (set_entry m i j w)"
  unfolding nonneg_def set_entry_def
proof (intro ballI)
  fix r x assume r: "r \<in> set (m[i := (m ! i)[j := w]])" and x: "x \<in> set r"
  show "0 \<le> x"
  proof (cases "r = (m ! i)[j := w]")
    case True
    then have "x = w \<or> x \<in> set (m ! i)" using x set_update_subset_insert [of "m ! i" j w] by auto
    then show ?thesis using assms by (auto simp: nonneg_def)
  next
    case False
    then have "r \<in> set m" using r set_update_subset_insert [of m i] by auto
    then show ?thesis using assms(1) x by (simp add: nonneg_def)
  qed
qed

lemma put_edges_nonneg:
  assumes "square (length ids) m" "nonneg m" "\<And>s t w. (s, t, w) \<in> set es \<Longrightarrow> 0 \<le> w"
  shows "nonneg (fold (put_edge (id_to_idx ids)) es m)"
  using assms
proof (induction es arbitrary: m)
  case (Cons e es)
  obtain s t w where e: "e = (s, t, w)" by (cases e)
  have "nonneg (put_edge (id_to_idx ids) e m)"
    using Cons.prems e
    by (auto simp: put_edge_def square_def split: option.splits intro!: set_entry_nonneg dest: id_to_idxD)
  then show ?case using Cons.prems by (auto intro!: Cons.IH put_edge_square)
qed simp

lemma put_edges_zero_row:
  assumes "\<And>s t w. (s, t, w) \<in> set es \<Longrightarrow> id_to_idx ids t \<noteq> Some i" "zero_row i m"
  shows "zero_row i (fold (put_edge (id_to_idx ids)) es m)"
  using assms
proof (induction es arbitrary: m)
  case (Cons e es)
  obtain s t w where e: "e = (s, t, w)" by (cases e)
  have "put_edge (id_to_idx ids) e m ! i = m ! i"
    using Cons.prems(1) [of s t w] e by (auto simp: put_edge_def set_entry_def split: option.splits)
  then have "zero_row i (put_edge (id_to_idx ids) e m)" using Cons.prems(2) by (simp add: zero_row_def)
  then show ?case using Cons.prems by (auto intro!: Cons.IH)
qed simp

lemma zeros_facts: "square n (zeros n)" "nonneg (zeros n)" "i < n \<Longrightarrow> zero_row i (zeros n)"
  by (auto simp: square_def nonneg_def zeros_def zero_row_def)

lemma row_normalize_square: "square n m \<Longrightarrow> square n (row_normalize m)"
  by (auto simp: square_def row_normalize_def Let_def)

lemma sum_list_div: "sum_list (map (\<lambda>x. x / d) r) = sum_list r / d" for d :: real
  by (induction r) (simp_all add: add_divide_distrib)

text \<open>A normalised row of non-negative weights sums to one, or is zero.\<close>

lemma row_normalize_rows:
  assumes "nonneg m" "r \<in> set (row_normalize m)"
  shows "\<forall>x\<in>set r. 0 \<le> x" "sum_list r \<le> 1"
proof -
  obtain q where q: "q \<in> set m" "r = (let s = sum_list q; d = if s = 0 then 1 else s in map (\<lambda>x. x / d) q)"
    using assms(2) by (auto simp: row_normalize_def)
  have pos: "0 \<le> sum_list q" using assms(1) q(1) by (auto simp: nonneg_def intro!: sum_list_nonneg)
  then show "\<forall>x\<in>set r. 0 \<le> x" "sum_list r \<le> 1"
    using assms(1) q by (auto simp: nonneg_def Let_def sum_list_div intro!: divide_nonneg_nonneg)
qed

lemma row_normalize_zero_row: "i < length m \<Longrightarrow> zero_row i m \<Longrightarrow> zero_row i (row_normalize m)"
  by (auto simp: zero_row_def row_normalize_def Let_def)

section \<open>Bounds and fixed values\<close>

lemma propagate_step_length [simp]: "length (propagate_step p S C a h x) = length p"
  by (simp add: propagate_step_def)

lemma propagate_step_nth:
  "i < length p \<Longrightarrow> propagate_step p S C a h x ! i =
     (if 0 < sum_list (S ! i) + sum_list (C ! i)
      then clamp01 ((1 - a) * p ! i + a * dot (mat_diff h S C ! i) x) else p ! i)"
  by (simp add: propagate_step_def)

text \<open>A loop invariant: whatever holds of the start and is kept by a step holds of the result.\<close>

lemma propagate_loop_inv:
  assumes "I x" "\<And>y. I y \<Longrightarrow> I (step y)"
  shows "I (fst (propagate_loop step eps k it x))"
  using assms by (induction k arbitrary: it x) (auto simp: Let_def)

lemma propagate_loop_iterations:
  "fst (snd (propagate_loop step eps k it x)) \<le> it + k"
proof (induction k arbitrary: it x)
  case (Suc k)
  show ?case using Suc.IH [of "Suc it" "step x"] by (auto simp: Let_def)
qed simp

text \<open>
  propagation returns one score per node after at most \<open>max_iter\<close> steps, every score lies in
  the unit interval when the priors do, and a node without incoming support or contradiction
  keeps its prior exactly; for arbitrary matrices, weights and damping.
\<close>

theorem propagate_confidence_bounds:
  assumes "propagate_confidence prior S C a h mx eps = Some (x, k, c)"
    and "\<And>p. p \<in> set prior \<Longrightarrow> 0 \<le> p \<and> p \<le> 1"
  shows "length x = length prior \<and> k \<le> mx \<and> (\<forall>p\<in>set x. 0 \<le> p \<and> p \<le> 1) \<and>
    (\<forall>i<length prior. sum_list (S ! i) + sum_list (C ! i) \<le> 0 \<longrightarrow> x ! i = prior ! i)"
proof -
  let ?step = "propagate_step prior S C a h"
  let ?I = "\<lambda>x. length x = length prior \<and> (\<forall>i<length prior. 0 \<le> x ! i \<and> x ! i \<le> 1) \<and>
    (\<forall>i<length prior. sum_list (S ! i) + sum_list (C ! i) \<le> 0 \<longrightarrow> x ! i = prior ! i)"
  have run: "propagate_loop ?step eps mx 0 prior = (x, k, c)"
    using assms(1) by (auto simp: propagate_confidence_def split: if_splits)
  have "?I (fst (propagate_loop ?step eps mx 0 prior))"
    by (rule propagate_loop_inv) (use assms(2) in \<open>auto simp: propagate_step_nth\<close>)
  moreover have "k \<le> mx" using propagate_loop_iterations [of ?step eps mx 0 prior] run by simp
  ultimately show ?thesis unfolding run fst_conv by (simp add: all_set_conv_all_nth)
qed

lemma propagate_confidence_Some:
  "prior \<noteq> [] \<Longrightarrow> \<exists>x k c. propagate_confidence prior S C a h mx eps = Some (x, k, c)"
  by (simp add: propagate_confidence_def) (metis surj_pair)

theorem propagate_confidence_bounds_witness:
  "\<exists>x k c. propagate_confidence [1 / 2, 9 / 10] [[0, 0], [1, 0]] [[0, 0], [0, 0]] (4 / 5) 1 100 (1 / 1000000)
      = Some (x, k, c) \<and> length x = 2 \<and> k \<le> 100 \<and> x ! 0 = 1 / 2"
proof -
  have "\<exists>x k c. propagate_confidence [1 / 2, 9 / 10] [[0, 0], [1, 0]] [[0, 0], [0, 0]] (4 / 5) 1 100
      (1 / 1000000) = Some (x, k, c)"
    by (rule propagate_confidence_Some) simp
  then obtain x k c where r: "propagate_confidence [1 / 2, 9 / 10] [[0, 0], [1, 0]] [[0, 0], [0, 0]] (4 / 5) 1 100
      (1 / 1000000) = Some (x, k, c)"
    by blast
  have "0 \<le> p \<and> p \<le> 1" if "p \<in> set [1 / 2, 9 / 10 :: real]" for p
    using that by auto
  note b = propagate_confidence_bounds [OF r this]
  have "length x = 2" using conjunct1 [OF b] by simp
  moreover have "k \<le> 100" using conjunct1 [OF conjunct2 [OF b]] .
  moreover have "x ! 0 = 1 / 2"
    using spec [OF conjunct2 [OF conjunct2 [OF conjunct2 [OF b]]], of 0] by simp
  ultimately show ?thesis using r by blast
qed

section \<open>Convergence\<close>

lemma dot_contract:
  assumes "length r = n" "length x = n" "length y = n" "\<And>i. i < n \<Longrightarrow> \<bar>x ! i - y ! i\<bar> \<le> d"
    and "sum_list (map abs r) \<le> 1" "0 \<le> d"
  shows "\<bar>dot r x - dot r y\<bar> \<le> d"
proof -
  have "\<bar>dot r x - dot r y\<bar> \<le> sum_list (map abs r) * d"
    using assms(1-4)
  proof (induction r arbitrary: x y n)
    case (Cons a r)
    then obtain b x' c y' where xy: "x = b # x'" "y = c # y'" by (metis length_Suc_conv)
    have "\<bar>dot r x' - dot r y'\<bar> \<le> sum_list (map abs r) * d"
      by (rule Cons.IH [of "length r"]) (use Cons.prems xy in \<open>force+\<close>)
    moreover have "\<bar>a * b - a * c\<bar> \<le> \<bar>a\<bar> * d"
      using Cons.prems(1) Cons.prems(4) [of 0] xy
      by (simp add: abs_mult mult_left_mono flip: right_diff_distrib)
    ultimately show ?case using xy by (simp add: dot_def algebra_simps)
  qed (simp add: dot_def)
  also have "\<dots> \<le> 1 * d" by (rule mult_right_mono [OF assms(5,6)])
  finally show ?thesis by simp
qed

lemma propagate_step_contracts:
  assumes rows: "\<And>i. i < n \<Longrightarrow> length (mat_diff h S C ! i) = n \<and> sum_list (map abs (mat_diff h S C ! i)) \<le> 1"
    and len: "length prior = n" "length x = n" "length y = n"
    and d: "\<And>i. i < n \<Longrightarrow> \<bar>x ! i - y ! i\<bar> \<le> d" "0 \<le> d" "0 \<le> a" and i: "i < n"
  shows "\<bar>propagate_step prior S C a h x ! i - propagate_step prior S C a h y ! i\<bar> \<le> a * d"
proof -
  let ?r = "mat_diff h S C ! i"
  have "\<bar>dot ?r x - dot ?r y\<bar> \<le> d"
    by (rule dot_contract [where n = n]) (use rows [OF i] len d in auto)
  then have "\<bar>a * dot ?r x - a * dot ?r y\<bar> \<le> a * d"
    using d(3) by (simp add: abs_mult mult_left_mono flip: right_diff_distrib)
  then have "\<bar>clamp01 ((1 - a) * prior ! i + a * dot ?r x) - clamp01 ((1 - a) * prior ! i + a * dot ?r y)\<bar> \<le> a * d"
    by (intro order_trans [OF clamp01_lipschitz]) simp
  then show ?thesis using len i d by (simp add: propagate_step_nth)
qed

lemma close_to_nth:
  "length x = length y \<Longrightarrow> close_to e x y \<longleftrightarrow> (\<forall>i<length y. \<bar>x ! i - y ! i\<bar> < e)"
  by (auto simp: close_to_def list_all_iff set_zip)

text \<open>A step that shrinks distances by \<open>a\<close> makes the loop stop once \<open>a ^ m\<close> is below \<open>epsilon\<close>.\<close>

lemma propagate_loop_converges:
  assumes step: "\<And>x y d i. length x = n \<Longrightarrow> length y = n \<Longrightarrow> 0 \<le> d \<Longrightarrow> (\<forall>i<n. \<bar>x ! i - y ! i\<bar> \<le> d) \<Longrightarrow>
      i < n \<Longrightarrow> \<bar>step x ! i - step y ! i\<bar> \<le> a * d"
    and len: "\<And>x. length (step x) = n" "length x = n" "0 \<le> a"
    and d: "0 \<le> d" "\<forall>i<n. \<bar>step x ! i - x ! i\<bar> \<le> d" "a ^ m * d < eps" "m < k"
  shows "snd (snd (propagate_loop step eps k it x)) \<and> fst (snd (propagate_loop step eps k it x)) \<le> it + Suc m"
  using len(2) d
proof (induction m arbitrary: k it x d)
  case 0
  then obtain j where "k = Suc j" using gr0_implies_Suc by auto
  moreover have "close_to eps (step x) x" using 0 len(1) by (auto simp: close_to_nth)
  ultimately show ?case by simp
next
  case (Suc m)
  then obtain j where k: "k = Suc j" by (metis Suc_lessE)
  show ?case
  proof (cases "close_to eps (step x) x")
    case False
    have "\<forall>i<n. \<bar>step (step x) ! i - step x ! i\<bar> \<le> a * d"
      using step [OF len(1) Suc.prems(1,2)] Suc.prems(3) by blast
    moreover have "0 \<le> a * d" using len(3) Suc.prems(2) by simp
    moreover have "a ^ m * (a * d) < eps" using Suc.prems(4) by (simp add: algebra_simps)
    ultimately have "snd (snd (propagate_loop step eps j (Suc it) (step x))) \<and>
        fst (snd (propagate_loop step eps j (Suc it) (step x))) \<le> Suc it + Suc m"
      using Suc.prems(5) k len(1) by (intro Suc.IH [of "step x" "a * d" j "Suc it"]) auto
    then show ?thesis using False k by (simp add: Let_def)
  qed (simp add: k Let_def)
qed

lemma map2_zero_right:
  "length c = length r \<Longrightarrow> \<forall>x\<in>set c. x = 0 \<Longrightarrow> map2 (\<lambda>s c. s - h * c) r c = r" for h :: real
  by (induction r c rule: list_induct2') auto

lemma map2_zero_left:
  "length c = length r \<Longrightarrow> \<forall>x\<in>set r. x = 0 \<Longrightarrow> map2 (\<lambda>s c. s - 1 * c) r c = map uminus c"
  for c :: "real list"
  by (induction r c rule: list_induct2') auto

lemma map_abs_nonneg: "\<forall>x\<in>set r. 0 \<le> x \<Longrightarrow> map abs r = r" for r :: "real list"
  by (induction r) auto

lemma map_abs_uminus: "map abs (map uminus r) = map abs r" for r :: "real list"
  by simp

lemma mat_diff_row:
  assumes S: "square n S" "\<forall>x\<in>set (S ! i). 0 \<le> x" "sum_list (S ! i) \<le> 1"
    and C: "square n C" "\<forall>x\<in>set (C ! i). 0 \<le> x" "sum_list (C ! i) \<le> 1"
    and z: "zero_row i S \<or> zero_row i C" and i: "i < n"
  shows "length (mat_diff 1 S C ! i) = n \<and> sum_list (map abs (mat_diff 1 S C ! i)) \<le> 1"
proof -
  have len: "length (S ! i) = n" "length (C ! i) = n" using S(1) C(1) i by (auto simp: square_def)
  have row: "mat_diff 1 S C ! i = map2 (\<lambda>s c. s - 1 * c) (S ! i) (C ! i)"
    using S(1) C(1) i by (simp add: mat_diff_def square_def)
  from z show ?thesis
  proof
    assume "zero_row i S"
    then have "mat_diff 1 S C ! i = map uminus (C ! i)"
      unfolding row zero_row_def using len by (intro map2_zero_left) auto
    then show ?thesis using C(2,3) len by (simp only: map_abs_uminus map_abs_nonneg length_map)
  next
    assume "zero_row i C"
    then have "mat_diff 1 S C ! i = S ! i"
      unfolding row zero_row_def using len by (intro map2_zero_right) auto
    then show ?thesis using S(2,3) len by (simp add: map_abs_nonneg)
  qed
qed

lemma adjacency_facts:
  assumes "build_adjacency_matrices ids pos neg = (S, C)"
    and "\<And>s t w. (s, t, w) \<in> set (pos @ neg) \<Longrightarrow> 0 \<le> w"
  shows "square (length ids) S" "square (length ids) C"
    and "i < length ids \<Longrightarrow> (\<forall>x\<in>set (S ! i). 0 \<le> x) \<and> sum_list (S ! i) \<le> 1"
    and "i < length ids \<Longrightarrow> (\<forall>x\<in>set (C ! i). 0 \<le> x) \<and> sum_list (C ! i) \<le> 1"
    and "i < length ids \<Longrightarrow> (\<And>s t w. (s, t, w) \<in> set pos \<Longrightarrow> id_to_idx ids t \<noteq> Some i) \<Longrightarrow> zero_row i S"
    and "i < length ids \<Longrightarrow> (\<And>s t w. (s, t, w) \<in> set neg \<Longrightarrow> id_to_idx ids t \<noteq> Some i) \<Longrightarrow> zero_row i C"
proof -
  let ?P = "fold (put_edge (id_to_idx ids)) pos (zeros (length ids))"
  let ?N = "fold (put_edge (id_to_idx ids)) neg (zeros (length ids))"
  have SC: "S = row_normalize ?P" "C = row_normalize ?N"
    using assms(1) by (simp_all add: build_adjacency_matrices_def Let_def)
  have sq: "square (length ids) ?P" "square (length ids) ?N"
    by (intro put_edges_square zeros_facts)+
  have nn: "nonneg ?P" "nonneg ?N"
    using assms(2) by (auto intro!: put_edges_nonneg zeros_facts)
  show S: "square (length ids) S" and C: "square (length ids) C"
    unfolding SC by (intro row_normalize_square sq)+
  show "(\<forall>x\<in>set (S ! i). 0 \<le> x) \<and> sum_list (S ! i) \<le> 1" if "i < length ids"
    using row_normalize_rows [OF nn(1), of "S ! i"] S that unfolding SC square_def by auto
  show "(\<forall>x\<in>set (C ! i). 0 \<le> x) \<and> sum_list (C ! i) \<le> 1" if "i < length ids"
    using row_normalize_rows [OF nn(2), of "C ! i"] C that unfolding SC square_def by auto
  show "zero_row i S" if "i < length ids" "\<And>s t w. (s, t, w) \<in> set pos \<Longrightarrow> id_to_idx ids t \<noteq> Some i"
    unfolding SC using sq(1) that
    by (intro row_normalize_zero_row put_edges_zero_row zeros_facts) (auto simp: square_def)
  show "zero_row i C" if "i < length ids" "\<And>s t w. (s, t, w) \<in> set neg \<Longrightarrow> id_to_idx ids t \<noteq> Some i"
    unfolding SC using sq(2) that
    by (intro row_normalize_zero_row put_edges_zero_row zeros_facts) (auto simp: square_def)
qed

text \<open>
  C40: with the code's default parameters, propagation over non-negative weights in which no node
  receives both support and contradiction always converges: it stops after at most 63 of the
  100 steps allowed, whatever the priors in the unit interval.
\<close>

theorem propagation_converges:
  assumes adj: "build_adjacency_matrices ids pos neg = (S, C)"
    and w: "\<And>s t w. (s, t, w) \<in> set (pos @ neg) \<Longrightarrow> 0 \<le> w"
    and excl: "\<And>s t w s' w'. (s, t, w) \<in> set pos \<Longrightarrow> (s', t, w') \<notin> set neg"
    and prior: "length prior = length ids" "prior \<noteq> []" "\<And>p. p \<in> set prior \<Longrightarrow> 0 \<le> p \<and> p \<le> 1"
  shows "\<exists>x k. propagate_confidence prior S C (8 / 10) 1 100 (1 / 1000000) = Some (x, k, True) \<and> k \<le> 63"
proof -
  let ?n = "length ids"
  let ?step = "propagate_step prior S C (8 / 10) 1"
  note facts = adjacency_facts [OF adj w]
  have z: "zero_row i S \<or> zero_row i C" if i: "i < ?n" for i
  proof (cases "\<exists>s t w. (s, t, w) \<in> set pos \<and> id_to_idx ids t = Some i")
    case True
    then obtain s t u where p: "(s, t, u) \<in> set pos" "id_to_idx ids t = Some i" by blast
    have "zero_row i C"
    proof (rule facts(6) [OF _ i])
      show "id_to_idx ids t' \<noteq> Some i" if "(s', t', w') \<in> set neg" for s' t' w'
        using excl [OF p(1), of s' w'] that p(2) id_to_idxD by metis
    qed
    then show ?thesis ..
  next
    case False
    then have "zero_row i S" by (intro facts(5) [OF _ i]) auto
    then show ?thesis ..
  qed
  have rows: "length (mat_diff 1 S C ! i) = ?n \<and> sum_list (map abs (mat_diff 1 S C ! i)) \<le> 1" if "i < ?n" for i
    by (rule mat_diff_row) (use facts(1-4) z that in auto)
  have range: "0 \<le> prior ! i \<and> prior ! i \<le> 1" if "i < ?n" for i using prior that by simp
  have "snd (snd (propagate_loop ?step (1 / 1000000) 100 0 prior)) \<and>
      fst (snd (propagate_loop ?step (1 / 1000000) 100 0 prior)) \<le> 0 + Suc 62"
  proof (rule propagate_loop_converges [where n = ?n and a = "8 / 10" and d = 1])
    show "\<bar>?step x ! i - ?step y ! i\<bar> \<le> 8 / 10 * d"
      if "length x = ?n" "length y = ?n" "0 \<le> d" "\<forall>i<?n. \<bar>x ! i - y ! i\<bar> \<le> d" "i < ?n" for x y d i
      by (rule propagate_step_contracts [OF rows prior(1)]) (use that in auto)
    show "\<forall>i<?n. \<bar>?step prior ! i - prior ! i\<bar> \<le> 1"
    proof (intro allI impI)
      fix i assume i: "i < ?n"
      have "0 \<le> ?step prior ! i \<and> ?step prior ! i \<le> 1"
        using range [OF i] prior(1) i by (simp add: propagate_step_nth)
      then show "\<bar>?step prior ! i - prior ! i\<bar> \<le> 1" using range [OF i] by linarith
    qed
    show "length (?step x) = ?n" for x using prior(1) by simp
    show "(8 / 10) ^ 62 * 1 < (1 / 1000000 :: real)" by (simp add: power_divide)
  qed (use prior in auto)
  then show ?thesis using prior(2)
    by (simp add: propagate_confidence_def prod_eq_iff)
qed

theorem propagation_converges_witness:
  "\<exists>x k. propagate_confidence [1 / 2, 9 / 10] (fst (build_adjacency_matrices [''a'', ''b''] [(''a'', ''b'', 1)] []))
      (snd (build_adjacency_matrices [''a'', ''b''] [(''a'', ''b'', 1)] [])) (8 / 10) 1 100 (1 / 1000000)
    = Some (x, k, True) \<and> k \<le> 63"
  by (rule propagation_converges [OF prod.collapse [symmetric]]) auto

section \<open>Neighbourhoods\<close>

text \<open>The undirected edges of either kind.\<close>

definition undirected :: "wedge list \<Rightarrow> wedge list \<Rightarrow> (string \<times> string) set" where
  "undirected pos neg = {(x, y). \<exists>w. (x, y, w) \<in> set (pos @ neg) \<or> (y, x, w) \<in> set (pos @ neg)}"

definition ball :: "(string \<times> string) set \<Rightarrow> string \<Rightarrow> nat \<Rightarrow> string set" where
  "ball R v k = {x. \<exists>j\<le>k. (v, x) \<in> R ^^ j}"

lemma set_neighbours_of: "y \<in> set (neighbours_of es x) \<longleftrightarrow> (\<exists>w. (x, y, w) \<in> set es \<or> (y, x, w) \<in> set es)"
proof (induction es)
  case (Cons e es)
  obtain s t w where e: "e = (s, t, w)" by (cases e)
  have "y \<in> set (neighbours_of (e # es) x) \<longleftrightarrow>
      (s = x \<and> t = y \<or> t = x \<and> s = y) \<or> y \<in> set (neighbours_of es x)"
  proof -
    have "neighbours_of (e # es) x = (if s = x then [t] else if t = x then [s] else []) @ neighbours_of es x"
      by (simp add: neighbours_of_def e)
    then show ?thesis by (cases "s = x"; cases "t = x"; force)
  qed
  moreover have "(\<exists>u. (x, y, u) \<in> set (e # es) \<or> (y, x, u) \<in> set (e # es)) \<longleftrightarrow>
      (s = x \<and> t = y \<or> t = x \<and> s = y) \<or> (\<exists>u. (x, y, u) \<in> set es \<or> (y, x, u) \<in> set es)"
    unfolding e by (simp, blast)
  ultimately show ?case using Cons by blast
qed (simp add: neighbours_of_def)

lemma neighbours_undirected:
  "y \<in> set (neighbours_of pos x) \<or> y \<in> set (neighbours_of neg x) \<longleftrightarrow> (x, y) \<in> undirected pos neg"
  unfolding set_neighbours_of undirected_def by (simp, blast)

lemma ball_Suc: "ball R v (Suc k) = ball R v k \<union> {y. \<exists>x\<in>ball R v k. (x, y) \<in> R}"
proof (intro set_eqI iffI)
  fix y assume "y \<in> ball R v (Suc k)"
  then obtain j where j: "j \<le> Suc k" "(v, y) \<in> R ^^ j" by (auto simp: ball_def)
  show "y \<in> ball R v k \<union> {y. \<exists>x\<in>ball R v k. (x, y) \<in> R}"
  proof (cases j)
    case (Suc i)
    then obtain x where "(v, x) \<in> R ^^ i" "(x, y) \<in> R" using j(2) by auto
    then show ?thesis using Suc j(1) by (auto simp: ball_def)
  qed (use j in \<open>auto simp: ball_def\<close>)
next
  fix y assume "y \<in> ball R v k \<union> {y. \<exists>x\<in>ball R v k. (x, y) \<in> R}"
  then show "y \<in> ball R v (Suc k)"
  proof
    assume "y \<in> {y. \<exists>x\<in>ball R v k. (x, y) \<in> R}"
    then obtain x j where "j \<le> k" "(v, x) \<in> R ^^ j" "(x, y) \<in> R" by (auto simp: ball_def)
    then show ?thesis unfolding ball_def by (intro CollectI exI [of _ "Suc j"]) auto
  qed (auto simp: ball_def intro: le_SucI)
qed

lemma neighborhood_loop_ball:
  assumes "set frontier \<union> set neighbors = ball R v k"
    and "\<And>x y. x \<in> set neighbors \<Longrightarrow> (x, y) \<in> R \<Longrightarrow> y \<in> ball R v k"
    and "R = undirected pos neg"
  shows "set (neighborhood_loop pos neg d neighbors frontier) = ball R v (k + d)"
  using assms(1,2)
proof (induction d arbitrary: neighbors frontier k)
  case (Suc d)
  let ?next = "concat (map (\<lambda>x. neighbours_of pos x @ neighbours_of neg x) frontier)"
  have nxt: "set ?next = {y. \<exists>x\<in>set frontier. (x, y) \<in> R}"
    using assms(3) by (auto simp flip: neighbours_undirected)
  have "ball R v (Suc k) = ball R v k \<union> set ?next"
    unfolding ball_Suc nxt using Suc.prems by blast
  then have "set (filter (\<lambda>x. x \<notin> set (frontier @ neighbors)) (remdups ?next)) \<union> set (frontier @ neighbors)
      = ball R v (Suc k)"
    using Suc.prems(1) by auto
  moreover have "y \<in> ball R v (Suc k)" if "x \<in> set (frontier @ neighbors)" "(x, y) \<in> R" for x y
    using that Suc.prems(1) by (auto simp: ball_Suc)
  ultimately have "set (neighborhood_loop pos neg d (frontier @ neighbors)
      (filter (\<lambda>x. x \<notin> set (frontier @ neighbors)) (remdups ?next))) = ball R v (Suc k + d)"
    by (rule Suc.IH)
  then show ?case by (simp add: Let_def)
qed simp

text \<open>
  the neighbourhood search returns exactly the nodes within \<open>depth\<close> hops of the node, over
  support and contradiction edges taken in both directions.
\<close>

theorem get_neighborhood_correct:
  "set (get_neighborhood v pos neg depth) = {x. \<exists>k\<le>depth. (v, x) \<in> undirected pos neg ^^ k}"
proof -
  have "set (neighborhood_loop pos neg depth [] [v]) = ball (undirected pos neg) v (0 + depth)"
    by (rule neighborhood_loop_ball) (auto simp: ball_def)
  then show ?thesis by (simp add: get_neighborhood_def ball_def)
qed

theorem get_neighborhood_correct_witness:
  "''c'' \<in> set (get_neighborhood ''a'' [(''a'', ''b'', 1)] [(''c'', ''b'', 1)] 2)"
proof -
  let ?R = "undirected [(''a'', ''b'', 1)] [(''c'', ''b'', 1)]"
  have "(''a'', ''b'') \<in> ?R" "(''b'', ''c'') \<in> ?R" by (auto simp: undirected_def)
  then have "(''a'', ''c'') \<in> ?R ^^ 2" by (auto simp: numeral_2_eq_2)
  then show ?thesis using get_neighborhood_correct [of "''a''" "[(''a'', ''b'', 1)]" "[(''c'', ''b'', 1)]" 2]
    by blast
qed

section \<open>Corroboration and PageRank\<close>

text \<open>
  the independence-weighted corroboration lies in [0, 1), is zero only when no source has a
  claim, and grows when a source is added.
\<close>

theorem corroboration_weight_range:
  "0 \<le> compute_corroboration_weight cs \<and> compute_corroboration_weight cs < 1 \<and>
   (compute_corroboration_weight cs = 0 \<longleftrightarrow> (\<forall>(src, claims)\<in>set cs. claims = [])) \<and>
   compute_corroboration_weight cs \<le> compute_corroboration_weight (c # cs)"
proof -
  have pos: "0 \<le> source_weight xs \<and> (source_weight xs = 0 \<longleftrightarrow> xs = [])" for xs :: "string list"
    by (cases xs) (auto simp: source_weight_def add_nonneg_eq_0_iff)
  let ?t = "sum_list (map (source_weight \<circ> snd) cs)"
  have t: "0 \<le> ?t" by (rule sum_list_nonneg) (use pos in auto)
  have z: "?t = 0 \<longleftrightarrow> (\<forall>(src, claims)\<in>set cs. claims = [])"
  proof -
    have "?t = 0 \<longleftrightarrow> (\<forall>x\<in>set (map (source_weight \<circ> snd) cs). x = 0)"
      by (rule sum_list_nonneg_eq_0_iff) (use pos in auto)
    then show ?thesis using pos by auto
  qed
  have eq: "compute_corroboration_weight xs = 1 - exp (- (1 / 2) * sum_list (map (source_weight \<circ> snd) xs))" for xs
    by (simp add: compute_corroboration_weight_def)
  show ?thesis unfolding eq using t z pos [of "snd c"] by auto
qed

theorem corroboration_weight_range_witness:
  "compute_corroboration_weight [(''s'', [])] = 0 \<and> compute_corroboration_weight [(''s'', [''c''])] > 0"
  using corroboration_weight_range [of "[(''s'', [])]" "(''t'', [])"]
    corroboration_weight_range [of "[(''s'', [''c''])]" "(''t'', [])"] by auto

text \<open>
  a column without positive sum is not replaced by the uniform distribution: column
  normalisation divides it by one, so a zero column stays zero.
\<close>

theorem column_normalize_keeps_zero_column:
  assumes "\<And>r. r \<in> set m \<Longrightarrow> j < length r \<and> r ! j = 0" "i < length m"
  shows "column_normalize m ! i ! j = 0"
  using assms by (simp add: column_normalize_def)

theorem column_normalize_keeps_zero_column_witness:
  "column_normalize [[0, 1], [0, 1]] ! 0 ! 0 = 0"
  by (rule column_normalize_keeps_zero_column) auto

end
