(* ===== verification/RetentionCorrect.thy ===== *)
theory RetentionCorrect
  imports Retention Examples
begin

text \<open>
  The sweep marks and deletes only what the policy allows, and what an
  erasure and a cancelled forget really do.
\<close>

section \<open>Marking\<close>

text \<open>A node as a sweep may leave it: only the marks differ.\<close>

definition marks :: "string list" where
  "marks = [''tombstoned_at'', ''retention_run_id'', ''heat_dirty'']"

definition only_marked :: "node \<Rightarrow> node \<Rightarrow> bool" where
  "only_marked n m \<longleftrightarrow> vid m = vid n \<and> nid m = nid n \<and> silo m = silo n \<and> labels m = labels n \<and>
     props m = props n \<and> (\<forall>k. k \<notin> set marks \<longrightarrow> attrs m k = attrs n k)"

text \<open>What entitles a sweep to tombstone a node.  A node without a time counts as newest.\<close>

definition as_new :: "node \<Rightarrow> node \<Rightarrow> bool" where
  "as_new n r \<longleftrightarrow> (case time_of (attrs r ''created_at'') of None \<Rightarrow> True
     | Some t \<Rightarrow> (case time_of (attrs n ''created_at'') of None \<Rightarrow> False | Some t' \<Rightarrow> t' \<le> t))"

definition may_tombstone :: "RetentionPolicy \<Rightarrow> env \<Rightarrow> graph \<Rightarrow> string \<Rightarrow> node \<Rightarrow> bool" where
  "may_tombstone pol e g s n \<longleftrightarrow>
     (\<exists>k c d. attrs n ''created_at'' = Some (VTime c) \<and> attrs n ''decay_class'' = Some d \<and>
        attrs n ''memory_type'' \<noteq> Some (VStr ''reflection'') \<and>
        is_eligible_for_tombstone pol d c (heat_or (1 / 2) n) (clock e k)) \<or>
     is_reflection s n \<and>
       meta_observation_max_count pol < length (filter (\<lambda>r. is_reflection s r \<and> as_new n r) (nodes g)) \<or>
     orphaned_summary s g n"

definition swept :: "RetentionPolicy \<Rightarrow> env \<Rightarrow> graph \<Rightarrow> string \<Rightarrow> node \<Rightarrow> node \<Rightarrow> bool" where
  "swept pol e g s n m \<longleftrightarrow> only_marked n m \<and> (silo n \<noteq> Some s \<longrightarrow> m = n) \<and>
     (tombstone_of m = tombstone_of n \<or>
      tombstone_of n = None \<and> may_tombstone pol e g s n \<and> (\<exists>k. tombstone_of m = Some (VTime (clock e k))))"

text \<open>While nothing is deleted the nodes correspond one to one.\<close>

definition marked :: "RetentionPolicy \<Rightarrow> env \<Rightarrow> graph \<Rightarrow> string \<Rightarrow> graph \<Rightarrow> bool" where
  "marked pol e g s h \<longleftrightarrow> list_all2 (swept pol e g s) (nodes g) (nodes h)"

lemma swept_refl: "swept pol e g s n n"
  by (simp add: swept_def only_marked_def)

lemma swept_mark:
  assumes "swept pol e g s n m" "silo m = Some s" "k \<in> set marks" "k \<noteq> ''tombstoned_at''"
  shows "swept pol e g s n (set_field k v m)"
  using assms by (auto simp: swept_def only_marked_def)

lemma swept_tombstone:
  assumes "swept pol e g s n m" "silo m = Some s" "tombstone_of m = None" "may_tombstone pol e g s n"
  shows "swept pol e g s n (set_field ''tombstoned_at'' (Some (VTime (clock e k))) m)"
  using assms by (auto simp: swept_def only_marked_def marks_def)

lemma marked_update:
  assumes "marked pol e g s h"
    and "\<And>n m. n \<in> set (nodes g) \<Longrightarrow> m \<in> set (nodes h) \<Longrightarrow> swept pol e g s n m \<Longrightarrow> P m \<Longrightarrow> swept pol e g s n (f m)"
  shows "marked pol e g s (update_where P f h)"
  using assms unfolding marked_def graph_simps
  by (auto simp: list_all2_conv_all_nth)

lemma marked_heat_dirty: "marked pol e g s h \<Longrightarrow> marked pol e g s (fst (MARK_HEAT_DIRTY s is h))"
  unfolding MARK_HEAT_DIRTY_def fst_conv
  by (rule marked_update) (auto intro!: swept_mark simp: marks_def)

lemma marked_batch:
  assumes "marked pol e g s h"
    and "\<And>n. n \<in> set (nodes g) \<Longrightarrow> silo n = Some s \<Longrightarrow> nid n \<in> set is \<Longrightarrow> may_tombstone pol e g s n"
  shows "marked pol e g s (fst (TOMBSTONE_NODES_BATCH is s (clock e k) r h))"
  using assms
proof (induction "is" arbitrary: h)
  case (Cons i "is")
  let ?f = "\<lambda>n. set_field ''retention_run_id'' (Some (VStr r))
    (set_field ''tombstoned_at'' (Some (VTime (clock e k))) n)"
  have "marked pol e g s (update_where (untombstoned s i) ?f h)"
  proof (rule marked_update [OF Cons.prems(1)])
    fix n m
    assume n: "n \<in> set (nodes g)" and m: "swept pol e g s n m" and P: "untombstoned s i m"
    then have s: "silo m = Some s" "tombstone_of m = None" "nid m = i"
      by (auto simp: untombstoned_def is_node_def)
    then have "silo n = Some s" "nid n = i" using m by (auto simp: swept_def only_marked_def)
    then have "may_tombstone pol e g s n" using Cons.prems(2) n by simp
    then have "swept pol e g s n (set_field ''tombstoned_at'' (Some (VTime (clock e k))) m)"
      using m s by (intro swept_tombstone)
    then show "swept pol e g s n (?f m)" by (rule swept_mark) (simp_all add: marks_def s)
  qed
  then have "marked pol e g s (fst (TOMBSTONE_NODES_BATCH is s (clock e k) r (update_where (untombstoned s i) ?f h)))"
    by (rule Cons.IH) (use Cons.prems(2) in auto)
  then show ?case by (auto simp: Let_def split: prod.split)
qed simp

text \<open>The original of a node, when ids are unique in the silo.\<close>

definition unique_ids :: "string \<Rightarrow> graph \<Rightarrow> bool" where
  "unique_ids s g \<longleftrightarrow> (\<forall>i. length (match_id g i s) \<le> 1)"

lemma unique_idsD:
  assumes "unique_ids s g" "n \<in> set (nodes g)" "m \<in> set (nodes g)" "silo n = Some s" "silo m = Some s" "nid n = nid m"
  shows "n = m"
proof -
  have "n \<in> set (match_id g (nid m) s)" "m \<in> set (match_id g (nid m) s)" using assms by (auto simp: match_id_iff)
  moreover have "length (match_id g (nid m) s) \<le> 1" using assms(1) by (simp add: unique_ids_def)
  ultimately show ?thesis by (cases "match_id g (nid m) s") auto
qed

lemma marked_original:
  assumes "marked pol e g s h" "m \<in> set (nodes h)"
  obtains n where "n \<in> set (nodes g)" "swept pol e g s n m"
  using assms unfolding marked_def by (metis in_set_conv_nth list_all2_conv_all_nth)

text \<open>An id found in the marked graph belongs to the original of its node.\<close>

lemma marked_id:
  assumes "marked pol e g s h" "unique_ids s g" "n \<in> set (nodes g)" "silo n = Some s"
    and "m \<in> set (nodes h)" "silo m = Some s" "nid m = nid n"
  shows "swept pol e g s n m"
proof -
  obtain n' where n': "n' \<in> set (nodes g)" "swept pol e g s n' m" using marked_original assms(1,5) by blast
  then have "n' = n" using assms by (intro unique_idsD [OF assms(2)]) (auto simp: swept_def only_marked_def)
  with n' show ?thesis by simp
qed

section \<open>The phases of a sweep\<close>

definition entitled :: "RetentionPolicy \<Rightarrow> env \<Rightarrow> graph \<Rightarrow> string \<Rightarrow> string list \<Rightarrow> bool" where
  "entitled pol e g s is \<longleftrightarrow>
     (\<forall>n \<in> set (nodes g). silo n = Some s \<longrightarrow> nid n \<in> set is \<longrightarrow> may_tombstone pol e g s n)"

abbreviation Marked :: "RetentionPolicy \<Rightarrow> env \<Rightarrow> graph \<Rightarrow> string \<Rightarrow> world \<Rightarrow> bool" where
  "Marked pol e g s w \<equiv> marked pol e g s (gr w)"

definition eligible_row :: "RetentionPolicy \<Rightarrow> int \<Rightarrow> candidate_row \<Rightarrow> bool" where
  "eligible_row pol now r \<longleftrightarrow> (\<exists>c. cr_created_at r = Some (VTime c) \<and>
     is_eligible_for_tombstone pol (cr_decay_class r) c (cr_heat_score r) now)"

lemma wp_eligible_ids:
  assumes "E ValueError w" and "\<And>is. set is \<subseteq> cr_id ` {r \<in> set rows. eligible_row pol now r} \<Longrightarrow> Q is w"
  shows "wp e (eligible_ids pol now rows) E Q w"
  using assms(2)
proof (induction rows arbitrary: Q)
  case (Cons r rows)
  have sub: "set is \<subseteq> cr_id ` {r' \<in> set rows. eligible_row pol now r'} \<Longrightarrow>
      set is \<subseteq> cr_id ` {r' \<in> set (r # rows). eligible_row pol now r'}" for "is" by auto
  have rest: "wp e (eligible_ids pol now rows) E Q w" by (rule Cons.IH) (rule Cons.prems, rule sub)
  show ?case
  proof (cases "\<exists>c. cr_created_at r = Some (VTime c)")
    case True
    then obtain c where c: "cr_created_at r = Some (VTime c)" by blast
    show ?thesis
      unfolding eligible_ids.simps c option.case val.case wp_bind wp_ret
    proof (rule Cons.IH)
      fix "is" assume "set is \<subseteq> cr_id ` {r' \<in> set rows. eligible_row pol now r'}"
      then show "Q (if is_eligible_for_tombstone pol (cr_decay_class r) c (cr_heat_score r) now then cr_id r # is else is) w"
        using c by (intro Cons.prems) (auto simp: eligible_row_def)
    qed
  next
    case False
    then show ?thesis using rest by (auto simp: wp_raise assms(1) split: option.split val.split)
  qed
qed (simp add: wp_simps)

lemma may_tombstone_row:
  assumes "marked pol e g s h" "unique_ids s g" "n \<in> set (nodes g)" "silo n = Some s"
    and "m \<in> set (nodes h)" "tombstone_candidate s m" "nid m = nid n"
    and "attrs m ''created_at'' = Some (VTime c)"
    and "is_eligible_for_tombstone pol (the (attrs m ''decay_class'')) c (heat_or (1 / 2) m) (clock e k)"
  shows "may_tombstone pol e g s n"
proof -
  have "silo m = Some s" using assms(6) by (simp add: tombstone_candidate_def)
  then have "swept pol e g s n m" using assms by (intro marked_id)
  then have same: "attrs m x = attrs n x" if "x \<notin> set marks" for x
    using that by (simp add: swept_def only_marked_def)
  obtain d where "attrs m ''decay_class'' = Some d" "attrs m ''memory_type'' \<noteq> Some (VStr ''reflection'')"
    using assms(6) by (auto simp: tombstone_candidate_def)
  then show ?thesis
    using assms(8,9) same [of "''created_at''"] same [of "''decay_class''"] same [of "''memory_type''"]
      same [of "''heat_score''"]
    unfolding may_tombstone_def by (force simp: marks_def heat_or_def)
qed

lemma sorted_newest_first: "sorted_wrt (\<lambda>a b. as_new b a) (newest_first xs)"
proof -
  let ?k = "\<lambda>n. - the (time_of (attrs n ''created_at''))"
  let ?ys = "sort_key ?k (filter (\<lambda>n. time_of (attrs n ''created_at'') \<noteq> None) xs)"
  have "sorted_wrt (\<lambda>a b. ?k a \<le> ?k b) ?ys"
    using sorted_sort_key [of ?k] by (simp only: sorted_map)
  then have "sorted_wrt (\<lambda>a b. as_new b a) ?ys"
    by (rule sorted_wrt_mono_rel [rotated]) (auto simp: as_new_def)
  moreover have "sorted_wrt (\<lambda>a b. as_new b a) (filter (\<lambda>n. time_of (attrs n ''created_at'') = None) xs)"
    by (rule sorted_wrt_mono_rel [where P = "\<lambda>_ _. True"]) (auto simp: as_new_def sorted_wrt_true)
  ultimately show ?thesis by (auto simp: newest_first_def sorted_wrt_append as_new_def)
qed

lemma mset_newest_first: "mset (newest_first xs) = mset xs"
  using multiset_partition [of "mset xs" "\<lambda>n. time_of (attrs n ''created_at'') = None"]
  by (simp add: newest_first_def)

lemma excess_newer:
  assumes "m \<in> set (drop k (newest_first xs))"
  shows "k < length (filter (as_new m) xs)"
proof -
  let ?ys = "newest_first xs"
  from assms obtain j where "j < length (drop k ?ys)" "m = drop k ?ys ! j" by (metis in_set_conv_nth)
  then have j: "k + j < length ?ys" "m = ?ys ! (k + j)" by auto
  have "as_new m r" if "r \<in> set (take (Suc (k + j)) ?ys)" for r
  proof -
    from that obtain i where "i \<le> k + j" "r = ?ys ! i" by (auto simp: in_set_conv_nth less_Suc_eq_le)
    then show ?thesis using sorted_wrt_nth_less [OF sorted_newest_first, of i "k + j" xs] j
      by (cases "i = k + j") (auto simp: as_new_def split: option.splits)
  qed
  then have "filter (as_new m) (take (Suc (k + j)) ?ys) = take (Suc (k + j)) ?ys" by (simp add: filter_id_conv)
  then have "k < length (filter (as_new m) (take (Suc (k + j)) ?ys @ drop (Suc (k + j)) ?ys))"
    unfolding filter_append length_append using j by simp
  then have "k < size (mset (filter (as_new m) ?ys))" by (simp only: append_take_drop_id size_mset)
  then show ?thesis by (simp only: mset_filter mset_newest_first) (metis mset_filter size_mset)
qed

lemma entitled_excess:
  assumes "marked pol e g s h" "unique_ids s g"
  shows "entitled pol e g s (FIND_EXCESS_META_OBSERVATIONS s (meta_observation_max_count pol) h)"
  unfolding entitled_def
proof (intro ballI impI)
  let ?c = "meta_observation_max_count pol"
  fix n
  assume n: "n \<in> set (nodes g)" "silo n = Some s" "nid n \<in> set (FIND_EXCESS_META_OBSERVATIONS s ?c h)"
  then obtain m where m: "m \<in> set (drop ?c (newest_first (filter (is_reflection s) (nodes h))))" "nid m = nid n"
    by (auto simp: FIND_EXCESS_META_OBSERVATIONS_def)
  then have r: "m \<in> set (nodes h)" "is_reflection s m"
    by (auto simp: newest_first_def dest!: in_set_dropD)
  have sw: "swept pol e g s n m" using assms n r m(2) by (intro marked_id) (auto simp: is_reflection_def)
  have same: "attrs b ''created_at'' = attrs a ''created_at''" if "swept pol e g s a b" for a b
    using that by (simp add: swept_def only_marked_def marks_def)
  have refl: "is_reflection s a" if "swept pol e g s a b" "is_reflection s b" for a b
    using that by (auto simp: is_reflection_def swept_def only_marked_def has_label_def marks_def)
  have newer: "as_new n a" if "swept pol e g s a b" "as_new m b" for a b
    using that(2) unfolding as_new_def same [OF that(1)] same [OF sw] .
  have "length (filter (\<lambda>r. is_reflection s r \<and> as_new m r) ys) \<le> length (filter (\<lambda>r. is_reflection s r \<and> as_new n r) xs)"
    if "list_all2 (swept pol e g s) xs ys" for xs ys
    using that by (induction rule: list_all2_induct) (auto dest: refl newer)
  then have "length (filter (\<lambda>r. is_reflection s r \<and> as_new m r) (nodes h)) \<le>
      length (filter (\<lambda>r. is_reflection s r \<and> as_new n r) (nodes g))"
    using assms(1) unfolding marked_def by blast
  moreover have "?c < length (filter (\<lambda>r. is_reflection s r \<and> as_new m r) (nodes h))"
    using excess_newer [OF m(1)] by (simp add: conj_commute)
  ultimately show "may_tombstone pol e g s n"
    using refl [OF sw r(2)] by (simp add: may_tombstone_def)
qed

lemma marked_orphaned:
  assumes "marked pol e g s h" "swept pol e g s n m" "orphaned_summary s h m"
  shows "orphaned_summary s g n"
proof -
  have "\<exists>c' \<in> set (match_label h ''ReasoningChain'' s). nid c' = nid c"
    if "c \<in> set (match_label g ''ReasoningChain'' s)" for c
  proof -
    from that obtain i where i: "i < length (nodes g)" "nodes g ! i = c"
      by (auto simp: match_label_def in_set_conv_nth)
    then have "swept pol e g s c (nodes h ! i)" "nodes h ! i \<in> set (nodes h)"
      using assms(1) by (auto simp: marked_def list_all2_conv_all_nth)
    with that show ?thesis
      by (intro bexI [of _ "nodes h ! i"]) (auto simp: match_label_def swept_def only_marked_def has_label_def)
  qed
  with assms(2,3) show ?thesis
    by (fastforce simp: orphaned_summary_def swept_def only_marked_def has_label_def marks_def filter_empty_conv)
qed

lemma entitled_orphans:
  assumes "marked pol e g s h" "unique_ids s g"
  shows "entitled pol e g s (FIND_ORPHANED_SUMMARIES s h)"
  unfolding entitled_def
proof (intro ballI impI)
  fix n
  assume n: "n \<in> set (nodes g)" "silo n = Some s" "nid n \<in> set (FIND_ORPHANED_SUMMARIES s h)"
  then obtain m where m: "m \<in> set (nodes h)" "orphaned_summary s h m" "nid m = nid n"
    by (auto simp: FIND_ORPHANED_SUMMARIES_def)
  then have "swept pol e g s n m" using assms n by (intro marked_id) (auto simp: orphaned_summary_def)
  then show "may_tombstone pol e g s n"
    using marked_orphaned [OF assms(1) _ m(2)] by (simp add: may_tombstone_def)
qed

lemma wp_tombstone_nodes:
  assumes "Marked pol e g s w" "entitled pol e g s is"
  shows "wp e (tombstone_nodes is s r) (\<lambda>_. Marked pol e g s) (\<lambda>_. Marked pol e g s) w"
proof -
  have "marked pol e g s (fst (TOMBSTONE_NODES_BATCH is s (clock e k) r (gr w)))" for k
    by (rule marked_batch [OF assms(1)]) (use assms(2) in \<open>auto simp: entitled_def\<close>)
  then show ?thesis using assms(1)
    by (auto simp: tombstone_nodes_def wp_simps intro!: marked_heat_dirty)
qed

lemma wp_candidates:
  assumes "Marked pol e g s w" "unique_ids s g"
  shows "wp e (find_tombstone_candidates pol s) (\<lambda>_. Marked pol e g s)
    (\<lambda>is v. Marked pol e g s v \<and> entitled pol e g s is) w"
  unfolding find_tombstone_candidates_def
proof (simp add: wp_simps assms(1), intro impI wp_eligible_ids)
  fix "is"
  assume sub: "set is \<subseteq> cr_id ` {r \<in> set (FIND_TOMBSTONE_CANDIDATES s (gr w)). eligible_row pol (clock e (tick w)) r}"
  have "entitled pol e g s is"
    unfolding entitled_def
  proof (intro ballI impI)
    fix n assume n: "n \<in> set (nodes g)" "silo n = Some s" "nid n \<in> set is"
    then obtain m c where "m \<in> set (nodes (gr w))" "tombstone_candidate s m" "nid m = nid n"
      "attrs m ''created_at'' = Some (VTime c)"
      "is_eligible_for_tombstone pol (the (attrs m ''decay_class'')) c (heat_or (1 / 2) m) (clock e (tick w))"
      using sub by (force simp: FIND_TOMBSTONE_CANDIDATES_def eligible_row_def)
    then show "may_tombstone pol e g s n" by (rule may_tombstone_row [OF assms n(1,2)])
  qed
  with assms(1) show "Marked pol e g s (w\<lparr>tick := Suc (Suc (tick w))\<rparr>) \<and> entitled pol e g s is" by simp
qed (simp add: assms(1))

section \<open>Deletion\<close>

definition expired :: "RetentionPolicy \<Rightarrow> env \<Rightarrow> string \<Rightarrow> node \<Rightarrow> bool" where
  "expired pol e s n \<longleftrightarrow> silo n = Some s \<and>
     (\<exists>t k. tombstone_of n = Some (VTime t) \<and> t < clock e k - days (grace_period_days pol))"

definition pruned :: "RetentionPolicy \<Rightarrow> env \<Rightarrow> graph \<Rightarrow> string \<Rightarrow> graph \<Rightarrow> bool" where
  "pruned pol e g s h \<longleftrightarrow>
     (\<forall>n \<in> set (nodes g). (\<exists>m \<in> set (nodes h). swept pol e g s n m) \<or> expired pol e s n) \<and>
     (\<forall>m \<in> set (nodes h). \<exists>n \<in> set (nodes g). swept pol e g s n m)"

lemma marked_pruned: "marked pol e g s h \<Longrightarrow> pruned pol e g s h"
  unfolding pruned_def marked_def list_all2_conv_all_nth by (metis in_set_conv_nth)

lemma pruned_delete:
  assumes "pruned pol e g s h" "distinct (map vid (nodes g))"
    and "\<And>n. n \<in> set (nodes g) \<Longrightarrow> silo n = Some s \<Longrightarrow> nid n = i \<Longrightarrow> expired pol e s n"
  shows "pruned pol e g s (fst (HARD_DELETE_NODE i s h))"
  unfolding pruned_def
proof (intro conjI ballI)
  let ?h = "fst (HARD_DELETE_NODE i s h)"
  have nodes: "nodes ?h = filter (\<lambda>m. vid m \<notin> vid ` set (match_id h i s)) (nodes h)"
    by (simp add: HARD_DELETE_NODE_def detach_delete_def graph_simps)
  show "\<exists>n \<in> set (nodes g). swept pol e g s n m" if "m \<in> set (nodes ?h)" for m
    using that assms(1) by (auto simp: nodes pruned_def)
  fix n assume n: "n \<in> set (nodes g)"
  show "(\<exists>m \<in> set (nodes ?h). swept pol e g s n m) \<or> expired pol e s n"
  proof (cases "expired pol e s n")
    case False
    then obtain m where m: "m \<in> set (nodes h)" "swept pol e g s n m" using assms(1) n by (auto simp: pruned_def)
    have "vid m \<notin> vid ` set (match_id h i s)"
    proof
      assume "vid m \<in> vid ` set (match_id h i s)"
      then obtain m' where m': "m' \<in> set (nodes h)" "nid m' = i" "silo m' = Some s" "vid m' = vid m"
        by (auto simp: match_id_iff)
      then obtain n' where n': "n' \<in> set (nodes g)" "swept pol e g s n' m'" using assms(1) by (auto simp: pruned_def)
      then have "vid n' = vid n" using m m' by (simp add: swept_def only_marked_def)
      then have "n' = n" using assms(2) n n'(1) by (auto simp: distinct_map dest: inj_onD)
      then have "silo n = Some s" "nid n = i" using n'(2) m' by (auto simp: swept_def only_marked_def)
      with assms(3) n False show False by blast
    qed
    with m show ?thesis by (auto simp: nodes)
  qed simp
qed

lemma expired_candidates:
  assumes "marked pol e g s h" "unique_ids s g" "\<And>j k. clock e k \<le> clock e j + days (grace_period_days pol)"
    and "n \<in> set (nodes g)" "silo n = Some s"
    and "nid n \<in> set (FIND_HARD_DELETE_CANDIDATES s (clock e k - days (grace_period_days pol)) h)"
  shows "expired pol e s n"
proof -
  obtain m where m: "m \<in> set (nodes h)" "silo m = Some s" "nid m = nid n" and
    late: "case time_of (tombstone_of m) of None \<Rightarrow> False | Some t \<Rightarrow> t < clock e k - days (grace_period_days pol)"
    using assms(6) by (auto simp: FIND_HARD_DELETE_CANDIDATES_def)
  from late obtain t where "time_of (tombstone_of m) = Some t" and t: "t < clock e k - days (grace_period_days pol)"
    by (auto split: option.splits)
  then have tomb: "tombstone_of m = Some (VTime t)" by (auto simp: time_of_def split: option.splits val.splits)
  have sw: "swept pol e g s n m" using assms m by (intro marked_id)
  have "\<not> t < clock e k - days (grace_period_days pol)" if "t = clock e j" for j
    using assms(3) [of k j] that by simp
  then have "tombstone_of n = Some (VTime t)" using sw tomb t by (auto simp: swept_def)
  with t assms(5) show ?thesis by (auto simp: expired_def)
qed

text \<open>The vectors and the dead-letter queue do not matter to the graph.\<close>

lemma wp_graph_only:
  assumes "geffect (=) m" "I (gr w)"
  shows "wp e m (\<lambda>_ v. I (gr v)) (\<lambda>_ v. I (gr v)) w"
proof -
  have "gr w = gr (snd (m e w))" by (rule geffectD [OF assms(1)])
  with assms(2) show ?thesis by (auto simp: wp_def split: prod.split sum.split)
qed

lemma sweep_vector_graph: "geffect (=) (forget_vector s i)"
proof -
  have q: "geffect (=) (qdrant_delete s i)" "geffect (=) (enqueue_failed_delete s i)"
    by (simp_all add: geffect_def qdrant_delete_def enqueue_failed_delete_def)
  have "geffect (=) (delete_vector k s i msg)" for k msg
    by (induction k arbitrary: msg) (auto intro!: effect_intros q)
  then show ?thesis unfolding forget_vector_def by (intro effect_intros q)
qed

lemma wp_hard_delete_node:
  assumes "pruned pol e g s (gr w)" "distinct (map vid (nodes g))"
    and "\<And>n. n \<in> set (nodes g) \<Longrightarrow> silo n = Some s \<Longrightarrow> nid n = i \<Longrightarrow> expired pol e s n"
  shows "wp e (hard_delete_node q i s) (\<lambda>_ v. pruned pol e g s (gr v)) (\<lambda>_ v. pruned pol e g s (gr v)) w"
  unfolding hard_delete_node_def
  using assms(1) pruned_delete [OF assms]
  by (simp add: wp_simps HARD_DELETE_NODE_def)

section \<open>The sweep is safe\<close>

lemma wp_run_sweep:
  assumes "unique_ids s g" "distinct (map vid (nodes g))" "gr w = g"
    and "\<And>j k. clock e k \<le> clock e j + days (grace_period_days pol)"
  shows "wp e (run_sweep pol q s) (\<lambda>_ v. pruned pol e g s (gr v)) (\<lambda>_ v. pruned pol e g s (gr v)) w"
proof -
  let ?P = "\<lambda>_ v. pruned pol e g s (gr v)"
  let ?M = "Marked pol e g s"
  have start: "?M (w\<lparr>tick := t\<rparr>)" for t
    using assms(3) by (simp add: marked_def list_all2_same swept_refl)
  have del: "wp e (tbind (find_hard_delete_candidates pol s) (\<lambda>ids. tbind (hard_delete_nodes q ids s) (\<lambda>d. ret (f d)))) ?P ?P v"
    if v: "?M v" for v and f :: "nat \<Rightarrow> sweep_result"
  proof -
    let ?ids = "FIND_HARD_DELETE_CANDIDATES s (clock e (tick v) - days (grace_period_days pol)) (gr v)"
    have "wp e (tfor ?ids (\<lambda>i. hard_delete_node q i s)) ?P (\<lambda>_ v. pruned pol e g s (gr v)) (v\<lparr>tick := Suc (Suc (tick v))\<rparr>)"
    proof (rule wp_for_inv)
      fix i and u :: world
      assume "i \<in> set ?ids" "pruned pol e g s (gr u)"
      then show "wp e (hard_delete_node q i s) ?P (\<lambda>_ v. pruned pol e g s (gr v)) u"
        by (intro wp_hard_delete_node assms(2) expired_candidates [OF v assms(1) assms(4)]) auto
    qed (use marked_pruned [OF v] in simp)
    with marked_pruned [OF v] show ?thesis
      by (simp add: find_hard_delete_candidates_def hard_delete_nodes_def wp_simps)
  qed
  have tn: "wp e (tombstone_nodes is s r) ?P (\<lambda>_. ?M) v" if "?M v" "entitled pol e g s is" for v "is" r
    by (rule wp_mono [OF wp_tombstone_nodes [OF that]]) (auto intro: marked_pruned)
  have cand: "wp e (find_tombstone_candidates pol s) ?P (\<lambda>is v. ?M v \<and> entitled pol e g s is) v" if "?M v" for v
    by (rule wp_mono [OF wp_candidates [OF that assms(1)]]) (auto intro: marked_pruned)
  have meta: "wp e (tombstone_excess_meta_observations pol s r) ?P (\<lambda>_. ?M) v" if "?M v" for v r
    using that marked_pruned [OF that] entitled_excess [OF that assms(1)]
    by (simp add: tombstone_excess_meta_observations_def wp_simps tn)
  have orph: "wp e (tombstone_orphaned_summaries s r) ?P (\<lambda>_. ?M) v" if "?M v" for v r
    using that marked_pruned [OF that] entitled_orphans [OF that assms(1)]
    by (simp add: tombstone_orphaned_summaries_def wp_simps tn)
  show ?thesis
    unfolding run_sweep_def wp_bind wp_calls
    by (rule wp_mono [OF cand [OF start]], assumption, elim conjE,
        rule wp_mono [OF tn], assumption, assumption, assumption,
        rule wp_mono [OF meta], assumption, assumption,
        rule wp_mono [OF orph], assumption, assumption,
        rule del [unfolded wp_bind], assumption)
qed


definition ex_aged :: "nat \<Rightarrow> string \<Rightarrow> (string \<times> val) list \<Rightarrow> node" where
  "ex_aged v dc kvs = \<lparr>vid = v, labels = [''Node''], nid = dc, silo = Some ''s1'',
     attrs = map_of ([(''decay_class'', VStr dc), (''created_at'', VTime (-5000000))] @ kvs), props = Map.empty\<rparr>"

definition ex_aged_graph :: graph where
  "ex_aged_graph = \<lparr>nodes = [ex_aged 0 ''permanent'' [], ex_aged 1 ''ephemeral'' [],
     ex_aged 2 ''standard'' [(''heat_score'', VNum 1)],
     ex_aged 3 ''durable'' [(''tombstoned_at'', VTime (-4000000))]], edges = [], next_vid = 4\<rparr>"

text \<open>An environment whose clock stands still.\<close>

definition ex_noon :: env where
  "ex_noon = ex_env\<lparr>clock := (\<lambda>_. 1000)\<rparr>"

lemma unique_idsI: "distinct (map nid (filter (\<lambda>n. silo n = Some s) (nodes g))) \<Longrightarrow> unique_ids s g"
  unfolding unique_ids_def match_id_def is_node_def
proof
  fix i
  have "length (filter (\<lambda>n. nid n = i \<and> silo n = Some s) ns) \<le> 1"
    if "distinct (map nid (filter (\<lambda>n. silo n = Some s) ns))" for ns
    using that
  proof (induction ns)
    case (Cons n ns)
    show ?case
    proof (cases "nid n = i \<and> silo n = Some s")
      case True
      then have "filter (\<lambda>n. nid n = i \<and> silo n = Some s) ns = []"
        using Cons.prems by (simp add: filter_empty_conv image_iff) metis
      then show ?thesis by simp
    qed (use Cons in \<open>auto split: if_splits\<close>)
  qed simp
  then show "distinct (map nid (filter (\<lambda>n. silo n = Some s) (nodes g))) \<Longrightarrow>
    length (filter (\<lambda>n. nid n = i \<and> silo n = Some s) (nodes g)) \<le> 1" .
qed

lemma ex_aged_graph_ok: "graph_wf ex_aged_graph" "unique_ids ''s1'' ex_aged_graph"
  by (simp add: graph_wf_def ex_aged_graph_def ex_aged_def)
     (rule unique_idsI, simp add: ex_aged_graph_def ex_aged_def)


section \<open>The sweep is complete\<close>

text \<open>Tombstones are never taken back by a sweep: one more effect of the whole transaction.\<close>

definition tombs_last :: "graph \<Rightarrow> graph \<Rightarrow> bool" where
  "tombs_last g h \<longleftrightarrow> (\<forall>m \<in> set (nodes h). tombstone_of m = None \<longrightarrow>
     (\<exists>n \<in> set (nodes g). vid n = vid m \<and> tombstone_of n = None))"

interpretation tombs: graph_effect tombs_last
  by unfold_locales (auto simp: tombs_last_def, metis)

lemma tombs_last_update:
  assumes "\<And>n. vid (f n) = vid n \<and> (tombstone_of (f n) = None \<longrightarrow> tombstone_of n = None)"
  shows "tombs_last g (update_where P f g)"
  using assms by (auto simp: tombs_last_def elim!: update_whereE)

lemma tombs_batch: "tombs_last g (fst (TOMBSTONE_NODES_BATCH is s t r g))"
proof (induction "is" arbitrary: g)
  case (Cons i "is")
  let ?f = "\<lambda>n. set_field ''retention_run_id'' (Some (VStr r)) (set_field ''tombstoned_at'' (Some (VTime t)) n)"
  have "tombs_last g (update_where (untombstoned s i) ?f g)" by (rule tombs_last_update) simp
  then have "tombs_last g (fst (TOMBSTONE_NODES_BATCH is s t r (update_where (untombstoned s i) ?f g)))"
    using Cons by (rule tombs.trans)
  then show ?case by (simp add: Let_def split_def)
qed (simp add: tombs.refl)

lemma tombs_writes [effect_intros]:
  "geffect tombs_last (execute_write (TOMBSTONE_NODES_BATCH is s t r))"
  "geffect tombs_last (execute_write (MARK_HEAT_DIRTY s is))"
  "geffect tombs_last (execute_write (HARD_DELETE_NODE i s))"
proof -
  show "geffect tombs_last (execute_write (TOMBSTONE_NODES_BATCH is s t r))"
    by (rule tombs.eff_write) (rule tombs_batch)
  show "geffect tombs_last (execute_write (MARK_HEAT_DIRTY s is))"
    by (rule tombs.eff_write) (auto simp: MARK_HEAT_DIRTY_def intro: tombs_last_update)
  show "geffect tombs_last (execute_write (HARD_DELETE_NODE i s))"
    by (rule tombs.eff_write) (auto simp: HARD_DELETE_NODE_def detach_delete_def tombs_last_def graph_simps)
qed

lemma tombs_sweep_parts [effect_intros]:
  "geffect tombs_last (tombstone_nodes is s r)"
  "geffect tombs_last (tombstone_excess_meta_observations pol s r)"
  "geffect tombs_last (tombstone_orphaned_summaries s r)"
  "geffect tombs_last (find_hard_delete_candidates pol s)"
  "geffect tombs_last (hard_delete_nodes q is s)"
  by (auto simp: tombstone_nodes_def tombstone_excess_meta_observations_def hard_delete_node_def
      tombstone_orphaned_summaries_def find_hard_delete_candidates_def hard_delete_nodes_def
      intro!: effect_intros geffect_weaken [OF sweep_vector_graph] tombs.refl)

lemma batch_tombstones:
  assumes "nid n \<in> set is" "silo n = Some s" "n \<in> set (nodes g)" "distinct (map vid (nodes g))"
    and "m \<in> set (nodes (fst (TOMBSTONE_NODES_BATCH is s t r g)))" "vid m = vid n"
  shows "tombstone_of m \<noteq> None"
  using assms
proof (induction "is" arbitrary: g n)
  case (Cons i "is")
  let ?f = "\<lambda>n. set_field ''retention_run_id'' (Some (VStr r)) (set_field ''tombstoned_at'' (Some (VTime t)) n)"
  let ?g = "update_where (untombstoned s i) ?f g"
  let ?n = "if untombstoned s i n then ?f n else n"
  have rest: "m \<in> set (nodes (fst (TOMBSTONE_NODES_BATCH is s t r ?g)))"
    using Cons.prems(5) by (auto simp: Let_def split: prod.splits)
  have n: "?n \<in> set (nodes ?g)" using Cons.prems(3) by (auto simp: graph_simps)
  have dist: "distinct (map vid (nodes ?g))"
    using Cons.prems(4) by (subst vid_update_where) (auto simp: identity_kept_def has_label_def)
  show ?case
  proof (cases "nid n \<in> set is")
    case True
    then show ?thesis using Cons.IH [OF _ _ n dist rest] Cons.prems(2,6) by auto
  next
    case False
    with Cons.prems(1) have "nid n = i" by simp
    then have tomb: "tombstone_of ?n \<noteq> None" using Cons.prems(2) by (auto simp: untombstoned_def is_node_def)
    have same: "n' = ?n" if "n' \<in> set (nodes ?g)" "vid n' = vid m" for n'
    proof -
      have "inj_on vid (set (nodes ?g))" using dist by (simp add: distinct_map)
      moreover have "vid n' = vid ?n" using that(2) Cons.prems(6) by simp
      ultimately show ?thesis using that(1) n by (rule inj_onD)
    qed
    show ?thesis
    proof
      assume "tombstone_of m = None"
      then obtain n' where n': "n' \<in> set (nodes ?g)" "vid n' = vid m" "tombstone_of n' = None"
        using tombs_batch [of ?g "is" s t r] rest by (auto simp: tombs_last_def)
      have "n' = ?n" using n'(1,2) by (rule same)
      with n'(3) tomb show False by (simp only:)
    qed
  qed
qed simp

lemma wp_eligible_ids_complete:
  assumes "\<And>r x. r \<in> set rows \<Longrightarrow> cr_created_at r \<noteq> Some (VStr x)"
    and "\<And>is. cr_id ` {r \<in> set rows. eligible_row pol now r} \<subseteq> set is \<Longrightarrow> Q is w"
  shows "wp e (eligible_ids pol now rows) (\<lambda>_ _. False) Q w"
  using assms
proof (induction rows arbitrary: Q)
  case (Cons r rows)
  have IH: "wp e (eligible_ids pol now rows) (\<lambda>_ _. False) Q' w"
    if "\<And>is. cr_id ` {r \<in> set rows. eligible_row pol now r} \<subseteq> set is \<Longrightarrow> Q' is w" for Q'
    by (rule Cons.IH) (use Cons.prems(1) that in auto)
  show ?case
  proof (cases "\<exists>c. cr_created_at r = Some (VTime c)")
    case True
    then obtain c where c: "cr_created_at r = Some (VTime c)" by blast
    show ?thesis
      unfolding eligible_ids.simps c option.case val.case wp_bind wp_ret
    proof (rule IH)
      fix "is" assume "cr_id ` {r' \<in> set rows. eligible_row pol now r'} \<subseteq> set is"
      then show "Q (if is_eligible_for_tombstone pol (cr_decay_class r) c (cr_heat_score r) now then cr_id r # is else is) w"
        using c by (intro Cons.prems(2)) (auto simp: eligible_row_def)
    qed
  next
    case False
    then have "\<not> eligible_row pol now r" by (auto simp: eligible_row_def)
    then have "{r' \<in> set (r # rows). eligible_row pol now r'} = {r' \<in> set rows. eligible_row pol now r'}" by auto
    then have "wp e (eligible_ids pol now rows) (\<lambda>_ _. False) Q w" using Cons.prems(2) by (intro IH) simp
    with False Cons.prems(1) [of r] show ?thesis by (auto split: option.split val.split)
  qed
qed (simp add: wp_simps)

text \<open>The first phase of a sweep without failing calls tombstones every eligible node.\<close>

definition tombed :: "nat \<Rightarrow> graph \<Rightarrow> bool" where
  "tombed v g \<longleftrightarrow> (\<forall>m \<in> set (nodes g). vid m = v \<longrightarrow> tombstone_of m \<noteq> None)"

lemma tombed_last: "tombs_last g h \<Longrightarrow> tombed v g \<Longrightarrow> tombed v h"
  unfolding tombed_def tombs_last_def by metis

lemma wp_tombed:
  assumes "geffect tombs_last m" "tombed v (gr w)"
  shows "wp e m (\<lambda>_ u. tombed v (gr u)) (\<lambda>_ u. tombed v (gr u)) w"
  using tombed_last [OF geffectD [OF assms(1)] assms(2), of e]
  by (auto simp: wp_def split: prod.split sum.split)

lemma wp_first_phase:
  assumes "\<And>k. \<not> fault e k" "distinct (map vid (nodes (gr w)))" "n \<in> set (nodes (gr w))"
    and "tombstone_candidate s n" "attrs n ''created_at'' = Some (VTime c)"
    and "is_eligible_for_tombstone pol (the (attrs n ''decay_class'')) c (heat_or (1 / 2) n) (clock e (tick w))"
    and "\<And>m x. m \<in> set (nodes (gr w)) \<Longrightarrow> attrs m ''created_at'' \<noteq> Some (VStr x)"
  shows "wp e (tbind (find_tombstone_candidates pol s) (\<lambda>is. tombstone_nodes is s r))
    (\<lambda>_ _. False) (\<lambda>_ u. tombed (vid n) (gr u)) w"
  unfolding find_tombstone_candidates_def wp_bind wp_calls wp_store
proof (simp add: assms(1), rule wp_eligible_ids_complete)
  fix row x assume "row \<in> set (FIND_TOMBSTONE_CANDIDATES s (gr w))"
  then show "cr_created_at row \<noteq> Some (VStr x)"
    using assms(7) by (auto simp: FIND_TOMBSTONE_CANDIDATES_def)
next
  fix "is"
  let ?rows = "FIND_TOMBSTONE_CANDIDATES s (gr w)"
  assume "cr_id ` {row \<in> set ?rows. eligible_row pol (clock e (tick w)) row} \<subseteq> set is"
  moreover have "\<exists>row \<in> set ?rows. eligible_row pol (clock e (tick w)) row \<and> cr_id row = nid n"
    using assms(3-6) by (force simp: FIND_TOMBSTONE_CANDIDATES_def eligible_row_def)
  ultimately have n: "nid n \<in> set is" by force
  have silo: "silo n = Some s" using assms(4) by (simp add: tombstone_candidate_def)
  have "tombed (vid n) (fst (TOMBSTONE_NODES_BATCH is s t r (gr w)))" for t
    using batch_tombstones [OF n silo assms(3,2)] by (simp add: tombed_def)
  moreover have "tombed (vid n) (fst (MARK_HEAT_DIRTY s ids g))" if "tombed (vid n) g" for ids g
    using that by (auto simp: MARK_HEAT_DIRTY_def tombed_def elim!: update_whereE)
  ultimately show "wp e (tombstone_nodes is s r) (\<lambda>_ _. False) (\<lambda>_ u. tombed (vid n) (gr u)) (w\<lparr>tick := Suc (Suc (tick w))\<rparr>)"
    using n by (auto simp: tombstone_nodes_def wp_simps assms(1))
qed

text \<open>
  a sweep is complete.  When no call fails, every node whose class, age and heat make it eligible
  when the sweep begins is in the graph afterwards and tombstoned.
\<close>

theorem run_sweep_complete:
  assumes "\<forall>k. \<not> fault e k" "graph_wf (gr w)" "unique_ids s (gr w)"
    and "\<forall>j k. clock e k \<le> clock e j + days (grace_period_days pol)"
    and "\<forall>m x. m \<in> set (nodes (gr w)) \<longrightarrow> attrs m ''created_at'' \<noteq> Some (VStr x)"
    and "n \<in> set (nodes (gr w))" "tombstone_candidate s n" "attrs n ''created_at'' = Some (VTime c)"
    and "is_eligible_for_tombstone pol (the (attrs n ''decay_class'')) c (heat_or (1 / 2) n) (clock e (Suc (tick w)))"
  shows "\<exists>m \<in> set (nodes (gr (snd (run_sweep pol q s e w)))). only_marked n m \<and> tombstone_of m \<noteq> None"
proof -
  let ?T = "\<lambda>_ u. tombed (vid n) (gr u)"
  have dist: "distinct (map vid (nodes (gr w)))" using assms(2) by (simp add: graph_wf_def)
  have first: "wp e (tbind (find_tombstone_candidates pol s) (\<lambda>is. tombstone_nodes is s r)) ?T ?T
      (w\<lparr>tick := Suc (tick w)\<rparr>)" for r
    by (rule wp_mono [OF wp_first_phase [where n = n and c = c]]) (use assms dist in auto)
  have "wp e (run_sweep pol q s) ?T ?T w"
    unfolding run_sweep_def wp_bind wp_calls
    by (rule wp_mono [OF first [unfolded wp_bind]], assumption, rule wp_mono, assumption,
        assumption, rule wp_mono [OF wp_tombed [OF tombs_sweep_parts(2)]], assumption, assumption,
        rule wp_mono [OF wp_tombed [OF tombs_sweep_parts(3)]], assumption, assumption,
        rule wp_mono [OF wp_tombed [OF tombs_sweep_parts(4)]], assumption, assumption,
        rule wp_mono [OF wp_tombed [OF tombs_sweep_parts(5)]], assumption, assumption,
        simp add: wp_ret)
  then have tombed: "tombed (vid n) (gr (snd (run_sweep pol q s e w)))"
    by (auto simp: wp_def split: prod.splits sum.splits)
  have "wp e (run_sweep pol q s) (\<lambda>_ v. pruned pol e (gr w) s (gr v)) (\<lambda>_ v. pruned pol e (gr w) s (gr v)) w"
    by (rule wp_run_sweep) (use assms(3,4) dist in auto)
  then have "pruned pol e (gr w) s (gr (snd (run_sweep pol q s e w)))"
    by (auto simp: wp_def split: prod.splits sum.splits)
  moreover have "\<not> expired pol e s n" using assms(7) by (simp add: expired_def tombstone_candidate_def)
  ultimately obtain m where "m \<in> set (nodes (gr (snd (run_sweep pol q s e w))))" "only_marked n m"
    using assms(6) by (auto simp: pruned_def swept_def)
  with tombed show ?thesis by (auto simp: tombed_def only_marked_def)
qed

theorem run_sweep_complete_witness:
  "\<exists>m \<in> set (nodes (gr (snd (run_sweep default_policy False ''s1'' ex_noon (ex_world ex_aged_graph))))).
     only_marked (ex_aged 1 ''ephemeral'' []) m \<and> tombstone_of m \<noteq> None"
  by (rule run_sweep_complete [where c = "-5000000"])
     (use ex_aged_graph_ok in \<open>simp_all add: ex_world_def ex_noon_def ex_aged_graph_def ex_aged_def days_def
        hours_def default_policy_def tombstone_candidate_def is_eligible_for_tombstone_def\<close>)

section \<open>Erasure\<close>

lemma match_id_deleted:
  "match_id (fst (HARD_DELETE_NODE i s g)) i s = []"
  "match_id g j s = [] \<Longrightarrow> match_id (fst (HARD_DELETE_NODE i s g)) j s = []"
  by (auto simp: HARD_DELETE_NODE_def detach_delete_def graph_simps match_id_def filter_empty_conv)

lemma wp_erase_loop:
  assumes "\<And>k. \<not> fault e k"
    and "\<And>v. vectors v = vectors w \<Longrightarrow> \<forall>i \<in> set is \<union> set js. match_id (gr v) i s = [] \<Longrightarrow>
      Q (map (\<lambda>i. (i, Inr False)) is) v"
    and "\<forall>i \<in> set js. match_id (gr w) i s = []"
  shows "wp e (tfor is (\<lambda>i. tbind (attempt (hard_delete_node q i s)) (\<lambda>r. ret (i, r)))) (\<lambda>_ _. False) Q w"
  using assms(2,3)
proof (induction "is" arbitrary: w js Q)
  case (Cons i "is")
  let ?w = "w\<lparr>gr := fst (HARD_DELETE_NODE i s (gr w)), tick := Suc (tick w)\<rparr>"
  have "wp e (tfor is (\<lambda>i. tbind (attempt (hard_delete_node q i s)) (\<lambda>r. ret (i, r)))) (\<lambda>_ _. False)
      (\<lambda>out. Q ((i, Inr False) # out)) ?w"
  proof (rule Cons.IH [where js = "i # js"])
    show "\<forall>j \<in> set (i # js). match_id (gr ?w) j s = []"
      using Cons.prems(2) by (simp add: match_id_deleted)
    show "Q ((i, Inr False) # map (\<lambda>i. (i, Inr False)) is) v"
      if "vectors v = vectors ?w" "\<forall>j \<in> set is \<union> set (i # js). match_id (gr v) j s = []" for v
      using Cons.prems(1) [of v] that by simp
  qed
  then show ?case
    by (simp add: hard_delete_node_def attempt_def wp_simps assms(1) HARD_DELETE_NODE_def)
qed (simp add: wp_simps)

text \<open>
  what an erasure request does when every call succeeds: all the requested nodes are gone, yet
  the answer and the audit log name every one of them as failed, with the reason that it was not found,
  and no vector is deleted.  The deleting query returns no row, and the code takes no row for an
  absent node.
\<close>

theorem erase_reports_failure:
  assumes "\<forall>k. \<not> fault e k"
  shows "\<exists>res audit_log w'. erase q ids s rt ri False e w = (Inr (res, audit_log), w') \<and>
    list_all (\<lambda>i. match_id (gr w') i s = []) ids \<and> vectors w' = vectors w \<and>
    er_erased_ids res = [] \<and> er_failed_ids res = ids \<and>
    er_status res = (if ids = [] then ''completed'' else ''failed'') \<and> au_status audit_log = er_status res \<and>
    au_node_ids audit_log = ids"
proof -
  let ?Q = "\<lambda>(res, audit_log) w'. list_all (\<lambda>i. match_id (gr w') i s = []) ids \<and> vectors w' = vectors w \<and>
    er_erased_ids res = [] \<and> er_failed_ids res = ids \<and>
    er_status res = (if ids = [] then ''completed'' else ''failed'') \<and> au_status audit_log = er_status res \<and>
    au_node_ids audit_log = ids"
  have "wp e (erase q ids s rt ri False) (\<lambda>_ _. False) ?Q w"
    unfolding erase_def if_False Let_def wp_bind wp_calls wp_ret
    by (rule wp_erase_loop [where js = "[]", folded wp_bind, unfolded wp_bind])
       (use assms in \<open>simp_all add: commit_audit_def wp_simps comp_def erasure_status_def list_all_iff\<close>)
  then show ?thesis by (auto simp: wp_def split: prod.splits sum.splits)
qed

theorem erase_reports_failure_witness:
  "\<exists>res audit_log w'. erase True [''permanent''] ''s1'' ''user'' None False ex_env (ex_world ex_aged_graph) =
      (Inr (res, audit_log), w') \<and> match_id (gr w') ''permanent'' ''s1'' = [] \<and> er_status res = ''failed''"
  using erase_reports_failure [of ex_env True "[''permanent'']" "''s1''" "''user''" None "ex_world ex_aged_graph"]
  by auto

section \<open>Cancelling a forget\<close>

text \<open>
  a forget of the retention service cannot be taken back.  Once it has tombstoned a node, no
  call of \<open>cancel_forget\<close>, however soon, restores it: the query compares the stored ISO timestamp
  with a number of microseconds.  The node stays as it is, and the answer is never that the forget
  was cancelled.
\<close>

theorem cancel_forget_never_restores:
  assumes "service_forget i s e w = (Inr (Tombstoned i d t), w1)" "unique_ids s (gr w)"
  shows "gr (snd (service_cancel_forget strict h i s e' w1)) = gr w1 \<and>
    fst (service_cancel_forget strict h i s e' w1) \<in> {Inl StoreError, Inr (CancelWindowExpired i), Inr (NotFound i)}"
proof -
  have stamped: "\<exists>x. attrs m ''forget_requested_at'' = Some (VTime x)"
    if m: "m \<in> set (match_id (gr w1) i s)" for m
  proof -
    let ?f = "\<lambda>n. set_field ''heat_dirty'' (Some (VBool True))
      (set_field ''forget_requested_at'' (Some (VTime t)) (set_field ''tombstoned_at'' (Some (VTime t)) n))"
    have gr: "gr w1 = update_where (untombstoned s i) ?f (gr w)" and hit: "filter (untombstoned s i) (nodes (gr w)) \<noteq> []"
      using assms(1)
      by (auto simp: service_forget_def FORGET_NODE_def tx_prims Let_def split: if_splits)
    from hit obtain n where n: "n \<in> set (nodes (gr w))" "untombstoned s i n" by (auto simp: filter_empty_conv)
    have "m \<in> set (nodes (update_where (untombstoned s i) ?f (gr w)))" "silo m = Some s" "nid m = i"
      using m by (auto simp: gr match_id_iff)
    then show ?thesis
    proof (cases rule: update_whereE [consumes 1])
      case (2)
      then have "m = n" using n \<open>silo m = Some s\<close> \<open>nid m = i\<close>
        by (intro unique_idsD [OF assms(2)]) (auto simp: untombstoned_def is_node_def)
      with 2 n show ?thesis by simp
    qed auto
  qed
  have none: False if "attrs n ''forget_requested_at'' = Some y" "after_cutoff y c = Some True"
    "n \<in> set (nodes (gr w1))" "is_node i s n" for n y c
    using stamped [of n] that by (auto simp: match_id_def after_cutoff_def)
  have same: "update_where P f (gr w1) = gr w1" if "\<And>n. n \<in> set (nodes (gr w1)) \<Longrightarrow> \<not> P n" for P f
    using that by (simp add: update_where_def map_idI)
  have refused: "r = (gr w1, [])" if "CANCEL_FORGET strict i s c (gr w1) = Some r" for c r
  proof -
    let ?hit = "\<lambda>n. (is_node i s n \<and> attrs n ''forget_requested_at'' \<noteq> None) \<and>
      after_cutoff (the (attrs n ''forget_requested_at'')) c = Some True"
    have miss: "\<not> ?hit n" if "n \<in> set (nodes (gr w1))" for n
      using none [of n _ c] that by auto
    then have "filter ?hit (nodes (gr w1)) = []" by (simp add: filter_empty_conv)
    moreover have "update_where ?hit f (gr w1) = gr w1" for f by (rule same) (rule miss)
    ultimately show ?thesis using that unfolding CANCEL_FORGET_def Let_def
      by (simp split: if_splits)
  qed
  show ?thesis
    by (auto simp: service_cancel_forget_def tx_prims Let_def dest: refused split: option.split)
qed

theorem cancel_forget_never_restores_witness:
  "gr (snd (service_cancel_forget False 1 ''standard'' ''s1'' ex_env
      (snd (service_forget ''standard'' ''s1'' ex_env (ex_world ex_aged_graph))))) =
    gr (snd (service_forget ''standard'' ''s1'' ex_env (ex_world ex_aged_graph)))"
proof -
  have "service_forget ''standard'' ''s1'' ex_env (ex_world ex_aged_graph) =
      (Inr (Tombstoned ''standard'' 0 1000), snd (service_forget ''standard'' ''s1'' ex_env (ex_world ex_aged_graph)))"
    by (simp add: service_forget_def tx_prims FORGET_NODE_def untombstoned_def is_node_def ex_aged_graph_def
        ex_aged_def ex_world_def graph_simps Let_def)
  then show ?thesis
    by (rule conjunct1 [OF cancel_forget_never_restores]) (use ex_aged_graph_ok in \<open>simp add: ex_world_def\<close>)
qed

end
