(* ===== verification/ChainStore.thy ===== *)
theory ChainStore
  imports PropertyGraph
begin

text \<open>
  Reasoning chains live in two stores: their steps in Postgres (\<open>engine/postgres_store.py\<close>), a summary
  projection in Memgraph.  \<open>ChainSagaWriter\<close> (\<open>engine/chain_saga.py\<close>) writes both and compensates, the
  orphan recovery job (\<open>pipelines/jobs/orphan_recovery.py\<close>) and the reconciliation
  (\<open>pipelines/assets/reconciliation_gc.py\<close>) repair what a failed write leaves behind.

  Every statement sent to a store is one call, which fails when the oracle \<open>call_fails\<close> says so for its
  number.  The tables are association lists in the order a \<open>SELECT\<close> returns their rows.  A JSON object is a
  list of key and value; \<open>json.dumps\<close> of it is the object itself.
\<close>

section \<open>The two stores\<close>

type_synonym json = "(string \<times> val) list"

record ChainStep =
  step_index :: nat
  premise_refs :: "string list"
  operation :: string
  conclusion :: string
  confidence :: real

definition model_dump :: "ChainStep \<Rightarrow> json" where
  "model_dump s = [(''step_index'', VInt (int (step_index s))), (''premise_refs'', VStrs (premise_refs s)),
     (''operation'', VStr (operation s)), (''conclusion'', VStr (conclusion s)), (''confidence'', VNum (confidence s))]"

record ReasoningChainSteps =
  rc_silo :: string
  rc_steps :: "json list"

record OrphanedChains =
  oc_silo :: string
  retry_count :: nat
  last_error :: string
  last_retry_at :: "int option"

record projection =
  step_count :: nat
  first_step :: "json option"
  final_step :: "json option"
  outcome :: "string option"
  all_premise_refs :: "string list"
  produced_by_model :: string
  produced_by_agent_id :: string
  query_context_hash :: "string option"
  status :: string
  source :: string
  chain_conclusion :: "string option"

record stores =
  org_preferences :: "string list"
  silo_configs :: "(string \<times> string) list"
  chain_steps :: "(string \<times> ReasoningChainSteps) list"
  orphans :: "(string \<times> OrphanedChains) list"
  projections :: "string \<times> string \<rightharpoonup> projection"
  bare :: "string \<times> string \<rightharpoonup> projection"
  calls :: nat

text \<open>
  \<open>projections\<close> are the nodes labelled \<open>ReasoningChain\<close> and \<open>Node\<close>, \<open>bare\<close> those with
  the first label only, which the reconciliation creates.
\<close>

definition projected :: "stores \<Rightarrow> string \<Rightarrow> string \<Rightarrow> bool" where
  "projected d i s \<longleftrightarrow> projections d (i, s) \<noteq> None \<or> bare d (i, s) \<noteq> None"

record call_env =
  call_fails :: "nat \<Rightarrow> bool"
  time_at :: "nat \<Rightarrow> int"

type_synonym 'a saga = "call_env \<Rightarrow> stores \<Rightarrow> (string + 'a) \<times> stores"

definition sret :: "'a \<Rightarrow> 'a saga" where
  "sret a = (\<lambda>e d. (Inr a, d))"

definition sraise :: "string \<Rightarrow> 'a saga" where
  "sraise x = (\<lambda>e d. (Inl x, d))"

definition sbind :: "'a saga \<Rightarrow> ('a \<Rightarrow> 'b saga) \<Rightarrow> 'b saga" where
  "sbind m f = (\<lambda>e d. case m e d of (Inl x, d') \<Rightarrow> (Inl x, d') | (Inr a, d') \<Rightarrow> f a e d')"

definition scatch :: "'a saga \<Rightarrow> (string \<Rightarrow> 'a saga) \<Rightarrow> 'a saga" where
  "scatch m h = (\<lambda>e d. case m e d of (Inl x, d') \<Rightarrow> h x e d' | (Inr a, d') \<Rightarrow> (Inr a, d'))"

text \<open>One call; the statement itself may be refused by a constraint of the schema.\<close>

definition call :: "(stores \<Rightarrow> string + 'a \<times> stores) \<Rightarrow> 'a saga" where
  "call f = (\<lambda>e d. let d' = d\<lparr>calls := Suc (calls d)\<rparr> in
     if call_fails e (calls d) then (Inl ''store unavailable'', d')
     else (case f d of Inl x \<Rightarrow> (Inl x, d') | Inr (a, d'') \<Rightarrow> (Inr a, d''\<lparr>calls := Suc (calls d)\<rparr>)))"

definition update :: "(stores \<Rightarrow> stores) \<Rightarrow> unit saga" where
  "update f = call (\<lambda>d. Inr ((), f d))"

definition select :: "(stores \<Rightarrow> 'a) \<Rightarrow> 'a saga" where
  "select f = call (\<lambda>d. Inr (f d, d))"

definition utcnow :: "int saga" where
  "utcnow = (\<lambda>e d. (Inr (time_at e (calls d)), d))"

section \<open>Postgres\<close>

definition ensure_silo_config :: "string \<Rightarrow> string \<Rightarrow> unit saga" where
  "ensure_silo_config silo_id org_id = update (\<lambda>d. d\<lparr>
     org_preferences := (if org_id \<in> set (org_preferences d) then org_preferences d else org_preferences d @ [org_id]),
     silo_configs := (if map_of (silo_configs d) silo_id \<noteq> None then silo_configs d
                      else silo_configs d @ [(silo_id, org_id)])\<rparr>)"

text \<open>
  \<open>INSERT .. ON CONFLICT (chain_id) DO UPDATE SET steps\<close>; a new row needs its silo in \<open>silo_config\<close>
  (the foreign key of the table).
\<close>

definition INSERT_STEPS :: "string \<Rightarrow> string \<Rightarrow> json list \<Rightarrow> stores \<Rightarrow> string + unit \<times> stores" where
  "INSERT_STEPS chain_id silo_id steps d =
     (case map_of (chain_steps d) chain_id of
        Some row \<Rightarrow> Inr ((), d\<lparr>chain_steps := AList.update chain_id (row\<lparr>rc_steps := steps\<rparr>) (chain_steps d)\<rparr>)
      | None \<Rightarrow>
          if map_of (silo_configs d) silo_id = None then Inl ''foreign key violation''
          else Inr ((), d\<lparr>chain_steps := chain_steps d @ [(chain_id, \<lparr>rc_silo = silo_id, rc_steps = steps\<rparr>)]\<rparr>))"

definition upsert_chain_steps :: "string \<Rightarrow> string \<Rightarrow> json list \<Rightarrow> string option \<Rightarrow> unit saga" where
  "upsert_chain_steps chain_id silo_id steps org_id =
     sbind (case org_id of None \<Rightarrow> sret () | Some o' \<Rightarrow> ensure_silo_config silo_id o')
       (\<lambda>_. call (INSERT_STEPS chain_id silo_id steps))"

definition get_chain_steps :: "string \<Rightarrow> json list option saga" where
  "get_chain_steps chain_id = select (\<lambda>d. map_option rc_steps (map_of (chain_steps d) chain_id))"

definition delete_chain_steps :: "string \<Rightarrow> bool saga" where
  "delete_chain_steps chain_id = call (\<lambda>d.
     Inr (map_of (chain_steps d) chain_id \<noteq> None, d\<lparr>chain_steps := AList.delete chain_id (chain_steps d)\<rparr>))"

definition add_orphaned_chain :: "string \<Rightarrow> string \<Rightarrow> string \<Rightarrow> unit saga" where
  "add_orphaned_chain chain_id silo_id error = update (\<lambda>d. d\<lparr>orphans :=
     (case map_of (orphans d) chain_id of
        None \<Rightarrow> orphans d @ [(chain_id, \<lparr>oc_silo = silo_id, retry_count = 1, last_error = error, last_retry_at = None\<rparr>)]
      | Some oc \<Rightarrow> AList.update chain_id (oc\<lparr>retry_count := Suc (retry_count oc), last_error := error\<rparr>) (orphans d))\<rparr>)"

section \<open>Memgraph\<close>

text \<open>\<open>MERGE (n:ReasoningChain:Node {id, silo_id})\<close>: an existing node keeps its producer and source.\<close>

definition upsert_reasoning_chain :: "string \<Rightarrow> string \<Rightarrow> projection \<Rightarrow> unit saga" where
  "upsert_reasoning_chain chain_id silo_id p = update (\<lambda>d. d\<lparr>projections := (projections d)((chain_id, silo_id) \<mapsto>
     (case projections d (chain_id, silo_id) of
        None \<Rightarrow> p
      | Some old \<Rightarrow> p\<lparr>produced_by_model := produced_by_model old, produced_by_agent_id := produced_by_agent_id old,
                       source := source old\<rparr>))\<rparr>)"

section \<open>The saga\<close>

definition MAX_COMPENSATION_RETRIES :: nat where "MAX_COMPENSATION_RETRIES = 3"

definition derive_outcome :: "ChainStep list \<Rightarrow> string option" where
  "derive_outcome steps =
     (if steps = [] then None
      else let final_confidence = confidence (last steps) in
        if 8 / 10 \<le> final_confidence then Some ''success''
        else if 5 / 10 \<le> final_confidence then Some ''inconclusive'' else Some ''failure'')"

fun compensate_loop :: "nat \<Rightarrow> string \<Rightarrow> string \<Rightarrow> string \<Rightarrow> unit saga" where
  "compensate_loop 0 chain_id silo_id error = add_orphaned_chain chain_id silo_id error"
| "compensate_loop (Suc attempts) chain_id silo_id error =
     scatch (sbind (delete_chain_steps chain_id) (\<lambda>_. sret ()))
       (\<lambda>comp_err. compensate_loop attempts chain_id silo_id error)"

definition compensate :: "string \<Rightarrow> string \<Rightarrow> string \<Rightarrow> unit saga" where
  "compensate = compensate_loop MAX_COMPENSATION_RETRIES"

record chain_meta =
  cm_model :: string
  cm_agent :: string
  cm_query_hash :: "string option"
  cm_status :: string
  cm_source :: string
  cm_conclusion :: "string option"
  cm_evidence :: "string list"
  cm_org :: "string option"

definition summary :: "ChainStep list \<Rightarrow> chain_meta \<Rightarrow> projection" where
  "summary steps meta = (let steps_data = map model_dump steps in
     \<lparr>step_count = length steps,
      first_step = (if steps_data = [] then None else Some (hd steps_data)),
      final_step = (if steps_data = [] then None else Some (last steps_data)),
      outcome = derive_outcome steps,
      all_premise_refs = cm_evidence meta @ concat (map premise_refs steps),
      produced_by_model = cm_model meta, produced_by_agent_id = cm_agent meta,
      query_context_hash = cm_query_hash meta, status = cm_status meta, source = cm_source meta,
      chain_conclusion = cm_conclusion meta\<rparr>)"

text \<open>An exception of the compensation replaces the one that started it.\<close>

definition project_chain :: "string \<Rightarrow> string \<Rightarrow> ChainStep list \<Rightarrow> chain_meta \<Rightarrow> unit saga" where
  "project_chain chain_id silo_id steps meta =
     scatch (upsert_reasoning_chain chain_id silo_id (summary steps meta))
       (\<lambda>exc. sbind (compensate chain_id silo_id exc) (\<lambda>_. sraise exc))"

definition write_chain :: "string \<Rightarrow> string \<Rightarrow> ChainStep list \<Rightarrow> chain_meta \<Rightarrow> unit saga" where
  "write_chain chain_id silo_id steps meta =
     sbind (upsert_chain_steps chain_id silo_id (map model_dump steps) (cm_org meta))
       (\<lambda>_. project_chain chain_id silo_id steps meta)"

section \<open>Orphan recovery\<close>

definition MAX_RETRIES :: nat where "MAX_RETRIES = 5"
definition BASE_BACKOFF_MINUTES :: nat where "BASE_BACKOFF_MINUTES = 5"

definition backoff_elapsed :: "nat \<Rightarrow> int option \<Rightarrow> int \<Rightarrow> bool" where
  "backoff_elapsed retries last_retry now = (case last_retry of None \<Rightarrow> True
     | Some t \<Rightarrow> t + 60 * (2 ^ retries * int BASE_BACKOFF_MINUTES) < now)"

definition json_get :: "json \<Rightarrow> string \<Rightarrow> val \<Rightarrow> val" where
  "json_get j k d = (case map_of j k of None \<Rightarrow> d | Some v \<Rightarrow> v)"

text \<open>The steps as the job reads them back: content and index of each.\<close>

fun read_step :: "nat \<times> json \<Rightarrow> json" where
  "read_step (i, s) = [(''content'', json_get s ''content'' (VStr [])),
     (''step_index'', json_get s ''step_index'' (VInt (int i)))]"

definition fetch_chain_from_postgres :: "string \<Rightarrow> (string \<times> json list) saga" where
  "fetch_chain_from_postgres chain_id =
     sbind (select (\<lambda>d. map_of (chain_steps d) chain_id)) (\<lambda>row. case row of
         None \<Rightarrow> sraise ''No steps found''
       | Some r \<Rightarrow> if rc_steps r = [] then sraise ''No steps found''
           else sret (rc_silo r, map read_step (enumerate 0 (rc_steps r))))"

definition delete_orphan :: "string \<Rightarrow> unit saga" where
  "delete_orphan chain_id = update (\<lambda>d. d\<lparr>orphans := AList.delete chain_id (orphans d)\<rparr>)"

definition increment_retry :: "string \<Rightarrow> unit saga" where
  "increment_retry chain_id = sbind utcnow (\<lambda>now. update (\<lambda>d. d\<lparr>orphans :=
     map (\<lambda>(i, oc). (i, if i = chain_id then oc\<lparr>retry_count := Suc (retry_count oc), last_retry_at := Some now\<rparr> else oc))
       (orphans d)\<rparr>))"

definition fetch_orphaned_chains ::
  "((string \<times> OrphanedChains) list \<times> (string \<times> OrphanedChains) list) saga" where
  "fetch_orphaned_chains =
     sbind (select (\<lambda>d. filter (\<lambda>(_, oc). retry_count oc < MAX_RETRIES) (orphans d))) (\<lambda>chains.
     sbind utcnow (\<lambda>now.
     sbind (select (\<lambda>d. filter (\<lambda>(_, oc). MAX_RETRIES \<le> retry_count oc) (orphans d))) (\<lambda>exhausted.
     sret (filter (\<lambda>(_, oc). backoff_elapsed (retry_count oc) (last_retry_at oc) now) chains, exhausted))))"

definition refs_of :: "json \<Rightarrow> string list" where
  "refs_of s = strs_of (map_of s ''premise_refs'')"

definition recovered_summary :: "json list \<Rightarrow> projection" where
  "recovered_summary steps =
     \<lparr>step_count = length steps,
      first_step = (if steps = [] then None else Some (hd steps)),
      final_step = (if steps = [] then None else Some (last steps)),
      outcome = None, all_premise_refs = concat (map refs_of steps),
      produced_by_model = ''unknown'', produced_by_agent_id = ''unknown'', query_context_hash = None,
      status = ''recovered'', source = ''orphan_recovery'', chain_conclusion = None\<rparr>"

fun retry_chains_to_memgraph :: "(string \<times> OrphanedChains) list \<Rightarrow> (nat \<times> nat) saga" where
  "retry_chains_to_memgraph [] = sret (0, 0)"
| "retry_chains_to_memgraph ((chain_id, orphan) # eligible) =
     sbind (scatch
         (sbind (fetch_chain_from_postgres chain_id) (\<lambda>(silo_id, steps).
          sbind (upsert_reasoning_chain chain_id silo_id (recovered_summary steps)) (\<lambda>_.
          sbind (delete_orphan chain_id) (\<lambda>_. sret (1, 0)))))
         (\<lambda>_. sbind (increment_retry chain_id) (\<lambda>_. sret (0, 1)))) (\<lambda>(s, f).
     sbind (retry_chains_to_memgraph eligible) (\<lambda>(ss, fs). sret (s + ss, f + fs)))"

definition orphan_chain_recovery_job :: "(nat \<times> nat) saga" where
  "orphan_chain_recovery_job = sbind fetch_orphaned_chains (\<lambda>(eligible, exhausted). retry_chains_to_memgraph eligible)"

section \<open>Reconciliation\<close>

definition BATCH_LIMIT :: nat where "BATCH_LIMIT = 200"
definition RETRY_THRESHOLD :: nat where "RETRY_THRESHOLD = 3"

definition num_or_zero :: "val \<Rightarrow> real" where
  "num_or_zero v = (case num_of (Some v) of None \<Rightarrow> 0 | Some x \<Rightarrow> x)"

definition reconciled_summary :: "json list \<Rightarrow> projection" where
  "reconciled_summary steps_data =
     (let final_confidence = (if steps_data = [] then 0
            else num_or_zero (json_get (last steps_data) ''confidence'' (VNum 0)));
          text_of = (\<lambda>k. if steps_data = [] then ''unknown''
            else (case json_get (hd steps_data) k (VStr ''unknown'') of VStr s \<Rightarrow> s | _ \<Rightarrow> ''unknown''))
      in \<lparr>step_count = length steps_data,
          first_step = (if steps_data = [] then None else Some (hd steps_data)),
          final_step = (if steps_data = [] then None else Some (last steps_data)),
          outcome = (if 8 / 10 \<le> final_confidence then Some ''success''
                     else if 5 / 10 \<le> final_confidence then Some ''inconclusive'' else Some ''failure''),
          all_premise_refs = concat (map refs_of steps_data),
          produced_by_model = text_of ''produced_by_model'', produced_by_agent_id = text_of ''produced_by_agent_id'',
          query_context_hash = None, status = ''published'', source = ''gc_reconciled'', chain_conclusion = None\<rparr>)"

definition refresh :: "projection \<Rightarrow> projection \<Rightarrow> projection" where
  "refresh p old = old\<lparr>step_count := step_count p, first_step := first_step p, final_step := final_step p,
     outcome := outcome p, all_premise_refs := all_premise_refs p\<rparr>"

text \<open>\<open>MERGE (n:ReasoningChain {id, silo_id})\<close> matches nodes with and without the second label.\<close>

definition merge_reconciled :: "string \<Rightarrow> string \<Rightarrow> projection \<Rightarrow> unit saga" where
  "merge_reconciled chain_id silo_id p = update (\<lambda>d.
     if projected d chain_id silo_id
     then d\<lparr>projections := (projections d)((chain_id, silo_id) := map_option (refresh p) (projections d (chain_id, silo_id))),
            bare := (bare d)((chain_id, silo_id) := map_option (refresh p) (bare d (chain_id, silo_id)))\<rparr>
     else d\<lparr>bare := (bare d)((chain_id, silo_id) \<mapsto> p)\<rparr>)"

definition archive_chain :: "string \<Rightarrow> unit saga" where
  "archive_chain chain_id = update (\<lambda>d. d\<lparr>orphans := AList.delete chain_id (orphans d),
     chain_steps := AList.delete chain_id (chain_steps d)\<rparr>)"

fun reconcile_each :: "(string \<times> OrphanedChains) list \<Rightarrow> (nat \<times> nat) saga" where
  "reconcile_each [] = sret (0, 0)"
| "reconcile_each ((chain_id, row) # rows) =
     sbind (get_chain_steps chain_id) (\<lambda>steps_data.
     sbind (case steps_data of
         None \<Rightarrow> sbind (delete_orphan chain_id) (\<lambda>_. sret (0, 1))
       | Some steps \<Rightarrow>
           scatch (sbind (merge_reconciled chain_id (oc_silo row) (reconciled_summary steps)) (\<lambda>_.
                   sbind (delete_orphan chain_id) (\<lambda>_. sret (1, 0))))
             (\<lambda>_. sbind (archive_chain chain_id) (\<lambda>_. sret (0, 1)))) (\<lambda>(r, a).
     sbind (reconcile_each rows) (\<lambda>(rs, as). sret (r + rs, a + as))))"

definition remove_dangling :: "nat saga" where
  "remove_dangling =
     sbind (select (\<lambda>d. take BATCH_LIMIT (filter (\<lambda>(i, _). map_of (orphans d) i = None) (chain_steps d)))) (\<lambda>dangling_rows.
     if dangling_rows = [] then sret 0
     else sbind (select (\<lambda>d. map fst (filter (\<lambda>(i, row). projected d i (rc_silo row)) dangling_rows))) (\<lambda>present_set.
       let truly_dangling = filter (\<lambda>i. i \<notin> set present_set) (map fst dangling_rows) in
       if truly_dangling = [] then sret 0
       else sbind (update (\<lambda>d. d\<lparr>chain_steps := filter (\<lambda>(i, _). i \<notin> set truly_dangling) (chain_steps d)\<rparr>)) (\<lambda>_.
         sret (length truly_dangling))))"

definition reconcile_orphans :: "(nat \<times> nat \<times> nat) saga" where
  "reconcile_orphans =
     sbind (select (\<lambda>d. take BATCH_LIMIT (filter (\<lambda>(_, oc). RETRY_THRESHOLD < retry_count oc) (orphans d)))) (\<lambda>rows.
     sbind (reconcile_each rows) (\<lambda>(recovered, archived).
     sbind remove_dangling (\<lambda>dangling_removed.
     sret (recovered, archived, dangling_removed))))"

end
