(* ===== verification/ChainStoreCorrect.thy ===== *)
theory ChainStoreCorrect
  imports ChainStore
begin

text \<open>
  What the saga, the recovery of orphans and the reconciliation keep of the correspondence between the
  stored steps and the projections, under failing calls and interleaving.
\<close>

section \<open>Weakest preconditions of calls\<close>

definition after :: "call_env \<Rightarrow> 'a saga \<Rightarrow> (string \<Rightarrow> stores \<Rightarrow> bool) \<Rightarrow> ('a \<Rightarrow> stores \<Rightarrow> bool) \<Rightarrow> stores \<Rightarrow> bool" where
  "after e m E Q d = (case m e d of (Inl x, d') \<Rightarrow> E x d' | (Inr a, d') \<Rightarrow> Q a d')"

lemma after_bind: "after e (sbind m f) E Q = after e m E (\<lambda>a. after e (f a) E Q)"
  by (simp add: fun_eq_iff after_def sbind_def split: prod.splits sum.splits)

lemma after_catch: "after e (scatch m h) E Q = after e m (\<lambda>x. after e (h x) E Q) Q"
  by (simp add: fun_eq_iff after_def scatch_def split: prod.splits sum.splits)

lemma after_basic:
  "after e (sret a) E Q d = Q a d" "after e (sraise x) E Q d = E x d"
  "after e utcnow E Qt d = Qt (time_at e (calls d)) d"
  by (simp_all add: after_def sret_def sraise_def utcnow_def)

lemma after_call:
  "after e (call f) E Q d =
     (if call_fails e (calls d) then E ''store unavailable'' (d\<lparr>calls := Suc (calls d)\<rparr>)
      else (case f d of Inl x \<Rightarrow> E x (d\<lparr>calls := Suc (calls d)\<rparr>)
            | Inr r \<Rightarrow> Q (fst r) ((snd r)\<lparr>calls := Suc (calls d)\<rparr>)))"
  by (simp add: after_def call_def Let_def split: sum.splits prod.splits)

lemma after_update:
  "after e (update f) E Q d =
     (if call_fails e (calls d) then E ''store unavailable'' (d\<lparr>calls := Suc (calls d)\<rparr>)
      else Q () ((f d)\<lparr>calls := Suc (calls d)\<rparr>))"
  "after e (select g) E Qs d =
     (if call_fails e (calls d) then E ''store unavailable'' (d\<lparr>calls := Suc (calls d)\<rparr>)
      else Qs (g d) (d\<lparr>calls := Suc (calls d)\<rparr>))"
  by (simp_all add: update_def select_def after_call)

lemmas after_simps = after_bind after_catch after_basic after_call after_update


lemma after_result: "after e m E Q d \<Longrightarrow> m e d = (r, d') \<Longrightarrow> (case r of Inl x \<Rightarrow> E x d' | Inr a \<Rightarrow> Q a d')"
  by (simp add: after_def split: sum.splits)

lemma map_of_delete [simp]: "map_of (AList.delete k xs) = (map_of xs)(k := None)"
  by (simp add: delete_conv')

section \<open>One write\<close>

definition stored :: "string \<Rightarrow> json list \<Rightarrow> stores \<Rightarrow> bool" where
  "stored chain_id steps d \<longleftrightarrow> map_option rc_steps (map_of (chain_steps d) chain_id) = Some steps"

text \<open>What compensation leaves: the steps deleted, or a dead letter, or four failed calls.\<close>

definition compensated :: "call_env \<Rightarrow> string \<Rightarrow> stores \<Rightarrow> stores \<Rightarrow> bool" where
  "compensated e i d d' \<longleftrightarrow> projections d' = projections d \<and> bare d' = bare d \<and>
     (\<forall>j. j \<noteq> i \<longrightarrow> map_of (chain_steps d') j = map_of (chain_steps d) j \<and> map_of (orphans d') j = map_of (orphans d) j) \<and>
     (map_of (chain_steps d') i = None \<and> orphans d' = orphans d \<or>
      chain_steps d' = chain_steps d \<and> map_of (orphans d') i \<noteq> None \<or>
      chain_steps d' = chain_steps d \<and> orphans d' = orphans d \<and> (\<forall>k < 4. call_fails e (calls d + k)))"

lemma after_compensate:
  assumes "\<And>d'. compensated e i d d' \<Longrightarrow> E' d'"
  shows "after e (compensate i s x) (\<lambda>_. E') (\<lambda>_. E') d"
proof -
  have four: "(\<forall>k < 4. P k) \<longleftrightarrow> P 0 \<and> P (Suc 0) \<and> P (Suc (Suc 0)) \<and> P (Suc (Suc (Suc 0)))" for P :: "nat \<Rightarrow> bool"
    by (simp add: eval_nat_numeral less_Suc_eq all_conj_distrib)
  show ?thesis
    unfolding compensate_def MAX_COMPENSATION_RETRIES_def numeral_3_eq_3 compensate_loop.simps
      delete_chain_steps_def add_orphaned_chain_def after_simps
    by (auto intro!: assms simp: compensated_def four update_conv' map_add_def split: option.split)
qed

lemma after_upsert:
  assumes "\<And>d'. \<lbrakk>chain_steps d' = chain_steps d; projections d' = projections d; bare d' = bare d; orphans d' = orphans d\<rbrakk> \<Longrightarrow> E' d'"
    and "\<And>d'. \<lbrakk>stored i steps d'; projections d' = projections d; bare d' = bare d; orphans d' = orphans d;
      \<forall>j. j \<noteq> i \<longrightarrow> map_of (chain_steps d') j = map_of (chain_steps d) j\<rbrakk> \<Longrightarrow> Q' d'"
  shows "after e (upsert_chain_steps i s steps org) (\<lambda>_. E') (\<lambda>_. Q') d"
  unfolding upsert_chain_steps_def ensure_silo_config_def after_simps
  by (auto simp: after_simps INSERT_STEPS_def stored_def update_conv' map_add_def
      split: option.split intro!: assms)

text \<open>
  C6: what one write of a chain leaves, whichever calls fail.  If it returns, the steps are stored and the
  projection summarises them.  If it raises, no projection changed, and either Postgres is as before,
  or the steps of the chain are deleted, or they are stored and the chain is in the dead-letter table,
  or the four calls of the compensation failed.  No other chain is touched.
\<close>

theorem write_chain_outcomes:
  "case write_chain i s steps meta e d of
     (Inr _, d') \<Rightarrow> stored i (map model_dump steps) d' \<and> orphans d' = orphans d \<and> bare d' = bare d \<and>
        map_option step_count (projections d' (i, s)) = Some (length steps) \<and>
        map_option outcome (projections d' (i, s)) = Some (derive_outcome steps) \<and>
        (\<forall>k. k \<noteq> (i, s) \<longrightarrow> projections d' k = projections d k) \<and>
        (\<forall>j. j \<noteq> i \<longrightarrow> map_of (chain_steps d') j = map_of (chain_steps d) j)
   | (Inl _, d') \<Rightarrow> projections d' = projections d \<and> bare d' = bare d \<and>
        (\<forall>j. j \<noteq> i \<longrightarrow> map_of (chain_steps d') j = map_of (chain_steps d) j \<and> map_of (orphans d') j = map_of (orphans d) j) \<and>
        (chain_steps d' = chain_steps d \<and> orphans d' = orphans d \<or>
         map_of (chain_steps d') i = None \<and> orphans d' = orphans d \<or>
         stored i (map model_dump steps) d' \<and> map_of (orphans d') i \<noteq> None \<or>
         stored i (map model_dump steps) d' \<and> (\<exists>n. \<forall>k < 5. call_fails e (n + k)))"
  (is "case _ of (Inr _, d') \<Rightarrow> ?Q d' | (Inl _, d') \<Rightarrow> ?E d'")
proof -
  have "after e (write_chain i s steps meta) (\<lambda>_. ?E) (\<lambda>_. ?Q) d"
    unfolding write_chain_def after_bind
  proof (rule after_upsert)
    fix d1
    assume d1: "stored i (map model_dump steps) d1" "projections d1 = projections d" "bare d1 = bare d" "orphans d1 = orphans d"
      "\<forall>j. j \<noteq> i \<longrightarrow> map_of (chain_steps d1) j = map_of (chain_steps d) j"
    have failed: "?E d'" if fails: "call_fails e (calls d1)" and c: "compensated e i (d1\<lparr>calls := Suc (calls d1)\<rparr>) d'" for d'
    proof -
      have five: "\<exists>n. \<forall>k < 5. call_fails e (n + k)" if "\<forall>k < 4. call_fails e (Suc (calls d1 + k))"
      proof (intro exI [of _ "calls d1"] allI impI)
        fix k :: nat assume "k < 5"
        with that [rule_format, of "k - 1"] fails show "call_fails e (calls d1 + k)" by (cases k) auto
      qed
      from c d1 five show ?thesis
        unfolding compensated_def by (auto simp: stored_def)
    qed
    show "after e (project_chain i s steps meta) (\<lambda>_. ?E) (\<lambda>_. ?Q) d1"
    proof (cases "call_fails e (calls d1)")
      case True
      then have "after e (compensate i s ''store unavailable'') (\<lambda>_. ?E) (\<lambda>_. ?E) (d1\<lparr>calls := Suc (calls d1)\<rparr>)"
        by (intro after_compensate failed)
      with True show ?thesis
        unfolding project_chain_def upsert_reasoning_chain_def after_simps by simp
    next
      case False
      then show ?thesis
        unfolding project_chain_def upsert_reasoning_chain_def after_simps
        using d1 by (auto simp: stored_def summary_def Let_def split: option.split)
    qed
  qed auto
  then show ?thesis by (auto simp: after_def split: prod.splits sum.splits)
qed

text \<open>
  compensation after a failed update loses the chain: when the chain had been written before and
  only the projection of the new version fails, the steps are deleted while the projection of the old
  version stays, and nothing is left in the dead-letter table.
\<close>

theorem failed_update_loses_steps:
  assumes "map_of (chain_steps d) i = Some row" "cm_org meta = None"
    and "\<not> call_fails e (calls d)" "call_fails e (Suc (calls d))" "\<not> call_fails e (Suc (Suc (calls d)))"
  shows "map_of (chain_steps (snd (write_chain i s steps meta e d))) i = None \<and>
    projections (snd (write_chain i s steps meta e d)) = projections d \<and>
    orphans (snd (write_chain i s steps meta e d)) = orphans d"
proof -
  let ?Q = "\<lambda>d'. map_of (chain_steps d') i = None \<and> projections d' = projections d \<and> orphans d' = orphans d"
  have "after e (write_chain i s steps meta) (\<lambda>_. ?Q) (\<lambda>_. ?Q) d"
    using assms
    by (simp add: write_chain_def project_chain_def upsert_chain_steps_def upsert_reasoning_chain_def
        INSERT_STEPS_def compensate_def MAX_COMPENSATION_RETRIES_def numeral_3_eq_3 delete_chain_steps_def after_simps)
  then show ?thesis by (auto simp: after_def split: prod.splits sum.splits)
qed

section \<open>Reconciliation settles the stores\<close>

lemma projected_calls [simp]:
  "projected (d\<lparr>calls := n\<rparr>) = projected d" "projected (d\<lparr>chain_steps := x\<rparr>) = projected d"
  "projected (d\<lparr>orphans := y\<rparr>) = projected d"
  "projected (d\<lparr>org_preferences := z, silo_configs := u\<rparr>) = projected d"
  "projected (d\<lparr>projections := (projections d)((i, s) \<mapsto> p)\<rparr>) j t = ((j, t) = (i, s) \<or> projected d j t)"
  "projected (d\<lparr>bare := (bare d)((i, s) \<mapsto> p)\<rparr>) j t = ((j, t) = (i, s) \<or> projected d j t)"
  by (auto simp: projected_def fun_eq_iff)

text \<open>Without failing calls a round over the dead letters only takes them away.\<close>

lemma after_reconcile_each:
  assumes "\<And>k. \<not> call_fails e k"
    and "\<And>a d'. \<lbrakk>chain_steps d' = chain_steps d;
      orphans d' = filter (\<lambda>(i, _). i \<notin> fst ` set rows) (orphans d);
      \<forall>i s. i \<notin> fst ` set rows \<longrightarrow> projected d' i s = projected d i s\<rbrakk> \<Longrightarrow> Q a d'"
  shows "after e (reconcile_each rows) (\<lambda>_ _. False) Q d"
  using assms(2)
proof (induction rows arbitrary: d Q)
  case (Cons r rows)
  obtain i oc where r: "r = (i, oc)" by (cases r)
  have gone: "filter (\<lambda>(j, _). j \<notin> fst ` set rows) (AList.delete i xs) =
      filter (\<lambda>(j, _). j \<notin> fst ` set (r # rows)) xs" for xs :: "(string \<times> OrphanedChains) list"
    by (auto simp: AList.delete_eq r intro: filter_cong)
  have rest: "after e (reconcile_each rows) (\<lambda>_ _. False) (\<lambda>a. after e (sret (f a)) (\<lambda>_ _. False) Q) d1"
    if "chain_steps d1 = chain_steps d" "orphans d1 = AList.delete i (orphans d)"
      "\<forall>j s. j \<noteq> i \<longrightarrow> projected d1 j s = projected d j s" for d1 f
  proof (rule Cons.IH)
    fix a and d' :: stores
    assume d': "chain_steps d' = chain_steps d1" "orphans d' = filter (\<lambda>(i, _). i \<notin> fst ` set rows) (orphans d1)"
      "\<forall>i s. i \<notin> fst ` set rows \<longrightarrow> projected d' i s = projected d1 i s"
    show "after e (sret (f a)) (\<lambda>_ _. False) Q d'"
      unfolding after_basic by (rule Cons.prems) (use that d' gone [of "orphans d"] in \<open>simp_all add: r\<close>)
  qed
  show ?case
    unfolding r reconcile_each.simps get_chain_steps_def after_simps
    by (auto simp: assms(1) after_simps delete_orphan_def merge_reconciled_def projected_def split_def
        split: option.split intro!: rest)
qed (simp add: after_simps)

definition tables_ok :: "stores \<Rightarrow> bool" where
  "tables_ok d \<longleftrightarrow> distinct (map fst (chain_steps d)) \<and> distinct (map fst (orphans d)) \<and>
     length (chain_steps d) \<le> BATCH_LIMIT \<and> length (orphans d) \<le> BATCH_LIMIT"

lemma distinct_fst_eq: "distinct (map fst xs) \<Longrightarrow> (i, a) \<in> set xs \<Longrightarrow> (i, b) \<in> set xs \<Longrightarrow> a = b"
  by (metis map_of_eq_Some_iff option.inject)

text \<open>Removing the dangling rows, without failing calls.\<close>

lemma after_remove_dangling:
  assumes "\<And>k. \<not> call_fails e k" "distinct (map fst (chain_steps d))" "length (chain_steps d) \<le> BATCH_LIMIT"
    and "\<And>a d'. \<lbrakk>orphans d' = orphans d; projected d' = projected d;
      chain_steps d' = filter (\<lambda>(i, row). map_of (orphans d) i \<noteq> None \<or> projected d i (rc_silo row)) (chain_steps d)\<rbrakk>
      \<Longrightarrow> Q a d'"
  shows "after e remove_dangling (\<lambda>_ _. False) Q d"
proof -
  let ?dang = "filter (\<lambda>(i, _). map_of (orphans d) i = None) (chain_steps d)"
  let ?here = "map fst (filter (\<lambda>(i, row). projected d i (rc_silo row)) ?dang)"
  let ?gone = "filter (\<lambda>i. i \<notin> set ?here) (map fst ?dang)"
  let ?keep = "filter (\<lambda>(i, row). map_of (orphans d) i \<noteq> None \<or> projected d i (rc_silo row)) (chain_steps d)"
  have limit: "take BATCH_LIMIT ?dang = ?dang"
    using assms(3) le_trans [OF length_filter_le] by (intro take_all) blast
  have iff: "i \<notin> set ?gone \<longleftrightarrow> map_of (orphans d) i \<noteq> None \<or> projected d i (rc_silo row)"
    if "(i, row) \<in> set (chain_steps d)" for i row
    using that distinct_fst_eq [OF assms(2)] by (force simp: image_iff)
  have kept: "filter (\<lambda>(i, _). i \<notin> set ?gone) (chain_steps d) = ?keep"
  proof (rule filter_cong [OF refl])
    fix x assume x: "x \<in> set (chain_steps d)"
    show "(case x of (i, _) \<Rightarrow> i \<notin> set ?gone) =
        (case x of (i, row) \<Rightarrow> map_of (orphans d) i \<noteq> None \<or> projected d i (rc_silo row))"
    proof (cases x)
      case (Pair i row)
      with x iff [of i row] show ?thesis by (simp only: prod.case)
    qed
  qed
  have all: "chain_steps d = ?keep" if "?gone = []"
  proof -
    have "filter (\<lambda>(i, _). i \<notin> set ?gone) (chain_steps d) = chain_steps d"
      unfolding that by simp
    then show ?thesis using kept by (simp only:)
  qed
  have calls_only: "projected (d\<lparr>calls := n\<rparr>) = projected d" for n
    by (simp add: projected_def fun_eq_iff)
  show ?thesis
  proof (cases "?dang = []")
    case True
    then have "?gone = []" by simp
    with True show ?thesis
      unfolding remove_dangling_def after_bind after_update(2) limit
      by (simp only: assms(1) if_False if_True after_basic refl)
        (rule assms(4); simp add: all [OF \<open>?gone = []\<close>, symmetric, simplified])
  next
    case False
    show ?thesis
    proof (cases "?gone = []")
      case True
      with False show ?thesis
        unfolding remove_dangling_def after_bind after_update(2) limit Let_def
        by (simp only: assms(1) if_False after_bind after_update(2) calls_only True if_True after_basic)
          (rule assms(4); simp add: all [OF True, symmetric, simplified])
    next
      case gone: False
      with False show ?thesis
        unfolding remove_dangling_def after_bind after_update(2) limit Let_def
        by (simp only: assms(1) if_False after_bind after_update calls_only if_True after_basic)
          (rule assms(4); simp add: kept [simplified])
    qed
  qed
qed


lemma after_reconcile:
  assumes "\<And>k. \<not> call_fails e k" "distinct (map fst (chain_steps d))" "length (chain_steps d) \<le> BATCH_LIMIT"
    and "\<And>a d'. \<lbrakk>
      orphans d' = filter (\<lambda>(i, _). i \<notin> fst ` set (take BATCH_LIMIT
        (filter (\<lambda>(_, oc). RETRY_THRESHOLD < retry_count oc) (orphans d)))) (orphans d);
      \<forall>i s. map_of (orphans d) i = None \<longrightarrow> projected d' i s = projected d i s;
      chain_steps d' = filter (\<lambda>(i, row). map_of (orphans d') i \<noteq> None \<or> projected d' i (rc_silo row)) (chain_steps d)\<rbrakk>
      \<Longrightarrow> Q a d'"
  shows "after e reconcile_orphans (\<lambda>_ _. False) Q d"
proof -
  let ?rows = "take BATCH_LIMIT (filter (\<lambda>(_, oc). RETRY_THRESHOLD < retry_count oc) (orphans d))"
  have known: "map_of (orphans d) i \<noteq> None" if "i \<in> fst ` set ?rows" for i
    using that by (auto simp: map_of_eq_None_iff dest!: in_set_takeD intro: rev_image_eqI)
  have "after e (reconcile_each ?rows) (\<lambda>_ _. False)
      (\<lambda>(r, a). after e (sbind remove_dangling (\<lambda>n. sret (r, a, n))) (\<lambda>_ _. False) Q) (d\<lparr>calls := Suc (calls d)\<rparr>)"
  proof (rule after_reconcile_each [OF assms(1)])
    fix ra :: "nat \<times> nat" and d1 :: stores
    assume d1: "chain_steps d1 = chain_steps (d\<lparr>calls := Suc (calls d)\<rparr>)"
      "orphans d1 = filter (\<lambda>(i, _). i \<notin> fst ` set ?rows) (orphans (d\<lparr>calls := Suc (calls d)\<rparr>))"
      "\<forall>i s. i \<notin> fst ` set ?rows \<longrightarrow> projected d1 i s = projected (d\<lparr>calls := Suc (calls d)\<rparr>) i s"
    obtain r a where ra: "ra = (r, a)" by (cases ra)
    show "(case ra of (r, a) \<Rightarrow> after e (sbind remove_dangling (\<lambda>n. sret (r, a, n))) (\<lambda>_ _. False) Q) d1"
      unfolding ra prod.case after_bind
    proof (rule after_remove_dangling [OF assms(1)])
      fix n and d2 :: stores
      assume d2: "orphans d2 = orphans d1" "projected d2 = projected d1"
        "chain_steps d2 = filter (\<lambda>(i, row). map_of (orphans d1) i \<noteq> None \<or> projected d1 i (rc_silo row)) (chain_steps d1)"
      show "after e (sret (r, a, n)) (\<lambda>_ _. False) Q d2"
        unfolding after_basic
      proof (rule assms(4))
        show "orphans d2 = filter (\<lambda>(i, _). i \<notin> fst ` set ?rows) (orphans d)"
          using d1(2) d2(1) by simp
        show "\<forall>i s. map_of (orphans d) i = None \<longrightarrow> projected d2 i s = projected d i s"
          using d1(3) d2(2) known by (metis projected_calls)
        show "chain_steps d2 = filter (\<lambda>(i, row). map_of (orphans d2) i \<noteq> None \<or> projected d2 i (rc_silo row)) (chain_steps d)"
          using d1(1) d2 by simp
      qed
    qed (use assms(2,3) d1(1) in simp_all)
  qed
  then show ?thesis
    unfolding reconcile_orphans_def after_bind after_update(2)
    by (simp add: assms(1) split_def after_bind)
qed

text \<open>
  one undisturbed reconciliation settles both stores, as long as a batch holds all of them: afterwards every
  row of steps has its projection or waits in the dead-letter table, no steps are invented, and no chain whose
  retries are spent is left in the dead-letter table.
\<close>

theorem reconcile_settles:
  assumes "\<And>k. \<not> call_fails e k" "tables_ok d"
  shows "(\<forall>(i, row) \<in> set (chain_steps (snd (reconcile_orphans e d))).
       (i, row) \<in> set (chain_steps d) \<and>
       (projected (snd (reconcile_orphans e d)) i (rc_silo row) \<or>
        map_of (orphans (snd (reconcile_orphans e d))) i \<noteq> None)) \<and>
    (\<forall>(i, oc) \<in> set (orphans (snd (reconcile_orphans e d))). (i, oc) \<in> set (orphans d) \<and> retry_count oc \<le> RETRY_THRESHOLD)"
proof -
  let ?Q = "\<lambda>d'. (\<forall>(i, row) \<in> set (chain_steps d'). (i, row) \<in> set (chain_steps d) \<and>
       (projected d' i (rc_silo row) \<or> map_of (orphans d') i \<noteq> None)) \<and>
    (\<forall>(i, oc) \<in> set (orphans d'). (i, oc) \<in> set (orphans d) \<and> retry_count oc \<le> RETRY_THRESHOLD)"
  have "length (filter (\<lambda>(_, oc). RETRY_THRESHOLD < retry_count oc) (orphans d)) \<le> BATCH_LIMIT"
    using assms(2) le_trans [OF length_filter_le] unfolding tables_ok_def by blast
  then have all: "take BATCH_LIMIT (filter (\<lambda>(_, oc). RETRY_THRESHOLD < retry_count oc) (orphans d)) =
      filter (\<lambda>(_, oc). RETRY_THRESHOLD < retry_count oc) (orphans d)" by simp
  have "after e reconcile_orphans (\<lambda>_ _. False) (\<lambda>_. ?Q) d"
  proof (rule after_reconcile)
    fix a :: "nat \<times> nat \<times> nat" and d' :: stores
    assume d': "orphans d' = filter (\<lambda>(i, _). i \<notin> fst ` set (take BATCH_LIMIT
        (filter (\<lambda>(_, oc). RETRY_THRESHOLD < retry_count oc) (orphans d)))) (orphans d)"
      "chain_steps d' = filter (\<lambda>(i, row). map_of (orphans d') i \<noteq> None \<or> projected d' i (rc_silo row)) (chain_steps d)"
    have "retry_count oc \<le> RETRY_THRESHOLD \<and> (i, oc) \<in> set (orphans d)" if "(i, oc) \<in> set (orphans d')" for i oc
      using that unfolding d'(1) all by (force simp: not_less [symmetric])
    moreover have "(i, row) \<in> set (chain_steps d) \<and> (projected d' i (rc_silo row) \<or> map_of (orphans d') i \<noteq> None)"
      if "(i, row) \<in> set (chain_steps d')" for i row
      using that unfolding d'(2) by auto
    ultimately show "?Q d'" by blast
  qed (use assms in \<open>simp_all add: tables_ok_def\<close>)
  then show ?thesis by (auto simp: after_def split: prod.splits sum.splits)
qed


section \<open>A write and a reconciliation interleaved\<close>

lemma after_run:
  "after e m (\<lambda>_ _. False) Q d \<Longrightarrow> \<exists>a. m e d = (Inr a, snd (m e d)) \<and> Q a (snd (m e d))"
  by (cases "m e d"; cases "fst (m e d)") (auto simp: after_def)

lemma upsert_new:
  assumes "\<And>k. \<not> call_fails e k" "map_of (chain_steps d) i = None" "map_of (silo_configs d) s \<noteq> None"
  shows "upsert_chain_steps i s steps None e d =
    (Inr (), d\<lparr>chain_steps := chain_steps d @ [(i, \<lparr>rc_silo = s, rc_steps = steps\<rparr>)], calls := Suc (calls d)\<rparr>)"
  using assms by (simp add: upsert_chain_steps_def sbind_def sret_def call_def INSERT_STEPS_def Let_def)

text \<open>
  the reconciliation can delete the steps of a chain that is being written.  When it runs after the writer
  has stored the steps of a new chain and before it has projected them, the row has neither a projection nor
  a dead letter yet and is removed as dangling; the writer then projects the chain and returns normally, and
  no call failed.
\<close>

theorem reconciliation_deletes_chain_being_written:
  assumes "\<And>k. \<not> call_fails e k" "distinct (map fst (chain_steps d))" "length (chain_steps d) < BATCH_LIMIT"
    and "map_of (silo_configs d) s \<noteq> None" "map_of (chain_steps d) i = None" "map_of (orphans d) i = None"
      "\<not> projected d i s"
  shows "let d1 = snd (upsert_chain_steps i s (map model_dump steps) None e d);
             d2 = snd (reconcile_orphans e d1);
             (result, d3) = project_chain i s steps meta e d2
         in result = Inr () \<and> projections d3 (i, s) = Some (summary steps meta) \<and> map_of (chain_steps d3) i = None"
proof -
  let ?d1 = "d\<lparr>chain_steps := chain_steps d @ [(i, \<lparr>rc_silo = s, rc_steps = map model_dump steps\<rparr>)], calls := Suc (calls d)\<rparr>"
  have "after e reconcile_orphans (\<lambda>_ _. False)
      (\<lambda>_ d'. \<not> projected d' i s \<and> map_of (chain_steps d') i = None) ?d1"
  proof (rule after_reconcile [OF assms(1)])
    fix a :: "nat \<times> nat \<times> nat" and d' :: stores
    assume d': "orphans d' = filter (\<lambda>(i, _). i \<notin> fst ` set (take BATCH_LIMIT
        (filter (\<lambda>(_, oc). RETRY_THRESHOLD < retry_count oc) (orphans ?d1)))) (orphans ?d1)"
      "\<forall>i s. map_of (orphans ?d1) i = None \<longrightarrow> projected d' i s = projected ?d1 i s"
      "chain_steps d' = filter (\<lambda>(i, row). map_of (orphans d') i \<noteq> None \<or> projected d' i (rc_silo row)) (chain_steps ?d1)"
    have p: "\<not> projected d' i s" using d'(2) assms(6,7) by (simp add: projected_def)
    have o': "map_of (orphans d') i = None" using d'(1) assms(6) by (auto simp: map_of_eq_None_iff)
    have "i \<notin> fst ` set (chain_steps d')" using d'(3) p o' assms(5) by (auto simp: map_of_eq_None_iff)
    with p show "\<not> projected d' i s \<and> map_of (chain_steps d') i = None"
      by (simp add: map_of_eq_None_iff)
  qed (use assms(2,3,5) in \<open>auto simp: map_of_eq_None_iff\<close>)
  then have "projections (snd (reconcile_orphans e ?d1)) (i, s) = None"
      "map_of (chain_steps (snd (reconcile_orphans e ?d1))) i = None"
    by (auto dest!: after_run simp: projected_def)
  moreover have "snd (upsert_chain_steps i s (map model_dump steps) None e d) = ?d1"
    using assms upsert_new by simp
  ultimately show ?thesis
    using assms(1)
    by (simp add: Let_def project_chain_def upsert_reasoning_chain_def scatch_def update_def call_def)
qed

section \<open>Every projection keeps its steps\<close>

text \<open>
  The silo a chain belongs to is fixed by its id (\<open>home\<close>).  The correspondence: a projection lies in
  the chain's silo and its steps are stored, and both tables name that silo.
\<close>

definition linked :: "(string \<Rightarrow> string) \<Rightarrow> stores \<Rightarrow> bool" where
  "linked home d \<longleftrightarrow>
     (\<forall>i s. projected d i s \<longrightarrow> s = home i \<and> i \<in> fst ` set (chain_steps d)) \<and>
     (\<forall>(i, row) \<in> set (chain_steps d). rc_silo row = home i) \<and>
     (\<forall>(i, oc) \<in> set (orphans d). oc_silo oc = home i)"




lemma linked_calls [simp]: "linked home (d\<lparr>calls := n\<rparr>) = linked home d"
  by (simp add: linked_def)





















lemma after_either: "after e m (\<lambda>_. P) (\<lambda>_. P) d \<Longrightarrow> P (snd (m e d))"
  by (cases "m e d") (auto simp: after_def split: sum.splits)



text \<open>
  what the recovery job projects of a chain whose dead letter is due: the number of steps is right, but the
  projection has no premise, no outcome and no producer, and its first step has an empty text, because the job
  reads the key \<open>content\<close>, which the stored steps do not have.
\<close>

theorem recovery_loses_content:
  assumes "\<And>k. \<not> call_fails e k" "orphans d = [(i, oc)]" "retry_count oc < MAX_RETRIES" "last_retry_at oc = None"
    and "map_of (chain_steps d) i = Some \<lparr>rc_silo = s, rc_steps = map model_dump steps\<rparr>" "steps \<noteq> []"
  shows "orphans (snd (orphan_chain_recovery_job e d)) = [] \<and>
    (case projections (snd (orphan_chain_recovery_job e d)) (i, s) of
       None \<Rightarrow> False
     | Some p \<Rightarrow> step_count p = length steps \<and> all_premise_refs p = [] \<and> outcome p = None \<and>
         map_option (\<lambda>j. map_of j ''content'') (first_step p) = Some (Some (VStr [])))"
proof -
  let ?p = "recovered_summary (map read_step (enumerate 0 (map model_dump steps)))"
  obtain x xs where steps: "steps = x # xs" using assms(6) by (meson neq_Nil_conv)
  have "refs_of (read_step j) = []" for j by (cases j) (simp add: refs_of_def strs_of_def)
  then have p: "step_count ?p = length steps" "all_premise_refs ?p = []" "outcome ?p = None"
      "map_option (\<lambda>j. map_of j ''content'') (first_step ?p) = Some (Some (VStr []))"
    by (simp_all add: recovered_summary_def steps json_get_def model_dump_def refs_of_def strs_of_def)
  then obtain z where z: "first_step ?p = Some z" "map_of z ''content'' = Some (VStr [])" by auto
  let ?Q = "\<lambda>d'. orphans d' = [] \<and> (case projections d' (i, s) of None \<Rightarrow> False
     | Some p \<Rightarrow> step_count p = length steps \<and> all_premise_refs p = [] \<and> outcome p = None \<and>
         map_option (\<lambda>j. map_of j ''content'') (first_step p) = Some (Some (VStr [])))"
  have "after e orphan_chain_recovery_job (\<lambda>_. ?Q) (\<lambda>_. ?Q) d"
    using assms z
    by (simp add: orphan_chain_recovery_job_def fetch_orphaned_chains_def fetch_chain_from_postgres_def
        upsert_reasoning_chain_def delete_orphan_def after_simps backoff_elapsed_def p split: option.split)
  then show ?thesis by (rule after_either)
qed


section \<open>Witnesses\<close>

definition ex_step :: ChainStep where
  "ex_step = \<lparr>step_index = 0, premise_refs = [''f1''], operation = ''deduce'', conclusion = ''c'', confidence = 9 / 10\<rparr>"

definition ex_meta :: chain_meta where
  "ex_meta = \<lparr>cm_model = ''m'', cm_agent = ''a'', cm_query_hash = None, cm_status = ''published'', cm_source = ''agent'',
     cm_conclusion = None, cm_evidence = [], cm_org = None\<rparr>"

definition ex_rows :: "string list \<Rightarrow> (string \<times> ReasoningChainSteps) list" where
  "ex_rows is = map (\<lambda>i. (i, \<lparr>rc_silo = ''s'', rc_steps = [model_dump ex_step]\<rparr>)) is"

definition ex_dead :: "(string \<times> nat) list \<Rightarrow> (string \<times> OrphanedChains) list" where
  "ex_dead is = map (\<lambda>(i, n). (i, \<lparr>oc_silo = ''s'', retry_count = n, last_error = ''x'', last_retry_at = None\<rparr>)) is"

definition ex_stores :: "string list \<Rightarrow> (string \<times> nat) list \<Rightarrow> stores" where
  "ex_stores is os = \<lparr>org_preferences = [''o''], silo_configs = [(''s'', ''o'')], chain_steps = ex_rows is,
     orphans = ex_dead os, projections = Map.empty, bare = Map.empty, calls = 0\<rparr>"

definition ex_failing :: "nat list \<Rightarrow> call_env" where
  "ex_failing ks = \<lparr>call_fails = (\<lambda>k. k \<in> set ks), time_at = (\<lambda>_. 0)\<rparr>"

lemmas ex_simps = ex_stores_def ex_rows_def ex_dead_def ex_failing_def ex_meta_def

lemma write_chain_outcomes_witness:
  "map_option step_count (projections (snd (write_chain ''c'' ''s'' [ex_step] ex_meta (ex_failing []) (ex_stores [''b''] []))) (''c'', ''s''))
     = Some 1 \<and>
   map_of (chain_steps (snd (write_chain ''c'' ''s'' [ex_step] ex_meta (ex_failing []) (ex_stores [''b''] [])))) ''b'' \<noteq> None"
proof -
  have "fst (write_chain ''c'' ''s'' [ex_step] ex_meta (ex_failing []) (ex_stores [''b''] [])) = Inr ()"
    by (simp add: write_chain_def project_chain_def upsert_chain_steps_def upsert_reasoning_chain_def sbind_def sret_def
        scatch_def call_def update_def INSERT_STEPS_def ex_simps Let_def)
  moreover have "map_of (chain_steps (ex_stores [''b''] [])) ''b'' \<noteq> None" by (simp add: ex_simps)
  ultimately show ?thesis
    using write_chain_outcomes [where i = "''c''" and s = "''s''" and steps = "[ex_step]" and meta = ex_meta and e = "ex_failing []" and d = "ex_stores [''b''] []"]
    by (auto simp: split_beta split: sum.splits)
qed

lemma failed_update_loses_steps_witness:
  "map_of (chain_steps (snd (write_chain ''c'' ''s'' [ex_step] ex_meta (ex_failing [1]) (ex_stores [''c''] [])))) ''c'' = None"
  using failed_update_loses_steps [of "ex_stores [''c''] []" "''c''" "\<lparr>rc_silo = ''s'', rc_steps = [model_dump ex_step]\<rparr>"
      ex_meta "ex_failing [1]" "''s''" "[ex_step]"]
  by (simp add: ex_simps)

lemma reconcile_settles_witness:
  "list_all (\<lambda>(i, row). projected (snd (reconcile_orphans (ex_failing []) (ex_stores [''a'', ''b''] [(''b'', 4)]))) i (rc_silo row) \<or>
      map_of (orphans (snd (reconcile_orphans (ex_failing []) (ex_stores [''a'', ''b''] [(''b'', 4)])))) i \<noteq> None)
    (chain_steps (snd (reconcile_orphans (ex_failing []) (ex_stores [''a'', ''b''] [(''b'', 4)]))))"
  using reconcile_settles [of "ex_failing []" "ex_stores [''a'', ''b''] [(''b'', 4)]"]
  by (simp add: list_all_iff tables_ok_def BATCH_LIMIT_def ex_simps split_def)

lemma reconciliation_deletes_chain_being_written_witness:
  "let d1 = snd (upsert_chain_steps ''c'' ''s'' (map model_dump [ex_step]) None (ex_failing []) (ex_stores [] []));
       d2 = snd (reconcile_orphans (ex_failing []) d1);
       (result, d3) = project_chain ''c'' ''s'' [ex_step] ex_meta (ex_failing []) d2
   in result = Inr () \<and> projections d3 (''c'', ''s'') = Some (summary [ex_step] ex_meta) \<and> map_of (chain_steps d3) ''c'' = None"
  by (rule reconciliation_deletes_chain_being_written) (simp_all add: ex_simps BATCH_LIMIT_def projected_def)



lemma recovery_loses_content_witness:
  "orphans (snd (orphan_chain_recovery_job (ex_failing []) (ex_stores [''c''] [(''c'', 1)]))) = []"
  using recovery_loses_content [of "ex_failing []" "ex_stores [''c''] [(''c'', 1)]" "''c''"
      "\<lparr>oc_silo = ''s'', retry_count = 1, last_error = ''x'', last_retry_at = None\<rparr>" "''s''" "[ex_step]"]
  by (simp add: ex_simps MAX_RETRIES_def)

end
