(* ===== verification/TextExtractionCorrect.thy ===== *)
theory TextExtractionCorrect
  imports TextExtraction
begin

text \<open>
  Whatever JSON the language model answers, \<open>extract_from\<close> yields well-typed relationships; ids determine
  the claims they stand for when the fields are free of the separator; jobs survive their serialisation.
\<close>

section \<open>Typing of extracted relationships\<close>

lemma lower_char_idem [simp]: "lower_char (lower_char c) = lower_char c"
proof -
  have "of_char (char_of (of_char c + 32 :: nat) :: char) = (of_char c + 32 :: nat)" if "(of_char c :: nat) \<le> 90"
    using that by (simp add: of_char_of take_bit_eq_mod)
  then show ?thesis by (auto simp: lower_char_def Let_def)
qed

definition typed :: "ExtractedRelationship \<Rightarrow> bool" where
  "typed r \<longleftrightarrow> jtruthy (source r) \<and> jtruthy (target r) \<and> 0 \<le> confidence r \<and> confidence r \<le> 1 \<and>
     temporal r \<in> {JNull, JStr ''past'', JStr ''future''} \<and>
     (\<forall>c \<in> set (kind r). c \<noteq> CHR '' '' \<and> lower_char c = c)"

text \<open>What a raw relationship becomes; the dataclass never rejects a normalised one.\<close>

definition relationship_of :: "python \<Rightarrow> (string \<times> jvalue) list \<Rightarrow> real \<Rightarrow> ExtractedRelationship" where
  "relationship_of py r c = (let rel_type = normalize_type (py_str py (first_of r [''relationship_type'', ''type'', ''relation'', ''rel_type''])) in
     \<lparr>source = first_of r [''source'', ''from'', ''src'', ''source_entity''],
      target = first_of r [''target'', ''to'', ''tgt'', ''target_entity''],
      relationship_type = rel_type, kind = normalize_kind py (jget r ''kind'' JNull),
      directed = parse_directed r rel_type, confidence = clamp01 c, temporal = parse_temporal r,
      source_node_ids = parse_source_node_ids py r\<rparr>)"

lemma post_init_accepts: "post_init (relationship_of py r c) = Inr (relationship_of py r c)"
  by (auto simp: post_init_def relationship_of_def parse_temporal_def Let_def)

lemma parse_relationship_eq:
  "parse_relationship py r =
     (if \<not> has_parts r then Inr None
      else case float_or_one py (jget r ''confidence'' (JNum 1)) of Inl x \<Rightarrow> Inl x
        | Inr c \<Rightarrow> Inr (Some (relationship_of py r c)))"
  unfolding parse_relationship_def relationship_of_def Let_def
    post_init_accepts [unfolded relationship_of_def Let_def] by (simp only: sum.case)

lemma kind_chars: "c \<in> set (normalize_kind py v) \<Longrightarrow> c \<noteq> CHR '' '' \<and> lower_char c = c"
proof -
  have "lower_char CHR ''_'' = CHR ''_''" by (simp add: lower_char_def)
  then show "c \<in> set (normalize_kind py v) \<Longrightarrow> c \<noteq> CHR '' '' \<and> lower_char c = c"
    by (auto simp: normalize_kind_def replace_char_def split: if_splits)
qed

lemma typed_relationship_of: "has_parts r \<Longrightarrow> typed (relationship_of py r c)"
  using kind_chars by (auto simp: typed_def relationship_of_def has_parts_def parse_temporal_def Let_def)

lemma traverse_results:
  assumes "traverse f xs = Inr ys" "y \<in> set ys"
  shows "\<exists>x \<in> set xs. f x = Inr (Some y)"
  using assms by (induction xs arbitrary: ys) (auto split: sum.splits option.splits)

lemma traverse_map: "traverse f (map g xs) = traverse (f \<circ> g) xs"
  by (induction xs) (auto split: sum.split)

lemma traverse_related:
  assumes "traverse f xs = Inr ys"
    and "\<And>x. x \<in> set xs \<Longrightarrow> \<not> P x \<Longrightarrow> f x = Inr None"
    and "\<And>x z. x \<in> set xs \<Longrightarrow> P x \<Longrightarrow> f x = Inr z \<Longrightarrow> \<exists>y. z = Some y \<and> R x y"
  shows "list_all2 R (filter P xs) ys"
  using assms
proof (induction xs arbitrary: ys)
  case (Cons x xs)
  from Cons.prems(1) obtain z zs where z: "f x = Inr z" "traverse f xs = Inr zs"
      "ys = (case z of None \<Rightarrow> zs | Some y \<Rightarrow> y # zs)"
    by (auto split: sum.splits)
  have "list_all2 R (filter P xs) zs" using Cons.IH [OF z(2)] Cons.prems(2,3) by simp
  with z Cons.prems(2,3) [of x] show ?case by (cases "P x") auto
qed simp

lemma extract_relationships:
  assumes "extract_from py llm content = Inr res" "r \<in> set (relationships res)"
  shows "\<exists>kvs c. has_parts kvs \<and> r = relationship_of py kvs c"
proof -
  from assms obtain raw rels where *: "each_obj (parse_relationship py) (jget raw ''relationships'' (JList [])) = Inr rels"
      "r \<in> set (take MAX_RELATIONSHIPS rels)"
    by (auto simp: extract_from_def split: if_splits sum.splits)
  then have "r \<in> set rels" by (auto dest: in_set_takeD)
  with * obtain kvs where "parse_relationship py kvs = Inr (Some r)"
    by (auto simp: each_obj_def split: sum.splits dest!: traverse_results)
  then show ?thesis by (auto simp: parse_relationship_eq split: if_splits sum.splits)
qed

text \<open>
  C34: whatever JSON the language model answers, a relationship that leaves the extraction is well typed: it has
  both ends, its type is one of the closed vocabulary, its confidence lies between 0 and 1, its time is past,
  future or none, its kind is in lower case without blanks; and there are at most five hundred.
\<close>

theorem extracted_relationships_typed:
  assumes "extract_from py llm content = Inr res"
  shows "list_all typed (relationships res) \<and> length (relationships res) \<le> MAX_RELATIONSHIPS \<and>
    list_all (\<lambda>r. relationship_type r \<in> set relationship_types) (relationships res)"
proof -
  have "typed r" if "r \<in> set (relationships res)" for r
    using extract_relationships [OF assms that] typed_relationship_of by blast
  moreover have "t \<in> set relationship_types" for t by (cases t) (simp_all add: relationship_types_def)
  moreover have "length (relationships res) \<le> MAX_RELATIONSHIPS"
    using assms by (auto simp: extract_from_def split: if_splits sum.splits)
  ultimately show ?thesis by (simp add: list_all_iff)
qed

text \<open>
  nothing else is lost: the relationships extracted from a list of objects are, in order and up to the limit,
  exactly those that name both ends and a type, each with the ends it names and the type its text stands for;
  the dataclass rejects none of them.
\<close>

theorem extraction_keeps_every_relationship:
  assumes "extract_from py llm content = Inr res" "llm content = Inr raw"
    and "jget raw ''relationships'' (JList []) = JList (map JObj rs)"
  shows "list_all2 (\<lambda>r rel. source rel = first_of r [''source'', ''from'', ''src'', ''source_entity''] \<and>
       target rel = first_of r [''target'', ''to'', ''tgt'', ''target_entity''] \<and>
       relationship_type rel = normalize_type (py_str py (first_of r [''relationship_type'', ''type'', ''relation'', ''rel_type''])) \<and>
       directed rel = parse_directed r (relationship_type rel))
     (take MAX_RELATIONSHIPS (filter has_parts rs)) (relationships res)"
proof -
  let ?R = "\<lambda>r rel. \<exists>c. rel = relationship_of py r c"
  from assms obtain rels where rels: "traverse (parse_relationship py) rs = Inr rels"
      "relationships res = take MAX_RELATIONSHIPS rels"
    by (auto simp: extract_from_def each_obj_def traverse_map comp_def split: if_splits sum.splits)
  have "list_all2 ?R (filter has_parts rs) rels"
    by (rule traverse_related [OF rels(1)]) (auto simp: parse_relationship_eq split: sum.splits)
  then have "list_all2 ?R (take MAX_RELATIONSHIPS (filter has_parts rs)) (relationships res)"
    unfolding rels(2) by (rule list_all2_takeI)
  then show ?thesis
    by (rule list_all2_mono) (elim exE, simp only: relationship_of_def Let_def ExtractedRelationship.simps simp_thms)
qed

text \<open>
  the name of every type of the vocabulary is read back as the type, also in lower case and with blanks or
  dashes for the underscores; a text that names no type and no synonym is read as the fallback.
\<close>

theorem relationship_type_roundtrip:
  "normalize_type (type_value t) = t \<and>
   normalize_type (replace_char (CHR ''_'') (CHR '' '') (map lower_char (type_value t))) = t \<and>
   normalize_type (replace_char (CHR ''_'') (CHR ''-'') (type_value t)) = t"
  by (cases t; hypsubst_thin; code_simp)

section \<open>Ids\<close>

lemma append_colon_inj:
  assumes "a @ '':'' @ x = b @ '':'' @ y" "CHR '':'' \<notin> set a" "CHR '':'' \<notin> set b"
  shows "a = b \<and> x = y"
  using assms
proof (induction a arbitrary: b)
  case Nil
  then show ?case by (cases b) auto
next
  case (Cons c a)
  then show ?case by (cases b) auto
qed

lemma colon_append_inj:
  assumes "x @ '':'' @ a = y @ '':'' @ b" "CHR '':'' \<notin> set a" "CHR '':'' \<notin> set b"
  shows "x = y \<and> a = b"
proof -
  have "rev a @ '':'' @ rev x = rev b @ '':'' @ rev y"
    using arg_cong [OF assms(1), of rev] by simp
  from append_colon_inj [OF this] assms(2,3) show ?thesis by simp
qed

text \<open>
  the id of a claim without an end date determines the claim: under a hash without collisions, two claims whose
  subject, predicate, object and document contain no colon have the same id only when subject,
  predicate, object, start and document agree (the start is a timestamp, which does contain colons).
\<close>

theorem claim_id_separates:
  assumes "inj sha256" "\<forall>x \<in> {s, p, o', d, s2, p2, o2, d2}. CHR '':'' \<notin> set x"
    and "claim_id sha256 s p o' f None d = claim_id sha256 s2 p2 o2 f2 None d2"
  shows "s = s2 \<and> p = p2 \<and> o' = o2 \<and> f = f2 \<and> d = d2"
proof -
  from assms(1,3) have eq: "s @ '':'' @ (p @ '':'' @ (o' @ '':'' @ (f @ '':'' @ '':'' @ d))) =
      s2 @ '':'' @ (p2 @ '':'' @ (o2 @ '':'' @ (f2 @ '':'' @ '':'' @ d2)))"
    by (auto simp: claim_id_def or_else_def dest: injD)
  have s: "s = s2" "p @ '':'' @ (o' @ '':'' @ (f @ '':'' @ '':'' @ d)) = p2 @ '':'' @ (o2 @ '':'' @ (f2 @ '':'' @ '':'' @ d2))"
    using append_colon_inj [OF eq] assms(2) by auto
  have p: "p = p2" "o' @ '':'' @ (f @ '':'' @ '':'' @ d) = o2 @ '':'' @ (f2 @ '':'' @ '':'' @ d2)"
    using append_colon_inj [OF s(2)] assms(2) by auto
  have o: "o' = o2" "f @ '':'' @ '':'' @ d = f2 @ '':'' @ '':'' @ d2"
    using append_colon_inj [OF p(2)] assms(2) by auto
  then have "(f @ '':'') @ '':'' @ d = (f2 @ '':'') @ '':'' @ d2" by simp
  from colon_append_inj [OF this] assms(2) have "f = f2" "d = d2" by auto
  with s p o show ?thesis by simp
qed

text \<open>
  with a colon in a field the id does not separate claims: moving the colon from the end of the subject to
  the front of the predicate changes the claim and keeps its id, whatever the hash.
\<close>

theorem claim_id_collision:
  "claim_id sha256 (s @ '':'' @ x) p o' f t d = claim_id sha256 s (x @ '':'' @ p) o' f t d"
  by (simp add: claim_id_def)

text \<open>
  the id of a contradiction names the unordered pair: under a hash without collisions two pairs of fingerprints
  without colons have the same id exactly when they are the same pair in either order.
\<close>

theorem contradicts_edge_id_pairs:
  assumes "inj sha256" "\<forall>x \<in> {a, b, c, d}. CHR '':'' \<notin> set x"
  shows "contradicts_edge_id sha256 a b = contradicts_edge_id sha256 c d \<longleftrightarrow> {a, b} = {c, d}"
proof
  assume "contradicts_edge_id sha256 a b = contradicts_edge_id sha256 c d"
  then have "(if str_le a b then a @ '':'' @ b else b @ '':'' @ a) = (if str_le c d then c @ '':'' @ d else d @ '':'' @ c)"
    using assms(1) by (auto simp: contradicts_edge_id_def dest: injD split: if_splits)
  then show "{a, b} = {c, d}"
    using assms(2) by (auto split: if_splits dest!: append_colon_inj [simplified])
next
  assume "{a, b} = {c, d}"
  then have "a = c \<and> b = d \<or> a = d \<and> b = c" by (auto simp: doubleton_eq_iff)
  then show "contradicts_edge_id sha256 a b = contradicts_edge_id sha256 c d"
    using str_le_total [of a b] str_le_antisym [of a b] by (auto simp: contradicts_edge_id_def)
qed

section \<open>Jobs\<close>

lemma status_roundtrip [simp]: "status_of_value (status_value s) = Some s"
  by (cases s; hypsubst_thin; code_simp)

text \<open>
  a job read back from the job store is the job that was saved, except for the ids of its claims, which
  the dictionary does not carry: they come back empty.
\<close>

theorem job_roundtrip:
  assumes "\<And>t. fromisoformat (isoformat t) = Some t"
  shows "from_dict fromisoformat now (to_dict isoformat j) = Some (j\<lparr>claim_node_ids := []\<rparr>)"
  by (cases "error j"; cases "completed_at j")
    (simp_all add: from_dict_def to_dict_def read_str_def read_int_def assms)

section \<open>Witnesses\<close>

definition ex_python :: python where
  "ex_python = \<lparr>repr_of = (\<lambda>_. ''1''), float_of = (\<lambda>_. None)\<rparr>"

definition ex_raw :: "(string \<times> jvalue) list" where
  "ex_raw = [(''source'', JStr ''api''), (''to'', JStr ''module''), (''type'', JStr ''part of''), (''confidence'', JNum 2)]"

definition ex_answer :: "string \<Rightarrow> exn + (string \<times> jvalue) list" where
  "ex_answer _ = Inr [(''relationships'', JList [JObj ex_raw])]"

definition ex_extracted :: ExtractionResult where
  "ex_extracted = \<lparr>entities = [], relationships = [\<lparr>source = JStr ''api'', target = JStr ''module'',
     relationship_type = COMPOSES, kind = [], directed = True, confidence = 1, temporal = JNull, source_node_ids = []\<rparr>]\<rparr>"

lemma ex_extract: "extract_from ex_python ex_answer ''text'' = Inr ex_extracted"
proof -
  have t: "normalize_type ''part of'' = COMPOSES" by code_simp
  have k: "normalize_kind ex_python JNull = []" by code_simp
  have raw: "has_parts ex_raw" by code_simp
  show ?thesis
    by (simp add: extract_from_def ex_answer_def each_obj_def jget_def parse_relationship_eq raw)
      (simp add: ex_raw_def relationship_of_def jget_def py_str_def t k parse_directed_def SYMMETRIC_RELATIONSHIP_TYPES_def
        parse_temporal_def parse_source_node_ids_def clamp01_def ex_extracted_def MAX_CONTENT_SIZE_def MAX_RELATIONSHIPS_def Let_def)
qed

lemma extracted_relationships_typed_witness: "list_all typed (relationships ex_extracted)"
  using extracted_relationships_typed [OF ex_extract] by simp

lemma extraction_keeps_every_relationship_witness:
  "map relationship_type (relationships ex_extracted) = [normalize_type ''part of'']"
proof -
  have raw: "has_parts ex_raw" by code_simp
  have "list_all2 (\<lambda>r rel. relationship_type rel =
      normalize_type (py_str ex_python (first_of r [''relationship_type'', ''type'', ''relation'', ''rel_type''])))
      (take MAX_RELATIONSHIPS (filter has_parts [ex_raw])) (relationships ex_extracted)"
    by (rule list_all2_mono [OF extraction_keeps_every_relationship [OF ex_extract, of "[(''relationships'', JList [JObj ex_raw])]"]])
      (simp_all add: ex_answer_def jget_def)
  then have "list_all2 (\<lambda>r rel. relationship_type rel =
      normalize_type (py_str ex_python (first_of r [''relationship_type'', ''type'', ''relation'', ''rel_type''])))
      [ex_raw] (relationships ex_extracted)"
    by (simp only: raw filter.simps if_True MAX_RELATIONSHIPS_def) simp
  then show ?thesis by (simp add: ex_extracted_def ex_raw_def jget_def py_str_def)
qed

lemma claim_id_separates_witness:
  "claim_id (\<lambda>x. x) ''a'' ''b'' ''c'' ''12:00'' None ''d'' \<noteq> claim_id (\<lambda>x. x) ''a'' ''b'' ''e'' ''12:00'' None ''d''"
  using claim_id_separates [of "\<lambda>x. x" "''a''" "''b''" "''c''" "''d''" "''a''" "''b''" "''e''" "''d''" "''12:00''" "''12:00''"]
  by auto

lemma contradicts_edge_id_pairs_witness:
  "contradicts_edge_id (\<lambda>x. x) ''a'' ''b'' = contradicts_edge_id (\<lambda>x. x) ''b'' ''a''"
  using contradicts_edge_id_pairs [of "\<lambda>x. x" "''a''" "''b''" "''b''" "''a''"] by (simp add: insert_commute)

text \<open>A time in unary, with its sign.\<close>

definition ex_iso :: "int \<Rightarrow> string" where
  "ex_iso t = (if t < 0 then ''-'' else ''+'') @ replicate (nat \<bar>t\<bar>) (CHR ''1'')"

definition ex_from_iso :: "string \<Rightarrow> int option" where
  "ex_from_iso s = (case s of [] \<Rightarrow> None
     | c # cs \<Rightarrow> Some (if c = CHR ''-'' then - int (length cs) else int (length cs)))"

definition ex_job :: ExtractionJob where
  "ex_job = \<lparr>job_id = ''j'', job_node = ''n'', job_silo = ''s'', job_status = COMPLETED, entity_count = 2,
     relationship_count = 1, claim_node_ids = [''c''], error = None, created_at = 3, completed_at = Some 5, cost_usd = 0\<rparr>"

lemma job_roundtrip_witness:
  "from_dict ex_from_iso 0 (to_dict ex_iso ex_job) = Some (ex_job\<lparr>claim_node_ids := []\<rparr>)"
  by (rule job_roundtrip) (simp add: ex_iso_def ex_from_iso_def)

end
