(* ===== verification/ClaimFilterCorrect.thy ===== *)
theory ClaimFilterCorrect
  imports ClaimFilter
begin

text \<open>
  What the extraction filter guarantees: why a claim can be dropped, what is left of it when the
  oracles are down, that every dropped claim and no other is audited, and that the circuit breaker
  bounds the calls of a batch to a failing oracle.  A silo override, meant only to relax the base
  rules, can make the filter drop more.
\<close>

section \<open>Calls leave the rest of the state alone\<close>

lemma on_cb_frame:
  assumes "on_cb e rule_silo service n w c f st = (r, st')"
  shows "buf st' = buf st \<and> inserted st' = inserted st \<and> cached st' = cached st \<and>
    wikidata_calls st' = wikidata_calls st \<and> llm_calls st' = llm_calls st"
  using assms by (auto simp: on_cb_def next_call_def split: option.splits prod.splits)

lemma calls_frame:
  "cache_get e key st = (r, st1) \<Longrightarrow> buf st1 = buf st \<and> inserted st1 = inserted st \<and> cached st1 = cached st"
  "ask_wikidata e c st = (a, st2) \<Longrightarrow> buf st2 = buf st \<and> inserted st2 = inserted st \<and> cached st2 = cached st"
  "complete e c st = (b, st3) \<Longrightarrow> buf st3 = buf st \<and> inserted st3 = inserted st \<and> cached st3 = cached st"
  "buf (cache_set e rs key p st) = buf st" "inserted (cache_set e rs key p st) = inserted st"
  by (auto simp: cache_get_def ask_wikidata_def complete_def cache_set_def next_call_def Let_def)

lemma wikidata_frame:
  assumes "wikidata_evaluate e rs rule_silo c st = (d, st')"
  shows "buf st' = buf st \<and> inserted st' = inserted st"
  using assms unfolding wikidata_evaluate_def on_wikidata_cb_def
  by (auto simp: Let_def calls_frame dest!: calls_frame(1,2) on_cb_frame
      split: prod.splits option.splits if_splits sum.splits) (metis on_cb_frame prod.collapse)+

lemma llm_frame:
  assumes "llm_evaluate e rs rule_silo c st = (d, st')"
  shows "buf st' = buf st \<and> inserted st' = inserted st \<and> cached st' = cached st"
  using assms unfolding llm_evaluate_def on_llm_cb_def
  by (auto simp: Let_def dest!: calls_frame(3) on_cb_frame
      split: prod.splits option.splits if_splits sum.splits) (metis on_cb_frame prod.collapse)+

lemma evaluate_one_frame:
  assumes "evaluate_one e rs rule_silo c st = (d, st')"
  shows "buf st' = buf st \<and> inserted st' = inserted st"
  using assms unfolding evaluate_one_def
  by (auto simp: Let_def dest!: wikidata_frame llm_frame split: prod.splits option.splits if_splits)

section \<open>Why a claim is dropped\<close>

lemma wikidata_drops:
  assumes "wikidata_evaluate e rs rule_silo c st = (Some d, st')"
  shows "rule_fired d = EXTERNAL_FAILURE \<and> action d = Keep \<or>
    d = drop_claim WIKIDATA ''wikidata_present'' \<and>
    ((\<exists>expiry. cached st (cache_key e c) = Some (True, expiry)) \<or> (\<exists>k. answers e k c = Inr True))"
  using assms unfolding wikidata_evaluate_def
  by (auto simp: Let_def decision_from_present_def external_failure_def keep_def cache_get_def next_call_def ask_wikidata_def
      split: prod.splits option.splits if_splits sum.splits)

lemma llm_decides:
  assumes "llm_evaluate e rs rule_silo c st = (d, st')"
  shows "\<exists>d'. d = Some d' \<and> (rule_fired d' = EXTERNAL_FAILURE \<and> action d' = Keep \<or>
    (\<exists>k reply x. replies e k c = Inr reply \<and> search_score False reply = Some x \<and> d' = score_decision e rs (clamp01 x)))"
  using assms unfolding llm_evaluate_def
  by (auto simp: Let_def external_failure_def keep_def complete_def
      split: prod.splits option.splits if_splits sum.splits)

text \<open>The local rules, in terms of the four sets.\<close>

definition both_public :: "FilterRuleSet \<Rightarrow> ClaimTriple \<Rightarrow> bool" where
  "both_public rs c \<longleftrightarrow> fst (snd (canon c)) \<in> set (public_entity_allowlist rs) \<and>
     snd (snd (canon c)) \<in> set (public_entity_allowlist rs)"

definition suspect :: "FilterRuleSet \<Rightarrow> ClaimTriple \<Rightarrow> bool" where
  "suspect rs c \<longleftrightarrow> fst (canon c) \<in> set (suspect_predicates rs)"

definition never_filtered :: "FilterRuleSet \<Rightarrow> ClaimTriple \<Rightarrow> bool" where
  "never_filtered rs c \<longleftrightarrow> fst (canon c) \<in> set (never_filter_predicates rs)"

lemma heuristic_cases:
  "rule_3_heuristic c rs =
     (if never_filtered rs c then None
      else if \<not> suspect rs c then Some (keep HEURISTIC ''not_suspect_predicate'')
      else if both_public rs c then Some (drop_claim HEURISTIC ''both_public_suspect_predicate'') else None)"
  by (simp add: rule_3_heuristic_def never_filtered_def suspect_def both_public_def split: prod.split)

text \<open>
  C30: a claim is dropped only for one of four reasons, and the decision names the one that applies.
  It is in the hard-drop list; or Wikidata knows it, by the cache or by a call; or its predicate is suspect, not exempt,
  and both its ends are public; or the language model was asked, because the predicate is exempt
  or suspect, and scored it at the threshold or above.
\<close>

theorem dropped_for_a_reason:
  assumes "evaluate_one e rs rule_silo c st = (d, st')" "action d = Drop"
  shows "case rule_fired d of
       HARD_DROP \<Rightarrow> canon c \<in> set (hard_drop_triples rs)
     | WIKIDATA \<Rightarrow> (\<exists>expiry. cached st (cache_key e c) = Some (True, expiry)) \<or> (\<exists>k. answers e k c = Inr True)
     | HEURISTIC \<Rightarrow> suspect rs c \<and> \<not> never_filtered rs c \<and> both_public rs c
     | LLM_CONFIDENCE \<Rightarrow> (never_filtered rs c \<or> suspect rs c \<and> \<not> both_public rs c) \<and>
         (\<exists>k reply x. replies e k c = Inr reply \<and> search_score False reply = Some x \<and>
            llm_score d = Some (clamp01 x) \<and> llm_threshold rs \<le> clamp01 x)
     | _ \<Rightarrow> False"
proof (cases "canon c \<in> set (hard_drop_triples rs)")
  case True
  then show ?thesis using assms by (auto simp: evaluate_one_def rule_1_hard_drop_def drop_claim_def split: RuleFired.split)
next
  case False
  obtain d2 st2 where w: "wikidata_evaluate e rs rule_silo c st = (d2, st2)" by (metis surj_pair)
  show ?thesis
  proof (cases "d2 \<noteq> None \<and> rule_fired (the d2) \<noteq> EXTERNAL_FAILURE")
    case True
    then obtain d' where d': "d2 = Some d'" by blast
    have "d = d'" using assms False w d' True by (simp add: evaluate_one_def rule_1_hard_drop_def)
    then show ?thesis using wikidata_drops [OF w [unfolded d']] True d' assms(2) by (auto simp: drop_claim_def)
  next
    case notdec: False
    obtain d4 st4 where l: "llm_evaluate e rs rule_silo c st2 = (d4, st4)" by (metis surj_pair)
    show ?thesis
      using llm_decides [OF l] assms False w notdec l
      by (auto simp: evaluate_one_def rule_1_hard_drop_def heuristic_cases keep_def drop_claim_def score_decision_def
          split: if_splits) blast+
  qed
qed

section \<open>The audit\<close>

text \<open>The audit rows of a batch: one for each claim dropped, in order.\<close>

definition audited :: "FilterRuleSet \<Rightarrow> string \<Rightarrow> string option \<Rightarrow> ClaimTriple list \<Rightarrow> FilterDecision list \<Rightarrow> audit_row list" where
  "audited rs silo_id model cs ds =
     map (\<lambda>(c, d). audit_of rs silo_id model c d) (filter (\<lambda>(_, d). action d = Drop) (zip cs ds))"

lemma evaluate_each_audit:
  assumes "evaluate_each e rs rule_silo silo_id model cs st = (ds, st')"
  shows "length ds = length cs \<and> inserted st' = inserted st \<and> buf st' = buf st @ audited rs silo_id model cs ds"
  using assms
proof (induction cs arbitrary: st ds st')
  case (Cons c cs)
  obtain d st1 where one: "evaluate_one e rs rule_silo c st = (d, st1)" by (metis surj_pair)
  let ?st2 = "record_decision rs silo_id model c d st1"
  obtain ds' st3 where more: "evaluate_each e rs rule_silo silo_id model cs ?st2 = (ds', st3)" by (metis surj_pair)
  have "ds = d # ds'" "st' = st3" using Cons.prems one more by simp_all
  then show ?case
    using Cons.IH [OF more] evaluate_one_frame [OF one]
    by (cases "action d") (simp_all add: record_decision_def audited_def)
qed (simp add: audited_def)

lemma flush_rows: "inserted (flush e st) @ buf (flush e st) = inserted st @ buf st"
  by (simp add: flush_def next_call_def)

text \<open>
  the audit is complete.  There is one decision for each claim, and the rows the writer has
  received followed by the rows still in the buffer are those from before and, in the order of the
  claims, one row for each claim of this call that was dropped; a failing writer loses none.
\<close>

theorem filter_audits_drops:
  "case evaluate e rs rule_silo silo_id model cs st of (ds, st') \<Rightarrow>
     length ds = length cs \<and>
     inserted st' @ buf st' = inserted st @ buf st @ audited rs silo_id model cs ds"
proof (cases "enabled rs")
  case True
  obtain ds st' where run: "evaluate_each e rs rule_silo silo_id model cs st = (ds, st')" by (metis surj_pair)
  then show ?thesis
    using evaluate_each_audit [OF run] True by (simp add: evaluate_def flush_rows del: flush_def)
next
  case False
  have "filter (\<lambda>(_, d). action d = Drop) (zip cs (map (\<lambda>_. keep KEPT ''filter_disabled'') cs)) = []"
    by (auto simp: filter_empty_conv keep_def in_set_zip)
  then show ?thesis using False by (simp add: evaluate_def audited_def)
qed

section \<open>Failing open\<close>

text \<open>
  the filter fails open.  When Redis, Wikidata and the language model all fail, every claim is
  decided by the two local rules, and is kept where they are silent.
\<close>

definition local_decision :: "FilterRuleSet \<Rightarrow> ClaimTriple \<Rightarrow> FilterDecision" where
  "local_decision rs c =
     (case rule_1_hard_drop c rs of Some d \<Rightarrow> d
      | None \<Rightarrow> (case rule_3_heuristic c rs of Some d \<Rightarrow> d | None \<Rightarrow> keep KEPT ''all_rules_inconclusive''))"

definition outage :: "filter_env \<Rightarrow> bool" where
  "outage e \<longleftrightarrow> (\<forall>k. redis_fails e k) \<and> (\<forall>k c. isl (answers e k c)) \<and> (\<forall>k c. isl (replies e k c))"

lemma evaluate_one_outage:
  assumes "outage e" "evaluate_one e rs rule_silo c st = (d, st')"
  shows "d = local_decision rs c"
proof -
  obtain d2 st2 where w: "wikidata_evaluate e rs rule_silo c st = (d2, st2)" by (metis surj_pair)
  obtain d4 st4 where l: "llm_evaluate e rs rule_silo c st2 = (d4, st4)" by (metis surj_pair)
  have "d2 \<noteq> None \<and> rule_fired (the d2) = EXTERNAL_FAILURE"
    using w assms(1) unfolding wikidata_evaluate_def outage_def
    by (auto simp: Let_def cache_get_def next_call_def ask_wikidata_def external_failure_def keep_def
        split: prod.splits option.splits if_splits sum.splits) (metis sum.disc(2))+
  moreover have "d4 \<noteq> None \<and> rule_fired (the d4) = EXTERNAL_FAILURE"
    using llm_decides [OF l] assms(1) unfolding outage_def by (metis option.sel option.simps(3) sum.disc(2))
  ultimately show ?thesis
    using assms(2) w l by (auto simp: evaluate_one_def local_decision_def split: option.splits)
qed

theorem filter_fails_open:
  assumes "outage e" "enabled rs"
  shows "fst (evaluate e rs rule_silo silo_id model cs st) = map (local_decision rs) cs"
proof -
  have "fst (evaluate_each e rs rule_silo silo_id model cs st) = map (local_decision rs) cs" for st
    by (induction cs arbitrary: st) (simp_all add: split_beta evaluate_one_outage [OF assms(1) prod.collapse [symmetric]])
  then show ?thesis using assms(2) by (simp add: evaluate_def split: prod.split) (metis fst_conv)
qed

section \<open>The breaker bounds the calls\<close>

text \<open>
  \<open>n\<close> failed calls so far in a batch that is short against the window and the cooldown of the
  breaker: either the breaker was tripped in the batch, or it is open from before and nothing was
  called yet, or it is closed and remembers the \<open>n\<close> failures.
\<close>

definition closed_after :: "filter_env \<Rightarrow> nat \<Rightarrow> CircuitBreaker \<Rightarrow> bool" where
  "closed_after e n b \<longleftrightarrow> opened_at b = None \<and>
     (\<exists>old new. failures b = old @ new \<and> length new = n \<and> set new \<subseteq> range (now_s e))"

definition after_failures :: "filter_env \<Rightarrow> nat \<Rightarrow> CircuitBreaker \<Rightarrow> bool" where
  "after_failures e n b \<longleftrightarrow> n \<le> failure_threshold b \<and>
     (n = 0 \<and> opened_at b \<noteq> None \<or> opened_at b \<in> Some ` range (now_s e) \<or> closed_after e n b)"

definition brief :: "filter_env \<Rightarrow> CircuitBreaker \<Rightarrow> bool" where
  "brief e b \<longleftrightarrow> 0 < failure_threshold b \<and> (\<forall>j k. now_s e j - now_s e k \<le> window_s b \<and> now_s e j - now_s e k < cooldown_s b)"

lemma dropWhile_suffix:
  assumes "\<And>x. x \<in> set new \<Longrightarrow> \<not> P x"
  shows "\<exists>old'. dropWhile P (old @ new) = old' @ new"
  using assms by (induction old) (auto simp: dropWhile_eq_self_iff)

lemma closed_prune:
  assumes "closed_after e n b" "brief e b"
  shows "closed_after e n (prune (now_s e k) b)"
proof -
  from assms(1) obtain old new where f: "failures b = old @ new" "length new = n" "set new \<subseteq> range (now_s e)"
    by (auto simp: closed_after_def)
  have "\<not> t < now_s e k - window_s b" if "t \<in> set new" for t
  proof -
    from that f(3) obtain j where "t = now_s e j" by auto
    moreover have "now_s e k - now_s e j \<le> window_s b" using assms(2) by (simp add: brief_def)
    ultimately show ?thesis by simp
  qed
  then obtain old' where "dropWhile (\<lambda>t. t < now_s e k - window_s b) (old @ new) = old' @ new"
    using dropWhile_suffix [of new "\<lambda>t. t < now_s e k - window_s b" old] by blast
  then show ?thesis using assms(1) f by (auto simp: closed_after_def prune_def)
qed

lemma same_settings:
  "failure_threshold (prune t b) = failure_threshold b" "window_s (prune t b) = window_s b" "cooldown_s (prune t b) = cooldown_s b"
  "failure_threshold (reset b) = failure_threshold b" "window_s (reset b) = window_s b" "cooldown_s (reset b) = cooldown_s b"
  by (simp_all add: prune_def reset_def Let_def)

lemma is_open_after:
  assumes "after_failures e n b" "brief e b" "is_open (now_s e k) b = (r, b')"
  shows "after_failures e n b' \<and> brief e b' \<and> (\<not> r \<longrightarrow> closed_after e n b' \<and> n < failure_threshold b')"
proof (cases "opened_at b")
  case None
  then have c: "closed_after e n b" using assms(1) by (auto simp: after_failures_def)
  have b': "b' = prune (now_s e k) b" "r \<longleftrightarrow> failure_threshold b' \<le> length (failures b')"
    using assms(3) None by (auto simp: is_open_def Let_def)
  have c': "closed_after e n b'" unfolding b'(1) by (rule closed_prune [OF c assms(2)])
  then have "n \<le> length (failures b')" by (auto simp: closed_after_def)
  with c' b' assms(1,2) show ?thesis by (auto simp: after_failures_def brief_def same_settings)
next
  case (Some t)
  show ?thesis
  proof (cases "cooldown_s b \<le> now_s e k - t")
    case False
    then have "r \<and> b' = b" using assms(3) Some by (simp add: is_open_def)
    then show ?thesis using assms(1,2) by simp
  next
    case True
    have "t \<noteq> now_s e j" for j
    proof -
      have "now_s e k - now_s e j < cooldown_s b" using assms(2) by (simp add: brief_def)
      with True show ?thesis by auto
    qed
    then have "t \<notin> range (now_s e)" by blast
    then have n: "n = 0" using assms(1) Some by (auto simp: after_failures_def closed_after_def)
    have b': "b' = reset b" "\<not> r" using assms(3) Some True by (simp_all add: is_open_def)
    have "closed_after e 0 b'" unfolding b' closed_after_def by (auto simp: reset_def)
    then show ?thesis using n b' assms(2) by (simp add: after_failures_def brief_def same_settings)
  qed
qed

lemma failure_after:
  assumes "closed_after e n b" "n < failure_threshold b" "brief e b" "record_failure (now_s e k) b = (r, b')"
  shows "after_failures e (Suc n) b' \<and> brief e b'"
proof -
  let ?b = "b\<lparr>failures := failures b @ [now_s e k]\<rparr>"
  have "closed_after e (Suc n) ?b" using assms(1) by (force simp: closed_after_def)
  moreover have "brief e ?b" using assms(3) by (simp add: brief_def)
  ultimately have c: "closed_after e (Suc n) (prune (now_s e k) ?b)" by (rule closed_prune)
  have "b' = prune (now_s e k) ?b \<or> b' = (prune (now_s e k) ?b)\<lparr>opened_at := Some (now_s e k)\<rparr>"
    using assms(4) by (auto simp: record_failure_def Let_def split: if_splits)
  then show ?thesis using c assms(2,3) by (auto simp: after_failures_def brief_def same_settings)
qed

text \<open>The breaker of a silo through a batch.\<close>

definition current :: "FilterRuleSet \<Rightarrow> string \<Rightarrow> filter_state \<Rightarrow> CircuitBreaker" where
  "current rs s st = fst (get_or_create s ''wikidata'' (wikidata_cb_failure_threshold rs)
     (wikidata_cb_window_s rs) (wikidata_cb_cooldown_s rs) (breakers st))"

definition calls_bounded :: "filter_env \<Rightarrow> FilterRuleSet \<Rightarrow> string \<Rightarrow> nat \<Rightarrow> filter_state \<Rightarrow> bool" where
  "calls_bounded e rs s m st \<longleftrightarrow> brief e (current rs s st) \<and> failure_threshold (current rs s st) = wikidata_cb_failure_threshold rs \<and>
     (\<exists>n. wikidata_calls st = m + n \<and> after_failures e n (current rs s st))"

lemma on_wikidata_cb_current:
  assumes "on_wikidata_cb e rs (Some s) f st = (r, st')"
  shows "\<exists>k. f (now_s e k) (current rs s st) = (r, current rs s st')"
  using assms unfolding on_wikidata_cb_def on_cb_def next_call_def current_def
  by (auto simp: Let_def get_or_create_def split: prod.splits option.splits)

lemma other_cb_current:
  assumes "on_llm_cb e rs (Some s) f st = (r, st')"
  shows "current rs s st' = current rs s st"
  using assms unfolding on_llm_cb_def on_cb_def next_call_def current_def
  by (auto simp: Let_def get_or_create_def split: prod.splits option.splits)

lemma others_current:
  "cache_get e key st = (r, st1) \<Longrightarrow> current rs s st1 = current rs s st \<and> wikidata_calls st1 = wikidata_calls st"
  "complete e c st = (b, st2) \<Longrightarrow> current rs s st2 = current rs s st \<and> wikidata_calls st2 = wikidata_calls st"
  by (auto simp: cache_get_def complete_def next_call_def current_def Let_def)

lemma bounded_wikidata:
  assumes "calls_bounded e rs s m st" "\<forall>k c. isl (answers e k c)" "wikidata_evaluate e rs (Some s) c st = (d, st')"
  shows "calls_bounded e rs s m st'"
proof -
  obtain hit st1 where g: "cache_get e (cache_key e c) st = (hit, st1)" by (metis surj_pair)
  have w1: "calls_bounded e rs s m st1" using assms(1) others_current(1) [OF g] by (simp add: calls_bounded_def)
  show ?thesis
  proof (cases hit)
    case (Some p)
    then show ?thesis using assms(3) g w1 by (simp add: wikidata_evaluate_def)
  next
    case None
    obtain r st2 where o: "on_wikidata_cb e rs (Some s) is_open st1 = (r, st2)" by (metis surj_pair)
    obtain k where k: "is_open (now_s e k) (current rs s st1) = (r, current rs s st2)"
      using on_wikidata_cb_current [OF o] by auto
    from w1 obtain n where n: "wikidata_calls st1 = m + n" "after_failures e n (current rs s st1)"
        "brief e (current rs s st1)" "failure_threshold (current rs s st1) = wikidata_cb_failure_threshold rs"
      by (auto simp: calls_bounded_def)
    have same: "failure_threshold (current rs s st2) = wikidata_cb_failure_threshold rs"
      using arg_cong [OF k, of "\<lambda>x. failure_threshold (snd x)"] n(4)
      by (simp add: is_open_def Let_def same_settings split: option.splits if_splits)
    have o2: "wikidata_calls st2 = m + n" using on_cb_frame [OF o [unfolded on_wikidata_cb_def]] n(1) by simp
    note after = is_open_after [OF n(2,3) k]
    show ?thesis
    proof (cases r)
      case True
      then show ?thesis using assms(3) g None o after o2 same by (auto simp: wikidata_evaluate_def calls_bounded_def)
    next
      case False
      obtain err where err: "answers e (wikidata_calls st2) c = Inl err" using assms(2) by (meson isl_def)
      let ?st3 = "st2\<lparr>wikidata_calls := Suc (wikidata_calls st2)\<rparr>"
      obtain q st4 where f: "on_wikidata_cb e rs (Some s) record_failure ?st3 = (q, st4)" by (metis surj_pair)
      have "current rs s ?st3 = current rs s st2" by (simp add: current_def)
      then obtain j where j: "record_failure (now_s e j) (current rs s st2) = (q, current rs s st4)"
        using on_wikidata_cb_current [OF f] by auto
      have st': "st' = st4" using assms(3) g None o False err f by (simp add: wikidata_evaluate_def ask_wikidata_def)
      have "wikidata_calls st4 = m + Suc n" using on_cb_frame [OF f [unfolded on_wikidata_cb_def]] o2 by simp
      moreover have "failure_threshold (current rs s st4) = wikidata_cb_failure_threshold rs"
        using arg_cong [OF j, of "\<lambda>x. failure_threshold (snd x)"] same
        by (simp add: record_failure_def Let_def same_settings split: if_splits)
      moreover have "after_failures e (Suc n) (current rs s st4) \<and> brief e (current rs s st4)"
        using after False by (intro failure_after [OF _ _ _ j]) auto
      ultimately show ?thesis unfolding st' calls_bounded_def by blast
    qed
  qed
qed

lemma bounded_llm:
  assumes "calls_bounded e rs s m st" "llm_evaluate e rs (Some s) c st = (d, st')"
  shows "calls_bounded e rs s m st'"
proof -
  have cb: "current rs s v' = current rs s v \<and> wikidata_calls v' = wikidata_calls v"
    if "on_llm_cb e rs (Some s) f v = (q, v')" for q :: bool and f v v'
    using other_cb_current [OF that] on_cb_frame [OF that [unfolded on_llm_cb_def]] by simp
  have cb': "current rs s (snd (on_llm_cb e rs (Some s) f v)) = current rs s v \<and>
      wikidata_calls (snd (on_llm_cb e rs (Some s) f v)) = wikidata_calls v" for f :: "real \<Rightarrow> CircuitBreaker \<Rightarrow> bool \<times> CircuitBreaker" and v
    by (rule cb [OF prod.collapse [symmetric]])
  have "current rs s st' = current rs s st \<and> wikidata_calls st' = wikidata_calls st"
    using assms(2) unfolding llm_evaluate_def
    by (auto simp: Let_def cb' dest!: cb others_current(2) [of _ _ _ _ _ rs s]
        split: prod.splits if_splits sum.splits option.splits)
  then show ?thesis using assms(1) by (simp add: calls_bounded_def)
qed

lemma bounded_one:
  assumes "calls_bounded e rs s m st" "\<forall>k c. isl (answers e k c)" "evaluate_one e rs (Some s) c st = (d, st')"
  shows "calls_bounded e rs s m st'"
  using assms(3) bounded_wikidata [OF assms(1,2)] assms(1) unfolding evaluate_one_def
  by (auto simp: Let_def dest: bounded_llm split: prod.splits option.splits if_splits)

lemma bounded_each:
  assumes "calls_bounded e rs s m st" "\<forall>k c. isl (answers e k c)"
  shows "calls_bounded e rs s m (snd (evaluate_each e rs (Some s) silo_id model cs st))"
  using assms(1)
proof (induction cs arbitrary: st)
  case (Cons c cs)
  obtain d st1 where one: "evaluate_one e rs (Some s) c st = (d, st1)" by (metis surj_pair)
  have "calls_bounded e rs s m st1" by (rule bounded_one [OF Cons.prems assms(2) one])
  then have "calls_bounded e rs s m (record_decision rs silo_id model c d st1)"
    by (simp add: record_decision_def calls_bounded_def current_def)
  from Cons.IH [OF this] show ?case using one by (simp add: split_beta Let_def)
qed simp

text \<open>
  C33: the circuit breaker protects a failing oracle.  A batch of claims of any length, during which
  Wikidata answers no call, calls it at most as often as the threshold of the breaker says, provided
  the batch takes no longer than the window and less than the cooldown; the breaker may be in any state at the start.
\<close>

theorem outage_calls_bounded:
  assumes "\<forall>k c. isl (answers e k c)"
    and "\<forall>j k. now_s e j - now_s e k \<le> wikidata_cb_window_s rs \<and> now_s e j - now_s e k < wikidata_cb_cooldown_s rs"
    and "0 < wikidata_cb_failure_threshold rs"
    and "\<forall>b. breakers st (s, ''wikidata'') = Some b \<longrightarrow> failure_threshold b = wikidata_cb_failure_threshold rs \<and>
      window_s b = wikidata_cb_window_s rs \<and> cooldown_s b = wikidata_cb_cooldown_s rs"
  shows "wikidata_calls (snd (evaluate e rs (Some s) silo_id model cs st)) \<le>
    wikidata_calls st + wikidata_cb_failure_threshold rs"
proof (cases "enabled rs")
  case True
  let ?b = "current rs s st"
  have b: "failure_threshold ?b = wikidata_cb_failure_threshold rs" "window_s ?b = wikidata_cb_window_s rs"
      "cooldown_s ?b = wikidata_cb_cooldown_s rs"
    using assms(4) by (auto simp: current_def get_or_create_def new_breaker_def Let_def split: option.split)
  have "closed_after e 0 ?b" if "opened_at ?b = None" using that by (auto simp: closed_after_def)
  then have "after_failures e 0 ?b" by (auto simp: after_failures_def)
  moreover have "brief e ?b" using assms(2,3) b by (simp add: brief_def)
  ultimately have "calls_bounded e rs s (wikidata_calls st) st" using b by (auto simp: calls_bounded_def)
  from bounded_each [OF this assms(1), of silo_id model cs]
  have "wikidata_calls (snd (evaluate_each e rs (Some s) silo_id model cs st)) \<le>
      wikidata_calls st + wikidata_cb_failure_threshold rs"
    by (auto simp: calls_bounded_def after_failures_def)
  moreover have "wikidata_calls (flush e v) = wikidata_calls v" for v by (simp add: flush_def next_call_def)
  ultimately show ?thesis using True by (simp add: evaluate_def split_beta)
qed (simp add: evaluate_def)

section \<open>Scores\<close>

lemma fraction_bounds:
  assumes "list_all is_digit ds"
  shows "0 \<le> fraction ds \<and> fraction ds \<le> 1"
  using assms by (induction ds) (auto simp: is_digit_def Let_def)

lemma score_in_unit:
  assumes "search_score after_word reply = Some x"
  shows "0 \<le> x \<and> x \<le> 1"
proof -
  have "list_all is_digit (takeWhile is_digit ds)" for ds by (auto simp: list_all_iff dest: set_takeWhileD)
  note digits = fraction_bounds [OF this]
  have at: "0 \<le> y \<and> y \<le> 1" if "score_at s = Some y" for s y
    using that digits by (auto simp: score_at_def Let_def split: list.splits if_splits)
  show ?thesis using assms
    by (induction after_word reply rule: search_score.induct) (auto split: option.splits if_splits dest: at)
qed

text \<open>
  A reply out of range is not refused: the search finds a number inside it, and a rating of 95
  percent written as \<open>95.0\<close> counts as 0.
\<close>

lemma score_misread:
  "search_score False ''95.0'' = Some 0 \<and> search_score False ''1.5'' = Some 1 \<and> search_score False ''about 0.75.'' = Some (3 / 4)"
  by code_simp

section \<open>Overrides\<close>

text \<open>
  an override of a silo may only relax the filter, says the code, and yet it can make it drop more.  A claim
  whose predicate is not suspect is kept by the heuristic and never shown to the language model;
  once the silo exempts the predicate from filtering, the heuristic is silent, the model is asked, and
  the claim is dropped when its score is high.
\<close>

theorem exempting_can_drop:
  assumes "\<not> suspect base c" "canon c \<notin> set (hard_drop_triples base)" "\<not> never_filtered base c"
    and "rule_fired (fst (evaluate_one e base None c st)) \<noteq> WIKIDATA"
    and "own_breakers st ''llm_classifier'' = None" "0 < llm_cb_failure_threshold base"
    and "replies e (llm_calls st) c = Inr reply" "search_score False reply = Some x" "llm_threshold base \<le> x"
  shows "action (fst (evaluate_one e base None c st)) = Keep \<and>
    (case merge_silo_override h base [(''extra_never_filter_predicates'', Texts [fst (canon c)])] of
       None \<Rightarrow> False
     | Some rs \<Rightarrow> action (fst (evaluate_one e rs None c st)) = Drop)"
proof -
  define rs where "rs = base\<lparr>never_filter_predicates := never_filter_predicates base @ [fst (canon c)],
    silo_override_hash := Some (h [(''extra_never_filter_predicates'', Texts [fst (canon c)])])\<rparr>"
  have merged: "merge_silo_override h base [(''extra_never_filter_predicates'', Texts [fst (canon c)])] = Some rs"
    by (simp add: merge_silo_override_def TIGHTENING_KEYS_def texts_def rs_def)
  obtain d2 st2 where w: "wikidata_evaluate e base None c st = (d2, st2)" by (metis surj_pair)
  have same: "on_wikidata_cb e rs = (on_wikidata_cb e base :: _ \<Rightarrow> (_ \<Rightarrow> _ \<Rightarrow> bool \<times> _) \<Rightarrow> _)" "cache_set e rs = cache_set e base"
    by (intro ext; simp add: on_wikidata_cb_def cache_set_def rs_def split: prod.split)+
  have w': "wikidata_evaluate e rs None c st = (d2, st2)"
    using w unfolding wikidata_evaluate_def same .
  have silent: "\<not> (d2 \<noteq> None \<and> rule_fired (the d2) \<noteq> EXTERNAL_FAILURE)"
  proof
    assume decisive: "d2 \<noteq> None \<and> rule_fired (the d2) \<noteq> EXTERNAL_FAILURE"
    then obtain d where d: "d2 = Some d" by blast
    have "rule_fired d = WIKIDATA" using wikidata_drops [OF w [unfolded d]] decisive d by (auto simp: drop_claim_def)
    then show False using assms(2,4) w decisive d by (simp add: evaluate_one_def rule_1_hard_drop_def)
  qed
  have kept: "action (fst (evaluate_one e base None c st)) = Keep"
    using assms(1-3) w silent by (auto simp: evaluate_one_def rule_1_hard_drop_def heuristic_cases keep_def)
  have st2: "own_breakers st2 ''llm_classifier'' = None" "llm_calls st2 = llm_calls st"
    using w assms(5)
    by (auto simp: wikidata_evaluate_def on_wikidata_cb_def on_cb_def next_call_def cache_get_def ask_wikidata_def cache_set_def Let_def
        split: prod.splits option.splits if_splits sum.splits)
  have "clamp01 x = x" using score_in_unit [OF assms(8)] by simp
  then have l: "fst (llm_evaluate e rs None c st2) = Some (score_decision e rs x)"
    using assms(6-8) st2
    by (simp add: llm_evaluate_def on_llm_cb_def on_cb_def next_call_def complete_def new_breaker_def is_open_def prune_def
        Let_def rs_def split_beta)
  have "rule_1_hard_drop c rs = None" "rule_3_heuristic c rs = None"
    using assms(2) by (simp_all add: rule_1_hard_drop_def heuristic_cases never_filtered_def rs_def)
  then have "fst (evaluate_one e rs None c st) = score_decision e rs x"
    using w' silent l by (auto simp: evaluate_one_def split_beta score_decision_def keep_def drop_claim_def)
  moreover have "action (score_decision e rs x) = Drop"
    using assms(9) by (simp add: score_decision_def drop_claim_def rs_def)
  ultimately show ?thesis using kept merged by simp
qed

section \<open>Witnesses\<close>

definition ex_rules :: FilterRuleSet where
  "ex_rules = \<lparr>version = ''1.0'', enabled = True, hard_drop_triples = [], suspect_predicates = [''is a'', ''has''],
     public_entity_allowlist = [''python'', ''language''], never_filter_predicates = [''causes''],
     wikidata_cache_ttl_days = 7, wikidata_cb_failure_threshold = 5, wikidata_cb_window_s = 60, wikidata_cb_cooldown_s = 300,
     llm_threshold = 7 / 10, llm_cb_failure_threshold = 3, llm_cb_window_s = 60, llm_cb_cooldown_s = 300,
     retention_days = 90, silo_override_hash = None\<rparr>"

definition ex_triple :: "string \<Rightarrow> string \<Rightarrow> string \<Rightarrow> ClaimTriple" where
  "ex_triple s p ob = \<lparr>subject = s, predicate = p, object = ob, source_passage_id = ''d'', source_doc_id = ''d'',
     valid_from = ''t'', valid_to = None, claim_confidence = 1, entity_mentions = [], ref_doc_id = None\<rparr>"

definition ex_filter :: filter_state where
  "ex_filter = \<lparr>breakers = Map.empty, own_breakers = Map.empty, cached = Map.empty, buf = [], inserted = [], asked = 0,
     wikidata_calls = 0, llm_calls = 0\<rparr>"

definition ex_outside :: "string + bool \<Rightarrow> string + string \<Rightarrow> bool \<Rightarrow> filter_env" where
  "ex_outside a r down = \<lparr>now_s = (\<lambda>_. 0), redis_fails = (\<lambda>_. down), answers = (\<lambda>_ _. a), replies = (\<lambda>_ _. r),
     insert_fails = (\<lambda>_. False), sha256_hex = id, repr_text = id, show_float = (\<lambda>_. ''0.7'')\<rparr>"

lemmas ex_filter_simps = ex_rules_def ex_triple_def ex_filter_def ex_outside_def

lemma ex_llm_drop:
  "fst (evaluate_one (ex_outside (Inr False) (Inr ''0.9'') False) ex_rules None (ex_triple ''a'' ''causes'' ''b'') ex_filter) =
     score_decision (ex_outside (Inr False) (Inr ''0.9'') False) ex_rules (9 / 10)"
proof -
  have s: "search_score False ''0.9'' = Some (9 / 10)" by code_simp
  have p: "strip ''causes'' = ''causes''" by code_simp
  show ?thesis
    by (simp add: evaluate_one_def rule_1_hard_drop_def rule_3_heuristic_def canon_def p wikidata_evaluate_def cache_get_def
        on_wikidata_cb_def on_cb_def next_call_def ask_wikidata_def decision_from_present_def cache_set_def llm_evaluate_def
        on_llm_cb_def complete_def get_or_create_def new_breaker_def is_open_def prune_def record_success_def reset_def
        s score_decision_def drop_claim_def keep_def ex_filter_simps Let_def split_beta del: search_score.simps)
qed

lemma dropped_for_a_reason_witness:
  "\<exists>k reply x. replies (ex_outside (Inr False) (Inr ''0.9'') False) k (ex_triple ''a'' ''causes'' ''b'') = Inr reply \<and>
     search_score False reply = Some x \<and> llm_threshold ex_rules \<le> clamp01 x"
proof -
  let ?e = "ex_outside (Inr False) (Inr ''0.9'') False"
  obtain d st' where run: "evaluate_one ?e ex_rules None (ex_triple ''a'' ''causes'' ''b'') ex_filter = (d, st')" by (metis surj_pair)
  have d: "d = score_decision ?e ex_rules (9 / 10)" using ex_llm_drop run by simp
  then have "action d = Drop" "rule_fired d = LLM_CONFIDENCE" by (simp_all add: score_decision_def drop_claim_def ex_rules_def)
  then show ?thesis using dropped_for_a_reason [OF run] by auto
qed

lemma filter_fails_open_witness:
  "fst (evaluate (ex_outside (Inl ''TimeoutError'') (Inl ''TimeoutError'') True) ex_rules (Some ''s1'') ''s1'' None
      [ex_triple ''Python'' ''is a'' ''Language'', ex_triple ''a'' ''causes'' ''b''] ex_filter) =
    [drop_claim HEURISTIC ''both_public_suspect_predicate'', keep KEPT ''all_rules_inconclusive'']"
proof -
  let ?e = "ex_outside (Inl ''TimeoutError'') (Inl ''TimeoutError'') True"
  have "local_decision ex_rules (ex_triple ''Python'' ''is a'' ''Language'') = drop_claim HEURISTIC ''both_public_suspect_predicate''"
    "local_decision ex_rules (ex_triple ''a'' ''causes'' ''b'') = keep KEPT ''all_rules_inconclusive''"
    by (simp add: local_decision_def ex_rules_def ex_triple_def; code_simp)+
  then show ?thesis
    using filter_fails_open [of ?e ex_rules "Some ''s1''" "''s1''" None
        "[ex_triple ''Python'' ''is a'' ''Language'', ex_triple ''a'' ''causes'' ''b'']" ex_filter]
    by (simp add: outage_def ex_outside_def) (simp add: ex_rules_def)
qed

lemma outage_calls_bounded_witness:
  "wikidata_calls (snd (evaluate (ex_outside (Inl ''TimeoutError'') (Inl ''TimeoutError'') True) ex_rules (Some ''s1'') ''s1'' None
      (replicate 1000 (ex_triple ''a'' ''causes'' ''b'')) ex_filter)) \<le> 5"
  using outage_calls_bounded [of "ex_outside (Inl ''TimeoutError'') (Inl ''TimeoutError'') True" ex_rules ex_filter "''s1''"
      "''s1''" None "replicate 1000 (ex_triple ''a'' ''causes'' ''b'')"]
  by (simp add: ex_filter_simps)

lemma exempting_can_drop_witness:
  "action (fst (evaluate_one (ex_outside (Inr False) (Inr ''0.9'') False) ex_rules None (ex_triple ''a'' ''depends_on'' ''b'') ex_filter)) = Keep \<and>
   (case merge_silo_override (\<lambda>_. ''h'') ex_rules [(''extra_never_filter_predicates'', Texts [''depends_on''])] of
      None \<Rightarrow> False
    | Some rs \<Rightarrow> action (fst (evaluate_one (ex_outside (Inr False) (Inr ''0.9'') False) rs None (ex_triple ''a'' ''depends_on'' ''b'') ex_filter)) = Drop)"
proof -
  let ?e = "ex_outside (Inr False) (Inr ''0.9'') False"
  have p: "fst (canon (ex_triple ''a'' ''depends_on'' ''b'')) = ''depends_on''" by code_simp
  have s: "search_score False ''0.9'' = Some (9 / 10)" by code_simp
  have "rule_fired (fst (evaluate_one ?e ex_rules None (ex_triple ''a'' ''depends_on'' ''b'') ex_filter)) \<noteq> WIKIDATA"
    using p by (simp add: evaluate_one_def rule_1_hard_drop_def heuristic_cases suspect_def never_filtered_def
        wikidata_evaluate_def cache_get_def on_wikidata_cb_def on_cb_def next_call_def ask_wikidata_def decision_from_present_def
        new_breaker_def is_open_def prune_def keep_def ex_rules_def ex_filter_def ex_outside_def Let_def split_beta)
  then show ?thesis
    using exempting_can_drop [of ex_rules "ex_triple ''a'' ''depends_on'' ''b''" ?e ex_filter "''0.9''" "9 / 10" "\<lambda>_. ''h''"] p s
    by (simp add: suspect_def never_filtered_def ex_rules_def ex_filter_def ex_outside_def)
qed

end
