(* ===== verification/ExtractionJobsCorrect.thy ===== *)
theory ExtractionJobsCorrect
  imports ExtractionJobs TextExtractionCorrect Examples
begin

text \<open>
  What an extraction leaves in the graph and in its job: a job settles, the claims it reports are in
  the graph and come from its text, writing claims or entities twice changes nothing, and every
  write stays in its silo.  Contradictions are an exception to the second: a pair given the other
  way round is stored twice.
\<close>

section \<open>Jobs settle\<close>

lemma on_world_frame:
  assumes "on_world en m st = (r, st')"
  shows "the_job st' = the_job st \<and> saves st' = saves st \<and> job_store st' = job_store st"
  using assms by (auto simp: on_world_def split: prod.splits)

lemma read_clock_frame:
  assumes "read_clock en st = (t, st')"
  shows "the_job st' = the_job st \<and> saves st' = saves st \<and> job_store st' = job_store st \<and> gr (job_world st') = gr (job_world st)"
  using assms by (auto simp: read_clock_def on_world_def datetime_now_def)

lemma set_node_status_frame:
  "the_job (set_node_status en s x st) = the_job st" "saves (set_node_status en s x st) = saves st"
  "job_store (set_node_status en s x st) = job_store st"
  by (auto simp: set_node_status_def on_world_def split: prod.split)

definition same_place :: "ExtractionJob \<Rightarrow> ExtractionJob \<Rightarrow> bool" where
  "same_place j j' \<longleftrightarrow> job_id j' = job_id j \<and> job_node j' = job_node j \<and> job_silo j' = job_silo j"

definition settled :: "job_state \<Rightarrow> job_state \<Rightarrow> bool" where
  "settled st st' \<longleftrightarrow> same_place (the_job st) (the_job st') \<and> saves st' = saves st \<and>
     completed_at (the_job st') \<noteq> None \<and>
     (job_status (the_job st') = COMPLETED \<or> job_status (the_job st') = FAILED \<and> error (the_job st') \<noteq> None)"

lemma job_failed_settles:
  assumes "same_place j (the_job st)" "saves st = saves st0" "the_job st0 = j"
  shows "settled st0 (job_failed en s why st) \<and> job_status (the_job (job_failed en s why st)) = FAILED"
proof -
  obtain t st1 where "read_clock en st = (t, st1)" by (metis surj_pair)
  with read_clock_frame [OF this] assms show ?thesis
    by (simp add: job_failed_def settled_def same_place_def set_node_status_frame)
qed

lemma kept_subset: "set (map fst (filter P (zip xs ys))) \<subseteq> set xs"
  by (induction xs ys rule: list_induct2') auto

lemma filter_claims_frame:
  assumes "filter_claims en s triples st = (kept, st')"
  shows "the_job st' = the_job st \<and> saves st' = saves st \<and> job_world st' = job_world st \<and> set kept \<subseteq> set triples"
proof (cases "claim_filter en")
  case None
  then show ?thesis using assms by (simp add: filter_claims_def)
next
  case (Some f)
  obtain e rs q where f: "f = (e, rs, q)" by (cases f)
  obtain ds fs where ev: "evaluate e rs q s (llm_model en) triples (job_filter st) = (ds, fs)" by (metis surj_pair)
  have "st' = st\<lparr>job_filter := fs\<rparr>" "kept = map fst (filter (\<lambda>(_, d). action d = Keep) (zip triples ds))"
    using assms Some f ev by (simp_all add: filter_claims_def)
  then show ?thesis using kept_subset [of "\<lambda>(_, d). action d = Keep" triples ds] by simp
qed

lemma job_claims_settles:
  assumes "the_job st = the_job st0" "saves st = saves st0"
  shows "settled st0 (job_claims en s result written st)"
proof -
  obtain ec rc m where w: "written = (ec, rc, m)" by (cases written)
  obtain now st1 where 1: "read_clock en st = (now, st1)" by (metis surj_pair)
  obtain kept st2 where 2: "filter_claims en s (synthesize_claim_triples result m (job_node (the_job st1)) (isoformat_of en now)) st1 = (kept, st2)"
    by (metis surj_pair)
  obtain r st3 where 3: "on_world en (apply_document_claims (sha256_of en) (isoformat_of en) s (job_node (the_job st1)) kept) st2 = (r, st3)"
    by (metis surj_pair)
  have st3: "the_job st3 = the_job st0" "saves st3 = saves st0"
    using read_clock_frame [OF 1] filter_claims_frame [OF 2] on_world_frame [OF 3] assms by simp_all
  have failed: "settled st0 (job_failed en s why st3)" for why
    using st3 by (intro conjunct1 [OF job_failed_settles]) (auto simp: same_place_def)
  show ?thesis
    using failed st3
    by (cases r) (simp_all add: job_claims_def w 1 2 3 settled_def same_place_def set_node_status_frame)
qed

lemma job_body_settles: "settled st (job_body en s content st)"
proof (cases "extract_from (interpreter en) (extract_structured en) content")
  case (Inl x)
  then show ?thesis by (simp add: job_body_def job_failed_settles same_place_def)
next
  case (Inr result)
  obtain r st1 where 1: "on_world en (apply_entities_and_rels (bolt_of en) (isoformat_of en) s result) st = (r, st1)" by (metis surj_pair)
  show ?thesis
    using Inr 1 on_world_frame [OF 1] job_claims_settles [of st1 st] job_failed_settles [of "the_job st" st1 st]
    by (cases r) (auto simp: job_body_def same_place_def)
qed

text \<open>
  C31: an extraction job always ends.  Whatever the model answers and whatever calls to the database and the
  oracles fail, a job whose two saves succeed returns with the job completed, or failed with the
  reason, and with the time of its end; the stored copy says the same.  Only a failing save raises.
\<close>

theorem job_settles:
  assumes "\<not> save_fails en (saves st)" "\<not> save_fails en (Suc (saves st))"
  shows "case run_extraction_job en s content st of (returned, st') \<Rightarrow>
     returned \<and> completed_at (the_job st') \<noteq> None \<and>
     (job_status (the_job st') = COMPLETED \<or> job_status (the_job st') = FAILED \<and> error (the_job st') \<noteq> None) \<and>
     map_option fst (job_store st' (make_key (job_silo (the_job st)) (job_id (the_job st)))) =
       Some (to_dict (isoformat_of en) (the_job st'))"
proof -
  let ?st0 = "st\<lparr>the_job := (the_job st)\<lparr>job_status := RUNNING\<rparr>\<rparr>"
  obtain st1 where 1: "save en ?st0 = (True, st1)" "saves st1 = Suc (saves st)"
    "the_job st1 = (the_job st)\<lparr>job_status := RUNNING\<rparr>"
    using assms(1) by (simp add: save_def Let_def)
  define st2 where "st2 = job_body en s content st1"
  have 2: "settled st1 st2" unfolding st2_def by (rule job_body_settles)
  then have "saves st2 = Suc (saves st)" using 1 by (simp add: settled_def)
  then obtain st3 where 3: "save en st2 = (True, st3)" "the_job st3 = the_job st2"
    "job_store st3 (make_key (job_silo (the_job st2)) (job_id (the_job st2))) =
       Some (to_dict (isoformat_of en) (the_job st2), redis_time en (Suc (saves st)) + JOB_TTL)"
    using assms(2) by (simp add: save_def Let_def)
  have "run_extraction_job en s content st = (True, st3)"
    using 1(1) 3(1) by (simp add: run_extraction_job_def st2_def)
  then show ?thesis using 1(3) 2 3(2,3) by (simp add: settled_def same_place_def)
qed

section \<open>Claims\<close>

definition present :: "graph \<Rightarrow> string \<Rightarrow> string \<Rightarrow> bool" where
  "present g s i \<longleftrightarrow> match_label_id g ''Claim'' i s \<noteq> []"

lemma upsert_claim_present:
  "present (upsert_claim sha256 s t c g) s (triple_id sha256 c)"
  "present g r i \<Longrightarrow> present (upsert_claim sha256 s t c g) r i"
  by (auto simp: upsert_claim_def present_def match_label_id_add_node)

lemma upsert_present:
  "present g r i \<Longrightarrow> present (BATCH_UPSERT_CLAIMS sha256 s t cs g) r i"
  "c \<in> set cs \<Longrightarrow> present (BATCH_UPSERT_CLAIMS sha256 s t cs g) s (triple_id sha256 c)"
proof -
  show keep: "present g r i \<Longrightarrow> present (BATCH_UPSERT_CLAIMS sha256 s t cs g) r i" for r i and g
    unfolding BATCH_UPSERT_CLAIMS_def by (induction cs arbitrary: g) (simp_all add: upsert_claim_present(2))
  show "c \<in> set cs \<Longrightarrow> present (BATCH_UPSERT_CLAIMS sha256 s t cs g) s (triple_id sha256 c)"
    unfolding BATCH_UPSERT_CLAIMS_def
  proof (induction cs arbitrary: g)
    case (Cons d cs)
    have more: "present h s (triple_id sha256 c) \<Longrightarrow> present (fold (upsert_claim sha256 s t) cs h) s (triple_id sha256 c)" for h
      by (induction cs arbitrary: h) (simp_all add: upsert_claim_present(2))
    show ?case
    proof (cases "c \<in> set cs")
      case True
      then show ?thesis using Cons.IH by simp
    next
      case False
      then have "c = d" using Cons.prems by simp
      then show ?thesis using more [OF upsert_claim_present(1)] by simp
    qed
  qed simp
qed

lemma upsert_noop:
  assumes "\<And>c. c \<in> set cs \<Longrightarrow> present g s (triple_id sha256 c)"
  shows "BATCH_UPSERT_CLAIMS sha256 s t cs g = g"
  using assms unfolding BATCH_UPSERT_CLAIMS_def
  by (induction cs) (simp_all add: upsert_claim_def present_def)

lemma attach_claims_Cons:
  "attach_claims t l s (r # rows) g =
     attach_claims t l s rows (merge_edges t [] (match_label_id g ''Claim'' (fst r) s) (match_label_id g l (snd r) s) g)"
  unfolding attach_claims_def by (cases r) (simp only: fold_simps(2) split_conv fst_conv snd_conv)

lemma attach_claims_Nil: "attach_claims t l s [] g = g"
  by (simp add: attach_claims_def)

lemma attach_claims_nodes: "nodes (attach_claims t l s rows g) = nodes g"
  by (induction rows arbitrary: g) (simp_all add: attach_claims_Nil attach_claims_Cons graph_simps)

lemma match_nodes_eq: "nodes h = nodes g \<Longrightarrow> match_label_id h l i s = match_label_id g l i s"
  by (simp add: match_label_id_def match_id_def)

lemma present_nodes_eq:
  assumes "nodes h = nodes g"
  shows "present h s i = present g s i"
  unfolding present_def match_nodes_eq [OF assms] ..

text \<open>The edges a batch of attachments is to merge.\<close>

definition attached :: "string \<Rightarrow> string \<Rightarrow> string \<Rightarrow> string \<times> string \<Rightarrow> graph \<Rightarrow> bool" where
  "attached t l s row g \<longleftrightarrow> (\<forall>a \<in> set (match_label_id g ''Claim'' (fst row) s). \<forall>b \<in> set (match_label_id g l (snd row) s).
     \<exists>e \<in> set (edges g). edge_matches t [] (vid a) (vid b) e)"

lemma attached_mono:
  assumes "attached t l s row g" "nodes h = nodes g" "set (edges g) \<subseteq> set (edges h)"
  shows "attached t l s row h"
  using assms unfolding attached_def match_nodes_eq [OF assms(2)] by blast

lemma attach_claims_edges: "set (edges g) \<subseteq> set (edges (attach_claims t l s rows g))"
proof (induction rows arbitrary: g)
  case (Cons r rows)
  show ?case unfolding attach_claims_Cons by (rule subset_trans [OF merge_edges_edges(1) Cons.IH])
qed (simp add: attach_claims_Nil)

lemma attach_claims_attached: "row \<in> set rows \<Longrightarrow> attached t l s row (attach_claims t l s rows g)"
proof (induction rows arbitrary: g)
  case (Cons r rows)
  let ?h = "merge_edges t [] (match_label_id g ''Claim'' (fst r) s) (match_label_id g l (snd r) s) g"
  have step: "attach_claims t l s (r # rows) g = attach_claims t l s rows ?h"
    by (rule attach_claims_Cons)
  show ?case
  proof (cases "row \<in> set rows")
    case True
    then show ?thesis using Cons.IH step by simp
  next
    case False
    with Cons.prems have row: "row = r" by simp
    have "attached t l s r ?h"
      unfolding attached_def match_nodes_eq [OF merge_edges_nodes(1)] by (auto intro: merge_edges_edges(3))
    then show ?thesis
      unfolding step row by (rule attached_mono) (simp_all add: attach_claims_nodes attach_claims_edges)
  qed
qed simp

lemma attach_claims_noop:
  assumes "\<And>row. row \<in> set rows \<Longrightarrow> attached t l s row g"
  shows "attach_claims t l s rows g = g"
  using assms
proof (induction rows)
  case (Cons r rows)
  have "merge_edges t [] (match_label_id g ''Claim'' (fst r) s) (match_label_id g l (snd r) s) g = g"
    using Cons.prems [of r] by (intro merge_edges_noop) (auto simp: attached_def)
  then show ?case using Cons by (simp add: attach_claims_Cons)
qed (simp add: attach_claims_Nil)

text \<open>The graph a complete write of claims leaves.\<close>

definition claims_written :: "(string \<Rightarrow> string) \<Rightarrow> string \<Rightarrow> string \<Rightarrow> string \<Rightarrow> ClaimTriple list \<Rightarrow> graph \<Rightarrow> graph" where
  "claims_written sha256 created s doc cs g =
     BATCH_ATTACH_CLAIM_REFERENCES s (reference_rows sha256 cs)
       (BATCH_ATTACH_CLAIMS_TO_MEMORY s (map (\<lambda>c. (triple_id sha256 c, doc)) cs) (BATCH_UPSERT_CLAIMS sha256 s created cs g))"

lemma apply_document_claims_run:
  assumes "\<And>k. \<not> fault e k"
  shows "\<exists>w' t. apply_document_claims sha256 fmt s doc cs e w = (Inr (map (triple_id sha256) cs), w') \<and>
    gr w' = claims_written sha256 (fmt t) s doc cs (gr w)"
proof (cases "cs = []")
  case True
  then show ?thesis
    by (simp add: apply_document_claims_def claims_written_def ret_def reference_rows_def BATCH_ATTACH_CLAIM_REFERENCES_def
        BATCH_ATTACH_CLAIMS_TO_MEMORY_def BATCH_UPSERT_CLAIMS_def attach_claims_def)
next
  case False
  have "reference_rows sha256 cs = [] \<Longrightarrow> BATCH_ATTACH_CLAIM_REFERENCES s (reference_rows sha256 cs) h = h" for h
    by (simp add: BATCH_ATTACH_CLAIM_REFERENCES_def attach_claims_def)
  then show ?thesis
    using False assms
    by (cases "reference_rows sha256 cs = []"; cases "concat (map entity_mentions cs) = []")
       (simp_all add: apply_document_claims_def claims_written_def run_write_def attempt_write_def tx_prims Let_def
          BATCH_UPSERT_ENTITY_MENTIONS_def comp_def exI)
qed

lemma claims_written_facts:
  shows "nodes (claims_written sha256 created s doc cs g) = nodes (BATCH_UPSERT_CLAIMS sha256 s created cs g)"
    and "c \<in> set cs \<Longrightarrow> present (claims_written sha256 created s doc cs g) s (triple_id sha256 c)"
    and "c \<in> set cs \<Longrightarrow> attached ''DERIVED_FROM'' ''Memory'' s (triple_id sha256 c, doc) (claims_written sha256 created s doc cs g)"
    and "row \<in> set (reference_rows sha256 cs) \<Longrightarrow>
      attached ''DERIVED_FROM'' ''Memory'' s row (claims_written sha256 created s doc cs g)"
proof -
  let ?a = "\<lambda>g. attach_claims ''DERIVED_FROM'' ''Memory'' s (map (\<lambda>c. (triple_id sha256 c, doc)) cs)
    (BATCH_UPSERT_CLAIMS sha256 s created cs g)"
  have w: "claims_written sha256 created s doc cs g =
      attach_claims ''DERIVED_FROM'' ''Memory'' s (reference_rows sha256 cs) (?a g)"
    by (simp add: claims_written_def BATCH_ATTACH_CLAIM_REFERENCES_def BATCH_ATTACH_CLAIMS_TO_MEMORY_def)
  show n: "nodes (claims_written sha256 created s doc cs g) = nodes (BATCH_UPSERT_CLAIMS sha256 s created cs g)"
    unfolding w attach_claims_nodes ..
  show "c \<in> set cs \<Longrightarrow> present (claims_written sha256 created s doc cs g) s (triple_id sha256 c)"
    unfolding present_nodes_eq [OF n] by (rule upsert_present(2))
  show "c \<in> set cs \<Longrightarrow> attached ''DERIVED_FROM'' ''Memory'' s (triple_id sha256 c, doc) (claims_written sha256 created s doc cs g)"
    unfolding w by (rule attached_mono [OF attach_claims_attached [of _ "map (\<lambda>c. (triple_id sha256 c, doc)) cs"]])
      (auto simp: attach_claims_nodes intro: attach_claims_edges [THEN subsetD])
  show "row \<in> set (reference_rows sha256 cs) \<Longrightarrow>
      attached ''DERIVED_FROM'' ''Memory'' s row (claims_written sha256 created s doc cs g)"
    unfolding w by (rule attach_claims_attached)
qed

lemma document_claims_run:
  assumes "\<forall>k. \<not> fault e k"
  obtains w' t where "apply_document_claims sha256 fmt s doc cs e w = (Inr (map (triple_id sha256) cs), w')"
    and "gr w' = claims_written sha256 (fmt t) s doc cs (gr w)"
    and "\<And>c. c \<in> set cs \<Longrightarrow> present (gr w') s (triple_id sha256 c)"
    and "\<And>c. c \<in> set cs \<Longrightarrow> attached ''DERIVED_FROM'' ''Memory'' s (triple_id sha256 c, doc) (gr w')"
    and "\<And>row. row \<in> set (reference_rows sha256 cs) \<Longrightarrow> attached ''DERIVED_FROM'' ''Memory'' s row (gr w')"
proof -
  obtain w' t where w': "apply_document_claims sha256 fmt s doc cs e w = (Inr (map (triple_id sha256) cs), w')"
      "gr w' = claims_written sha256 (fmt t) s doc cs (gr w)"
    using apply_document_claims_run assms by blast
  show thesis by (rule that [OF w']) (simp_all add: w'(2) claims_written_facts)
qed

text \<open>
  claims are attached.  When no call fails, the ids returned for a batch of claims are those of its claims, in
  order, each is the id of a claim of the silo, and each such claim is derived from every memory
  with the id of the document.
\<close>

theorem document_claims_attached:
  assumes "\<forall>k. \<not> fault e k"
  shows "\<exists>w'. apply_document_claims sha256 fmt s doc cs e w = (Inr (map (triple_id sha256) cs), w') \<and>
    (\<forall>i \<in> triple_id sha256 ` set cs. match_label_id (gr w') ''Claim'' i s \<noteq> [] \<and>
       (\<forall>a \<in> set (match_label_id (gr w') ''Claim'' i s). \<forall>b \<in> set (match_label_id (gr w') ''Memory'' doc s).
          \<exists>x \<in> set (edges (gr w')). etype x = ''DERIVED_FROM'' \<and> esrc x = vid a \<and> edst x = vid b))"
proof -
  obtain w' where w': "apply_document_claims sha256 fmt s doc cs e w = (Inr (map (triple_id sha256) cs), w')"
      "\<And>c. c \<in> set cs \<Longrightarrow> present (gr w') s (triple_id sha256 c)"
      "\<And>c. c \<in> set cs \<Longrightarrow> attached ''DERIVED_FROM'' ''Memory'' s (triple_id sha256 c, doc) (gr w')"
    using document_claims_run [OF assms] by metis
  show ?thesis
    using w' by (fastforce simp: present_def attached_def edge_matches_def)
qed

text \<open>
  C32: writing claims is idempotent.  When no call fails, a second write of the same claims for the same document
  changes nothing in the graph, at whatever time it runs.
\<close>

theorem document_claims_idempotent:
  assumes "\<forall>k. \<not> fault e k" "\<forall>k. \<not> fault e2 k"
  shows "gr (snd (apply_document_claims sha256 fmt s doc cs e2 (snd (apply_document_claims sha256 fmt s doc cs e w)))) =
    gr (snd (apply_document_claims sha256 fmt s doc cs e w))"
proof -
  obtain w' where w': "apply_document_claims sha256 fmt s doc cs e w = (Inr (map (triple_id sha256) cs), w')"
      "\<And>c. c \<in> set cs \<Longrightarrow> present (gr w') s (triple_id sha256 c)"
      "\<And>c. c \<in> set cs \<Longrightarrow> attached ''DERIVED_FROM'' ''Memory'' s (triple_id sha256 c, doc) (gr w')"
      "\<And>row. row \<in> set (reference_rows sha256 cs) \<Longrightarrow> attached ''DERIVED_FROM'' ''Memory'' s row (gr w')"
    using document_claims_run [OF assms(1)] by metis
  obtain w2 t2 where w2: "apply_document_claims sha256 fmt s doc cs e2 w' = (Inr (map (triple_id sha256) cs), w2)"
      "gr w2 = claims_written sha256 (fmt t2) s doc cs (gr w')"
    using document_claims_run [OF assms(2)] by metis
  have "BATCH_UPSERT_CLAIMS sha256 s (fmt t2) cs (gr w') = gr w'" by (rule upsert_noop) (rule w'(2))
  moreover have "attach_claims ''DERIVED_FROM'' ''Memory'' s (map (\<lambda>c. (triple_id sha256 c, doc)) cs) (gr w') = gr w'"
    by (rule attach_claims_noop) (use w'(3) in auto)
  moreover have "attach_claims ''DERIVED_FROM'' ''Memory'' s (reference_rows sha256 cs) (gr w') = gr w'"
    by (rule attach_claims_noop) (rule w'(4))
  ultimately have "claims_written sha256 (fmt t2) s doc cs (gr w') = gr w'"
    by (simp add: claims_written_def BATCH_ATTACH_CLAIM_REFERENCES_def BATCH_ATTACH_CLAIMS_TO_MEMORY_def)
  then show ?thesis using w'(1) w2 by simp
qed

section \<open>Completed jobs\<close>

lemma wp_run_write:
  assumes "E StoreError (w\<lparr>tick := Suc (tick w)\<rparr>)" "Q () (w\<lparr>gr := f (gr w), tick := Suc (tick w)\<rparr>)"
  shows "wp e (run_write f) E Q w"
  using assms unfolding run_write_def wp_store by simp

lemma run_write_keeps:
  assumes "\<And>g. nodes (f g) = nodes g" "P (gr w)" "\<And>g h. nodes h = nodes g \<Longrightarrow> P g \<Longrightarrow> P h" "\<And>v. P (gr v) \<Longrightarrow> Q () v"
  shows "wp e (attempt_write f) E Q w"
  using assms unfolding attempt_write_def run_write_def wp_catch wp_store wp_ret by simp

lemma wp_document_claims:
  assumes "\<And>w'. Q [] w'" "\<And>w'. (\<And>c. c \<in> set cs \<Longrightarrow> present (gr w') s (triple_id sha256 c)) \<Longrightarrow> Q (map (triple_id sha256) cs) w'"
  shows "wp e (apply_document_claims sha256 fmt s doc cs) E Q w"
proof -
  let ?P = "\<lambda>g. \<forall>c \<in> set cs. present g s (triple_id sha256 c)"
  have P: "nodes h = nodes g \<Longrightarrow> ?P g \<Longrightarrow> ?P h" for g h using present_nodes_eq by blast
  have kept: "wp e (twhen b (attempt_write f)) E' (\<lambda>_ v. ?P (gr v)) v"
    if P0: "?P (gr v)" and f: "\<And>g. nodes (f g) = nodes g" for b E' v f
  proof -
    have "wp e (attempt_write f) E' (\<lambda>_ v. ?P (gr v)) v"
      by (rule run_write_keeps [where P = ?P, OF f P0 P]) assumption
    then show ?thesis using P0 by (simp add: wp_calls)
  qed
  have "nodes (BATCH_UPSERT_ENTITY_MENTIONS g) = nodes g" for g by (simp add: BATCH_UPSERT_ENTITY_MENTIONS_def)
  note mentions = kept [OF _ this]
  note attach = kept [OF _ attach_claims_nodes]
  have attach': "wp e (attempt_write (attach_claims ''DERIVED_FROM'' ''Memory'' s rows)) E' (\<lambda>_ v. ?P (gr v)) v"
    if "?P (gr v)" for E' v rows
    using attach [where b = True, OF that] by (simp add: wp_calls)
  show ?thesis
  proof (cases "cs = []")
    case True
    then show ?thesis using assms(1) by (simp add: apply_document_claims_def wp_ret)
  next
    case False
    have final: "wp e (ret (map (triple_id sha256) cs)) E' Q v" if "?P (gr v)" for E' v
      using assms(2) that by (simp add: wp_ret)
    have tail: "wp e
        (tbind (attempt_write (attach_claims ''DERIVED_FROM'' ''Memory'' s rows)) (\<lambda>_.
         tbind (twhen b (attempt_write BATCH_UPSERT_ENTITY_MENTIONS)) (\<lambda>_.
         tbind (twhen c (attempt_write (attach_claims ''DERIVED_FROM'' ''Memory'' s rows'))) (\<lambda>_.
         ret (map (triple_id sha256) cs))))) E' Q v" if "?P (gr v)" for rows b c rows' E' v
      unfolding wp_bind
      by (rule wp_mono [OF attach' [OF that]], assumption, rule wp_mono [OF mentions], assumption, assumption,
          rule wp_mono [OF attach], assumption, assumption, rule final)
    have up: "?P (BATCH_UPSERT_CLAIMS sha256 s t cs g)" for t g by (simp add: upsert_present(2))
    show ?thesis
      unfolding apply_document_claims_def if_not_P [OF False] Let_def BATCH_ATTACH_CLAIMS_TO_MEMORY_def
        BATCH_ATTACH_CLAIM_REFERENCES_def
      by (subst wp_bind, simp only: wp_calls wp_catch, subst wp_bind, rule wp_run_write)
         (simp add: wp_ret assms(1), rule tail, simp add: up)
  qed
qed

lemma node_status_present:
  "present (gr (job_world (set_node_status en s x st))) r i = present (gr (job_world st)) r i"
proof -
  have "match_label_id (UPDATE_EXTRACTION_STATUS j s x t g) ''Claim'' i r = [] \<longleftrightarrow> match_label_id g ''Claim'' i r = []" for j t g
    unfolding UPDATE_EXTRACTION_STATUS_def by (subst match_label_id_update) simp_all
  then show ?thesis
    by (simp add: set_node_status_def on_world_def update_node_extraction_status_def attempt_write_def run_write_def tx_prims
        present_def split: prod.split)
qed

text \<open>A claim that comes from a relationship of the text.\<close>

definition from_relationship :: "(string \<Rightarrow> string) \<Rightarrow> string \<Rightarrow> ExtractionResult \<Rightarrow> string \<Rightarrow> bool" where
  "from_relationship sha256 doc result i \<longleftrightarrow> (\<exists>rel \<in> set (relationships result). \<exists>x y v.
     source rel = JStr x \<and> target rel = JStr y \<and> i = claim_id sha256 x (synthesized_predicate rel) y v None doc)"

lemma synthesized_from:
  assumes "c \<in> set (synthesize_claim_triples result m doc now)"
  shows "from_relationship sha256 doc result (triple_id sha256 c)"
proof -
  from assms obtain rel where rel: "rel \<in> set (relationships result)" "synthesize_claim result m doc now rel = Some c"
    by (auto simp: synthesize_claim_triples_def List.map_filter_def)
  then obtain x y where "source rel = JStr x" "target rel = JStr y" "subject c = x" "object c = y"
      "predicate c = synthesized_predicate rel" "valid_to c = None" "source_doc_id c = doc"
    by (auto simp: synthesize_claim_def truthy_id_def split: option.splits jvalue.splits if_splits)
  with rel(1) show ?thesis unfolding from_relationship_def triple_id_def by (intro bexI [of _ rel]) auto
qed

definition reported :: "job_env \<Rightarrow> string \<Rightarrow> string \<Rightarrow> ExtractionResult \<Rightarrow> job_state \<Rightarrow> bool" where
  "reported en s doc result st \<longleftrightarrow> (job_status (the_job st) = COMPLETED \<longrightarrow>
     list_all (\<lambda>i. present (gr (job_world st)) s i \<and> from_relationship (sha256_of en) doc result i) (claim_node_ids (the_job st)))"

lemma job_failed_reported: "reported en s doc result (job_failed en s why st)"
  using job_failed_settles [of "the_job st" st st] by (simp add: reported_def same_place_def)

lemma job_claims_reported:
  "reported en s (job_node (the_job st)) result (job_claims en s result written st)"
proof -
  let ?doc = "job_node (the_job st)"
  obtain ec rc m where w: "written = (ec, rc, m)" by (cases written)
  obtain now st1 where 1: "read_clock en st = (now, st1)" by (metis surj_pair)
  note st1 = read_clock_frame [OF 1]
  let ?triples = "synthesize_claim_triples result m ?doc (isoformat_of en now)"
  obtain kept st2 where 2: "filter_claims en s ?triples st1 = (kept, st2)" by (metis surj_pair)
  note st2 = filter_claims_frame [OF 2]
  obtain r st3 where 3: "on_world en (apply_document_claims (sha256_of en) (isoformat_of en) s ?doc kept) st2 = (r, st3)"
    by (metis surj_pair)
  note st3 = on_world_frame [OF 3]
  let ?Q = "\<lambda>ids w'. ids = [] \<or> ids = map (triple_id (sha256_of en)) kept \<and> (\<forall>c \<in> set kept. present (gr w') s (triple_id (sha256_of en) c))"
  have "wp (tx_env en) (apply_document_claims (sha256_of en) (isoformat_of en) s ?doc kept) (\<lambda>_ _. True) ?Q (job_world st2)"
    by (rule wp_document_claims) auto
  then have ids: "?Q ids (job_world st3)" if "r = Inr ids" for ids
    using 3 that by (auto simp: wp_def on_world_def split: prod.splits)
  have from_text: "from_relationship (sha256_of en) ?doc result (triple_id (sha256_of en) c)" if "c \<in> set kept" for c
    using that st2 by (intro synthesized_from [where m = m and now = "isoformat_of en now"]) auto
  have run: "job_claims en s result written st =
      (case r of Inl x \<Rightarrow> job_failed en s (store_error en x) st3
       | Inr claim_ids \<Rightarrow> if kept \<noteq> [] \<and> claim_ids = [] then job_failed en s (all_failed en (length kept)) st3
           else set_node_status en s ''done'' (st3\<lparr>the_job := (the_job st3)\<lparr>job_status := COMPLETED, entity_count := int ec,
                  relationship_count := int rc, claim_node_ids := claim_ids, cost_usd := usage_cost en, completed_at := Some now\<rparr>\<rparr>))"
    using st1 2 3 by (simp add: job_claims_def w 1)
  show ?thesis
  proof (cases r)
    case (Inl x)
    then show ?thesis by (simp add: run job_failed_reported)
  next
    case (Inr claim_ids)
    show ?thesis
    proof (cases "kept \<noteq> [] \<and> claim_ids = []")
      case True
      then show ?thesis by (simp add: run Inr job_failed_reported)
    next
      case False
      have "list_all (\<lambda>i. present (gr (job_world st3)) s i \<and> from_relationship (sha256_of en) ?doc result i) claim_ids"
        using ids [OF Inr] from_text by (auto simp: list_all_iff)
      then show ?thesis
        unfolding run Inr sum.case if_not_P [OF False] reported_def node_status_present set_node_status_frame by simp
    qed
  qed
qed

text \<open>
  C29: a completed job tells the truth about its claims.  Every id in its list is the id of a claim of the silo
  that is in the graph, and it is the deterministic id of a claim made of a relationship the
  model extracted from the text: its ends, and its kind (or its type) as the predicate.
\<close>

theorem completed_job_claims:
  assumes "run_extraction_job en s content st = (ok, st')" "job_status (the_job st') = COMPLETED"
  shows "\<exists>result. extract_from (interpreter en) (extract_structured en) content = Inr result \<and>
    list_all (\<lambda>i. match_label_id (gr (job_world st')) ''Claim'' i s \<noteq> [] \<and>
        from_relationship (sha256_of en) (job_node (the_job st)) result i) (claim_node_ids (the_job st'))"
proof -
  let ?st0 = "st\<lparr>the_job := (the_job st)\<lparr>job_status := RUNNING\<rparr>\<rparr>"
  obtain b st1 where 1: "save en ?st0 = (b, st1)" by (metis surj_pair)
  then have st1: "the_job st1 = (the_job st)\<lparr>job_status := RUNNING\<rparr>" by (auto simp: save_def Let_def split: if_splits)
  have save: "the_job (snd (save en v)) = the_job v \<and> job_world (snd (save en v)) = job_world v" for v
    by (simp add: save_def Let_def)
  have b: "b" using assms 1 st1 by (cases b) (auto simp: run_extraction_job_def)
  then have st': "the_job st' = the_job (job_body en s content st1)" "job_world st' = job_world (job_body en s content st1)"
    using assms(1) 1 save [of "job_body en s content st1"] by (simp_all add: run_extraction_job_def)
  have failed: "job_status (the_job (job_failed en s why v)) = FAILED" for why v
    using job_failed_settles [of "the_job v" v v] by (simp add: same_place_def)
  show ?thesis
  proof (cases "extract_from (interpreter en) (extract_structured en) content")
    case (Inl x)
    then show ?thesis using assms(2) by (simp add: st' job_body_def failed)
  next
    case (Inr result)
    obtain r st2 where 2: "on_world en (apply_entities_and_rels (bolt_of en) (isoformat_of en) s result) st1 = (r, st2)"
      by (metis surj_pair)
    obtain written where r: "r = Inr written"
      using assms(2) by (cases r) (auto simp: st' job_body_def Inr 2 failed)
    have body: "job_body en s content st1 = job_claims en s result written st2" by (simp add: job_body_def Inr 2 r)
    have "job_node (the_job st2) = job_node (the_job st)" using on_world_frame [OF 2] st1 by simp
    then show ?thesis
      using job_claims_reported [of en s st2 result written] assms(2) Inr
      by (simp add: st' body reported_def present_def)
  qed
qed

text \<open>A job no call of which fails completes, with the claims the filter keeps.\<close>

lemma job_claims_complete:
  assumes "\<And>k. \<not> fault (tx_env en) k" "claim_filter en = None"
  shows "\<exists>now. job_status (the_job (job_claims en s result (ec, rc, m) st)) = COMPLETED \<and>
    claim_node_ids (the_job (job_claims en s result (ec, rc, m) st)) =
      map (triple_id (sha256_of en)) (synthesize_claim_triples result m (job_node (the_job st)) now)"
proof -
  obtain t st1 where 1: "read_clock en st = (t, st1)" by (metis surj_pair)
  let ?doc = "job_node (the_job st)"
  let ?cs = "synthesize_claim_triples result m ?doc (isoformat_of en t)"
  obtain r st2 where 2: "on_world en (apply_document_claims (sha256_of en) (isoformat_of en) s ?doc ?cs) st1 = (r, st2)"
    by (metis surj_pair)
  have r: "r = Inr (map (triple_id (sha256_of en)) ?cs)"
    using 2 apply_document_claims_run [OF assms(1), of "sha256_of en" "isoformat_of en" s ?doc ?cs "job_world st1"]
    by (auto simp: on_world_def)
  then show ?thesis
    using read_clock_frame [OF 1] on_world_frame [OF 2] 1 2 assms(2)
    by (auto simp: job_claims_def filter_claims_def set_node_status_frame)
qed

section \<open>Entities\<close>

lemma list_all2_left: "list_all2 P xs ys \<Longrightarrow> x \<in> set xs \<Longrightarrow> \<exists>y \<in> set ys. P x y"
  by (induction rule: list_all2_induct) auto

lemma list_all2_right: "list_all2 P xs ys \<Longrightarrow> y \<in> set ys \<Longrightarrow> \<exists>x \<in> set xs. P x y"
  by (induction rule: list_all2_induct) auto

definition entity_node :: "(jvalue \<Rightarrow> val option) \<Rightarrow> string \<Rightarrow> string \<Rightarrow> entity_row \<Rightarrow> node \<Rightarrow> bool" where
  "entity_node bolt s created r n \<longleftrightarrow> is_entity s n \<and> nid n = er_new_id r \<and> attrs n ''name'' = Some (VStr (er_name r))"

lemma created_entities:
  "\<exists>new. nodes (fold (create_entity bolt s created) rs g) = nodes g @ new \<and> list_all2 (entity_node bolt s created) rs new"
proof (induction rs arbitrary: g)
  case (Cons r rs)
  obtain n where n: "nodes (create_entity bolt s created r g) = nodes g @ [n]" "entity_node bolt s created r n"
    by (auto simp: create_entity_def add_node_def entity_node_def is_entity_def has_label_def)
  obtain new where "nodes (fold (create_entity bolt s created) rs (create_entity bolt s created r g)) = nodes g @ n # new"
      "list_all2 (entity_node bolt s created) rs new"
    using Cons.IH [of "create_entity bolt s created r g"] n(1) by auto
  with n(2) show ?case by auto
qed simp

lemma entity_node_named: "entity_node bolt s created r n \<Longrightarrow> named r n"
  by (simp add: entity_node_def named_def)

lemma existing_Some: "existing s g r = Some n \<Longrightarrow> n \<in> set (nodes g) \<and> is_entity s n \<and> named r n"
  by (auto simp: existing_def find_Some_iff)

lemma existing_None: "existing s g r = None \<longleftrightarrow> (\<forall>n \<in> set (nodes g). \<not> (is_entity s n \<and> named r n))"
  by (auto simp: existing_def find_None_iff)

text \<open>
  entities are found before they are created.  The statement answers every row with the id of an entity of the silo that
  is in the graph afterwards and matches the row by name or by qualified name, without regard to
  case.  It changes no node, and adds exactly one node for each row that matched none.
\<close>

theorem entities_found_or_created:
  "case BATCH_FIND_OR_CREATE_ENTITIES bolt rows s created g of (g', found) \<Rightarrow>
     list_all2 (\<lambda>r (n, i). n = er_name r \<and> (\<exists>m \<in> set (nodes g'). is_entity s m \<and> named r m \<and> nid m = i)) rows found \<and>
     edges g' = edges g \<and>
     (\<exists>new. nodes g' = nodes g @ new \<and>
        list_all2 (entity_node bolt s created) (filter (\<lambda>r. existing s g r = None) rows) new)"
proof -
  let ?rs = "filter (\<lambda>r. existing s g r = None) rows"
  let ?g = "fold (create_entity bolt s created) ?rs g"
  obtain new where new: "nodes ?g = nodes g @ new" "list_all2 (entity_node bolt s created) ?rs new"
    using created_entities [of bolt s created ?rs g] by blast
  have e: "edges ?g = edges g"
  proof -
    have "edges (fold (create_entity bolt s created) rs h) = edges h" for rs h
      by (induction rs arbitrary: h) (simp_all add: create_entity_def edges_simps)
    then show ?thesis .
  qed
  have answer: "\<exists>m \<in> set (nodes ?g). is_entity s m \<and> named r m \<and> nid m = (case existing s g r of Some n \<Rightarrow> nid n | None \<Rightarrow> er_new_id r)"
    if r: "r \<in> set rows" for r
  proof (cases "existing s g r")
    case None
    with r have "r \<in> set ?rs" by simp
    then obtain m where "m \<in> set new" "entity_node bolt s created r m"
      using list_all2_left [OF new(2)] by blast
    with None new(1) show ?thesis using entity_node_named by (fastforce simp: entity_node_def)
  next
    case (Some n)
    with existing_Some [OF Some] new(1) show ?thesis by auto
  qed
  have "list_all2 (\<lambda>r (n, i). n = er_name r \<and> (\<exists>m \<in> set (nodes ?g). is_entity s m \<and> named r m \<and> nid m = i)) rows
      (map (\<lambda>r. (er_name r, case existing s g r of Some n \<Rightarrow> nid n | None \<Rightarrow> er_new_id r)) rows)"
    using answer by (simp add: list_all2_map2 list_all2_same)
  with new e show ?thesis by (auto simp: BATCH_FIND_OR_CREATE_ENTITIES_def)
qed

text \<open>
  entities are written once.  A second run of the statement with the same names, at another time and with other fresh
  ids, finds them all and leaves the graph as it is.
\<close>

theorem entities_idempotent:
  assumes "list_all2 (\<lambda>r r'. er_name r' = er_name r \<and> er_qualified_lower r' = er_qualified_lower r) rows rows'"
  shows "fst (BATCH_FIND_OR_CREATE_ENTITIES bolt rows' s created' (fst (BATCH_FIND_OR_CREATE_ENTITIES bolt rows s created g))) =
    fst (BATCH_FIND_OR_CREATE_ENTITIES bolt rows s created g)"
proof -
  let ?g = "fst (BATCH_FIND_OR_CREATE_ENTITIES bolt rows s created g)"
  obtain new where new: "nodes ?g = nodes g @ new"
      "list_all2 (entity_node bolt s created) (filter (\<lambda>r. existing s g r = None) rows) new"
    using created_entities [of bolt s created "filter (\<lambda>r. existing s g r = None) rows" g]
    by (auto simp: BATCH_FIND_OR_CREATE_ENTITIES_def)
  have "existing s ?g r' \<noteq> None" if r': "r' \<in> set rows'" for r'
  proof -
    obtain r where r: "r \<in> set rows" "er_name r' = er_name r" "er_qualified_lower r' = er_qualified_lower r"
      using list_all2_right [OF assms r'] by blast
    then have same: "named r' n = named r n" for n by (simp add: named_def)
    show ?thesis
    proof (cases "existing s g r")
      case None
      with r(1) have "r \<in> set (filter (\<lambda>r. existing s g r = None) rows)" by simp
      from list_all2_left [OF new(2) this] obtain m where "m \<in> set new" "entity_node bolt s created r m" by blast
      with new(1) show ?thesis using entity_node_named unfolding existing_None same by (fastforce simp: entity_node_def)
    next
      case (Some n)
      with new(1) existing_Some [OF Some] show ?thesis unfolding existing_None same by auto
    qed
  qed
  then have "filter (\<lambda>r. existing s ?g r = None) rows' = []" by (auto simp: filter_empty_conv)
  then show ?thesis unfolding BATCH_FIND_OR_CREATE_ENTITIES_def [of bolt rows'] by simp
qed

section \<open>Contradictions\<close>

text \<open>
  contradictions given both ways round are stored twice.  The id of the edge does not depend on the order of the pair, but
  the edge is merged in the direction of the pair: a pair and its mirror leave two edges with one id
  between the same claims, where the comment promises that a repeated pair meets its old edge.
\<close>

theorem mirrored_contradiction_duplicates:
  assumes "match_label_id g ''Claim'' i s = [a]" "match_label_id g ''Claim'' j s = [b]" "vid a \<noteq> vid b"
    and "\<forall>x \<in> set (edges g). etype x \<noteq> ''CONTRADICTS''" "gr w = g" "\<not> fault e (tick w)"
  shows "let p = \<lparr>fingerprint_a = i, fingerprint_b = j, claim_id_a = i, claim_id_b = j\<rparr>;
             q = \<lparr>fingerprint_a = j, fingerprint_b = i, claim_id_a = j, claim_id_b = i\<rparr>;
             eid = [''id'' \<mapsto> VStr (contradicts_edge_id sha256 i j)]
    in case apply_contradicts_to_graph sha256 s [p, q] e w of (r, w') \<Rightarrow> r = Inr 2 \<and>
       edges (gr w') = edges g @ [\<lparr>esrc = vid a, edst = vid b, etype = ''CONTRADICTS'', eprops = eid\<rparr>,
                                  \<lparr>esrc = vid b, edst = vid a, etype = ''CONTRADICTS'', eprops = eid\<rparr>]"
proof -
  let ?kvs = "[(''id'', VStr (contradicts_edge_id sha256 i j))]"
  note sym = contradicts_edge_id_sym [of sha256 j i]
  let ?g = "merge_edges ''CONTRADICTS'' ?kvs [a] [b] g"
  have g1: "edges ?g = edges g @ [\<lparr>esrc = vid a, edst = vid b, etype = ''CONTRADICTS'', eprops = map_of ?kvs\<rparr>]"
    using assms(4) by (auto simp: merge_edges_def merge_edge_def list_ex_iff edge_matches_def)
  have g2: "edges (merge_edges ''CONTRADICTS'' ?kvs [b] [a] ?g) =
      edges ?g @ [\<lparr>esrc = vid b, edst = vid a, etype = ''CONTRADICTS'', eprops = map_of ?kvs\<rparr>]"
    using assms(3,4) g1 by (auto simp: merge_edges_def merge_edge_def list_ex_iff edge_matches_def)
  have m: "match_label_id ?g ''Claim'' k s = match_label_id g ''Claim'' k s" for k
    by (rule match_nodes_eq) (simp add: merge_edges_nodes)
  show ?thesis
    using assms(1,2,5,6) m g1 g2
    by (simp add: apply_contradicts_to_graph_def tcatch_def execute_write_def sym Let_def split_beta)
qed
section \<open>An example\<close>

definition ex_document :: "string \<Rightarrow> TextExtraction.exn + (string \<times> jvalue) list" where
  "ex_document _ = Inr [(''entities'', JList [JObj [(''name'', JStr ''api'')], JObj [(''name'', JStr ''module'')]]),
     (''relationships'', JList [JObj ex_raw])]"

definition ex_found :: ExtractionResult where
  "ex_found = ex_extracted\<lparr>entities := map (\<lambda>n. \<lparr>name = JStr n, entity_type = JStr ''unknown'', description = JStr [],
     qualified_name = JNull, file_path = JNull\<rparr>) [''api'', ''module'']\<rparr>"

lemma ex_document: "extract_from ex_python ex_document ''text'' = Inr ex_found"
proof -
  have t: "normalize_type ''part of'' = COMPOSES" by code_simp
  have k: "normalize_kind ex_python JNull = []" by code_simp
  have raw: "has_parts ex_raw" by code_simp
  show ?thesis
    by (simp add: extract_from_def ex_document_def each_obj_def jget_def parse_relationship_eq raw parse_entity_def Let_def)
      (simp add: ex_raw_def relationship_of_def jget_def py_str_def t k parse_directed_def SYMMETRIC_RELATIONSHIP_TYPES_def
        parse_temporal_def parse_source_node_ids_def clamp01_def ex_found_def ex_extracted_def MAX_CONTENT_SIZE_def MAX_RELATIONSHIPS_def Let_def)
qed

definition ex_job_env :: job_env where
  "ex_job_env = \<lparr>tx_env = ex_env, claim_filter = None, interpreter = ex_python, extract_structured = ex_document,
     isoformat_of = (\<lambda>_. ''now''), sha256_of = (\<lambda>x. x), bolt_of = (\<lambda>_. None), extraction_error = (\<lambda>_. ''x''),
     store_error = (\<lambda>_. ''x''), all_failed = (\<lambda>_. ''x''), usage_cost = 0, llm_model = None, save_fails = (\<lambda>_. False),
     redis_time = (\<lambda>_. 0)\<rparr>"

definition ex_job_state :: job_state where
  "ex_job_state = \<lparr>job_world = ex_world empty_graph, the_job = ex_job, job_store = Map.empty, saves = 0,
     job_filter = \<lparr>breakers = Map.empty, own_breakers = Map.empty, cached = Map.empty, buf = [], inserted = [], asked = 0,
     wikidata_calls = 0, llm_calls = 0\<rparr>\<rparr>"

lemma ex_written: "fst (apply_entities_and_rels (\<lambda>_. None) (\<lambda>_. ''now'') ''s'' ex_found ex_env (ex_world empty_graph)) =
  Inr (2, 1, [(''api'', ex_uuid 1), (''module'', ex_uuid 2)])"
  by code_simp

lemma ex_completed:
  "fst (run_extraction_job ex_job_env ''s'' ''text'' ex_job_state)"
  "job_status (the_job (snd (run_extraction_job ex_job_env ''s'' ''text'' ex_job_state))) = COMPLETED"
  "length (claim_node_ids (the_job (snd (run_extraction_job ex_job_env ''s'' ''text'' ex_job_state)))) = 1"
proof -
  let ?st1 = "snd (save ex_job_env (ex_job_state\<lparr>the_job := ex_job\<lparr>job_status := RUNNING\<rparr>\<rparr>))"
  obtain w1 where 1: "apply_entities_and_rels (\<lambda>_. None) (\<lambda>_. ''now'') ''s'' ex_found ex_env (ex_world empty_graph) =
      (Inr (2, 1, [(''api'', ex_uuid 1), (''module'', ex_uuid 2)]), w1)"
    by (rule that, rule returns_run) (rule ex_written)
  obtain st2 where 2: "on_world ex_job_env (apply_entities_and_rels (\<lambda>_. None) (\<lambda>_. ''now'') ''s'' ex_found) ?st1 =
      (Inr (2, 1, [(''api'', ex_uuid 1), (''module'', ex_uuid 2)]), st2)"
    using 1 by (simp add: on_world_def ex_job_env_def ex_job_state_def save_def Let_def)
  let ?st3 = "job_claims ex_job_env ''s'' ex_found (2, 1, [(''api'', ex_uuid 1), (''module'', ex_uuid 2)]) st2"
  have run: "run_extraction_job ex_job_env ''s'' ''text'' ex_job_state = save ex_job_env ?st3"
    using 2 ex_document
    by (simp add: run_extraction_job_def job_body_def ex_job_env_def ex_job_state_def save_def Let_def)
  have frame: "fst (save ex_job_env v)" "the_job (snd (save ex_job_env v)) = the_job v" for v
    by (simp_all add: save_def Let_def ex_job_env_def)
  have env: "\<And>k. \<not> fault (tx_env ex_job_env) k" "claim_filter ex_job_env = None" by (simp_all add: ex_job_env_def)
  obtain now where 3: "job_status (the_job ?st3) = COMPLETED"
      "claim_node_ids (the_job ?st3) = map (triple_id (sha256_of ex_job_env))
         (synthesize_claim_triples ex_found [(''api'', ex_uuid 1), (''module'', ex_uuid 2)] (job_node (the_job st2)) now)"
    using env job_claims_complete [of ex_job_env "''s''" ex_found 2 1 "[(''api'', ex_uuid 1), (''module'', ex_uuid 2)]" st2]
    by blast
  have "length (synthesize_claim_triples ex_found [(''api'', ex_uuid 1), (''module'', ex_uuid 2)] d now) = 1" for d now
    by (simp add: synthesize_claim_triples_def synthesize_claim_def truthy_id_def ex_found_def ex_extracted_def
        ex_uuid_def map_filter_simps Let_def)
  then show "fst (run_extraction_job ex_job_env ''s'' ''text'' ex_job_state)"
    "job_status (the_job (snd (run_extraction_job ex_job_env ''s'' ''text'' ex_job_state))) = COMPLETED"
    "length (claim_node_ids (the_job (snd (run_extraction_job ex_job_env ''s'' ''text'' ex_job_state)))) = 1"
    using 3 frame by (simp_all add: run)
qed

definition ex_triple :: ClaimTriple where
  "ex_triple = \<lparr>subject = ''api'', predicate = ''uses'', object = ''module'', source_passage_id = ''d'', source_doc_id = ''d'',
     valid_from = ''now'', valid_to = None, claim_confidence = 1, entity_mentions = [], ref_doc_id = None\<rparr>"

definition ex_memory :: graph where
  "ex_memory = \<lparr>nodes = [\<lparr>vid = 0, labels = [''Memory''], nid = ''d'', silo = Some ''s'', attrs = Map.empty, props = Map.empty\<rparr>],
     edges = [], next_vid = 1\<rparr>"

lemma job_settles_witness:
  "fst (run_extraction_job ex_job_env ''s'' ''text'' ex_job_state) \<and>
   completed_at (the_job (snd (run_extraction_job ex_job_env ''s'' ''text'' ex_job_state))) \<noteq> None"
  using job_settles [of ex_job_env ex_job_state "''s''" "''text''"] by (simp add: ex_job_env_def split_beta)

lemma document_claims_attached_witness:
  "\<exists>w'. apply_document_claims (\<lambda>x. x) (\<lambda>_. ''now'') ''s'' ''d'' [ex_triple] ex_env (ex_world ex_memory) =
     (Inr [triple_id (\<lambda>x. x) ex_triple], w') \<and> match_label_id (gr w') ''Claim'' (triple_id (\<lambda>x. x) ex_triple) ''s'' \<noteq> []"
  using document_claims_attached [of ex_env "\<lambda>x. x" "\<lambda>_. ''now''" "''s''" "''d''" "[ex_triple]" "ex_world ex_memory"] by auto

lemma document_claims_idempotent_witness:
  "gr (snd (apply_document_claims (\<lambda>x. x) (\<lambda>_. ''now'') ''s'' ''d'' [ex_triple] ex_env
     (snd (apply_document_claims (\<lambda>x. x) (\<lambda>_. ''now'') ''s'' ''d'' [ex_triple] ex_env (ex_world ex_memory))))) =
   gr (snd (apply_document_claims (\<lambda>x. x) (\<lambda>_. ''now'') ''s'' ''d'' [ex_triple] ex_env (ex_world ex_memory)))"
  by (rule document_claims_idempotent) simp_all

lemma completed_job_claims_witness:
  "\<exists>result. extract_from ex_python ex_document ''text'' = Inr result \<and>
    list_all (\<lambda>i. from_relationship (\<lambda>x. x) (job_node ex_job) result i)
      (claim_node_ids (the_job (snd (run_extraction_job ex_job_env ''s'' ''text'' ex_job_state))))"
  using completed_job_claims [OF prod.collapse [symmetric] ex_completed(2)]
  by (auto simp: ex_job_env_def ex_job_state_def list_all_iff)

definition ex_row :: "string \<Rightarrow> string \<Rightarrow> entity_row" where
  "ex_row n i = \<lparr>er_name = n, er_qualified = JNull, er_qualified_lower = None, er_type = JStr ''unknown'',
     er_description = JNull, er_file = JNull, er_new_id = i\<rparr>"

lemma entities_idempotent_witness:
  "fst (BATCH_FIND_OR_CREATE_ENTITIES (\<lambda>_. None) [ex_row ''API'' ''j''] ''s'' ''later''
     (fst (BATCH_FIND_OR_CREATE_ENTITIES (\<lambda>_. None) [ex_row ''API'' ''i''] ''s'' ''now'' empty_graph))) =
   fst (BATCH_FIND_OR_CREATE_ENTITIES (\<lambda>_. None) [ex_row ''API'' ''i''] ''s'' ''now'' empty_graph)"
  by (rule entities_idempotent) (simp add: ex_row_def)

definition ex_claims :: graph where
  "ex_claims = \<lparr>nodes = [\<lparr>vid = 0, labels = [''Claim''], nid = ''i'', silo = Some ''s'', attrs = Map.empty, props = Map.empty\<rparr>,
      \<lparr>vid = 1, labels = [''Claim''], nid = ''j'', silo = Some ''s'', attrs = Map.empty, props = Map.empty\<rparr>],
     edges = [], next_vid = 2\<rparr>"

lemma mirrored_contradiction_duplicates_witness:
  "length (edges (gr (snd (apply_contradicts_to_graph (\<lambda>x. x) ''s''
     [\<lparr>fingerprint_a = ''i'', fingerprint_b = ''j'', claim_id_a = ''i'', claim_id_b = ''j''\<rparr>,
      \<lparr>fingerprint_a = ''j'', fingerprint_b = ''i'', claim_id_a = ''j'', claim_id_b = ''i''\<rparr>] ex_env (ex_world ex_claims))))) = 2"
  using mirrored_contradiction_duplicates [of ex_claims "''i''" "''s''" "nodes ex_claims ! 0" "''j''" "nodes ex_claims ! 1"
      "ex_world ex_claims" ex_env "\<lambda>x. x"]
  by (simp add: ex_claims_def match_label_id_def match_id_def has_label_def is_node_def Let_def split_beta)

end
