(* ===== verification/Custodian.thy ===== *)
theory Custodian
  imports TextExtraction Schema "HOL-Library.Monad_Syntax"
begin

text \<open>
  The custodian's write path: the models of a finding (\<open>custodian/models.py\<close>), the citation validator
  (\<open>custodian/validators.py\<close>), the business rules and the quality score (\<open>custodian/business_rules.py\<close>,
  \<open>custodian/quality.py\<close>), the validation pipeline (\<open>custodian/pipeline.py\<close>) and
  \<open>WritePath.write_visit\<close> (\<open>custodian/write_path.py\<close>) with the queries of
  \<open>db/custodian_queries.py\<close> on the property graph.

  The queries on findings, their history and the pass ledger come from a package outside the repository; they
  are the fields of \<open>finding_queries\<close>.  The JSON text of claims, edges and summaries is represented by the
  lists themselves; the metrics of rejections and the logged details are left out.
\<close>

section \<open>Findings\<close>

datatype citation_kind = Primary | Supporting

record Citation =
  cited :: string
  cite_kind :: citation_kind

record Claim =
  claim_text :: string
  citations :: "Citation list"

text \<open>\<open>Claim.must_have_primary\<close>.\<close>

definition must_have_primary :: "Claim \<Rightarrow> bool" where
  "must_have_primary c \<longleftrightarrow> citations c \<noteq> [] \<and> list_ex (\<lambda>x. cite_kind x = Primary) (citations c)"

record ProposedEdge =
  source_node_id :: string
  target_node_id :: string
  edge_type :: RelationshipType
  source_type :: string
  target_type :: string
  rationale :: string
  supporting_node_ids :: "string list"
  edge_confidence :: real

definition validate_all :: "real \<Rightarrow> ProposedEdge \<Rightarrow> bool" where
  "validate_all min_confidence e \<longleftrightarrow>
     0 \<le> edge_confidence e \<and> edge_confidence e \<le> 1 \<and>
     \<not> edge_confidence e < min_confidence \<and>
     is_valid (source_type e) (edge_type e) (target_type e) \<and>
     source_node_id e \<in> set (supporting_node_ids e) \<and> target_node_id e \<in> set (supporting_node_ids e)"

datatype scope = ClusterScope | SiloScope

record FindingOutput =
  cluster_id :: "string option"
  finding_silo :: string
  finding_scope :: scope
  claims :: "Claim list"
  inferred_relations :: "ProposedEdge list"
  summary_sentences :: "string list option"

definition validate_scope :: "FindingOutput \<Rightarrow> bool" where
  "validate_scope f \<longleftrightarrow> (case finding_scope f of ClusterScope \<Rightarrow> cluster_id f \<noteq> None | SiloScope \<Rightarrow> cluster_id f = None)"

section \<open>The citation validator\<close>

datatype rejection =
    SCHEMA_VIOLATION | INVALID_JSON | MISSING_FIELD | LOW_CONFIDENCE
  | HALLUCINATED_NODE_ID | INVALID_CITATION | CROSS_TENANT | CROSS_SILO | NOT_CITED
  | QUALITY_BELOW_THRESHOLD | ALL_CLAIMS_REJECTED

record ValidationResult =
  accepted :: bool
  rejection_reason :: "rejection option"
  offending_node_ids :: "string list"

definition LOOKUP_QUERY :: "string list \<Rightarrow> graph \<Rightarrow> (string \<times> string option) list" where
  "LOOKUP_QUERY node_ids g =
     map (\<lambda>n. (nid n, silo n)) (filter (\<lambda>n. content_union_predicate n \<and> nid n \<in> set node_ids) (nodes g))"

text \<open>The rows as a dictionary: of two rows with one id the later counts.\<close>

definition lookup_nodes :: "graph \<Rightarrow> string list \<Rightarrow> string \<rightharpoonup> string option" where
  "lookup_nodes g node_ids = (if node_ids = [] then Map.empty else map_of (rev (LOOKUP_QUERY node_ids g)))"

definition edge_node_ids :: "ProposedEdge \<Rightarrow> string list" where
  "edge_node_ids e = dedup (source_node_id e # target_node_id e # supporting_node_ids e)"

definition check_node_ids_sync ::
  "string list \<Rightarrow> string \<Rightarrow> string set \<Rightarrow> (string \<rightharpoonup> string option) \<Rightarrow> rejection option \<times> string list" where
  "check_node_ids_sync node_ids silo_id seen lookup =
     (let hallucinated = filter (\<lambda>i. i \<notin> seen) node_ids;
          survivors = filter (\<lambda>i. i \<in> seen) node_ids;
          missing = filter (\<lambda>i. lookup i = None) survivors;
          cross_silo = filter (\<lambda>i. case lookup i of None \<Rightarrow> False | Some s \<Rightarrow> s \<noteq> Some silo_id) survivors;
          first_reason = (if hallucinated \<noteq> [] then Some HALLUCINATED_NODE_ID
                          else if missing \<noteq> [] then Some INVALID_CITATION
                          else if cross_silo \<noteq> [] then Some CROSS_SILO else None)
      in if first_reason = None then (None, []) else (first_reason, dedup (hallucinated @ missing @ cross_silo)))"

definition evaluate_ids ::
  "string list \<Rightarrow> string \<Rightarrow> string set \<Rightarrow> (string \<rightharpoonup> string option) \<Rightarrow> ValidationResult" where
  "evaluate_ids node_ids silo_id seen lookup =
     (case check_node_ids_sync node_ids silo_id seen lookup of
        (None, _) \<Rightarrow> \<lparr>accepted = True, rejection_reason = None, offending_node_ids = []\<rparr>
      | (Some r, offenders) \<Rightarrow> \<lparr>accepted = False, rejection_reason = Some r, offending_node_ids = offenders\<rparr>)"

definition citation_ids :: "Claim \<Rightarrow> string list" where
  "citation_ids c = map cited (citations c)"

definition validate_claim :: "graph \<Rightarrow> Claim \<Rightarrow> string \<Rightarrow> string set \<Rightarrow> ValidationResult" where
  "validate_claim g claim silo_id seen =
     evaluate_ids (citation_ids claim) silo_id seen (lookup_nodes g (filter (\<lambda>i. i \<in> seen) (citation_ids claim)))"

definition pre_check_edge :: "real \<Rightarrow> ProposedEdge \<Rightarrow> ValidationResult option" where
  "pre_check_edge min_confidence e =
     (if edge_confidence e < min_confidence
      then Some \<lparr>accepted = False, rejection_reason = Some LOW_CONFIDENCE, offending_node_ids = []\<rparr>
      else if \<not> is_valid (source_type e) (edge_type e) (target_type e)
      then Some \<lparr>accepted = False, rejection_reason = Some SCHEMA_VIOLATION, offending_node_ids = []\<rparr>
      else None)"

definition validate_proposed_edge :: "real \<Rightarrow> graph \<Rightarrow> ProposedEdge \<Rightarrow> string \<Rightarrow> string set \<Rightarrow> ValidationResult" where
  "validate_proposed_edge min_confidence g e silo_id seen =
     (case pre_check_edge min_confidence e of
        Some r \<Rightarrow> r
      | None \<Rightarrow> evaluate_ids (edge_node_ids e) silo_id seen (lookup_nodes g (filter (\<lambda>i. i \<in> seen) (edge_node_ids e))))"

text \<open>One look-up for the whole finding (the order of the ids in the query does not matter).\<close>

definition survivor_ids :: "real \<Rightarrow> FindingOutput \<Rightarrow> string set \<Rightarrow> string list" where
  "survivor_ids min_confidence f seen =
     filter (\<lambda>i. i \<in> seen) (concat (map citation_ids (claims f)) @
       concat (map edge_node_ids (filter (\<lambda>e. pre_check_edge min_confidence e = None) (inferred_relations f))))"

definition validate_finding ::
  "real \<Rightarrow> graph \<Rightarrow> FindingOutput \<Rightarrow> string set \<Rightarrow> ValidationResult list \<times> ValidationResult list" where
  "validate_finding min_confidence g f seen =
     (let lookup = lookup_nodes g (dedup (survivor_ids min_confidence f seen)) in
      (map (\<lambda>c. evaluate_ids (citation_ids c) (finding_silo f) seen lookup) (claims f),
       map (\<lambda>e. case pre_check_edge min_confidence e of
              Some r \<Rightarrow> r
            | None \<Rightarrow> evaluate_ids (edge_node_ids e) (finding_silo f) seen lookup) (inferred_relations f)))"

section \<open>Business rules\<close>

definition quality_score :: "FindingOutput \<Rightarrow> nat \<Rightarrow> real" where
  "quality_score f cluster_size =
     (let claim_count = length (claims f) in
      if claim_count = 0 then 0
      else let distinct_cited = card (set (concat (map citation_ids (claims f))));
               primary_ratio = real (length (filter (\<lambda>c. list_ex (\<lambda>x. cite_kind x = Primary) (citations c)) (claims f)))
                               / real (max claim_count 1);
               rel_count = length (inferred_relations f);
               sentence_count = (case summary_sentences f of None \<Rightarrow> 0 | Some xs \<Rightarrow> length xs);
               density = min (real claim_count / 5) 1;
               coverage = min (real distinct_cited / real (max cluster_size 1)) 1;
               relational = min (real rel_count / 2) 1;
               summary_density = min (real claim_count / real (max sentence_count 1) / 2) 1;
               score = density * (25 / 100) + coverage * (30 / 100) + relational * (15 / 100)
                       + primary_ratio * (20 / 100) + summary_density * (10 / 100)
           in max 0 (min score 1))"

record BusinessRuleResult =
  biz_accepted :: bool
  biz_reason :: "rejection option"
  computed_quality :: real

definition evaluate_rules :: "FindingOutput \<Rightarrow> Claim list \<Rightarrow> ProposedEdge list \<Rightarrow> nat \<Rightarrow> BusinessRuleResult" where
  "evaluate_rules f surviving_claims surviving_edges cluster_size =
     (if surviving_claims = [] \<and> finding_scope f \<noteq> SiloScope
      then \<lparr>biz_accepted = False, biz_reason = Some ALL_CLAIMS_REJECTED, computed_quality = 0\<rparr>
      else \<lparr>biz_accepted = True, biz_reason = None,
            computed_quality = quality_score (f\<lparr>claims := surviving_claims, inferred_relations := surviving_edges\<rparr>) cluster_size\<rparr>)"

record CitationStageResult =
  surviving_claims :: "Claim list"
  surviving_edges :: "ProposedEdge list"
  claims_rejected :: nat
  edges_rejected :: nat

definition run_validation ::
  "real \<Rightarrow> graph \<Rightarrow> FindingOutput \<Rightarrow> string set \<Rightarrow> nat \<Rightarrow> CitationStageResult \<times> BusinessRuleResult" where
  "run_validation min_confidence g f seen cluster_size =
     (let (claim_results, edge_results) = validate_finding min_confidence g f seen;
          cs = map fst (filter (\<lambda>(_, r). accepted r) (zip (claims f) claim_results));
          es = map fst (filter (\<lambda>(_, r). accepted r) (zip (inferred_relations f) edge_results))
      in (\<lparr>surviving_claims = cs, surviving_edges = es,
           claims_rejected = length (filter (\<lambda>r. \<not> accepted r) claim_results),
           edges_rejected = length (filter (\<lambda>r. \<not> accepted r) edge_results)\<rparr>,
          evaluate_rules f cs es cluster_size))"

section \<open>The transaction of a visit\<close>

record finding_row =
  row_id :: string
  row_version :: "int option"
  row_claims :: "string option"
  row_summary :: "string option"
  row_pass_id :: "string option"

record history_params =
  hp_finding_id :: string
  hp_pass_id :: string
  hp_summary :: string
  hp_claims_hash :: string
  hp_created_at :: string
  hp_org_id :: string

record merge_params =
  mp_id :: string
  mp_scope :: scope
  mp_org_id :: string
  mp_silo_id :: string
  mp_pass_id :: string
  mp_version :: int
  mp_status :: string
  mp_summary :: "string list option"
  mp_claims :: "Claim list"
  mp_inferred :: "ProposedEdge list"
  mp_member_fingerprint :: "string option"
  mp_quality_score :: real
  mp_visit_ref :: "string option"
  mp_source :: string
  mp_model :: "string option"
  mp_created_at :: string
  mp_updated_at :: string
  mp_cluster_id :: "string option"

record finding_queries =
  FETCH_CURRENT_FINDING_CLUSTER_SCOPE :: "string \<Rightarrow> string \<Rightarrow> graph \<Rightarrow> finding_row option"
  FETCH_CURRENT_FINDING_SILO_SCOPE :: "string \<Rightarrow> graph \<Rightarrow> finding_row option"
  FINDING_MERGE_CLUSTER_SCOPE :: "merge_params \<Rightarrow> graph \<Rightarrow> string option \<times> graph"
  FINDING_MERGE_SILO_SCOPE :: "merge_params \<Rightarrow> graph \<Rightarrow> string option \<times> graph"
  FINDING_HISTORY_CREATE :: "history_params \<Rightarrow> graph \<Rightarrow> graph"
  FINDING_HISTORY_TRIM :: "string \<Rightarrow> nat \<Rightarrow> graph \<Rightarrow> graph"
  PASS_CLAIMED_EDGE_MERGE :: "string \<Rightarrow> string \<Rightarrow> string \<Rightarrow> graph \<Rightarrow> graph"

record visit_env =
  queries :: finding_queries
  uuid4 :: string
  now_iso :: string
  sha256 :: "string \<Rightarrow> string"
  min_edge_confidence :: real
  statement_fails :: "nat \<Rightarrow> bool"

text \<open>
  The body of a bolt transaction: every statement has a number and raises when \<open>statement_fails\<close> says so;
  \<open>None\<close> is a raised exception, after which the transaction is rolled back.
\<close>

type_synonym 'a bolt = "nat \<times> graph \<Rightarrow> ('a \<times> nat \<times> graph) option"

definition bret :: "'a \<Rightarrow> 'a bolt" where
  "bret a = (\<lambda>(n, g). Some (a, n, g))"

definition braise :: "'a bolt" where
  "braise = (\<lambda>_. None)"

definition bbind :: "'a bolt \<Rightarrow> ('a \<Rightarrow> 'b bolt) \<Rightarrow> 'b bolt" where
  "bbind m f = (\<lambda>s. do { (a, s') \<leftarrow> m s; f a s' })"

definition bwhen :: "bool \<Rightarrow> unit bolt \<Rightarrow> unit bolt" where
  "bwhen c m = (if c then m else bret ())"

definition run_stmt :: "visit_env \<Rightarrow> (graph \<Rightarrow> 'a \<times> graph) \<Rightarrow> 'a bolt" where
  "run_stmt env f = (\<lambda>(n, g). if statement_fails env n then None else Some (fst (f g), Suc n, snd (f g)))"

definition run_write :: "visit_env \<Rightarrow> (graph \<Rightarrow> graph) \<Rightarrow> unit bolt" where
  "run_write env f = run_stmt env (\<lambda>g. ((), f g))"

definition fetch_current_finding :: "visit_env \<Rightarrow> scope \<Rightarrow> string option \<Rightarrow> string \<Rightarrow> finding_row option bolt" where
  "fetch_current_finding env sc cid sid =
     (case (sc, cid) of
        (ClusterScope, Some c) \<Rightarrow> run_stmt env (\<lambda>g. (FETCH_CURRENT_FINDING_CLUSTER_SCOPE (queries env) c sid g, g))
      | (SiloScope, None) \<Rightarrow> run_stmt env (\<lambda>g. (FETCH_CURRENT_FINDING_SILO_SCOPE (queries env) sid g, g))
      | _ \<Rightarrow> braise)"

definition kind_value :: "citation_kind \<Rightarrow> string" where
  "kind_value k = (case k of Primary \<Rightarrow> ''primary'' | Supporting \<Rightarrow> ''supporting'')"

text \<open>\<open>MERGE (f)-[e:CITES {kind}]->(n)\<close> for every pair of the batch.\<close>

definition CITES_EDGE_CREATE_NODE_BATCH :: "string \<Rightarrow> (string \<times> citation_kind) list \<Rightarrow> string \<Rightarrow> graph \<Rightarrow> graph" where
  "CITES_EDGE_CREATE_NODE_BATCH finding_id pairs sid g =
     fold (\<lambda>(i, k) g. merge_edges ''CITES'' [(''kind'', VStr (kind_value k))]
         (match_label_id g ''Finding'' finding_id sid) (filter content_union_predicate (match_id g i sid)) g) pairs g"

definition proposal_key :: "string \<Rightarrow> ProposedEdge \<Rightarrow> (string \<times> val) list" where
  "proposal_key pass_id e = [(''source_node_id'', VStr (source_node_id e)), (''target_node_id'', VStr (target_node_id e)),
     (''type'', VStr (type_value (edge_type e))), (''pass_id'', VStr pass_id)]"

definition proposal_props :: "string \<Rightarrow> string \<Rightarrow> ProposedEdge \<Rightarrow> (string \<times> val) list" where
  "proposal_props org_id now e = [(''source_type'', VStr (source_type e)), (''target_type'', VStr (target_type e)),
     (''confidence'', VNum (edge_confidence e)), (''rationale'', VStr (rationale e)),
     (''supporting_node_ids'', VStrs (supporting_node_ids e)), (''org_id'', VStr org_id),
     (''source'', VStr ''custodian-v1''), (''status'', VStr ''draft''), (''created_at'', VStr now)]"

definition is_proposal :: "string \<Rightarrow> ProposedEdge \<Rightarrow> node \<Rightarrow> bool" where
  "is_proposal pass_id e n \<longleftrightarrow> has_label ''ProposedEdge'' n \<and> list_all (\<lambda>(k, v). attrs n k = Some v) (proposal_key pass_id e)"

text \<open>A \<open>:ProposedEdge\<close> node has no \<open>id\<close>; its \<open>nid\<close> is empty.\<close>

definition merge_proposal :: "string \<Rightarrow> string \<Rightarrow> string \<Rightarrow> string \<Rightarrow> ProposedEdge \<Rightarrow> graph \<Rightarrow> graph" where
  "merge_proposal pass_id org_id sid now e g =
     update_where (is_proposal pass_id e) (set_field ''updated_at'' (Some (VStr now)))
       (if list_ex (is_proposal pass_id e) (nodes g) then g
        else add_node [''ProposedEdge''] [] (Some sid) (map_of (proposal_key pass_id e @ proposal_props org_id now e)) Map.empty g)"

definition PROPOSED_EDGE_MERGE_BATCH :: "string \<Rightarrow> string \<Rightarrow> string \<Rightarrow> string \<Rightarrow> ProposedEdge list \<Rightarrow> graph \<Rightarrow> graph" where
  "PROPOSED_EDGE_MERGE_BATCH pass_id org_id sid now es g = fold (merge_proposal pass_id org_id sid now) es g"

definition CLUSTER_LAST_CUSTODIAN_UPDATE :: "string \<Rightarrow> string \<Rightarrow> string \<Rightarrow> string \<Rightarrow> graph \<Rightarrow> graph" where
  "CLUSTER_LAST_CUSTODIAN_UPDATE cid sid pass_id now =
     update_where (\<lambda>n. has_label ''Cluster'' n \<and> is_node cid sid n)
       (\<lambda>n. set_field ''last_custodian_run_at'' (Some (VStr now)) (set_field ''last_custodian_pass_id'' (Some (VStr pass_id)) n))"

definition HISTORY_KEEP_COUNT :: nat where "HISTORY_KEEP_COUNT = 20"

text \<open>The pairs of node and kind cited by the claims, each once.\<close>

definition cites_batch :: "Claim list \<Rightarrow> (string \<times> citation_kind) list" where
  "cites_batch cs = dedup (concat (map (\<lambda>c. map (\<lambda>x. (cited x, cite_kind x)) (citations c)) cs))"

record visit_args =
  va_pass_id :: string
  va_cluster_size :: nat
  va_seen :: "string set"
  va_org_id :: string
  va_visit_ref :: "string option"
  va_model_name :: "string option"
  va_fingerprint :: "string option"

record WritePathResult =
  wr_finding_id :: string
  wr_version :: int
  claims_committed :: nat
  wr_claims_rejected :: nat
  edges_committed :: nat
  wr_edges_rejected :: nat
  references_upserted :: nat
  history_snapshot_created :: bool
  skipped :: bool

definition snapshot_history :: "visit_env \<Rightarrow> visit_args \<Rightarrow> finding_row \<Rightarrow> unit bolt" where
  "snapshot_history env args prior = run_write env (FINDING_HISTORY_CREATE (queries env)
     \<lparr>hp_finding_id = row_id prior, hp_pass_id = or_else (row_pass_id prior) (va_pass_id args),
      hp_summary = or_else (row_summary prior) ''null'',
      hp_claims_hash = sha256 env (or_else (row_claims prior) ''[]''),
      hp_created_at = now_iso env, hp_org_id = va_org_id args\<rparr>)"

definition merge_args :: "visit_env \<Rightarrow> visit_args \<Rightarrow> FindingOutput \<Rightarrow> CitationStageResult \<Rightarrow> real \<Rightarrow> finding_row option \<Rightarrow> merge_params" where
  "merge_args env args f st quality prior =
     \<lparr>mp_id = (case prior of None \<Rightarrow> uuid4 env | Some p \<Rightarrow> row_id p),
      mp_scope = finding_scope f, mp_org_id = va_org_id args, mp_silo_id = finding_silo f, mp_pass_id = va_pass_id args,
      mp_version = (case prior of None \<Rightarrow> 1 | Some p \<Rightarrow> (case row_version p of None \<Rightarrow> 0 | Some v \<Rightarrow> v) + 1),
      mp_status = ''draft'', mp_summary = summary_sentences f, mp_claims = surviving_claims st, mp_inferred = surviving_edges st,
      mp_member_fingerprint = va_fingerprint args, mp_quality_score = quality, mp_visit_ref = va_visit_ref args,
      mp_source = ''custodian'', mp_model = va_model_name args, mp_created_at = now_iso env, mp_updated_at = now_iso env,
      mp_cluster_id = (case finding_scope f of ClusterScope \<Rightarrow> cluster_id f | SiloScope \<Rightarrow> None)\<rparr>"

definition FINDING_MERGE :: "visit_env \<Rightarrow> FindingOutput \<Rightarrow> merge_params \<Rightarrow> graph \<Rightarrow> string option \<times> graph" where
  "FINDING_MERGE env f = (case finding_scope f of
     ClusterScope \<Rightarrow> FINDING_MERGE_CLUSTER_SCOPE (queries env) | SiloScope \<Rightarrow> FINDING_MERGE_SILO_SCOPE (queries env))"

text \<open>Steps 4e to 4g: what is attached to the merged finding.\<close>

definition attach_visit :: "visit_env \<Rightarrow> visit_args \<Rightarrow> FindingOutput \<Rightarrow> CitationStageResult \<Rightarrow> string \<Rightarrow> unit bolt" where
  "attach_visit env args f st finding_id =
     bbind (bwhen (cites_batch (surviving_claims st) \<noteq> [])
       (run_write env (CITES_EDGE_CREATE_NODE_BATCH finding_id (cites_batch (surviving_claims st)) (finding_silo f)))) (\<lambda>_.
     bbind (bwhen (surviving_edges st \<noteq> [])
       (run_write env (PROPOSED_EDGE_MERGE_BATCH (va_pass_id args) (va_org_id args) (finding_silo f) (now_iso env) (surviving_edges st)))) (\<lambda>_.
     case (finding_scope f, cluster_id f) of
       (ClusterScope, Some cid) \<Rightarrow>
         bbind (run_write env (CLUSTER_LAST_CUSTODIAN_UPDATE cid (finding_silo f) (va_pass_id args) (now_iso env))) (\<lambda>_.
         run_write env (PASS_CLAIMED_EDGE_MERGE (queries env) (va_pass_id args) cid (now_iso env)))
     | _ \<Rightarrow> bret ()))"

definition visit_transaction :: "visit_env \<Rightarrow> visit_args \<Rightarrow> FindingOutput \<Rightarrow> CitationStageResult \<Rightarrow> real \<Rightarrow> WritePathResult bolt" where
  "visit_transaction env args f st quality =
     bbind (fetch_current_finding env (finding_scope f) (cluster_id f) (finding_silo f)) (\<lambda>prior.
     bbind (case prior of None \<Rightarrow> bret () | Some p \<Rightarrow> snapshot_history env args p) (\<lambda>_.
     bbind (run_stmt env (FINDING_MERGE env f (merge_args env args f st quality prior))) (\<lambda>merge_row.
     case merge_row of
       None \<Rightarrow> braise
     | Some finding_id \<Rightarrow>
         bbind (bwhen (prior \<noteq> None) (run_write env (FINDING_HISTORY_TRIM (queries env) finding_id HISTORY_KEEP_COUNT))) (\<lambda>_.
         bbind (attach_visit env args f st finding_id) (\<lambda>_.
         bret \<lparr>wr_finding_id = finding_id, wr_version = mp_version (merge_args env args f st quality prior),
           claims_committed = length (surviving_claims st), wr_claims_rejected = claims_rejected st,
           edges_committed = length (surviving_edges st), wr_edges_rejected = edges_rejected st,
           references_upserted = length (cites_batch (surviving_claims st)),
           history_snapshot_created = (prior \<noteq> None), skipped = False\<rparr>)))))"

text \<open>
  \<open>write_visit\<close>: validation reads the graph \<open>g\<close>; the transaction runs on the graph \<open>meanwhile g\<close> that
  other writers leave until it begins.  \<open>None\<close> is an exception.
\<close>

definition write_visit ::
  "visit_env \<Rightarrow> (graph \<Rightarrow> graph) \<Rightarrow> FindingOutput \<Rightarrow> visit_args \<Rightarrow> graph \<Rightarrow> WritePathResult option \<times> graph" where
  "write_visit env meanwhile f args g =
     (let (st, biz) = run_validation (min_edge_confidence env) g f (va_seen args) (va_cluster_size args) in
      if \<not> biz_accepted biz
      then (Some \<lparr>wr_finding_id = [], wr_version = 0, claims_committed = 0, wr_claims_rejected = claims_rejected st,
              edges_committed = 0, wr_edges_rejected = edges_rejected st, references_upserted = 0,
              history_snapshot_created = False, skipped = True\<rparr>, g)
      else case visit_transaction env args f st (computed_quality biz) (0, meanwhile g) of
        None \<Rightarrow> (None, meanwhile g)
      | Some (r, _, g') \<Rightarrow> (Some r, g'))"

end
