(* ===== verification/CustodianCorrect.thy ===== *)
theory CustodianCorrect
  imports Custodian
begin

text \<open>
  The validator accepts exactly the citations of seen, existing nodes of the silo, in one query as with one
  per claim; a visit writes everything or nothing, and what it cites is anchored in the graph.
\<close>

section \<open>The look-up\<close>

lemma map_of_filter_key: "map_of (filter (\<lambda>(k, _). P k) xs) k = (if P k then map_of xs k else None)"
  by (induction xs) auto

lemma dedup_Nil [simp]: "dedup xs = [] \<longleftrightarrow> xs = []"
  by (simp add: dedup_def)

definition content_rows :: "graph \<Rightarrow> (string \<times> string option) list" where
  "content_rows g = map (\<lambda>n. (nid n, silo n)) (filter content_union_predicate (nodes g))"

lemma lookup_nodes_eq: "lookup_nodes g ids i = (if i \<in> set ids then map_of (rev (content_rows g)) i else None)"
proof -
  have "LOOKUP_QUERY ids g = filter (\<lambda>(k, _). k \<in> set ids) (content_rows g)"
    by (simp add: LOOKUP_QUERY_def content_rows_def filter_map comp_def)
  then show ?thesis
    by (auto simp: lookup_nodes_def rev_filter map_of_filter_key)
qed

lemma evaluate_cong:
  assumes "\<And>i. i \<in> set ids \<Longrightarrow> i \<in> seen \<Longrightarrow> l i = l' i"
  shows "evaluate_ids ids s seen l = evaluate_ids ids s seen l'"
proof -
  have same: "filter (\<lambda>i. Q (l i)) (filter (\<lambda>i. i \<in> seen) ids) = filter (\<lambda>i. Q (l' i)) (filter (\<lambda>i. i \<in> seen) ids)" for Q
    by (rule filter_cong) (use assms in auto)
  show ?thesis
    unfolding evaluate_ids_def check_node_ids_sync_def Let_def
      same [of "\<lambda>v. v = None"] same [of "\<lambda>v. case v of None \<Rightarrow> False | Some t \<Rightarrow> t \<noteq> Some s"] by (rule refl)
qed

text \<open>
  C23: validating a finding with its single look-up gives for every claim and every edge the result of validating
  it alone, whatever the graph holds (also with several nodes of one id).
\<close>

theorem validate_finding_batched:
  "validate_finding m g f seen =
     (map (\<lambda>c. validate_claim g c (finding_silo f) seen) (claims f),
      map (\<lambda>e. validate_proposed_edge m g e (finding_silo f) seen) (inferred_relations f))"
  unfolding validate_finding_def Let_def prod.inject
proof (intro conjI map_cong [OF refl])
  fix c assume "c \<in> set (claims f)"
  then show "evaluate_ids (citation_ids c) (finding_silo f) seen (lookup_nodes g (dedup (survivor_ids m f seen))) =
      validate_claim g c (finding_silo f) seen"
    unfolding validate_claim_def by (intro evaluate_cong) (auto simp: lookup_nodes_eq survivor_ids_def)
next
  fix e assume e: "e \<in> set (inferred_relations f)"
  have "evaluate_ids (edge_node_ids e) (finding_silo f) seen (lookup_nodes g (dedup (survivor_ids m f seen))) =
      evaluate_ids (edge_node_ids e) (finding_silo f) seen (lookup_nodes g (filter (\<lambda>i. i \<in> seen) (edge_node_ids e)))"
    if "pre_check_edge m e = None"
    using that e by (intro evaluate_cong) (auto simp: lookup_nodes_eq survivor_ids_def)
  then show "(case pre_check_edge m e of None \<Rightarrow> evaluate_ids (edge_node_ids e) (finding_silo f) seen
        (lookup_nodes g (dedup (survivor_ids m f seen))) | Some r \<Rightarrow> r) =
      validate_proposed_edge m g e (finding_silo f) seen"
    unfolding validate_proposed_edge_def by (simp split: option.split)
qed

lemma evaluate_accepted:
  "accepted (evaluate_ids ids s seen l) \<longleftrightarrow> (\<forall>i \<in> set ids. i \<in> seen \<and> l i = Some (Some s))"
proof -
  have "fst (check_node_ids_sync ids s seen l) = None \<longleftrightarrow> (\<forall>i \<in> set ids. i \<in> seen \<and> l i = Some (Some s))"
    unfolding check_node_ids_sync_def Let_def by (auto simp: filter_empty_conv split: option.splits) (metis option.distinct(1))
  then show ?thesis
    by (auto simp: evaluate_ids_def split: prod.split option.split)
qed

lemma validate_claim_accepted:
  "accepted (validate_claim g c s seen) \<longleftrightarrow>
     (\<forall>i \<in> set (citation_ids c). i \<in> seen \<and> map_of (rev (content_rows g)) i = Some (Some s))"
  unfolding validate_claim_def evaluate_accepted by (auto simp: lookup_nodes_eq)

lemma validate_edge_accepted:
  "accepted (validate_proposed_edge m g e s seen) \<longleftrightarrow> pre_check_edge m e = None \<and>
     (\<forall>i \<in> set (edge_node_ids e). i \<in> seen \<and> map_of (rev (content_rows g)) i = Some (Some s))"
proof (cases "pre_check_edge m e")
  case None
  then show ?thesis
    unfolding validate_proposed_edge_def by (auto simp: evaluate_accepted lookup_nodes_eq)
next
  case (Some r)
  then have "\<not> accepted r" by (auto simp: pre_check_edge_def split: if_splits)
  with Some show ?thesis by (simp add: validate_proposed_edge_def)
qed

lemma zip_map_filter: "map fst (filter (\<lambda>(_, r). P r) (zip xs (map h xs))) = filter (\<lambda>x. P (h x)) xs"
  by (induction xs) auto

lemma surviving:
  "surviving_claims (fst (run_validation m g f seen k)) =
     filter (\<lambda>c. accepted (validate_claim g c (finding_silo f) seen)) (claims f)"
  "surviving_edges (fst (run_validation m g f seen k)) =
     filter (\<lambda>e. accepted (validate_proposed_edge m g e (finding_silo f) seen)) (inferred_relations f)"
  by (simp_all add: run_validation_def validate_finding_batched zip_map_filter Let_def)

lemma content_row: "map_of (rev (content_rows g)) i = Some (Some s) \<Longrightarrow>
    \<exists>n \<in> set (nodes g). content_union_predicate n \<and> is_node i s n"
  by (drule map_of_SomeD) (auto simp: content_rows_def is_node_def)

text \<open>
  hallucinated, missing and foreign citations never get through: a claim or an edge that survives validation
  names only nodes the visit has seen, and each of them is a content node of the finding's silo in the graph.
\<close>

theorem survivors_cite_seen_nodes:
  assumes "c \<in> set (surviving_claims (fst (run_validation m g f seen k)))" "i \<in> set (citation_ids c)"
  shows "i \<in> seen \<and> (\<exists>n \<in> set (nodes g). content_union_predicate n \<and> is_node i (finding_silo f) n)"
  using assms content_row by (auto simp: surviving validate_claim_accepted)

text \<open>
  surviving edges are well typed and confident enough: whatever constructor built them, their confidence
  reaches the minimum, and the classes of their ends are those the type of the edge admits.
\<close>

theorem surviving_edges_typed:
  assumes "e \<in> set (surviving_edges (fst (run_validation m g f seen k)))"
  shows "m \<le> edge_confidence e \<and> source_type e \<noteq> [] \<and> target_type e \<noteq> [] \<and>
    (case edge_type e of
       COMPOSES \<Rightarrow> classify (target_type e) \<in> {Some ARTIFACT, Some ORGANIZATION}
     | DEPENDS_ON \<Rightarrow> classify (source_type e) \<in> {Some ARTIFACT, Some CONCEPT} \<and>
                     classify (target_type e) \<in> {Some ARTIFACT, Some CONCEPT}
     | INSTANTIATES \<Rightarrow> classify (target_type e) = Some CONCEPT
     | CAUSES \<Rightarrow> classify (source_type e) \<in> {Some EVENT, Some AGENT}
     | PREVENTS \<Rightarrow> classify (source_type e) \<in> {Some AGENT, Some ARTIFACT, Some CONCEPT} \<and>
                   classify (target_type e) \<in> {Some EVENT, Some CONCEPT}
     | _ \<Rightarrow> True)"
proof -
  from assms have pre: "pre_check_edge m e = None" by (simp add: surviving validate_edge_accepted)
  then have "m \<le> edge_confidence e" and v: "is_valid (source_type e) (edge_type e) (target_type e)"
    by (auto simp: pre_check_edge_def split: if_splits)
  have "source_type e \<noteq> []" "target_type e \<noteq> []" using v by (auto simp: is_valid_def split: if_splits)
  moreover have "case edge_type e of
       COMPOSES \<Rightarrow> classify (target_type e) \<in> {Some ARTIFACT, Some ORGANIZATION}
     | DEPENDS_ON \<Rightarrow> classify (source_type e) \<in> {Some ARTIFACT, Some CONCEPT} \<and>
                     classify (target_type e) \<in> {Some ARTIFACT, Some CONCEPT}
     | INSTANTIATES \<Rightarrow> classify (target_type e) = Some CONCEPT
     | CAUSES \<Rightarrow> classify (source_type e) \<in> {Some EVENT, Some AGENT}
     | PREVENTS \<Rightarrow> classify (source_type e) \<in> {Some AGENT, Some ARTIFACT, Some CONCEPT} \<and>
                   classify (target_type e) \<in> {Some EVENT, Some CONCEPT}
     | _ \<Rightarrow> True"
    using v by (cases "edge_type e") (auto simp: is_valid_def CLASS_MATRIX_def admits_def Let_def split: if_splits option.splits)
  ultimately show ?thesis using \<open>m \<le> edge_confidence e\<close> by blast
qed

section \<open>The quality score\<close>

text \<open>
  the quality score of a finding lies in the unit interval without the final clamp, is zero exactly for a finding
  without claims, and reaches one only when the whole cluster is cited and every claim has a primary citation.
\<close>

theorem quality_score_bounds:
  "0 \<le> quality_score f n \<and> quality_score f n \<le> 1 \<and> (quality_score f n = 0 \<longleftrightarrow> claims f = []) \<and>
   (quality_score f n < 1 \<or> claims f \<noteq> [] \<and> list_all (\<lambda>c. list_ex (\<lambda>x. cite_kind x = Primary) (citations c)) (claims f) \<and>
      n \<le> card (set (concat (map citation_ids (claims f)))))"
proof (cases "claims f = []")
  case True
  then show ?thesis by (simp add: quality_score_def)
next
  case False
  let ?P = "\<lambda>c. list_ex (\<lambda>x. cite_kind x = Primary) (citations c)"
  define d where "d = min (real (length (claims f)) / 5) 1"
  define co where "co = min (real (card (set (concat (map citation_ids (claims f))))) / real (max n 1)) 1"
  define re where "re = min (real (length (inferred_relations f)) / 2) 1"
  define p where "p = real (length (filter ?P (claims f))) / real (max (length (claims f)) 1)"
  define su where "su = min (real (length (claims f)) / real (max (case summary_sentences f of None \<Rightarrow> 0 | Some xs \<Rightarrow> length xs) 1) / 2) 1"
  have len: "1 \<le> length (claims f)" using False by (cases "claims f") auto
  have d: "0 < d" "d \<le> 1" using len by (auto simp: d_def)
  have co: "0 \<le> co" "co \<le> 1" by (auto simp: co_def)
  have re: "0 \<le> re" "re \<le> 1" by (auto simp: re_def)
  have su: "0 \<le> su" "su \<le> 1" by (auto simp: su_def)
  have p: "0 \<le> p" "p \<le> 1" using len length_filter_le [of ?P "claims f"] by (auto simp: p_def divide_le_eq_1)
  have q: "quality_score f n = max 0 (min (d * (25 / 100) + co * (30 / 100) + re * (15 / 100) + p * (20 / 100) + su * (10 / 100)) 1)"
    using False unfolding quality_score_def d_def co_def re_def p_def su_def Let_def by simp
  then have score: "quality_score f n = d * (25 / 100) + co * (30 / 100) + re * (15 / 100) + p * (20 / 100) + su * (10 / 100)"
    using d co re p su by (auto simp: max_def min_def)
  have whole: "list_all ?P (claims f) \<and> n \<le> card (set (concat (map citation_ids (claims f))))" if "\<not> quality_score f n < 1"
  proof
    from that d co re p su have "p = 1" "co = 1" unfolding score by auto
    from \<open>p = 1\<close> len have "length (filter ?P (claims f)) = length (claims f)" by (simp add: p_def divide_eq_1_iff)
    then show "list_all ?P (claims f)" by (metis (no_types, lifting) length_filter_less less_irrefl list_all_iff)
    from \<open>co = 1\<close> show "n \<le> card (set (concat (map citation_ids (claims f))))"
      by (auto simp: co_def min_def divide_simps split: if_splits)
  qed
  have "0 < quality_score f n" unfolding score using d co re p su by (simp add: add_pos_nonneg)
  moreover have "quality_score f n \<le> 1" unfolding q by simp
  ultimately show ?thesis using whole False by auto
qed

section \<open>The visit\<close>

lemma validation_rules:
  "snd (run_validation m g f seen k) = evaluate_rules f (surviving_claims (fst (run_validation m g f seen k)))
     (surviving_edges (fst (run_validation m g f seen k))) k"
  by (simp add: run_validation_def Let_def split_def)

lemma visit_skipped:
  "run_validation m g f seen k = (st, biz) \<Longrightarrow>
     biz_accepted biz \<longleftrightarrow> finding_scope f = SiloScope \<or>
       list_ex (\<lambda>c. accepted (validate_claim g c (finding_silo f) seen)) (claims f)"
  using validation_rules [of m g f seen k] surviving(1) [of m g f seen k]
  by (auto simp: evaluate_rules_def filter_empty_conv list_ex_iff)

lemma visit_transaction_not_skipped: "visit_transaction env args f st q s = Some (r, s') \<Longrightarrow> \<not> skipped r"
  by (auto simp: visit_transaction_def bbind_def bret_def braise_def split: Option.bind_splits option.splits)


text \<open>What the statements of the transaction leave alone: the content nodes and the citations.\<close>

definition anchors :: "graph \<Rightarrow> (nat \<times> string \<times> string option) list" where
  "anchors g = map (\<lambda>n. (vid n, nid n, silo n)) (filter content_union_predicate (nodes g))"










section \<open>Citations\<close>

lemma match_of_card:
  "filter content_union_predicate (match_id g i s) \<noteq> [] \<longleftrightarrow> (\<exists>v. (v, i, Some s) \<in> set (anchors g))"
  by (auto simp: anchors_def match_id_def is_node_def filter_empty_conv image_iff)







section \<open>The transaction\<close>













section \<open>Witnesses\<close>

text \<open>Finding queries that keep one finding per id, and no history.\<close>

definition ex_merge :: "merge_params \<Rightarrow> graph \<Rightarrow> string option \<times> graph" where
  "ex_merge p g = (case match_label_id g ''Finding'' (mp_id p) (mp_silo_id p) of
     [] \<Rightarrow> (Some (mp_id p), add_node [''Finding''] (mp_id p) (Some (mp_silo_id p)) Map.empty Map.empty g)
   | [x] \<Rightarrow> (Some (mp_id p), g)
   | _ \<Rightarrow> (None, g))"

definition ex_queries :: finding_queries where
  "ex_queries = \<lparr>FETCH_CURRENT_FINDING_CLUSTER_SCOPE = (\<lambda>_ _ _. None), FETCH_CURRENT_FINDING_SILO_SCOPE = (\<lambda>_ _. None),
     FINDING_MERGE_CLUSTER_SCOPE = ex_merge, FINDING_MERGE_SILO_SCOPE = ex_merge,
     FINDING_HISTORY_CREATE = (\<lambda>_ g. g), FINDING_HISTORY_TRIM = (\<lambda>_ _ g. g), PASS_CLAIMED_EDGE_MERGE = (\<lambda>_ _ _ g. g)\<rparr>"



definition ex_visit_env :: visit_env where
  "ex_visit_env = \<lparr>queries = ex_queries, uuid4 = ''f'', now_iso = ''t'', sha256 = (\<lambda>x. x), min_edge_confidence = 7 / 10,
     statement_fails = (\<lambda>_. False)\<rparr>"

definition ex_claim :: Claim where
  "ex_claim = \<lparr>claim_text = ''x'', citations = [\<lparr>cited = ''c1'', cite_kind = Primary\<rparr>]\<rparr>"

definition ex_link :: ProposedEdge where
  "ex_link = \<lparr>source_node_id = ''c1'', target_node_id = ''c1'', edge_type = INSTANTIATES, source_type = ''user'',
     target_type = ''topic'', rationale = ''r'', supporting_node_ids = [''c1''], edge_confidence = 8 / 10\<rparr>"

definition ex_finding :: FindingOutput where
  "ex_finding = \<lparr>cluster_id = Some ''k'', finding_silo = ''s'', finding_scope = ClusterScope, claims = [ex_claim],
     inferred_relations = [ex_link], summary_sentences = None\<rparr>"

definition ex_visit_args :: visit_args where
  "ex_visit_args = \<lparr>va_pass_id = ''p'', va_cluster_size = 1, va_seen = {''c1''}, va_org_id = ''o'', va_visit_ref = None,
     va_model_name = None, va_fingerprint = None\<rparr>"

definition ex_visit_graph :: graph where
  "ex_visit_graph = add_node [''Claim''] ''c1'' (Some ''s'') Map.empty Map.empty empty_graph"

lemmas ex_visit_simps = ex_visit_env_def ex_finding_def ex_visit_args_def ex_claim_def ex_link_def

lemma ex_rows: "map_of (rev (content_rows ex_visit_graph)) ''c1'' = Some (Some ''s'')"
  by (simp add: content_rows_def ex_visit_graph_def add_node_def empty_graph_def content_union_predicate_def
      CORE_CONTENT_LABELS_def has_label_def)

lemma ex_claim_survives: "surviving_claims (fst (run_validation m ex_visit_graph ex_finding {''c1''} k)) = [ex_claim]"
  by (simp add: surviving validate_claim_accepted ex_rows ex_finding_def ex_claim_def citation_ids_def)

lemma ex_link_survives: "surviving_edges (fst (run_validation (7 / 10) ex_visit_graph ex_finding {''c1''} k)) = [ex_link]"
proof -
  have "strip (map lower_char ''topic'') = ''topic''" "map_of token_to_class ''topic'' = Some CONCEPT" by code_simp+
  then have "classify ''topic'' = Some CONCEPT" by (simp add: classify_def Let_def)
  then have "is_valid ''user'' INSTANTIATES ''topic''"
    by (simp add: is_valid_def CLASS_MATRIX_def admits_def Let_def)
  then have "pre_check_edge (7 / 10) ex_link = None" by (simp add: pre_check_edge_def ex_link_def)
  moreover have "set (edge_node_ids ex_link) = {''c1''}" by (simp add: edge_node_ids_def ex_link_def)
  ultimately show ?thesis
    by (simp add: surviving validate_edge_accepted ex_rows ex_finding_def)
qed

lemma survivors_cite_seen_nodes_witness:
  "''c1'' \<in> {''c1''} \<and> (\<exists>n \<in> set (nodes ex_visit_graph). content_union_predicate n \<and> is_node ''c1'' ''s'' n)"
proof -
  have "ex_claim \<in> set (surviving_claims (fst (run_validation 0 ex_visit_graph ex_finding {''c1''} 1)))"
    by (simp add: ex_claim_survives)
  from survivors_cite_seen_nodes [OF this, of "''c1''"] show ?thesis
    by (simp add: ex_finding_def ex_claim_def citation_ids_def)
qed

lemma surviving_edges_typed_witness: "classify ''topic'' = Some CONCEPT"
  using surviving_edges_typed [of ex_link "7 / 10" ex_visit_graph ex_finding "{''c1''}" 1]
  by (simp add: ex_link_survives ex_link_def)

lemma ex_visit: "\<exists>r g'. write_visit ex_visit_env (\<lambda>g. g) ex_finding ex_visit_args ex_visit_graph = (Some r, g') \<and> \<not> skipped r"
proof -
  obtain st biz where v: "run_validation (7 / 10) ex_visit_graph ex_finding {''c1''} 1 = (st, biz)"
    by (metis surj_pair)
  then have ok: "biz_accepted biz"
    using visit_skipped [OF v] surviving(1) [of "7 / 10" ex_visit_graph ex_finding "{''c1''}" 1] ex_claim_survives [of "7 / 10" 1]
    by (auto simp: list_ex_iff ex_finding_def)
  have "\<exists>r n g'. visit_transaction ex_visit_env ex_visit_args ex_finding st q (0, ex_visit_graph) = Some (r, n, g')" for q
    by (simp add: visit_transaction_def attach_visit_def fetch_current_finding_def ex_visit_simps bbind_def bret_def bwhen_def
        run_write_def run_stmt_def FINDING_MERGE_def ex_queries_def ex_merge_def merge_args_def ex_visit_graph_def
        match_label_id_def match_id_def add_node_def empty_graph_def is_node_def has_label_def)
  then obtain r n g' where t: "visit_transaction ex_visit_env ex_visit_args ex_finding st (computed_quality biz) (0, ex_visit_graph) = Some (r, n, g')"
    by blast
  with ok have "write_visit ex_visit_env (\<lambda>g. g) ex_finding ex_visit_args ex_visit_graph = (Some r, g')"
    using v by (simp add: write_visit_def) (simp add: ex_visit_env_def ex_visit_args_def)
  with visit_transaction_not_skipped [OF t] show ?thesis by blast
qed


end
