(* ===== verification/Diffusion.thy ===== *)
theory Diffusion
  imports PropertyGraph
begin

text \<open>
  Heat diffusion (\<open>signals/diffusion.py\<close>, \<open>config/diffusion.py\<close>): hot nodes of a silo seed a
  breadth-first search over the edges around them; heat decays at every hop, the best heat that
  reaches a node is written back as its \<open>propagated_heat\<close>.

  Python dictionaries whose iteration order or size matters are association lists changed by
  \<open>AList.update\<close>, which keeps the place of a key that is already there.
\<close>

section \<open>Configuration\<close>

record DiffusionThresholds =
  full :: real
  warm :: real
  structure_level :: real

record DiffusionConfig =
  hot_threshold :: real
  hop_decay :: real
  max_depth :: nat
  min_threshold :: real
  max_hot_nodes :: nat
  propagated_heat_decay :: real
  thresholds :: DiffusionThresholds
  edge_weights :: "(string \<times> real) list"

definition default_thresholds :: DiffusionThresholds where
  "default_thresholds = \<lparr>full = 66 / 100, warm = 33 / 100, structure_level = 1 / 10\<rparr>"

definition default_config :: DiffusionConfig where
  "default_config =
     \<lparr>hot_threshold = 1 / 2, hop_decay = 7 / 10, max_depth = 3, min_threshold = 1 / 100,
      max_hot_nodes = 200, propagated_heat_decay = 8 / 10, thresholds = default_thresholds,
      edge_weights =
        [(''CONTRADICTS'', 95 / 100), (''SUPPORTS'', 90 / 100), (''DEPENDS_ON'', 85 / 100),
         (''CITES'', 80 / 100), (''CAUSES'', 80 / 100), (''DERIVES_FROM'', 75 / 100),
         (''CORROBORATES'', 70 / 100), (''PREVENTS'', 70 / 100), (''RELATED_TO'', 40 / 100)]\<rparr>"

text \<open>What the declared field bounds of the configuration classes (\<open>ge=0, le=1\<close>) guarantee.\<close>

definition valid_config :: "DiffusionConfig \<Rightarrow> bool" where
  "valid_config cfg \<longleftrightarrow>
     0 \<le> hot_threshold cfg \<and> hot_threshold cfg \<le> 1 \<and> 0 \<le> hop_decay cfg \<and> hop_decay cfg \<le> 1 \<and>
     1 \<le> max_depth cfg \<and> 0 \<le> min_threshold cfg \<and> min_threshold cfg \<le> 1 \<and>
     1 \<le> max_hot_nodes cfg \<and> 0 \<le> propagated_heat_decay cfg \<and> propagated_heat_decay cfg \<le> 1"

definition get_materialization_level :: "DiffusionThresholds \<Rightarrow> real \<Rightarrow> string" where
  "get_materialization_level th effective_heat =
     (if full th \<le> effective_heat then ''FULL''
      else if warm th \<le> effective_heat then ''WARM''
      else if structure_level th \<le> effective_heat then ''STRUCTURE''
      else ''MINIMAL'')"

section \<open>The subgraph\<close>

record SubgraphEdge =
  source_id :: string
  target_id :: string
  edge_type :: string
  edge_heat :: "real option"

record HotNode =
  hot_id :: string
  heat_score :: real

record DiffusionResult =
  hot_nodes :: nat
  nodes_updated :: nat
  edge_traversals :: "(string \<times> nat) list"
  propagation_map :: "(string \<times> real) list"

type_synonym adjacency = "(string \<times> SubgraphEdge list) list"

definition edges_at :: "adjacency \<Rightarrow> string \<Rightarrow> SubgraphEdge list" where
  "edges_at adj node_id = (case map_of adj node_id of None \<Rightarrow> [] | Some es \<Rightarrow> es)"

definition reversed :: "SubgraphEdge \<Rightarrow> SubgraphEdge" where
  "reversed e = e\<lparr>source_id := target_id e, target_id := source_id e\<rparr>"

definition add_adjacent :: "string \<Rightarrow> SubgraphEdge \<Rightarrow> adjacency \<Rightarrow> adjacency" where
  "add_adjacent node_id e adj = AList.update node_id (edges_at adj node_id @ [e]) adj"

definition build_adjacency_list :: "SubgraphEdge list \<Rightarrow> adjacency" where
  "build_adjacency_list es =
     fold (\<lambda>e adj. add_adjacent (target_id e) (reversed e) (add_adjacent (source_id e) e adj)) es []"

section \<open>The search\<close>

record bfs_state =
  queue :: "(string \<times> real \<times> nat) list"
  visited_heat :: "string \<rightharpoonup> real"
  reached :: "(string \<times> real) list"
  traversals :: "(string \<times> nat) list"

definition transfer :: "DiffusionConfig \<Rightarrow> SubgraphEdge \<Rightarrow> real \<Rightarrow> real" where
  "transfer cfg e current_heat =
     (let edge_weight = (case map_of (edge_weights cfg) (edge_type e) of None \<Rightarrow> 4 / 10 | Some w \<Rightarrow> w);
          effective_edge_heat = (case edge_heat e of None \<Rightarrow> 1 / 2 | Some h \<Rightarrow> h)
      in current_heat * hop_decay cfg * edge_weight * effective_edge_heat)"

definition count_type :: "string \<Rightarrow> (string \<times> nat) list \<Rightarrow> (string \<times> nat) list" where
  "count_type t m = AList.update t (Suc (case map_of m t of None \<Rightarrow> 0 | Some k \<Rightarrow> k)) m"

definition relax_edge ::
  "DiffusionConfig \<Rightarrow> real \<Rightarrow> nat \<Rightarrow> SubgraphEdge \<Rightarrow> bfs_state \<Rightarrow> bfs_state" where
  "relax_edge cfg current_heat depth e st =
     (let propagated = transfer cfg e current_heat;
          neighbor = target_id e;
          st' = st\<lparr>traversals := count_type (edge_type e) (traversals st)\<rparr>
      in if propagated < min_threshold cfg then st
         else if (case visited_heat st neighbor of None \<Rightarrow> True | Some prev_best \<Rightarrow> prev_best < propagated)
         then st'\<lparr>visited_heat := (visited_heat st)(neighbor \<mapsto> propagated),
                  reached := AList.update neighbor propagated (reached st),
                  queue := queue st @ [(neighbor, propagated, Suc depth)]\<rparr>
         else st')"

definition visit ::
  "DiffusionConfig \<Rightarrow> adjacency \<Rightarrow> string \<times> real \<times> nat \<Rightarrow> bfs_state \<Rightarrow> bfs_state" where
  "visit cfg adj = (\<lambda>(node_id, current_heat, depth) st.
     if max_depth cfg \<le> depth then st
     else fold (relax_edge cfg current_heat depth) (edges_at adj node_id) st)"

text \<open>Every entry of the queue is one level deeper than the entry it was found from.\<close>

lemma relax_edge_queue:
  "\<exists>new. queue (relax_edge cfg h d e st) = queue st @ new \<and> length new \<le> 1 \<and> (\<forall>(_, _, k) \<in> set new. k = Suc d)"
  by (auto simp: relax_edge_def Let_def split: option.split)

lemma fold_relax_queue:
  "\<exists>new. queue (fold (relax_edge cfg h d) es st) = queue st @ new \<and> length new \<le> length es \<and>
     (\<forall>(_, _, k) \<in> set new. k = Suc d)"
proof (induction es arbitrary: st)
  case (Cons e es)
  obtain n1 where n1: "queue (relax_edge cfg h d e st) = queue st @ n1" "length n1 \<le> 1"
    "\<forall>(_, _, k) \<in> set n1. k = Suc d" using relax_edge_queue by blast
  obtain n2 where n2: "queue (fold (relax_edge cfg h d) es (relax_edge cfg h d e st)) =
      queue (relax_edge cfg h d e st) @ n2" "length n2 \<le> length es" "\<forall>(_, _, k) \<in> set n2. k = Suc d"
    using Cons.IH by blast
  show ?case
    by (rule exI [where x = "n1 @ n2"]) (use n1 n2 in auto)
qed simp

definition degree_bound :: "adjacency \<Rightarrow> nat" where
  "degree_bound adj = Suc (sum_list (map (length \<circ> snd) adj))"

lemma degree_bound: "length (edges_at adj v) < degree_bound adj"
proof (cases "map_of adj v")
  case (Some es)
  then have "(v, es) \<in> set adj" by (rule map_of_SomeD)
  then have "length es \<in> set (map (length \<circ> snd) adj)" by force
  then have "length es \<le> sum_list (map (length \<circ> snd) adj)" by (rule member_le_sum_list) simp
  with Some show ?thesis by (simp add: edges_at_def degree_bound_def)
qed (simp add: edges_at_def degree_bound_def)

text \<open>The work left: an entry of depth \<open>d\<close> stands for all the entries it can still give rise to.\<close>

definition search_work :: "DiffusionConfig \<Rightarrow> adjacency \<Rightarrow> bfs_state \<Rightarrow> nat" where
  "search_work cfg adj st =
     sum_list (map (\<lambda>(_, _, d). degree_bound adj ^ (Suc (max_depth cfg) - d)) (queue st))"

lemma visit_work:
  "search_work cfg adj (visit cfg adj (v, h, d) (st\<lparr>queue := q\<rparr>)) < search_work cfg adj (st\<lparr>queue := (v, h, d) # q\<rparr>)"
proof (cases "max_depth cfg \<le> d")
  case True
  then show ?thesis by (simp add: visit_def search_work_def degree_bound_def)
next
  case False
  let ?B = "degree_bound adj" and ?k = "max_depth cfg - d"
  obtain new where new: "queue (visit cfg adj (v, h, d) (st\<lparr>queue := q\<rparr>)) = q @ new"
    "length new \<le> length (edges_at adj v)" "\<forall>(_, _, k) \<in> set new. k = Suc d"
    using fold_relax_queue [of cfg h d "edges_at adj v" "st\<lparr>queue := q\<rparr>"] False
    by (auto simp: visit_def)
  have each: "map (\<lambda>(_, _, d). ?B ^ (Suc (max_depth cfg) - d)) new = map (\<lambda>_. ?B ^ ?k) new"
    using new(3) by auto
  have "sum_list (map (\<lambda>(_, _, d). ?B ^ (Suc (max_depth cfg) - d)) new) = length new * ?B ^ ?k"
    unfolding each by (simp add: sum_list_triv)
  also have "\<dots> < ?B * ?B ^ ?k"
    using new(2) degree_bound [of adj v] by (intro mult_less_mono1) (auto simp: degree_bound_def)
  also have "?B * ?B ^ ?k = ?B ^ (Suc (max_depth cfg) - d)"
    using False by (simp add: Suc_diff_le flip: power_Suc)
  finally show ?thesis by (simp add: search_work_def new(1))
qed

function bfs_loop :: "DiffusionConfig \<Rightarrow> adjacency \<Rightarrow> bfs_state \<Rightarrow> bfs_state" where
  "bfs_loop cfg adj st = (case queue st of [] \<Rightarrow> st
     | entry # q \<Rightarrow> bfs_loop cfg adj (visit cfg adj entry (st\<lparr>queue := q\<rparr>)))"
  by pat_completeness auto
termination
proof (relation "measure (\<lambda>(cfg, adj, st). search_work cfg adj st)", goal_cases)
  case (2 cfg adj st entry q)
  obtain v h d where "entry = (v, h, d)" by (cases entry) auto
  moreover have "st = st\<lparr>queue := (v, h, d) # q\<rparr>" if "entry = (v, h, d)" using 2 that by simp
  ultimately show ?case using visit_work [where st = st and q = q and v = v and h = h and d = d and cfg = cfg and adj = adj]
    by simp
qed simp

declare bfs_loop.simps [simp del]

definition bfs_start :: "HotNode list \<Rightarrow> bfs_state" where
  "bfs_start hot =
     \<lparr>queue = map (\<lambda>n. (hot_id n, heat_score n, 0)) hot,
      visited_heat = map_of (rev (map (\<lambda>n. (hot_id n, heat_score n)) hot)),
      reached = [], traversals = []\<rparr>"

definition propagate_heat_bfs ::
  "HotNode list \<Rightarrow> adjacency \<Rightarrow> DiffusionConfig \<Rightarrow> DiffusionResult" where
  "propagate_heat_bfs hot adj cfg =
     (if hot = [] then \<lparr>hot_nodes = 0, nodes_updated = 0, edge_traversals = [], propagation_map = []\<rparr>
      else let st = bfs_loop cfg adj (bfs_start hot);
               pm = filter (\<lambda>(i, _). i \<notin> hot_id ` set hot) (reached st)
           in \<lparr>hot_nodes = length hot, nodes_updated = length pm, edge_traversals = traversals st,
               propagation_map = pm\<rparr>)"

section \<open>The store\<close>

text \<open>\<open>n.heat_score\<close> and the fields the pass writes are top-level properties of a node.\<close>

abbreviation num_field :: "string \<Rightarrow> node \<Rightarrow> real option" where
  "num_field k n \<equiv> num_of (attrs n k)"

definition FETCH_HOT_NODES_QUERY :: "string \<Rightarrow> real \<Rightarrow> nat \<Rightarrow> graph \<Rightarrow> HotNode list" where
  "FETCH_HOT_NODES_QUERY silo_id threshold limit g =
     take limit (sort_desc heat_score
       (concat (map (\<lambda>n. case num_field ''heat_score'' n of
            None \<Rightarrow> []
          | Some x \<Rightarrow> if silo n = Some silo_id \<and> threshold \<le> x then [\<lparr>hot_id = nid n, heat_score = x\<rparr>] else [])
        (nodes g))))"

text \<open>
  \<open>(hot)-[r*1..k]-(neighbor)\<close>: the trails of at most \<open>k\<close> edges from a vertex, in either
  direction and without using an edge twice, each with its last vertex.  An edge is named by its
  place in the list of edges.
\<close>

definition steps_from :: "graph \<Rightarrow> nat \<Rightarrow> (nat \<times> nat) list" where
  "steps_from g v = concat (map (\<lambda>(i, e).
      (if esrc e = v then [(i, edst e)] else []) @ (if edst e = v \<and> esrc e \<noteq> v then [(i, esrc e)] else []))
    (enumerate 0 (edges g)))"

fun trails :: "graph \<Rightarrow> nat \<Rightarrow> nat list \<Rightarrow> nat \<Rightarrow> (nat list \<times> nat) list" where
  "trails g 0 used v = []"
| "trails g (Suc k) used v =
     concat (map (\<lambda>(i, w). ([i], w) # map (\<lambda>(t, x). (i # t, x)) (trails g k (i # used) w))
       (filter (\<lambda>(i, _). i \<notin> set used) (steps_from g v)))"

definition id_at :: "graph \<Rightarrow> nat \<Rightarrow> string" where
  "id_at g v = (case node_at g v of None \<Rightarrow> [] | Some n \<Rightarrow> nid n)"

definition in_silo_at :: "graph \<Rightarrow> string \<Rightarrow> nat \<Rightarrow> bool" where
  "in_silo_at g silo_id v = (case node_at g v of None \<Rightarrow> False | Some n \<Rightarrow> silo n = Some silo_id)"

definition FETCH_SUBGRAPH_QUERY :: "string \<Rightarrow> string list \<Rightarrow> nat \<Rightarrow> graph \<Rightarrow> SubgraphEdge list" where
  "FETCH_SUBGRAPH_QUERY silo_id hot_node_ids depth g =
     (let hots = filter (\<lambda>n. silo n = Some silo_id \<and> nid n \<in> set hot_node_ids) (nodes g);
          paths = filter (\<lambda>(_, x). in_silo_at g silo_id x)
                    (concat (map (\<lambda>n. trails g depth [] (vid n)) hots))
      in map (\<lambda>i. let e = edges g ! i in
             \<lparr>source_id = id_at g (esrc e), target_id = id_at g (edst e), edge_type = etype e,
              edge_heat = num_of (eprops e ''edge_heat'')\<rparr>)
           (remdups (concat (map fst paths))))"

definition DECAY_PROPAGATED_HEAT_QUERY :: "string \<Rightarrow> real \<Rightarrow> graph \<Rightarrow> graph" where
  "DECAY_PROPAGATED_HEAT_QUERY silo_id decay_factor g =
     update_where (\<lambda>n. silo n = Some silo_id \<and> num_field ''propagated_heat'' n \<noteq> None)
       (\<lambda>n. set_field ''propagated_heat''
          (Some (VNum (the (num_field ''propagated_heat'' n) * decay_factor))) n) g"

definition heated :: "DiffusionThresholds \<Rightarrow> int \<Rightarrow> real \<Rightarrow> node \<Rightarrow> node" where
  "heated th now heat n =
     (let total = (case num_field ''heat_score'' n of None \<Rightarrow> 0 | Some x \<Rightarrow> x) + heat in
      set_field ''diffusion_updated_at'' (Some (VTime now))
       (set_field ''materialization_level'' (Some (VStr (get_materialization_level th total)))
         (set_field ''effective_heat'' (Some (VNum (if 1 < total then 1 else total)))
           (set_field ''propagated_heat'' (Some (VNum heat)) n))))"

definition UPDATE_PROPAGATED_HEAT_QUERY ::
  "string \<Rightarrow> (string \<times> real) list \<Rightarrow> DiffusionThresholds \<Rightarrow> int \<Rightarrow> graph \<Rightarrow> graph" where
  "UPDATE_PROPAGATED_HEAT_QUERY silo_id updates th now g =
     fold (\<lambda>(node_id, heat). update_where (is_node node_id silo_id) (heated th now heat)) updates g"

definition COUNT_MATERIALIZATION_LEVELS_QUERY :: "string \<Rightarrow> graph \<Rightarrow> (string \<times> nat) list" where
  "COUNT_MATERIALIZATION_LEVELS_QUERY silo_id g =
     fold (\<lambda>n m. case str_of (attrs n ''materialization_level'') of
          Some level \<Rightarrow> if silo n = Some silo_id then count_type level m else m
        | None \<Rightarrow> m) (nodes g) []"

definition fetch_subgraph :: "string \<Rightarrow> string list \<Rightarrow> nat \<Rightarrow> graph \<Rightarrow> string + SubgraphEdge list" where
  "fetch_subgraph silo_id hot_node_ids depth g =
     (if hot_node_ids = [] then Inr []
      else if \<not> (1 \<le> depth \<and> depth \<le> 10) then Inl ''max_depth must be an integer in [1, 10]''
      else Inr (FETCH_SUBGRAPH_QUERY silo_id hot_node_ids depth g))"

definition batch_update_propagated_heat ::
  "string \<Rightarrow> (string \<times> real) list \<Rightarrow> DiffusionConfig \<Rightarrow> int \<Rightarrow> graph \<Rightarrow> graph" where
  "batch_update_propagated_heat silo_id pm cfg now g =
     (if pm = [] then g else UPDATE_PROPAGATED_HEAT_QUERY silo_id pm (thresholds cfg) now g)"

text \<open>
  The whole pass, from the graph to the graph.  A depth the subgraph query refuses raises after
  the decay has been written.
\<close>

definition diffuse_heat ::
  "string \<Rightarrow> DiffusionConfig \<Rightarrow> int \<Rightarrow> graph \<Rightarrow> graph \<times> (string + DiffusionResult)" where
  "diffuse_heat silo_id cfg now g0 =
     (let g = DECAY_PROPAGATED_HEAT_QUERY silo_id (propagated_heat_decay cfg) g0;
          hot = FETCH_HOT_NODES_QUERY silo_id (hot_threshold cfg) (max_hot_nodes cfg) g
      in if hot = [] then
           (g, Inr \<lparr>hot_nodes = 0, nodes_updated = 0, edge_traversals = [], propagation_map = []\<rparr>)
         else (case fetch_subgraph silo_id (map hot_id hot) (max_depth cfg) g of
             Inl err \<Rightarrow> (g, Inl err)
           | Inr es \<Rightarrow>
               let result = propagate_heat_bfs hot (build_adjacency_list es) cfg
               in (batch_update_propagated_heat silo_id (propagation_map result) cfg now g, Inr result)))"

end
