(* ===== verification/DiffusionCorrect.thy ===== *)
theory DiffusionCorrect
  imports Diffusion
begin

text \<open>
  The search of \<open>propagate_heat_bfs\<close> against its specification: the heat a node gets is the
  best one over all walks from a hot node.  A breadth-first search with pruning may expand a node
  several times; that it loses nothing rests on the depths of its queue being in order.
\<close>

section \<open>Walks\<close>

inductive heat_walk ::
  "DiffusionConfig \<Rightarrow> adjacency \<Rightarrow> HotNode list \<Rightarrow> string \<Rightarrow> real \<Rightarrow> nat \<Rightarrow> bool"
  for cfg adj hot where
  seed: "n \<in> set hot \<Longrightarrow> heat_walk cfg adj hot (hot_id n) (heat_score n) 0"
| hop: "heat_walk cfg adj hot u h d \<Longrightarrow> d < max_depth cfg \<Longrightarrow> e \<in> set (edges_at adj u) \<Longrightarrow>
    min_threshold cfg \<le> transfer cfg e h \<Longrightarrow>
    heat_walk cfg adj hot (target_id e) (transfer cfg e h) (Suc d)"

text \<open>No factor of the edges is negative.\<close>

definition conducting :: "DiffusionConfig \<Rightarrow> adjacency \<Rightarrow> bool" where
  "conducting cfg adj \<longleftrightarrow> 0 \<le> hop_decay cfg \<and> (\<forall>(_, w) \<in> set (edge_weights cfg). 0 \<le> w) \<and>
     (\<forall>(_, es) \<in> set adj. \<forall>e \<in> set es. case edge_heat e of None \<Rightarrow> True | Some h \<Rightarrow> 0 \<le> h)"

lemma edges_at_in: "e \<in> set (edges_at adj u) \<Longrightarrow> \<exists>es. (u, es) \<in> set adj \<and> e \<in> set es"
  by (cases "map_of adj u") (auto simp: edges_at_def dest: map_of_SomeD)

lemma transfer_mono:
  assumes "conducting cfg adj" "e \<in> set (edges_at adj u)" "h \<le> h'"
  shows "transfer cfg e h \<le> transfer cfg e h'"
proof -
  define w where "w = (case map_of (edge_weights cfg) (edge_type e) of None \<Rightarrow> 4 / 10 | Some w \<Rightarrow> w)"
  define c where "c = (case edge_heat e of None \<Rightarrow> 1 / 2 | Some h \<Rightarrow> h)"
  have "0 \<le> hop_decay cfg" using assms(1) by (simp add: conducting_def)
  moreover have "0 \<le> w"
    using assms(1) by (auto simp: w_def conducting_def split: option.split dest!: map_of_SomeD)
  moreover have "0 \<le> c"
    using assms(1) edges_at_in [OF assms(2)]
    by (fastforce simp: c_def conducting_def split: option.splits)
  ultimately show ?thesis
    using assms(3) by (simp add: transfer_def Let_def flip: w_def c_def) (intro mult_right_mono)
qed

section \<open>The invariant of the search\<close>

type_synonym entry = "string \<times> real \<times> nat"

abbreviation depth_of :: "entry \<Rightarrow> nat" where "depth_of x \<equiv> snd (snd x)"

text \<open>\<open>P\<close> is the set of the entries already expanded.\<close>

definition seen :: "entry set \<Rightarrow> bfs_state \<Rightarrow> entry set" where
  "seen P st = P \<union> set (queue st)"

definition search_inv ::
  "DiffusionConfig \<Rightarrow> adjacency \<Rightarrow> HotNode list \<Rightarrow> entry set \<Rightarrow> bfs_state \<Rightarrow> bool" where
  "search_inv cfg adj hot P st \<longleftrightarrow>
     (\<forall>v h d. (v, h, d) \<in> seen P st \<longrightarrow> heat_walk cfg adj hot v h d) \<and>
     (\<forall>n \<in> set hot. (hot_id n, heat_score n, 0) \<in> seen P st) \<and>
     (\<forall>v x. visited_heat st v = Some x \<longrightarrow> (\<exists>d. (v, x, d) \<in> seen P st)) \<and>
     (\<forall>v h d. (v, h, d) \<in> seen P st \<longrightarrow> v \<notin> hot_id ` set hot \<longrightarrow> (\<exists>x. visited_heat st v = Some x \<and> h \<le> x)) \<and>
     (\<forall>v. v \<notin> hot_id ` set hot \<longrightarrow> map_of (reached st) v = visited_heat st v)"

text \<open>An edge of an expanded entry leads to an entry at least as hot and not deeper.\<close>

definition covered_hop :: "DiffusionConfig \<Rightarrow> entry set \<Rightarrow> real \<Rightarrow> nat \<Rightarrow> SubgraphEdge \<Rightarrow> bool" where
  "covered_hop cfg R h d e \<longleftrightarrow> (min_threshold cfg \<le> transfer cfg e h \<longrightarrow>
     (\<exists>h' d'. (target_id e, h', d') \<in> R \<and> transfer cfg e h \<le> h' \<and> d' \<le> Suc d))"

definition expanded :: "DiffusionConfig \<Rightarrow> adjacency \<Rightarrow> entry set \<Rightarrow> entry set \<Rightarrow> bool" where
  "expanded cfg adj P R \<longleftrightarrow> (\<forall>u h d. (u, h, d) \<in> P \<longrightarrow> d < max_depth cfg \<longrightarrow>
     (\<forall>e \<in> set (edges_at adj u). covered_hop cfg R h d e))"

definition in_levels :: "entry set \<Rightarrow> entry list \<Rightarrow> bool" where
  "in_levels P q \<longleftrightarrow> sorted (map depth_of q) \<and>
     (\<forall>y \<in> set q. (\<forall>x \<in> P. depth_of x \<le> depth_of y) \<and> (\<forall>x \<in> set q. depth_of x \<le> Suc (depth_of y)))"

lemma covered_hop_mono: "covered_hop cfg R h d e \<Longrightarrow> R \<subseteq> R' \<Longrightarrow> covered_hop cfg R' h d e"
  by (fastforce simp: covered_hop_def)

lemma relax_edge_inv:
  assumes inv: "search_inv cfg adj hot P st" and P: "(u, h, d) \<in> P" and d: "d < max_depth cfg"
    and e: "e \<in> set (edges_at adj u)" and lev: "\<forall>x \<in> seen P st. depth_of x \<le> Suc d"
  shows "search_inv cfg adj hot P (relax_edge cfg h d e st) \<and>
     covered_hop cfg (seen P (relax_edge cfg h d e st)) h d e \<and>
     seen P st \<subseteq> seen P (relax_edge cfg h d e st) \<and>
     (\<forall>x \<in> seen P (relax_edge cfg h d e st). depth_of x \<le> Suc d)"
proof -
  let ?p = "transfer cfg e h" and ?t = "target_id e"
  consider (low) "?p < min_threshold cfg"
    | (known) b where "min_threshold cfg \<le> ?p" "visited_heat st ?t = Some b" "?p \<le> b"
    | (better) "min_threshold cfg \<le> ?p"
        "case visited_heat st ?t of None \<Rightarrow> True | Some prev_best \<Rightarrow> prev_best < ?p"
    by (cases "visited_heat st ?t") force+
  then show ?thesis
  proof cases
    case low
    then show ?thesis using inv lev by (simp add: relax_edge_def covered_hop_def)
  next
    case known
    then have st': "relax_edge cfg h d e st = st\<lparr>traversals := count_type (edge_type e) (traversals st)\<rparr>"
      by (simp add: relax_edge_def Let_def)
    have seen: "seen P (relax_edge cfg h d e st) = seen P st" by (simp add: st' seen_def)
    from inv known(2) have "\<exists>d'. (?t, b, d') \<in> seen P st" unfolding search_inv_def by blast
    then obtain d' where "(?t, b, d') \<in> seen P st" ..
    with known lev have "covered_hop cfg (seen P st) h d e" by (fastforce simp: covered_hop_def)
    moreover have "search_inv cfg adj hot P (relax_edge cfg h d e st)"
      using inv by (simp add: search_inv_def seen) (simp add: st')
    ultimately show ?thesis using lev by (simp add: seen)
  next
    case better
    then have st': "relax_edge cfg h d e st =
        st\<lparr>traversals := count_type (edge_type e) (traversals st),
           visited_heat := (visited_heat st)(?t \<mapsto> ?p), reached := AList.update ?t ?p (reached st),
           queue := queue st @ [(?t, ?p, Suc d)]\<rparr>"
      by (auto simp: relax_edge_def Let_def)
    have seen: "seen P (relax_edge cfg h d e st) = insert (?t, ?p, Suc d) (seen P st)"
      by (auto simp: st' seen_def)
    have "heat_walk cfg adj hot u h d" using inv P by (simp add: search_inv_def seen_def)
    then have "heat_walk cfg adj hot ?t ?p (Suc d)" using d e better(1) by (rule heat_walk.hop)
    moreover have "h' \<le> ?p" if "(?t, h', d') \<in> seen P st" "?t \<notin> hot_id ` set hot" for h' d'
      using inv that better(2) by (fastforce simp: search_inv_def)
    ultimately have "search_inv cfg adj hot P (relax_edge cfg h d e st)"
      using inv unfolding search_inv_def seen
      by (auto simp: st' update_conv') (fastforce+)?
    then show ?thesis using lev by (auto simp: seen covered_hop_def)
  qed
qed

lemma fold_relax_inv:
  assumes "search_inv cfg adj hot P st" "(u, h, d) \<in> P" "d < max_depth cfg"
    "set es \<subseteq> set (edges_at adj u)" "\<forall>x \<in> seen P st. depth_of x \<le> Suc d"
  shows "search_inv cfg adj hot P (fold (relax_edge cfg h d) es st) \<and>
     (\<forall>e \<in> set es. covered_hop cfg (seen P (fold (relax_edge cfg h d) es st)) h d e) \<and>
     seen P st \<subseteq> seen P (fold (relax_edge cfg h d) es st)"
  using assms
proof (induction es arbitrary: st)
  case (Cons e es)
  note step = relax_edge_inv [OF Cons.prems(1-3), of e]
  have "search_inv cfg adj hot P (relax_edge cfg h d e st)"
    "\<forall>x \<in> seen P (relax_edge cfg h d e st). depth_of x \<le> Suc d"
    using step Cons.prems(4,5) by auto
  note rest = Cons.IH [OF this(1) Cons.prems(2,3) _ this(2)]
  show ?case using step rest Cons.prems(4,5) by (auto intro: covered_hop_mono)
qed simp

lemma visit_inv:
  assumes inv: "search_inv cfg adj hot P st" and q: "queue st = (u, h, d) # q"
    and lev: "in_levels P (queue st)" and exp: "expanded cfg adj P (seen P st)"
  defines "st' \<equiv> visit cfg adj (u, h, d) (st\<lparr>queue := q\<rparr>)" and "P' \<equiv> insert (u, h, d) P"
  shows "search_inv cfg adj hot P' st' \<and> in_levels P' (queue st') \<and> expanded cfg adj P' (seen P' st')"
proof -
  have same: "seen P' (st\<lparr>queue := q\<rparr>) = seen P st" by (auto simp: seen_def P'_def q)
  have inv': "search_inv cfg adj hot P' (st\<lparr>queue := q\<rparr>)"
    using inv unfolding search_inv_def same by simp
  have depths: "\<forall>x \<in> seen P' (st\<lparr>queue := q\<rparr>). depth_of x \<le> Suc d"
    using lev unfolding same by (force simp: seen_def in_levels_def q)
  show ?thesis
  proof (cases "max_depth cfg \<le> d")
    case True
    then have "st' = st\<lparr>queue := q\<rparr>" by (simp add: st'_def visit_def)
    moreover have "in_levels P' q" using lev by (auto simp: in_levels_def q P'_def)
    moreover have "expanded cfg adj P' (seen P st)"
      using exp True by (auto simp: expanded_def P'_def)
    ultimately show ?thesis using inv' by (simp add: same)
  next
    case False
    then have st': "st' = fold (relax_edge cfg h d) (edges_at adj u) (st\<lparr>queue := q\<rparr>)"
      by (simp add: st'_def visit_def)
    from fold_relax_inv [OF inv', of u h d "edges_at adj u"] False depths
    have res: "search_inv cfg adj hot P' st'" "seen P st \<subseteq> seen P' st'"
      "\<forall>e \<in> set (edges_at adj u). covered_hop cfg (seen P' st') h d e"
      unfolding st' same by (auto simp: P'_def)
    have "expanded cfg adj P' (seen P' st')"
      unfolding expanded_def
    proof (intro allI impI ballI)
      fix a x k e assume "(a, x, k) \<in> P'" "k < max_depth cfg" "e \<in> set (edges_at adj a)"
      then show "covered_hop cfg (seen P' st') x k e"
        using exp res(2,3) covered_hop_mono [of cfg "seen P st" x k e "seen P' st'"]
        unfolding expanded_def P'_def by blast
    qed
    moreover have "in_levels P' (queue st')"
    proof -
      obtain new where new: "queue st' = q @ new" "\<forall>x \<in> set new. depth_of x = Suc d"
        using fold_relax_queue [of cfg h d "edges_at adj u" "st\<lparr>queue := q\<rparr>"] unfolding st' by fastforce
      have old: "sorted (map depth_of q)" "\<forall>x \<in> set q. d \<le> depth_of x \<and> depth_of x \<le> Suc d"
        "\<forall>x \<in> P'. depth_of x \<le> d"
        using lev by (auto simp: in_levels_def q P'_def)
      have "\<forall>x \<in> set (queue st'). d \<le> depth_of x \<and> depth_of x \<le> Suc d" using new old(2) by auto
      moreover have "map depth_of new = replicate (length new) (Suc d)"
        using new(2) by (intro replicate_eqI) auto
      then have "sorted (map depth_of (queue st'))"
        using new old(1,2) by (auto simp: sorted_append sorted_replicate)
      ultimately show ?thesis using old(3) unfolding in_levels_def by (meson order_trans Suc_le_mono)
    qed
    ultimately show ?thesis using res(1) by simp
  qed
qed

lemma bfs_loop_inv:
  assumes "search_inv cfg adj hot P st" "in_levels P (queue st)" "expanded cfg adj P (seen P st)"
  shows "\<exists>P'. search_inv cfg adj hot P' (bfs_loop cfg adj st) \<and> queue (bfs_loop cfg adj st) = [] \<and>
    expanded cfg adj P' P'"
  using assms
proof (induction cfg adj st arbitrary: P rule: bfs_loop.induct)
  case (1 cfg adj st)
  show ?case
  proof (cases "queue st")
    case Nil
    then show ?thesis using 1(2-) by (auto simp: bfs_loop.simps [of cfg adj st] seen_def)
  next
    case (Cons x q)
    obtain u h d where x: "x = (u, h, d)" by (cases x) auto
    from visit_inv [OF 1(2), of u h d q] 1(3,4) Cons x
    have "search_inv cfg adj hot (insert x P) (visit cfg adj x (st\<lparr>queue := q\<rparr>))"
      "in_levels (insert x P) (queue (visit cfg adj x (st\<lparr>queue := q\<rparr>)))"
      "expanded cfg adj (insert x P) (seen (insert x P) (visit cfg adj x (st\<lparr>queue := q\<rparr>)))"
      by auto
    from 1(1) [OF Cons this] show ?thesis by (simp add: bfs_loop.simps [of cfg adj st] Cons)
  qed
qed

lemma bfs_start_inv: "search_inv cfg adj hot {} (bfs_start hot) \<and> in_levels {} (queue (bfs_start hot))"
proof -
  have "(\<exists>d. (v, x, d) \<in> seen {} (bfs_start hot))" if "visited_heat (bfs_start hot) v = Some x" for v x
    using map_of_SomeD [OF that [unfolded bfs_start_def, simplified]]
    by (auto simp: seen_def bfs_start_def)
  moreover have "visited_heat (bfs_start hot) v = None" if "v \<notin> hot_id ` set hot" for v
    using that by (auto simp: bfs_start_def map_of_eq_None_iff)
  moreover have "sorted (map depth_of (queue (bfs_start hot)))"
    by (simp add: bfs_start_def sorted_map comp_def sorted_wrt_iff_nth_less)
  ultimately show ?thesis
    unfolding search_inv_def in_levels_def
    by (auto simp: bfs_start_def seen_def intro: heat_walk.seed)
qed

text \<open>When the search is over every walk is dominated by an expanded entry.\<close>

lemma walk_dominated:
  assumes "heat_walk cfg adj hot v h d" "conducting cfg adj" "expanded cfg adj P P"
    "\<forall>n \<in> set hot. (hot_id n, heat_score n, 0) \<in> P"
  shows "\<exists>h' d'. (v, h', d') \<in> P \<and> h \<le> h' \<and> d' \<le> d"
  using assms(1)
proof induction
  case (hop u h d e)
  then obtain h' d' where at: "(u, h', d') \<in> P" "h \<le> h'" "d' \<le> d" by blast
  have "transfer cfg e h \<le> transfer cfg e h'" using transfer_mono [OF assms(2) hop(3) at(2)] .
  moreover have "covered_hop cfg P h' d' e" using assms(3) at hop(2,3) by (fastforce simp: expanded_def)
  ultimately show ?case using hop(4) at(3) unfolding covered_hop_def
    by (meson Suc_le_mono order_trans)
qed (use assms(4) in blast)

lemma search_result:
  assumes "conducting cfg adj" "v \<notin> hot_id ` set hot"
  shows "map_of (reached (bfs_loop cfg adj (bfs_start hot))) v = Some p \<longleftrightarrow>
    (\<exists>d. heat_walk cfg adj hot v p d) \<and> (\<forall>p' d'. heat_walk cfg adj hot v p' d' \<longrightarrow> p' \<le> p)"
proof -
  let ?st = "bfs_loop cfg adj (bfs_start hot)"
  obtain P where P: "search_inv cfg adj hot P ?st" "queue ?st = []" "expanded cfg adj P P"
    using bfs_loop_inv [of cfg adj hot "{}" "bfs_start hot"] bfs_start_inv [of cfg adj hot]
    by (auto simp: expanded_def)
  have seen: "seen P ?st = P" by (simp add: seen_def P(2))
  have top: "\<exists>x. visited_heat ?st v = Some x \<and> p' \<le> x" if "heat_walk cfg adj hot v p' d'" for p' d'
  proof -
    from P(1) have "\<forall>n \<in> set hot. (hot_id n, heat_score n, 0) \<in> P"
      by (simp add: search_inv_def seen)
    from walk_dominated [OF that assms(1) P(3) this] obtain h' k where "(v, h', k) \<in> P" "p' \<le> h'"
      by blast
    then show ?thesis using P(1) assms(2) by (fastforce simp: search_inv_def seen)
  qed
  have bottom: "\<exists>d. heat_walk cfg adj hot v x d" if "visited_heat ?st v = Some x" for x
    using P(1) that by (fastforce simp: search_inv_def seen)
  have "map_of (reached ?st) v = visited_heat ?st v"
    using P(1) assms(2) by (simp add: search_inv_def)
  then show ?thesis using top bottom by (metis option.inject order_antisym)
qed

lemma search_best:
  assumes "conducting cfg adj"
  shows "map_of (propagation_map (propagate_heat_bfs hot adj cfg)) v = Some p \<longleftrightarrow>
    v \<notin> hot_id ` set hot \<and> (\<exists>d. heat_walk cfg adj hot v p d) \<and>
    (\<forall>p' d'. heat_walk cfg adj hot v p' d' \<longrightarrow> p' \<le> p)"
proof (cases "hot = []")
  case True
  have "\<not> heat_walk cfg adj [] v p d" for p d
  proof
    assume "heat_walk cfg adj [] v p d" then show False by induction auto
  qed
  with True show ?thesis by (simp add: propagate_heat_bfs_def)
next
  case False
  have filter: "map_of (filter (\<lambda>(i, _). i \<notin> S) xs) v = (if v \<in> S then None else map_of xs v)"
    for S and xs :: "(string \<times> real) list" by (induction xs) auto
  show ?thesis
    using search_result [OF assms, of v hot p] False
    by (simp add: propagate_heat_bfs_def Let_def filter)
qed

text \<open>
  C8: The search computes exactly the best heat over all walks: a node that is not itself a seed
  is mapped to \<open>p\<close> if and only if some walk of at most \<open>max_depth\<close> edges, none of whose steps
  falls under \<open>min_threshold\<close>, brings it heat \<open>p\<close>, and none brings more.  Seeds are never in the
  map.  So pruning by the best heat so far, which may be reached at another depth, loses nothing.
\<close>

theorem propagate_heat_bfs_best:
  assumes "conducting cfg adj"
  shows "map_of (propagation_map (propagate_heat_bfs hot adj cfg)) v = Some p \<longleftrightarrow>
    v \<notin> hot_id ` set hot \<and> (\<exists>d. heat_walk cfg adj hot v p d) \<and>
    (\<forall>p' d'. heat_walk cfg adj hot v p' d' \<longrightarrow> p' \<le> p)"
  using search_best [OF assms] .

lemma search_mapped:
  assumes "conducting cfg adj" "map_of (propagation_map (propagate_heat_bfs hot adj cfg)) v = Some p"
  shows "v \<notin> hot_id ` set hot \<and> (\<exists>d. heat_walk cfg adj hot v p d)"
  using search_best assms by blast

text \<open>A line of three nodes with a shortcut: the two-step walk wins over the weak direct edge.\<close>

definition ex_heat_edges :: "SubgraphEdge list" where
  "ex_heat_edges =
     [\<lparr>source_id = ''a'', target_id = ''b'', edge_type = ''SUPPORTS'', edge_heat = Some 1\<rparr>,
      \<lparr>source_id = ''b'', target_id = ''c'', edge_type = ''SUPPORTS'', edge_heat = Some 1\<rparr>,
      \<lparr>source_id = ''a'', target_id = ''c'', edge_type = ''LINK'', edge_heat = None\<rparr>]"

definition ex_hot :: "HotNode list" where
  "ex_hot = [\<lparr>hot_id = ''a'', heat_score = 1\<rparr>]"

lemma ex_adjacency: "build_adjacency_list ex_heat_edges =
   [(''a'', [\<lparr>source_id = ''a'', target_id = ''b'', edge_type = ''SUPPORTS'', edge_heat = Some 1\<rparr>,
             \<lparr>source_id = ''a'', target_id = ''c'', edge_type = ''LINK'', edge_heat = None\<rparr>]),
    (''b'', [\<lparr>source_id = ''b'', target_id = ''a'', edge_type = ''SUPPORTS'', edge_heat = Some 1\<rparr>,
             \<lparr>source_id = ''b'', target_id = ''c'', edge_type = ''SUPPORTS'', edge_heat = Some 1\<rparr>]),
    (''c'', [\<lparr>source_id = ''c'', target_id = ''b'', edge_type = ''SUPPORTS'', edge_heat = Some 1\<rparr>,
             \<lparr>source_id = ''c'', target_id = ''a'', edge_type = ''LINK'', edge_heat = None\<rparr>])]"
  by (simp add: build_adjacency_list_def ex_heat_edges_def add_adjacent_def edges_at_def reversed_def)

lemma ex_conducting: "conducting default_config (build_adjacency_list ex_heat_edges)"
  by (simp add: conducting_def ex_adjacency default_config_def)

lemma ex_search: "map_of (propagation_map
    (propagate_heat_bfs ex_hot (build_adjacency_list ex_heat_edges) default_config)) ''c'' =
  Some (3969 / 10000)"
  by (simp add: propagate_heat_bfs_def ex_hot_def bfs_start_def bfs_loop.simps visit_def relax_edge_def
      Let_def ex_adjacency edges_at_def transfer_def default_config_def count_type_def)

theorem propagate_heat_bfs_best_witness:
  "(\<exists>d. heat_walk default_config (build_adjacency_list ex_heat_edges) ex_hot ''c'' (3969 / 10000) d) \<and>
   {p'. \<exists>d'. heat_walk default_config (build_adjacency_list ex_heat_edges) ex_hot ''c'' p' d'}
     \<subseteq> {.. 3969 / 10000}"
  using iffD1 [OF propagate_heat_bfs_best [OF ex_conducting] ex_search] by blast

section \<open>Bounds\<close>

definition attenuating :: "DiffusionConfig \<Rightarrow> adjacency \<Rightarrow> bool" where
  "attenuating cfg adj \<longleftrightarrow> hop_decay cfg \<le> 1 \<and> (\<forall>(_, w) \<in> set (edge_weights cfg). w \<le> 1) \<and>
     (\<forall>(_, es) \<in> set adj. \<forall>e \<in> set es. case edge_heat e of None \<Rightarrow> True | Some h \<Rightarrow> h \<le> 1)"

lemma transfer_le:
  assumes "conducting cfg adj" "attenuating cfg adj" "e \<in> set (edges_at adj u)" "0 \<le> h"
  shows "transfer cfg e h \<le> h * hop_decay cfg"
proof -
  define w where "w = (case map_of (edge_weights cfg) (edge_type e) of None \<Rightarrow> 4 / 10 | Some w \<Rightarrow> w)"
  define c where "c = (case edge_heat e of None \<Rightarrow> 1 / 2 | Some h \<Rightarrow> h)"
  have k: "0 \<le> h * hop_decay cfg" using assms(1,4) by (simp add: conducting_def)
  have w: "0 \<le> w \<and> w \<le> 1"
    using assms(1,2) by (fastforce simp: w_def conducting_def attenuating_def split: option.split dest: map_of_SomeD)
  have c: "0 \<le> c \<and> c \<le> 1"
    using assms(1,2) edges_at_in [OF assms(3)]
    by (fastforce simp: c_def conducting_def attenuating_def split: option.splits)
  have "h * hop_decay cfg * w * c \<le> h * hop_decay cfg * 1 * 1"
    using k w c by (intro mult_mono [OF mult_left_mono]) auto
  then show ?thesis by (simp add: transfer_def Let_def flip: w_def c_def)
qed

lemma heat_walk_bounds:
  assumes "heat_walk cfg adj hot v h d" "conducting cfg adj" "attenuating cfg adj" "0 \<le> min_threshold cfg"
    and "\<forall>n \<in> set hot. 0 \<le> heat_score n \<and> heat_score n \<le> m"
  shows "0 \<le> h \<and> h \<le> hop_decay cfg ^ d * m \<and> (d = 0 \<or> min_threshold cfg \<le> h)"
  using assms(1)
proof induction
  case (seed n)
  then show ?case using assms(5) by simp
next
  case (hop u h d e)
  have "transfer cfg e h \<le> h * hop_decay cfg" using transfer_le [OF assms(2,3) hop(3)] hop(5) by simp
  also have "\<dots> \<le> hop_decay cfg ^ d * m * hop_decay cfg"
    using hop(5) assms(2) by (intro mult_right_mono) (auto simp: conducting_def)
  finally show ?case using hop(4) assms(4) by (simp add: mult_ac)
qed

text \<open>
  Heat only fades: when no factor exceeds one, the heat a node receives lies between the
  threshold and one hop's decay of the hottest seed.
\<close>

theorem propagated_heat_bounds:
  assumes "conducting cfg adj" "attenuating cfg adj" "0 \<le> min_threshold cfg" "0 \<le> m"
    and "\<forall>n \<in> set hot. 0 \<le> heat_score n \<and> heat_score n \<le> m"
    and "map_of (propagation_map (propagate_heat_bfs hot adj cfg)) v = Some p"
  shows "min_threshold cfg \<le> p \<and> p \<le> hop_decay cfg * m"
proof -
  from search_mapped [OF assms(1,6)]
  obtain d where walk: "heat_walk cfg adj hot v p d" and v: "v \<notin> hot_id ` set hot" by blast
  have d: "d \<noteq> 0" using walk v by (auto elim: heat_walk.cases)
  have b: "p \<le> hop_decay cfg ^ d * m" "min_threshold cfg \<le> p"
    using heat_walk_bounds [OF walk assms(1,2,3,5)] d by auto
  have "hop_decay cfg ^ d * m \<le> hop_decay cfg ^ 1 * m"
    using assms(1,2,4) d by (intro mult_right_mono power_decreasing) (auto simp: conducting_def attenuating_def)
  with b show ?thesis by simp
qed

theorem propagated_heat_bounds_witness:
  "map_of (propagation_map (propagate_heat_bfs ex_hot (build_adjacency_list ex_heat_edges) default_config)) ''c''
     = Some (3969 / 10000) \<and>
   min_threshold default_config \<le> 3969 / 10000 \<and> 3969 / 10000 \<le> hop_decay default_config * 1"
proof -
  have "attenuating default_config (build_adjacency_list ex_heat_edges)"
    by (simp add: attenuating_def ex_adjacency default_config_def)
  from propagated_heat_bounds [OF ex_conducting this _ _ _ ex_search, of 1] ex_search show ?thesis
    by (simp add: ex_hot_def) (simp add: default_config_def)
qed

section \<open>The pass over the graph\<close>

lemma reached_distinct: "distinct (map fst (reached st)) \<Longrightarrow> distinct (map fst (reached (bfs_loop cfg adj st)))"
proof (induction cfg adj st rule: bfs_loop.induct)
  case (1 cfg adj st)
  have relax: "distinct (map fst (reached s)) \<Longrightarrow> distinct (map fst (reached (relax_edge cfg h d e s)))" for h d e s
    by (auto simp: relax_edge_def Let_def distinct_update split: option.split)
  have "distinct (map fst (reached s)) \<Longrightarrow> distinct (map fst (reached (fold (relax_edge cfg h d) es s)))" for h d es s
    by (induction es arbitrary: s) (simp_all add: relax)
  then have "distinct (map fst (reached s)) \<Longrightarrow> distinct (map fst (reached (visit cfg adj x s)))" for x s
    by (cases x) (simp add: visit_def)
  then show ?case using 1 by (simp add: bfs_loop.simps [of cfg adj st] split: list.split)
qed

lemma propagation_map_distinct: "distinct (map fst (propagation_map (propagate_heat_bfs hot adj cfg)))"
proof -
  have "distinct (map fst (reached (bfs_loop cfg adj (bfs_start hot))))"
    by (rule reached_distinct) (simp add: bfs_start_def)
  then show ?thesis
    by (auto simp: propagate_heat_bfs_def Let_def intro!: distinct_map_filter)
qed

text \<open>What the pass makes of one node.\<close>

definition decayed :: "real \<Rightarrow> node \<Rightarrow> node" where
  "decayed c n = (case num_field ''propagated_heat'' n of None \<Rightarrow> n
     | Some x \<Rightarrow> set_field ''propagated_heat'' (Some (VNum (x * c))) n)"

definition diffused ::
  "string \<Rightarrow> DiffusionConfig \<Rightarrow> int \<Rightarrow> (string \<rightharpoonup> real) \<Rightarrow> node \<Rightarrow> node" where
  "diffused s cfg now pm n = (if silo n \<noteq> Some s then n
     else (case pm (nid n) of
         None \<Rightarrow> decayed (propagated_heat_decay cfg) n
       | Some heat \<Rightarrow> heated (thresholds cfg) now heat (decayed (propagated_heat_decay cfg) n)))"

lemma heated_identity [simp]:
  "nid (heated th now h n) = nid n" "silo (heated th now h n) = silo n" "vid (heated th now h n) = vid n"
  "labels (heated th now h n) = labels n" "props (heated th now h n) = props n"
  by (simp_all add: heated_def Let_def)

lemma decayed_identity [simp]:
  "nid (decayed c n) = nid n" "silo (decayed c n) = silo n" "vid (decayed c n) = vid n"
  "labels (decayed c n) = labels n" "props (decayed c n) = props n"
  by (simp_all add: decayed_def split: option.split)

lemma decay_nodes:
  "nodes (DECAY_PROPAGATED_HEAT_QUERY s c g) = map (\<lambda>n. if silo n = Some s then decayed c n else n) (nodes g)"
  by (auto simp: DECAY_PROPAGATED_HEAT_QUERY_def nodes_simps decayed_def split: option.split)

lemma decay_edges [simp]: "edges (DECAY_PROPAGATED_HEAT_QUERY s c g) = edges g"
  by (simp add: DECAY_PROPAGATED_HEAT_QUERY_def edges_simps)

lemma update_edges [simp]: "edges (UPDATE_PROPAGATED_HEAT_QUERY s pm th now g) = edges g"
proof -
  have "edges (fold (\<lambda>(node_id, heat). update_where (is_node node_id s) (heated th now heat)) pm h) = edges h"
    for h by (induction pm arbitrary: h) (auto simp: edges_simps)
  then show ?thesis by (simp add: UPDATE_PROPAGATED_HEAT_QUERY_def)
qed

lemma update_nodes:
  assumes "distinct (map fst pm)"
  shows "nodes (UPDATE_PROPAGATED_HEAT_QUERY s pm th now g) =
     map (\<lambda>n. if silo n \<noteq> Some s then n
        else case map_of pm (nid n) of None \<Rightarrow> n | Some h \<Rightarrow> heated th now h n) (nodes g)"
  using assms
proof (induction pm arbitrary: g)
  case Nil
  have "map (\<lambda>n. if silo n \<noteq> Some s then n
      else case map_of [] (nid n) of None \<Rightarrow> n | Some h \<Rightarrow> heated th now h n) (nodes g) = nodes g"
    by (rule map_idI) simp
  then show ?case by (simp add: UPDATE_PROPAGATED_HEAT_QUERY_def)
next
  case (Cons x pm)
  obtain i h where x: "x = (i, h)" by (cases x)
  have out: "map_of pm i = None" using Cons.prems by (simp add: x map_of_eq_None_iff)
  have "nodes (UPDATE_PROPAGATED_HEAT_QUERY s (x # pm) th now g) =
      nodes (UPDATE_PROPAGATED_HEAT_QUERY s pm th now (update_where (is_node i s) (heated th now h) g))"
    by (simp add: UPDATE_PROPAGATED_HEAT_QUERY_def x)
  also have "\<dots> = map (\<lambda>n. if silo n \<noteq> Some s then n
      else case map_of (x # pm) (nid n) of None \<Rightarrow> n | Some h \<Rightarrow> heated th now h n) (nodes g)"
    using Cons.prems by (simp add: Cons.IH nodes_simps is_node_def x out)
  finally show ?case .
qed

text \<open>
  A diffusion pass changes the graph exactly as follows, node by node: nodes of other silos
  and all edges stay as they are; in the silo every propagated heat is first scaled by the decay
  factor, and a node the search reached then gets the heat the search found, the capped sum with
  its own heat, the matching level and the time.  Nothing else of a node changes.
\<close>

theorem diffuse_heat_effect:
  assumes "diffuse_heat s cfg now g = (g', Inr r)"
  shows "nodes g' = map (diffused s cfg now (map_of (propagation_map r))) (nodes g) \<and> edges g' = edges g"
proof -
  have one: "diffused s cfg now Map.empty = (\<lambda>n. if silo n = Some s then decayed (propagated_heat_decay cfg) n else n)"
    by (auto simp: diffused_def)
  have "nodes (batch_update_propagated_heat s pm cfg now h) = map (diffused s cfg now (map_of pm)) (nodes g) \<and>
      edges (batch_update_propagated_heat s pm cfg now h) = edges g"
    if "distinct (map fst pm)" "h = DECAY_PROPAGATED_HEAT_QUERY s (propagated_heat_decay cfg) g" for pm h
  proof (cases "pm = []")
    case True
    then show ?thesis
      using that(2) by (simp add: batch_update_propagated_heat_def decay_nodes one)
  next
    case False
    then show ?thesis
      using that by (auto simp: batch_update_propagated_heat_def update_nodes decay_nodes diffused_def
          split: option.split)
  qed
  from this [OF propagation_map_distinct] this [of "[]"] assms show ?thesis
    by (auto simp: diffuse_heat_def Let_def batch_update_propagated_heat_def [of s "[]"] one
        split: if_splits sum.splits)
qed

definition ex_heat_graph :: graph where
  "ex_heat_graph =
     \<lparr>nodes = [\<lparr>vid = 0, labels = [''Fact''], nid = ''a'', silo = Some ''s'',
                 attrs = [''heat_score'' \<mapsto> VNum 1], props = Map.empty\<rparr>,
               \<lparr>vid = 1, labels = [''Fact''], nid = ''b'', silo = Some ''s'',
                 attrs = [''propagated_heat'' \<mapsto> VNum (1 / 2)], props = Map.empty\<rparr>],
      edges = [\<lparr>esrc = 0, edst = 1, etype = ''SUPPORTS'', eprops = [''edge_heat'' \<mapsto> VNum 1]\<rparr>],
      next_vid = 2\<rparr>"

lemma ex_diffuse: "snd (diffuse_heat ''s'' default_config 7 ex_heat_graph) =
   Inr \<lparr>hot_nodes = 1, nodes_updated = 1, edge_traversals = [(''SUPPORTS'', 2)],
        propagation_map = [(''b'', 63 / 100)]\<rparr>"
  by code_simp

theorem diffuse_heat_effect_witness:
  "nodes (fst (diffuse_heat ''s'' default_config 7 ex_heat_graph)) =
     map (diffused ''s'' default_config 7 [''b'' \<mapsto> 63 / 100]) (nodes ex_heat_graph) \<and>
   edges (fst (diffuse_heat ''s'' default_config 7 ex_heat_graph)) = edges ex_heat_graph"
proof -
  have "diffuse_heat ''s'' default_config 7 ex_heat_graph =
      (fst (diffuse_heat ''s'' default_config 7 ex_heat_graph), Inr \<lparr>hot_nodes = 1, nodes_updated = 1,
         edge_traversals = [(''SUPPORTS'', 2)], propagation_map = [(''b'', 63 / 100)]\<rparr>)"
    using ex_diffuse by (simp add: prod_eq_iff)
  from diffuse_heat_effect [OF this] show ?thesis by simp
qed

end
