(* ===== verification/Coherence.thy ===== *)
theory Coherence
  imports Prelude
begin

text \<open>
  Coherence filtering of recall results (\<open>retrieval/coherence.py\<close>): of two results that contradict
  each other only the dominating one is kept.  The filter is greedy, one pass over the results;
  what it guarantees rests on domination being a strict order, which is stated as a locale and
  interpreted on \<open>_dominates\<close>.
\<close>

section \<open>Domination\<close>

text \<open>A result row; absent keys are \<open>None\<close> (\<open>float(a.get("confidence") or 0.0)\<close>).\<close>

record result_row =
  node_id :: "string option"
  layer :: "string option"
  confidence :: "real option"
  created_at :: "int option"
  contradicts :: "string list option"

definition LAYER_ORDER :: "(string \<times> nat) list" where
  "LAYER_ORDER = [(''wisdom'', 4), (''knowledge'', 3), (''memory'', 2), (''intelligence'', 1)]"

definition get_layer_rank :: "string option \<Rightarrow> nat" where
  "get_layer_rank l = (case l of None \<Rightarrow> 0
     | Some s \<Rightarrow> (case map_of LAYER_ORDER (map lower_char s) of None \<Rightarrow> 0 | Some r \<Rightarrow> r))"

definition confidence_of :: "result_row \<Rightarrow> real" where
  "confidence_of r = (case confidence r of None \<Rightarrow> 0 | Some c \<Rightarrow> c)"

definition dominates :: "result_row \<Rightarrow> result_row \<Rightarrow> bool" where
  "dominates a b =
     (let a_rank = get_layer_rank (layer a); b_rank = get_layer_rank (layer b);
          a_conf = confidence_of a; b_conf = confidence_of b
      in if b_rank < a_rank then True
         else if a_rank < b_rank then False
         else if b_conf < a_conf then True
         else if a_conf < b_conf then False
         else (case (created_at a, created_at b) of
             (Some a_created, Some b_created) \<Rightarrow> b_created < a_created
           | _ \<Rightarrow> False))"

section \<open>The filter\<close>

text \<open>\<open>by_id\<close>: a later row with the same id replaces the earlier one in its place.\<close>

definition rows_by_id :: "result_row list \<Rightarrow> (string \<times> result_row) list" where
  "rows_by_id rs =
     dict_of (concat (map (\<lambda>r. case node_id r of None \<Rightarrow> [] | Some i \<Rightarrow> [(i, r)]) rs))"

text \<open>\<open>node.get("contradicts") or []\<close>.\<close>

definition contradicted :: "result_row \<Rightarrow> string list" where
  "contradicted r = (case contradicts r of None \<Rightarrow> [] | Some cs \<Rightarrow> cs)"

definition settle ::
  "(result_row \<Rightarrow> result_row \<Rightarrow> bool) \<Rightarrow> (string \<rightharpoonup> result_row) \<Rightarrow> string \<Rightarrow> result_row \<Rightarrow> string \<Rightarrow>
   string list \<Rightarrow> string list" where
  "settle beats by_id i r other_id dominated =
     (case by_id other_id of
        None \<Rightarrow> dominated
      | Some other \<Rightarrow>
          if other_id \<in> set dominated then dominated
          else if i \<in> set dominated then dominated
          else if beats r other then other_id # dominated
          else if beats other r then i # dominated
          else dominated)"

fun settle_all ::
  "(result_row \<Rightarrow> result_row \<Rightarrow> bool) \<Rightarrow> (string \<rightharpoonup> result_row) \<Rightarrow> (string \<times> result_row) list \<Rightarrow>
   string list \<Rightarrow> string list" where
  "settle_all beats by_id [] dominated = dominated"
| "settle_all beats by_id ((i, r) # rest) dominated =
     settle_all beats by_id rest
       (fold (settle beats by_id i r) (contradicted r) dominated)"

definition dominated_ids :: "result_row list \<Rightarrow> string list" where
  "dominated_ids results =
     (let rows = rows_by_id results in settle_all dominates (map_of rows) rows [])"

definition filter_dominated_contradictions :: "result_row list \<Rightarrow> result_row list \<times> nat" where
  "filter_dominated_contradictions results =
     (let dominated = dominated_ids results
      in if results = [] then (results, 0)
         else if dominated = [] then (results, 0)
         else (filter (\<lambda>r. case node_id r of None \<Rightarrow> True | Some i \<Rightarrow> i \<notin> set dominated) results,
               length dominated))"

section \<open>The greedy pass over any strict order\<close>

locale domination =
  fixes beats :: "result_row \<Rightarrow> result_row \<Rightarrow> bool"
  assumes irrefl: "\<not> beats r r"
    and transitive: "beats a b \<Longrightarrow> beats b c \<Longrightarrow> beats a c"
begin

text \<open>
  What holds of the set of losers during the pass: every loser is a known row, listed once, and
  lost to another known row with which it is in contradiction.
\<close>

definition lost :: "(string \<rightharpoonup> result_row) \<Rightarrow> string \<Rightarrow> string \<Rightarrow> bool" where
  "lost by_id i w \<longleftrightarrow> (\<exists>r q. by_id i = Some r \<and> by_id w = Some q \<and> beats q r \<and>
     (w \<in> set (contradicted r) \<or>
      i \<in> set (contradicted q)))"

definition fair :: "(string \<rightharpoonup> result_row) \<Rightarrow> string list \<Rightarrow> bool" where
  "fair by_id dominated \<longleftrightarrow> distinct dominated \<and> (\<forall>i \<in> set dominated. \<exists>w. lost by_id i w)"

lemma settle_fair:
  assumes "fair by_id dominated" "by_id i = Some r"
    and "other \<in> set (contradicted r)"
  shows "fair by_id (settle beats by_id i r other dominated)"
  using assms by (auto simp: settle_def fair_def lost_def split: option.split)

lemma settle_grows: "set dominated \<subseteq> set (settle beats by_id i r other dominated)"
  by (auto simp: settle_def split: option.split)

lemma fold_settle_grows: "set dominated \<subseteq> set (fold (settle beats by_id i r) os dominated)"
  by (induction os arbitrary: dominated) (auto dest: settle_grows [THEN subsetD])

lemma fold_settle_fair:
  assumes "fair by_id dominated" "by_id i = Some r"
    and "set os \<subseteq> set (contradicted r)"
  shows "fair by_id (fold (settle beats by_id i r) os dominated)"
  using assms by (induction os arbitrary: dominated) (simp_all add: settle_fair)

text \<open>A pair that survives was compared, and neither of the two dominates the other.\<close>

lemma fold_settle_compared:
  assumes "by_id j = Some q" "j \<in> set os" "i \<notin> set (fold (settle beats by_id i r) os dominated)"
    and "j \<notin> set (fold (settle beats by_id i r) os dominated)"
  shows "\<not> beats r q \<and> \<not> beats q r"
  using assms
proof (induction os arbitrary: dominated)
  case (Cons x os)
  show ?case
  proof (cases "x = j")
    case True
    have "i \<notin> set (settle beats by_id i r j dominated)" "j \<notin> set (settle beats by_id i r j dominated)"
      using Cons.prems(3,4) fold_settle_grows [of "settle beats by_id i r x dominated" by_id i r os] True by auto
    then show ?thesis using Cons.prems(1) by (auto simp: settle_def split: if_splits)
  next
    case False
    then show ?thesis using Cons by simp
  qed
qed simp

lemma settle_all_grows: "set dominated \<subseteq> set (settle_all beats by_id rows dominated)"
proof (induction rows arbitrary: dominated)
  case (Cons x rows)
  then show ?case using fold_settle_grows by (cases x) (fastforce dest: subsetD)
qed simp

lemma settle_all_fair:
  assumes "fair by_id dominated" "\<forall>(i, r) \<in> set rows. by_id i = Some r"
  shows "fair by_id (settle_all beats by_id rows dominated)"
  using assms by (induction rows arbitrary: dominated) (auto simp: fold_settle_fair)

lemma settle_all_compared:
  assumes "(i, r) \<in> set rows" "j \<in> set (contradicted r)" "by_id j = Some q"
    and "i \<notin> set (settle_all beats by_id rows dominated)" "j \<notin> set (settle_all beats by_id rows dominated)"
  shows "\<not> beats r q \<and> \<not> beats q r"
  using assms
proof (induction rows arbitrary: dominated)
  case (Cons x rows)
  obtain k p where x: "x = (k, p)" by (cases x)
  let ?d = "fold (settle beats by_id k p) (contradicted p) dominated"
  show ?case
  proof (cases "(i, r) = x")
    case True
    have "i \<notin> set ?d" "j \<notin> set ?d"
      using Cons.prems(4,5) settle_all_grows [of ?d by_id rows] by (auto simp: x)
    then show ?thesis using fold_settle_compared [where by_id = by_id and j = j, OF Cons.prems(3)] Cons.prems(2) True x by blast
  next
    case False
    then show ?thesis using Cons by (auto simp: x)
  qed
qed simp

text \<open>
  Following the winners of a finite set of losers ends at a row that was not lost: the order is
  strict, so the chain cannot come back.
\<close>

lemma winner_survives:
  assumes "fair by_id dominated" "i \<in> set dominated" "by_id i = Some r"
  shows "\<exists>w q. w \<notin> set dominated \<and> by_id w = Some q \<and> beats q r"
proof -
  let ?above = "\<lambda>r. {j \<in> set dominated. \<exists>p. by_id j = Some p \<and> beats p r}"
  from assms(2,3) show ?thesis
  proof (induction "card (?above r)" arbitrary: i r rule: less_induct)
    case less
    from assms(1) less.prems obtain w q where w: "by_id w = Some q" "beats q r"
      by (fastforce simp: fair_def lost_def)
    show ?case
    proof (cases "w \<in> set dominated")
      case True
      have sub: "?above q \<subseteq> ?above r" using w transitive by blast
      have "w \<in> ?above r - ?above q" using w True irrefl by auto
      then have "?above q \<subset> ?above r" using sub by blast
      then have "card (?above q) < card (?above r)" by (intro psubset_card_mono) simp_all
      from less.hyps [OF this True w(1)] show ?thesis using w(2) transitive by blast
    qed (use w in blast)
  qed
qed

end

interpretation epistemic: domination dominates
proof
  show "\<not> dominates r r" for r
    by (simp add: dominates_def split: option.split)
  show "dominates a b \<Longrightarrow> dominates b c \<Longrightarrow> dominates a c" for a b c
    by (auto simp: dominates_def Let_def split: option.splits if_splits)
qed

section \<open>The filter keeps a coherent set\<close>

lemma rows_by_id_entry:
  "(i, r) \<in> set (rows_by_id rs) \<longleftrightarrow> map_of (rows_by_id rs) i = Some r"
  unfolding rows_by_id_def by (rule map_of_dict_of_entry)

lemma rows_by_id_row:
  assumes "map_of (rows_by_id rs) i = Some r"
  shows "r \<in> set rs \<and> node_id r = Some i"
  using dict_of_value [OF assms [unfolded rows_by_id_def]] by (auto split: option.splits)

text \<open>With distinct ids the dictionary holds every row.\<close>

lemma rows_by_id_lookup:
  assumes "distinct (map node_id rs)" "r \<in> set rs" "node_id r = Some i"
  shows "map_of (rows_by_id rs) i = Some r"
proof -
  define kvs where "kvs = concat (map (\<lambda>r. case node_id r of None \<Rightarrow> [] | Some i \<Rightarrow> [(i, r)]) rs)"
  have kvs: "\<And>k q. (k, q) \<in> set kvs \<longleftrightarrow> q \<in> set rs \<and> node_id q = Some k"
    by (auto simp: kvs_def split: option.splits)
  have "(i, r) \<in> set kvs" using assms(2,3) by (simp add: kvs)
  then have "i \<in> fst ` set (rev kvs)" by force
  then have "map_of (rev kvs) i \<noteq> None" by (simp only: map_of_eq_None_iff) simp
  then obtain q where q: "map_of (rev kvs) i = Some q" by blast
  then have "q \<in> set rs \<and> node_id q = Some i" using map_of_SomeD [OF q] by (simp add: kvs)
  then have "q = r" using assms by (metis distinct_map inj_onD)
  with q show ?thesis unfolding rows_by_id_def map_of_dict_of kvs_def by simp
qed

lemma dominated_ids_fair: "epistemic.fair (map_of (rows_by_id rs)) (dominated_ids rs)"
  unfolding dominated_ids_def Let_def
  by (rule epistemic.settle_all_fair) (auto simp: epistemic.fair_def rows_by_id_entry)

lemma kept_rows:
  "set (fst (filter_dominated_contradictions rs)) =
     {r \<in> set rs. \<forall>i. node_id r = Some i \<longrightarrow> i \<notin> set (dominated_ids rs)}"
  by (auto simp: filter_dominated_contradictions_def Let_def dominated_ids_def rows_by_id_def dict_of_def
      split: option.splits)

text \<open>
  C28: The recalled rows are left coherent: of two kept rows, one of which names the other as
  contradicted, neither dominates the other (ties are kept on purpose).
\<close>

theorem coherence_no_dominated_pair:
  assumes "distinct (map node_id rs)" "a \<in> set (fst (filter_dominated_contradictions rs))"
    and "b \<in> set (fst (filter_dominated_contradictions rs))" "node_id a \<noteq> None" "node_id b = Some j"
    and "j \<in> set (contradicted a)"
  shows "\<not> dominates a b \<and> \<not> dominates b a"
proof -
  obtain i where i: "node_id a = Some i" using assms(4) by auto
  have rows: "(i, a) \<in> set (rows_by_id rs)" "map_of (rows_by_id rs) j = Some b"
    using assms(1-3,5) i by (auto simp: rows_by_id_entry kept_rows intro: rows_by_id_lookup)
  have "i \<notin> set (dominated_ids rs)" "j \<notin> set (dominated_ids rs)"
    using assms(2,3,5) i by (auto simp: kept_rows)
  then show ?thesis
    using epistemic.settle_all_compared [where by_id = "map_of (rows_by_id rs)" and j = j, OF rows(1) assms(6) rows(2)]
    by (simp add: dominated_ids_def Let_def)
qed

text \<open>
  No answer is lost without a better one in its place: every row the filter removes is
  dominated by a row it keeps, although the greedy pass may have removed it for a row that was
  removed later.  So a non-empty recall stays non-empty.
\<close>

theorem coherence_keeps_winner:
  assumes "distinct (map node_id rs)" "r \<in> set rs" "r \<notin> set (fst (filter_dominated_contradictions rs))"
  shows "\<exists>q \<in> set (fst (filter_dominated_contradictions rs)). dominates q r"
proof -
  obtain i where i: "node_id r = Some i" "i \<in> set (dominated_ids rs)"
    using assms(2,3) by (auto simp: kept_rows)
  obtain w q where "w \<notin> set (dominated_ids rs)" "map_of (rows_by_id rs) w = Some q" "dominates q r"
    using epistemic.winner_survives [OF dominated_ids_fair i(2) rows_by_id_lookup [OF assms(1,2) i(1)]] by blast
  then show ?thesis using rows_by_id_row by (force simp: kept_rows)
qed

definition ex_row :: "string \<Rightarrow> string \<Rightarrow> real \<Rightarrow> string list \<Rightarrow> result_row" where
  "ex_row i l c cs = \<lparr>node_id = Some i, layer = Some l, confidence = Some c, created_at = None,
     contradicts = Some cs\<rparr>"

text \<open>
  The pass removes \<open>a\<close> for \<open>b\<close> before it removes \<open>b\<close> for \<open>c\<close>; \<open>d\<close> and \<open>c\<close> tie.
\<close>

definition ex_rows :: "result_row list" where
  "ex_rows = [ex_row ''a'' ''memory'' (9 / 10) [''b''], ex_row ''b'' ''Knowledge'' (1 / 2) [''c''],
     ex_row ''c'' ''wisdom'' (1 / 2) [''d''], ex_row ''d'' ''wisdom'' (1 / 2) []]"

lemma ex_filtered: "filter_dominated_contradictions ex_rows =
   ([ex_row ''c'' ''wisdom'' (1 / 2) [''d''], ex_row ''d'' ''wisdom'' (1 / 2) []], 2)"
  by code_simp

theorem coherence_no_dominated_pair_witness:
  "\<not> dominates (ex_row ''c'' ''wisdom'' (1 / 2) [''d'']) (ex_row ''d'' ''wisdom'' (1 / 2) [])"
proof -
  let ?c = "ex_row ''c'' ''wisdom'' (1 / 2) [''d'']" and ?d = "ex_row ''d'' ''wisdom'' (1 / 2) []"
  have "distinct (map node_id ex_rows)" by (simp add: ex_rows_def ex_row_def)
  moreover have "?c \<in> set (fst (filter_dominated_contradictions ex_rows))"
    "?d \<in> set (fst (filter_dominated_contradictions ex_rows))" by (simp_all add: ex_filtered)
  moreover have "node_id ?c \<noteq> None" "node_id ?d = Some ''d''" "''d'' \<in> set (contradicted ?c)"
    by (simp_all add: ex_row_def contradicted_def)
  ultimately have "\<not> dominates ?c ?d \<and> \<not> dominates ?d ?c" by (rule coherence_no_dominated_pair)
  then show ?thesis ..
qed

theorem coherence_keeps_winner_witness:
  "\<exists>q \<in> set (fst (filter_dominated_contradictions ex_rows)). dominates q (ex_row ''a'' ''memory'' (9 / 10) [''b''])"
proof (rule coherence_keeps_winner)
  show "distinct (map node_id ex_rows)" by (simp add: ex_rows_def ex_row_def)
  show "ex_row ''a'' ''memory'' (9 / 10) [''b''] \<in> set ex_rows" by (simp add: ex_rows_def)
  show "ex_row ''a'' ''memory'' (9 / 10) [''b''] \<notin> set (fst (filter_dominated_contradictions ex_rows))"
    by (simp add: ex_filtered) (simp add: ex_row_def)
qed

end
