(* ===== verification/Ppr.thy ===== *)
theory Ppr
  imports Prelude "HOL-Library.List_Lexorder" "HOL-Library.Char_ord"
begin

text \<open>
  Personalised PageRank of the graph retrieval channel (\<open>retrieval/ppr.py\<close>): power iteration over
  an in-memory weighted graph, with teleportation and dangling mass going to the seeds.
\<close>

section \<open>The computation\<close>

record PersonalizedPageRank =
  damping :: real
  max_iterations :: nat
  tolerance :: real

definition new_ppr :: "real \<Rightarrow> nat \<Rightarrow> real \<Rightarrow> string + PersonalizedPageRank" where
  "new_ppr d iterations tol =
     (if \<not> (0 < d \<and> d < 1) then Inl ''damping must be in (0, 1)''
      else if iterations < 1 then Inl ''max_iterations must be >= 1''
      else if tol < 0 then Inl ''tolerance must be >= 0''
      else Inr \<lparr>damping = d, max_iterations = iterations, tolerance = tol\<rparr>)"

type_synonym links = "(string \<times> (string \<times> real) list) list"
type_synonym out_edges = "(nat \<times> real) list list"

definition node_list :: "links \<Rightarrow> string list" where
  "node_list adjacency =
     sort (remdups (map fst adjacency @ concat (map (\<lambda>(_, nbrs). map fst nbrs) adjacency)))"

definition node_index :: "string list \<Rightarrow> string \<rightharpoonup> nat" where
  "node_index ns = map_of (zip ns [0..<length ns])"

definition add_edge ::
  "(string \<rightharpoonup> nat) \<Rightarrow> nat \<Rightarrow> string \<times> real \<Rightarrow> out_edges \<times> real list \<Rightarrow> out_edges \<times> real list" where
  "add_edge idx src = (\<lambda>(nbr, weight) (es, out_weight).
     if weight \<le> 0 then (es, out_weight)
     else (case idx nbr of None \<Rightarrow> (es, out_weight)
       | Some dst \<Rightarrow> (es[src := es ! src @ [(dst, weight)]],
                      out_weight[src := out_weight ! src + weight])))"

definition transitions :: "string list \<Rightarrow> links \<Rightarrow> out_edges \<times> real list" where
  "transitions ns adjacency =
     fold (\<lambda>(src_id, nbrs) acc. case node_index ns src_id of None \<Rightarrow> acc
            | Some src \<Rightarrow> fold (add_edge (node_index ns) src) nbrs acc)
       adjacency (replicate (length ns) [], replicate (length ns) 0)"

definition seed_vector :: "string list \<Rightarrow> string list \<Rightarrow> (string \<times> real) list option \<Rightarrow> real list" where
  "seed_vector ns valid_seed_ids seed_weights =
     (let sv0 = replicate (length ns) 0
      in case seed_weights of
           Some (w # ws) \<Rightarrow>
             (let raw = map (\<lambda>sid. get_default (map_of (w # ws)) sid 1) valid_seed_ids;
                  total = (if sum_list raw = 0 then 1 else sum_list raw)
              in fold (\<lambda>(sid, x) sv. sv[the (node_index ns sid) := x / total])
                   (zip valid_seed_ids raw) sv0)
         | _ \<Rightarrow>
             (let seed_prob = 1 / real (length valid_seed_ids)
              in fold (\<lambda>sid sv. sv[the (node_index ns sid) := seed_prob]) valid_seed_ids sv0))"

text \<open>\<open>v[j] += x\<close>.\<close>

definition add_at :: "nat \<times> real \<Rightarrow> real list \<Rightarrow> real list" where
  "add_at = (\<lambda>(j, x) v. v[j := v ! j + x])"

definition edge_flow :: "real \<Rightarrow> out_edges \<Rightarrow> real list \<Rightarrow> real list \<Rightarrow> (nat \<times> real) list" where
  "edge_flow d es out_weight rank =
     concat (map (\<lambda>i. if out_weight ! i = 0 then []
                      else map (\<lambda>(dst, weight). (dst, d * rank ! i * (weight / out_weight ! i))) (es ! i))
       [0..<length rank])"

definition dangling_mass :: "real list \<Rightarrow> real list \<Rightarrow> real" where
  "dangling_mass out_weight rank =
     sum_list (map (\<lambda>i. if out_weight ! i = 0 then rank ! i else 0) [0..<length rank])"

definition ppr_step ::
  "real \<Rightarrow> out_edges \<Rightarrow> real list \<Rightarrow> nat list \<Rightarrow> real list \<Rightarrow> real list \<Rightarrow> real list" where
  "ppr_step d es out_weight valid_seeds sv rank =
     (let spread = fold add_at (edge_flow d es out_weight rank) (replicate (length rank) 0);
          returned = fold add_at
            (map (\<lambda>s. (s, d * dangling_mass out_weight rank * sv ! s)) valid_seeds) spread
      in fold add_at (map (\<lambda>i. (i, (1 - d) * sv ! i)) [0..<length rank]) returned)"

definition l1 :: "real list \<Rightarrow> real list \<Rightarrow> real" where
  "l1 v w = sum_list (map (\<lambda>i. \<bar>v ! i - w ! i\<bar>) [0..<length v])"

fun ppr_iterate :: "nat \<Rightarrow> (real list \<Rightarrow> real list) \<Rightarrow> real \<Rightarrow> real list \<Rightarrow> real list" where
  "ppr_iterate 0 step tol rank = rank"
| "ppr_iterate (Suc k) step tol rank =
     (let new_rank = step rank
      in if l1 new_rank rank < tol then new_rank else ppr_iterate k step tol new_rank)"

definition valid_seed_ids :: "links \<Rightarrow> string list \<Rightarrow> string list" where
  "valid_seed_ids adjacency seed_ids =
     filter (\<lambda>s. node_index (node_list adjacency) s \<noteq> None) seed_ids"

definition ppr_vectors ::
  "PersonalizedPageRank \<Rightarrow> string list \<Rightarrow> links \<Rightarrow> (string \<times> real) list option \<Rightarrow>
   (real list \<Rightarrow> real list) \<times> real list" where
  "ppr_vectors p seed_ids adjacency seed_weights =
     (let ns = node_list adjacency;
          (es, out_weight) = transitions ns adjacency;
          valid = valid_seed_ids adjacency seed_ids;
          sv = seed_vector ns valid seed_weights;
          valid_seeds = map (\<lambda>s. the (node_index ns s)) valid
      in (ppr_step (damping p) es out_weight valid_seeds sv, sv))"

definition compute ::
  "PersonalizedPageRank \<Rightarrow> string list \<Rightarrow> links \<Rightarrow> (string \<times> real) list option \<Rightarrow>
   (string \<times> real) list" where
  "compute p seed_ids adjacency seed_weights =
     (if seed_ids = [] then []
      else if node_list adjacency = [] then []
      else if valid_seed_ids adjacency seed_ids = [] then []
      else (let (step, sv) = ppr_vectors p seed_ids adjacency seed_weights
            in zip (node_list adjacency) (ppr_iterate (max_iterations p) step (tolerance p) sv)))"

section \<open>Adding up contributions\<close>

lemma length_add_at [simp]: "length (add_at c v) = length v"
  by (simp add: add_at_def split: prod.split)

lemma length_fold_add_at [simp]: "length (fold add_at cs v) = length v"
  by (induction cs arbitrary: v) simp_all

lemma sum_list_update_real: "j < length v \<Longrightarrow> sum_list (v[j := y]) = sum_list v + y - v ! j" for y :: real
  by (induction v arbitrary: j) (auto split: nat.split)

lemma sum_add_at: "j < length v \<Longrightarrow> sum_list (add_at (j, x) v) = sum_list v + x"
  by (simp add: add_at_def sum_list_update_real)

lemma sum_fold_add_at:
  "\<forall>(j, _) \<in> set cs. j < length v \<Longrightarrow> sum_list (fold add_at cs v) = sum_list v + sum_list (map snd cs)"
  by (induction cs arbitrary: v) (auto simp: sum_add_at)

lemma add_at_nonneg: "\<forall>x \<in> set v. 0 \<le> x \<Longrightarrow> 0 \<le> snd c \<Longrightarrow> \<forall>x \<in> set (add_at c v). 0 \<le> x"
proof (cases c)
  case (Pair j y)
  assume v: "\<forall>x \<in> set v. 0 \<le> x" "0 \<le> snd c"
  show ?thesis
  proof (cases "j < length v")
    case True
    then have "0 \<le> v ! j + y" using v Pair by (metis add_nonneg_nonneg nth_mem snd_conv)
    then have "\<forall>x \<in> set (v[j := v ! j + y]). 0 \<le> x"
      using v(1) set_update_subset_insert [of v j "v ! j + y"] by blast
    then show ?thesis by (simp add: add_at_def Pair)
  qed (use v(1) in \<open>simp add: add_at_def Pair list_update_beyond\<close>)
qed

lemma fold_add_at_nonneg:
  "\<forall>x \<in> set v. 0 \<le> x \<Longrightarrow> \<forall>c \<in> set cs. 0 \<le> snd c \<Longrightarrow> \<forall>x \<in> set (fold add_at cs v). 0 \<le> x"
proof (induction cs arbitrary: v)
  case (Cons c cs)
  have "\<forall>x \<in> set (add_at c v). 0 \<le> x" by (rule add_at_nonneg) (use Cons.prems in auto)
  from Cons.IH [OF this] show ?case using Cons.prems(2) by simp
qed simp

lemma l1_add_at:
  assumes "length v = length w"
  shows "l1 (add_at (j, x) v) (add_at (j, y) w) \<le> l1 v w + \<bar>x - y\<bar>"
proof (cases "j < length v")
  case True
  have "(\<Sum>i\<in>{0..<length v}. \<bar>add_at (j, x) v ! i - add_at (j, y) w ! i\<bar>)
      \<le> (\<Sum>i\<in>{0..<length v}. \<bar>v ! i - w ! i\<bar> + (if i = j then \<bar>x - y\<bar> else 0))"
    using assms True by (intro sum_mono) (auto simp: add_at_def nth_list_update)
  also have "\<dots> = (\<Sum>i\<in>{0..<length v}. \<bar>v ! i - w ! i\<bar>) + \<bar>x - y\<bar>"
    using True by (simp add: sum.distrib)
  finally show ?thesis by (simp add: l1_def sum_list_distinct_conv_sum_set)
next
  case False
  then show ?thesis using assms by (simp add: add_at_def list_update_beyond)
qed

lemma l1_fold_add_at:
  assumes "map fst cs = map fst cs'" "length v = length w"
  shows "l1 (fold add_at cs v) (fold add_at cs' w) \<le>
    l1 v w + sum_list (map2 (\<lambda>a b. \<bar>snd a - snd b\<bar>) cs cs')"
  using assms
proof (induction cs arbitrary: cs' v w)
  case (Cons c cs)
  obtain c' ds where cs': "cs' = c' # ds" using Cons.prems(1) by (cases cs') auto
  obtain j x y where c: "c = (j, x)" "c' = (j, y)" using Cons.prems(1) by (cases c; cases c') (auto simp: cs')
  have "l1 (fold add_at (c # cs) v) (fold add_at cs' w) \<le>
      l1 (add_at c v) (add_at c' w) + sum_list (map2 (\<lambda>a b. \<bar>snd a - snd b\<bar>) cs ds)"
    using Cons.IH [of ds "add_at c v" "add_at c' w"] Cons.prems by (simp add: cs')
  then show ?case using l1_add_at [OF Cons.prems(2), of j x y] by (simp add: cs' c)
qed simp

lemma l1_self [simp]: "l1 v v = 0"
  by (simp add: l1_def)

section \<open>Transitions\<close>

text \<open>
  What the transition table guarantees: every edge leads to a node and has a positive weight, and
  \<open>out_weight\<close> is the sum of the weights.
\<close>

definition transitions_ok :: "nat \<Rightarrow> out_edges \<times> real list \<Rightarrow> bool" where
  "transitions_ok n = (\<lambda>(es, out_weight). length es = n \<and> length out_weight = n \<and>
     (\<forall>i < n. out_weight ! i = sum_list (map snd (es ! i)) \<and> (\<forall>(dst, w) \<in> set (es ! i). dst < n \<and> 0 < w)))"

lemma node_index_less: "node_index ns v = Some i \<Longrightarrow> i < length ns"
  by (auto simp: node_index_def dest!: map_of_SomeD set_zip_rightD)

lemma add_edge_ok:
  assumes "transitions_ok (length ns) acc" "src < length ns"
  shows "transitions_ok (length ns) (add_edge (node_index ns) src nw acc)"
proof -
  obtain nbr w where nw: "nw = (nbr, w)" by (cases nw)
  obtain es ow where acc: "acc = (es, ow)" by (cases acc)
  show ?thesis
  proof (cases "w \<le> 0 \<or> node_index ns nbr = None")
    case True
    then show ?thesis using assms by (auto simp: add_edge_def nw acc)
  next
    case False
    then obtain dst where dst: "node_index ns nbr = Some dst" and w: "0 < w" by auto
    have ok: "length es = length ns" "length ow = length ns"
      "\<And>i. i < length ns \<Longrightarrow> ow ! i = sum_list (map snd (es ! i)) \<and> (\<forall>(dst, w) \<in> set (es ! i). dst < length ns \<and> 0 < w)"
      using assms(1) by (simp_all add: acc transitions_ok_def)
    show ?thesis
      using ok assms(2) node_index_less [OF dst] w
      by (auto simp: add_edge_def nw acc transitions_ok_def dst nth_list_update not_le)
  qed
qed

lemma transitions_are_ok: "transitions_ok (length ns) (transitions ns adjacency)"
proof -
  have inner: "transitions_ok (length ns) acc \<Longrightarrow> src < length ns \<Longrightarrow>
      transitions_ok (length ns) (fold (add_edge (node_index ns) src) nbrs acc)" for src nbrs acc
    by (induction nbrs arbitrary: acc) (simp_all add: add_edge_ok)
  have "transitions_ok (length ns) acc \<Longrightarrow> transitions_ok (length ns)
      (fold (\<lambda>(src_id, nbrs) acc. case node_index ns src_id of None \<Rightarrow> acc
            | Some src \<Rightarrow> fold (add_edge (node_index ns) src) nbrs acc) adj acc)" for adj acc
  proof (induction adj arbitrary: acc)
    case (Cons x adj)
    obtain s nbrs where x: "x = (s, nbrs)" by (cases x)
    show ?case
    proof (cases "node_index ns s")
      case None
      then show ?thesis using Cons by (simp add: x)
    next
      case (Some i)
      from Cons.IH [OF inner [OF Cons.prems node_index_less [OF Some]]] show ?thesis
        by (simp add: x Some)
    qed
  qed simp
  then show ?thesis unfolding transitions_def by this (simp add: transitions_ok_def)
qed

section \<open>One step\<close>

definition seeds_ok :: "nat \<Rightarrow> nat list \<Rightarrow> real list \<Rightarrow> bool" where
  "seeds_ok n valid_seeds sv \<longleftrightarrow> length sv = n \<and> (\<forall>x \<in> set sv. 0 \<le> x) \<and> sum_list sv = 1 \<and>
     (\<forall>s \<in> set valid_seeds. s < n) \<and> sum_list (map ((!) sv) valid_seeds) = 1"

definition moves :: "real \<Rightarrow> out_edges \<Rightarrow> real list \<Rightarrow> nat list \<Rightarrow> real list \<Rightarrow> real list \<Rightarrow> (nat \<times> real) list" where
  "moves d es ow vs sv rank =
     edge_flow d es ow rank @ map (\<lambda>s. (s, d * dangling_mass ow rank * sv ! s)) vs @
     map (\<lambda>i. (i, (1 - d) * sv ! i)) [0..<length rank]"

lemma ppr_step_moves:
  "ppr_step d es ow vs sv rank = fold add_at (moves d es ow vs sv rank) (replicate (length rank) 0)"
  by (simp add: ppr_step_def moves_def Let_def)

lemma length_ppr_step [simp]: "length (ppr_step d es ow vs sv rank) = length rank"
  by (simp add: ppr_step_moves)

lemma sum_moves_nth: "sum_list (map (\<lambda>i. f (v ! i)) [0..<length v]) = sum_list (map f v)"
  by (simp add: map_nth flip: map_map [unfolded comp_def, of f "\<lambda>i. v ! i"])

lemma sum_list_concat_map: "sum_list (concat (map F xs)) = sum_list (map (\<lambda>i. sum_list (F i)) xs)"
  for F :: "'a \<Rightarrow> real list" by (induction xs) simp_all

lemma weights_sum:
  "sum_list (map (\<lambda>e. k * (snd e / c)) es) = k / c * sum_list (map snd es)" for k c :: real
  by (induction es) (simp_all add: algebra_simps add_divide_distrib)

lemma edge_flow_sum:
  assumes "transitions_ok n (es, ow)" "length rank = n"
  shows "sum_list (map snd (edge_flow d es ow rank)) + d * dangling_mass ow rank = d * sum_list rank"
proof -
  have each: "sum_list (map snd (if ow ! i = 0 then []
        else map (\<lambda>(dst, w). (dst, d * rank ! i * (w / ow ! i))) (es ! i))) =
      d * (if ow ! i = 0 then 0 else rank ! i)" if "i < n" for i
  proof (cases "ow ! i = 0")
    case False
    have "sum_list (map snd (map (\<lambda>(dst, w). (dst, d * rank ! i * (w / ow ! i))) (es ! i))) =
        sum_list (map (\<lambda>e. d * rank ! i * (snd e / ow ! i)) (es ! i))"
      by (simp add: comp_def case_prod_beta)
    also have "\<dots> = d * rank ! i / ow ! i * sum_list (map snd (es ! i))"
      by (rule weights_sum)
    also have "\<dots> = d * rank ! i" using assms(1) that False by (simp add: transitions_ok_def)
    finally show ?thesis using False by simp
  qed simp
  have "sum_list (map snd (edge_flow d es ow rank)) =
      sum_list (map (\<lambda>i. d * (if ow ! i = 0 then 0 else rank ! i)) [0..<n])"
    unfolding edge_flow_def map_concat map_map assms(2) comp_def
    by (subst sum_list_concat_map, rule arg_cong [where f = sum_list], rule map_cong)
      (simp_all only: set_upt atLeastLessThan_iff each)
  also have "\<dots> + d * dangling_mass ow rank = sum_list (map (\<lambda>i. d * rank ! i) [0..<n])"
    unfolding dangling_mass_def assms(2) sum_list_const_mult [symmetric] sum_list_addf [symmetric]
    by (rule arg_cong [where f = sum_list], rule map_cong) auto
  also have "\<dots> = d * sum_list rank"
    using sum_moves_nth [of "\<lambda>x. d * x" rank] assms(2) by (simp add: sum_list_const_mult)
  finally show ?thesis by simp
qed

text \<open>A step keeps a rank vector a probability distribution.\<close>

definition distribution :: "nat \<Rightarrow> real list \<Rightarrow> bool" where
  "distribution n v \<longleftrightarrow> length v = n \<and> (\<forall>x \<in> set v. 0 \<le> x) \<and> sum_list v = 1"

lemma moves_in_range:
  assumes "transitions_ok n (es, ow)" "seeds_ok n vs sv" "length rank = n"
  shows "\<forall>(j, _) \<in> set (moves d es ow vs sv rank). j < n"
  using assms by (fastforce simp: moves_def edge_flow_def transitions_ok_def seeds_ok_def split: if_splits)

lemma moves_nonneg:
  assumes "transitions_ok n (es, ow)" "seeds_ok n vs sv" "distribution n rank" "0 \<le> d" "d \<le> 1"
  shows "\<forall>c \<in> set (moves d es ow vs sv rank). 0 \<le> snd c"
proof -
  have rank: "i < n \<Longrightarrow> 0 \<le> rank ! i" and sv: "i < n \<Longrightarrow> 0 \<le> sv ! i" for i
    using assms(2,3) by (simp_all add: distribution_def seeds_ok_def)
  have ow: "0 \<le> ow ! i" if "i < n" for i
  proof -
    have "0 \<le> sum_list (map snd (es ! i))"
      by (rule sum_list_nonneg) (use assms(1) that in \<open>force simp: transitions_ok_def\<close>)
    then show ?thesis using assms(1) that by (simp add: transitions_ok_def)
  qed
  have "0 \<le> dangling_mass ow rank"
    unfolding dangling_mass_def
    by (rule sum_list_nonneg) (use rank assms(3) in \<open>auto simp: distribution_def\<close>)
  moreover have "0 \<le> d * rank ! i * (w / ow ! i)" if "i < n" "(j, w) \<in> set (es ! i)" for i j w
    using rank ow that assms(1,4) by (fastforce simp: transitions_ok_def)
  ultimately show ?thesis
    using sv assms(2-5) unfolding moves_def edge_flow_def
    by (auto simp: distribution_def seeds_ok_def split: if_splits)
qed

lemma ppr_step_distribution:
  assumes "transitions_ok n (es, ow)" "seeds_ok n vs sv" "distribution n rank" "0 \<le> d" "d \<le> 1"
  shows "distribution n (ppr_step d es ow vs sv rank)"
proof -
  have len: "length rank = n" "length sv = n" "sum_list rank = 1" "sum_list sv = 1"
    "sum_list (map ((!) sv) vs) = 1"
    using assms(2,3) by (simp_all add: distribution_def seeds_ok_def)
  have "sum_list (map (\<lambda>s. d * dangling_mass ow rank * sv ! s) vs) = d * dangling_mass ow rank"
    using len(5) by (simp add: sum_list_const_mult)
  moreover have "sum_list (map (\<lambda>i. (1 - d) * sv ! i) [0..<n]) = 1 - d"
    using sum_moves_nth [of "\<lambda>x. (1 - d) * x" sv] len by (simp add: sum_list_const_mult)
  ultimately have "sum_list (map snd (moves d es ow vs sv rank)) = 1"
    using edge_flow_sum [OF assms(1) len(1), of d] len by (simp add: moves_def comp_def)
  then have "sum_list (ppr_step d es ow vs sv rank) = 1"
    using sum_fold_add_at [of "moves d es ow vs sv rank" "replicate n 0"]
      moves_in_range [OF assms(1,2) len(1)] len(1) by (simp add: ppr_step_moves sum_list_replicate)
  moreover have "\<forall>x \<in> set (ppr_step d es ow vs sv rank). 0 \<le> x"
    unfolding ppr_step_moves by (rule fold_add_at_nonneg) (use moves_nonneg [OF assms] in auto)
  ultimately show ?thesis by (simp add: distribution_def len(1))
qed

text \<open>Two rank vectors come closer by the damping factor in every step.\<close>

lemma sum_map2_concat:
  fixes f :: "'a \<Rightarrow> 'a \<Rightarrow> real"
  assumes "\<forall>i \<in> set is. length (F i) = length (G i)"
  shows "sum_list (map2 f (concat (map F is)) (concat (map G is))) =
    sum_list (map (\<lambda>i. sum_list (map2 f (F i) (G i))) is)"
  using assms by (induction "is") simp_all

lemma map2_map_same: "map2 f (map F xs) (map G xs) = map (\<lambda>x. f (F x) (G x)) xs"
  by (induction xs) simp_all

lemma abs_scaled: "0 \<le> d \<Longrightarrow> 0 \<le> k \<Longrightarrow> \<bar>d * a * k - d * b * k\<bar> = d * \<bar>a - b\<bar> * k" for a b d k :: real
proof -
  assume "0 \<le> d" "0 \<le> k"
  then have "d * \<bar>a - b\<bar> * k = \<bar>d * (a - b) * k\<bar>" by (simp add: abs_mult)
  then show ?thesis by (simp add: algebra_simps)
qed

lemma edge_flow_contracts:
  assumes "transitions_ok n (es, ow)" "length x = n" "length y = n" "0 \<le> d"
  shows "sum_list (map2 (\<lambda>a b. \<bar>snd a - snd b\<bar>) (edge_flow d es ow x) (edge_flow d es ow y)) =
    d * sum_list (map (\<lambda>i. if ow ! i = 0 then 0 else \<bar>x ! i - y ! i\<bar>) [0..<n])"
proof -
  let ?F = "\<lambda>v i. if ow ! i = 0 then [] else map (\<lambda>(dst, w). (dst, d * v ! i * (w / ow ! i))) (es ! i)"
  have each: "sum_list (map2 (\<lambda>a b. \<bar>snd a - snd b\<bar>) (?F x i) (?F y i)) =
      d * (if ow ! i = 0 then 0 else \<bar>x ! i - y ! i\<bar>)" if "i < n" for i
  proof (cases "ow ! i = 0")
    case False
    have ow: "ow ! i = sum_list (map snd (es ! i))" "\<forall>(j, w) \<in> set (es ! i). 0 < w"
      using assms(1) that by (auto simp: transitions_ok_def)
    have "0 \<le> ow ! i" unfolding ow(1) by (rule sum_list_nonneg) (use ow(2) in force)
    then have "\<bar>d * x ! i * (w / ow ! i) - d * y ! i * (w / ow ! i)\<bar> = d * \<bar>x ! i - y ! i\<bar> * (w / ow ! i)"
      if "(j, w) \<in> set (es ! i)" for j w
      using assms(4) ow(2) that \<open>0 \<le> ow ! i\<close> by (intro abs_scaled) auto
    then have "sum_list (map2 (\<lambda>a b. \<bar>snd a - snd b\<bar>) (?F x i) (?F y i)) =
        sum_list (map (\<lambda>e. d * \<bar>x ! i - y ! i\<bar> * (snd e / ow ! i)) (es ! i))"
      using False by (auto simp: map2_map_same intro!: arg_cong [where f = sum_list])
    also have "\<dots> = d * \<bar>x ! i - y ! i\<bar>"
      unfolding weights_sum using False ow(1) by simp
    finally show ?thesis using False by simp
  qed simp
  have "sum_list (map2 (\<lambda>a b. \<bar>snd a - snd b\<bar>) (edge_flow d es ow x) (edge_flow d es ow y)) =
      sum_list (map (\<lambda>i. sum_list (map2 (\<lambda>a b. \<bar>snd a - snd b\<bar>) (?F x i) (?F y i))) [0..<n])"
    unfolding edge_flow_def assms(2,3) by (rule sum_map2_concat) simp
  also have "\<dots> = sum_list (map (\<lambda>i. d * (if ow ! i = 0 then 0 else \<bar>x ! i - y ! i\<bar>)) [0..<n])"
    by (rule arg_cong [where f = sum_list], rule map_cong) (simp_all only: set_upt atLeastLessThan_iff each)
  finally show ?thesis by (simp add: sum_list_const_mult)
qed

lemma edge_flow_targets:
  assumes "length x = length y"
  shows "map fst (edge_flow d es ow x) = map fst (edge_flow d es ow y)"
  using assms unfolding edge_flow_def map_concat map_map
  by (intro arg_cong [where f = concat] map_cong) auto

lemma dangling_diff:
  assumes "length x = n" "length y = n"
  shows "\<bar>dangling_mass ow x - dangling_mass ow y\<bar> \<le>
    sum_list (map (\<lambda>i. if ow ! i = 0 then \<bar>x ! i - y ! i\<bar> else 0) [0..<n])"
proof -
  have "dangling_mass ow x - dangling_mass ow y =
      sum_list (map (\<lambda>i. if ow ! i = 0 then x ! i - y ! i else 0) [0..<n])"
    unfolding dangling_mass_def assms sum_list_subtractf [symmetric]
    by (rule arg_cong [where f = sum_list], rule map_cong) auto
  then show ?thesis
    using sum_list_abs_le [of "\<lambda>i. if ow ! i = 0 then x ! i - y ! i else 0" "[0..<n]"]
    by (simp add: if_distrib cong: if_cong)
qed

lemma ppr_step_contracts:
  assumes "transitions_ok n (es, ow)" "seeds_ok n vs sv" "length x = n" "length y = n" "0 \<le> d"
  shows "l1 (ppr_step d es ow vs sv x) (ppr_step d es ow vs sv y) \<le> d * l1 x y"
proof -
  let ?D = "\<bar>dangling_mass ow x - dangling_mass ow y\<bar>"
  have same: "map fst (moves d es ow vs sv x) = map fst (moves d es ow vs sv y)"
    using edge_flow_targets [of x y d es ow] assms(3,4) by (simp add: moves_def comp_def)
  have len: "length (edge_flow d es ow x) = length (edge_flow d es ow y)"
    using edge_flow_targets [of x y d es ow] assms(3,4) by (metis length_map)
  have "\<bar>d * dangling_mass ow x * sv ! s - d * dangling_mass ow y * sv ! s\<bar> = d * ?D * sv ! s" if "s \<in> set vs" for s
  proof -
    have "0 \<le> sv ! s" using assms(2) that by (auto simp: seeds_ok_def)
    from abs_scaled [OF assms(5) this] show ?thesis .
  qed
  then have returned: "sum_list (map (\<lambda>s. \<bar>d * dangling_mass ow x * sv ! s - d * dangling_mass ow y * sv ! s\<bar>) vs) = d * ?D"
    using assms(2) by (simp add: seeds_ok_def sum_list_const_mult cong: map_cong)
  have "l1 (ppr_step d es ow vs sv x) (ppr_step d es ow vs sv y) \<le>
      sum_list (map2 (\<lambda>a b. \<bar>snd a - snd b\<bar>) (moves d es ow vs sv x) (moves d es ow vs sv y))"
    using l1_fold_add_at [OF same, of "replicate n 0" "replicate n 0"] assms(3,4) by (simp add: ppr_step_moves)
  also have "\<dots> = d * sum_list (map (\<lambda>i. if ow ! i = 0 then 0 else \<bar>x ! i - y ! i\<bar>) [0..<n]) + d * ?D"
    unfolding moves_def using len assms(3,4) returned edge_flow_contracts [OF assms(1,3,4,5)]
    by (simp add: map2_map_same)
  also have "\<dots> \<le> d * sum_list (map (\<lambda>i. if ow ! i = 0 then 0 else \<bar>x ! i - y ! i\<bar>) [0..<n]) +
      d * sum_list (map (\<lambda>i. if ow ! i = 0 then \<bar>x ! i - y ! i\<bar> else 0) [0..<n])"
    using dangling_diff [OF assms(3,4), of ow] assms(5) by (intro add_left_mono mult_left_mono)
  also have "\<dots> = d * l1 x y"
    unfolding l1_def assms(3) distrib_left [symmetric] sum_list_addf [symmetric]
    by (intro arg_cong [where f = "\<lambda>s. d * s"] arg_cong [where f = sum_list] map_cong) auto
  finally show ?thesis .
qed

section \<open>The iteration\<close>

lemma ppr_iterate_keeps:
  assumes "\<And>v. distribution n v \<Longrightarrow> distribution n (step v)" "distribution n rank"
  shows "distribution n (ppr_iterate k step tol rank)"
  using assms(2) by (induction k arbitrary: rank) (simp_all add: assms(1) Let_def)

lemma ppr_iterate_converges:
  assumes step: "\<And>v. length v = n \<Longrightarrow> length (step v) = n"
    and contracts: "\<And>v w. length v = n \<Longrightarrow> length w = n \<Longrightarrow> l1 (step v) (step w) \<le> d * l1 v w"
    and d: "0 \<le> d" "d \<le> 1"
    and "length rank = n" "l1 (step rank) rank * d ^ k < tol" "k < m"
  shows "l1 (step (ppr_iterate m step tol rank)) (ppr_iterate m step tol rank) < tol"
  using assms(5-7)
proof (induction m arbitrary: rank k)
  case (Suc m)
  let ?new = "step rank"
  have nxt: "l1 (step ?new) ?new \<le> d * l1 ?new rank" by (rule contracts) (simp_all add: step Suc.prems(1))
  show ?case
  proof (cases "l1 ?new rank < tol")
    case True
    have "0 \<le> l1 ?new rank" by (simp add: l1_def sum_list_nonneg_map)
    then have "d * l1 ?new rank \<le> l1 ?new rank" using d by (simp add: mult_left_le_one_le)
    with nxt True show ?thesis by simp
  next
    case False
    then obtain k' where k: "k = Suc k'" using Suc.prems(2) by (cases k) auto
    have "l1 (step ?new) ?new * d ^ k' \<le> d * l1 ?new rank * d ^ k'"
      using nxt d by (intro mult_right_mono) auto
    also have "\<dots> < tol" using Suc.prems(2) by (simp add: k mult_ac)
    finally show ?thesis using Suc.IH [of ?new k'] Suc.prems(1,3) False step by (simp add: k)
  qed
qed simp

lemma l1_distributions:
  assumes "distribution n v" "distribution n w"
  shows "l1 v w \<le> 2"
proof -
  have "l1 v w \<le> sum_list (map (\<lambda>i. v ! i + w ! i) [0..<n])"
    unfolding l1_def using assms by (auto simp: distribution_def abs_le_iff intro!: sum_list_le_map)
  also have "\<dots> = sum_list (map (\<lambda>i. v ! i) [0..<n]) + sum_list (map (\<lambda>i. w ! i) [0..<n])"
    by (simp add: sum_list_addf)
  also have "\<dots> = 2"
    using assms sum_moves_nth [of "\<lambda>x. x" v] sum_moves_nth [of "\<lambda>x. x" w] by (simp add: distribution_def)
  finally show ?thesis .
qed

section \<open>Seeds\<close>

lemma put_all:
  fixes v :: "real list"
  assumes "distinct (map fst cs)" "\<forall>(j, _) \<in> set cs. j < length v \<and> v ! j = 0"
  shows "length (fold (\<lambda>(j, x) v. v[j := x]) cs v) = length v \<and>
    sum_list (fold (\<lambda>(j, x) v. v[j := x]) cs v) = sum_list v + sum_list (map snd cs) \<and>
    (\<forall>(j, x) \<in> set cs. fold (\<lambda>(j, x) v. v[j := x]) cs v ! j = x) \<and>
    (\<forall>k. k \<notin> fst ` set cs \<longrightarrow> fold (\<lambda>(j, x) v. v[j := x]) cs v ! k = v ! k)"
  using assms
proof (induction cs arbitrary: v)
  case (Cons c cs)
  obtain j x where c: "c = (j, x)" by (cases c)
  have j: "j < length v" "v ! j = 0" "j \<notin> fst ` set cs" using Cons.prems by (auto simp: c)
  have rest: "\<forall>(k, _) \<in> set cs. k < length (v[j := x]) \<and> v[j := x] ! k = 0"
  proof clarify
    fix k y assume k: "(k, y) \<in> set cs"
    then have "k \<noteq> j" using j(3) by force
    moreover have "k < length v \<and> v ! k = 0" using Cons.prems(2) k by auto
    ultimately show "k < length (v[j := x]) \<and> v[j := x] ! k = 0" by simp
  qed
  show ?case
    using Cons.IH [OF _ rest] Cons.prems(1) j
    by (auto simp: c sum_list_update_real nth_list_update)
qed simp

lemma node_index_nth:
  assumes "node_index ns v = Some i"
  shows "ns ! i = v"
proof -
  have "(v, i) \<in> set (zip ns [0..<length ns])" using assms by (simp add: node_index_def map_of_SomeD)
  then show ?thesis by (auto simp: set_zip)
qed

definition good_weights :: "(string \<times> real) list option \<Rightarrow> bool" where
  "good_weights ws \<longleftrightarrow> (\<forall>(_, w) \<in> set (case ws of None \<Rightarrow> [] | Some ws \<Rightarrow> ws). 0 < w)"

lemma seed_vector_ok:
  assumes "distinct valid" "valid \<noteq> []" "\<forall>s \<in> set valid. node_index ns s \<noteq> None" "good_weights ws"
  shows "seeds_ok (length ns) (map (\<lambda>s. the (node_index ns s)) valid) (seed_vector ns valid ws)"
proof -
  define raw where "raw = (case ws of Some (w # ws') \<Rightarrow> (\<lambda>s. get_default (map_of (w # ws')) s 1) | _ \<Rightarrow> (\<lambda>_. 1))"
  define total where "total = sum_list (map raw valid)"
  define cs where "cs = map (\<lambda>s. (the (node_index ns s), raw s / total)) valid"
  have raw: "0 < raw s" for s
    using assms(4)
    by (auto simp: raw_def good_weights_def get_default_def split: option.splits list.split dest!: map_of_SomeD)
  then have total: "0 < total"
  proof -
    obtain v vs where v: "valid = v # vs" using assms(2) by (cases valid) auto
    have "0 \<le> sum_list (map raw vs)" by (rule sum_list_nonneg_map) (simp add: raw less_imp_le)
    then show ?thesis using raw [of v] by (simp add: total_def v add_pos_nonneg)
  qed
  have vec: "seed_vector ns valid ws = fold (\<lambda>(j, x) v. v[j := x]) cs (replicate (length ns) 0)"
  proof (cases "ws = None \<or> ws = Some []")
    case True
    then have "raw = (\<lambda>_. 1)" by (auto simp: raw_def)
    moreover have "total = real (length valid)" by (simp add: total_def \<open>raw = (\<lambda>_. 1)\<close> sum_list_triv)
    ultimately show ?thesis using True by (auto simp: seed_vector_def Let_def cs_def fold_map comp_def)
  next
    case False
    then obtain w ws' where ws: "ws = Some (w # ws')" by (cases ws) (auto simp: neq_Nil_conv)
    have zip: "zip valid (map f valid) = map (\<lambda>s. (s, f s)) valid" for f :: "string \<Rightarrow> real"
      by (induction valid) simp_all
    have "raw = (\<lambda>s. get_default (map_of (w # ws')) s 1)" by (simp add: raw_def ws)
    with total show ?thesis
      by (simp add: seed_vector_def Let_def cs_def ws zip fold_map comp_def total_def)
  qed
  have idx: "the (node_index ns s) < length ns" if "s \<in> set valid" for s
    using assms(3) that node_index_less by fastforce
  have inj: "distinct (map fst cs)"
  proof -
    have "inj_on (\<lambda>s. the (node_index ns s)) (set valid)"
      using assms(3) node_index_nth by (intro inj_onI) (metis option.exhaust_sel)
    then show ?thesis using assms(1) by (simp add: cs_def comp_def distinct_map)
  qed
  have zero: "\<forall>(j, _) \<in> set cs. j < length (replicate (length ns) (0 :: real)) \<and> replicate (length ns) 0 ! j = (0 :: real)"
    using idx by (auto simp: cs_def)
  note put = put_all [OF inj zero, folded vec]
  have share: "sum_list (map (\<lambda>s. raw s / total) valid) = 1"
    using total weights_sum [of 1 total "map (\<lambda>s. (s, raw s)) valid"] by (simp add: comp_def total_def)
  have at: "seed_vector ns valid ws ! the (node_index ns s) = raw s / total" if "s \<in> set valid" for s
    using put that by (auto simp: cs_def)
  have "0 \<le> seed_vector ns valid ws ! k" if "k < length ns" for k
  proof (cases "k \<in> fst ` set cs")
    case True
    then show ?thesis using put raw total less_imp_le [OF raw] less_imp_le [OF total] by (auto simp: cs_def)
  next
    case False
    then show ?thesis using put that by simp
  qed
  then have "\<forall>x \<in> set (seed_vector ns valid ws). 0 \<le> x"
    using put by (auto simp: in_set_conv_nth)
  moreover have "sum_list (seed_vector ns valid ws) = 1"
    using put share by (simp add: cs_def comp_def sum_list_replicate)
  moreover have "sum_list (map ((!) (seed_vector ns valid ws)) (map (\<lambda>s. the (node_index ns s)) valid)) = 1"
    using at share by (simp add: comp_def cong: map_cong)
  ultimately show ?thesis using put idx by (auto simp: seeds_ok_def)
qed

section \<open>The scores\<close>

lemma compute_cases:
  assumes "compute p seed_ids adj ws \<noteq> []"
  obtains es ow vs sv where "transitions_ok (length (node_list adj)) (es, ow)"
    "ppr_vectors p seed_ids adj ws = (ppr_step (damping p) es ow vs sv, sv)"
    "vs = map (\<lambda>s. the (node_index (node_list adj) s)) (valid_seed_ids adj seed_ids)"
    "sv = seed_vector (node_list adj) (valid_seed_ids adj seed_ids) ws" "valid_seed_ids adj seed_ids \<noteq> []"
    "compute p seed_ids adj ws = zip (node_list adj)
       (ppr_iterate (max_iterations p) (ppr_step (damping p) es ow vs sv) (tolerance p) sv)"
proof -
  obtain es ow where t: "transitions (node_list adj) adj = (es, ow)" by fastforce
  have "transitions_ok (length (node_list adj)) (es, ow)" using transitions_are_ok by (metis t)
  then show ?thesis
    using assms that [of es ow] by (auto simp: compute_def ppr_vectors_def Let_def t split: if_splits)
qed

lemma compute_seeds_ok:
  assumes "distinct seed_ids" "good_weights ws" "valid_seed_ids adj seed_ids \<noteq> []"
  shows "seeds_ok (length (node_list adj)) (map (\<lambda>s. the (node_index (node_list adj) s)) (valid_seed_ids adj seed_ids))
    (seed_vector (node_list adj) (valid_seed_ids adj seed_ids) ws)"
  by (rule seed_vector_ok) (use assms in \<open>auto simp: valid_seed_ids_def\<close>)

text \<open>
  C27: PageRank scores are a probability distribution: for distinct seeds with positive weights and
  any graph and iteration bound, the scores of a non-empty result are at least zero and sum to
  exactly one (the docstring says approximately), and every node of the graph has one score.
\<close>

theorem ppr_scores_distribution:
  assumes "new_ppr d iterations tol = Inr p" "distinct seed_ids" "good_weights ws"
    and "compute p seed_ids adj ws \<noteq> []"
  shows "map fst (compute p seed_ids adj ws) = node_list adj \<and>
    (\<forall>(_, x) \<in> set (compute p seed_ids adj ws). 0 \<le> x) \<and>
    sum_list (map snd (compute p seed_ids adj ws)) = 1"
proof -
  from assms(4) obtain es ow vs sv where c: "transitions_ok (length (node_list adj)) (es, ow)"
    "seeds_ok (length (node_list adj)) vs sv"
    "compute p seed_ids adj ws = zip (node_list adj)
       (ppr_iterate (max_iterations p) (ppr_step (damping p) es ow vs sv) (tolerance p) sv)"
    by (rule compute_cases) (use compute_seeds_ok [OF assms(2,3)] in blast)
  have d: "0 \<le> damping p" "damping p \<le> 1" using assms(1) by (auto simp: new_ppr_def split: if_splits)
  have "distribution (length (node_list adj)) sv" using c(2) by (simp add: seeds_ok_def distribution_def)
  with ppr_step_distribution [OF c(1,2) _ d]
  have "distribution (length (node_list adj))
      (ppr_iterate (max_iterations p) (ppr_step (damping p) es ow vs sv) (tolerance p) sv)"
    by (intro ppr_iterate_keeps)
  then show ?thesis unfolding c(3) by (auto simp: distribution_def dest: set_zip_rightD)
qed

definition ex_ppr :: PersonalizedPageRank where
  "ex_ppr = \<lparr>damping = 1 / 2, max_iterations = 10, tolerance = 1 / 10\<rparr>"

definition ex_links :: links where
  "ex_links = [(''a'', [(''b'', 1), (''c'', 3)]), (''b'', [(''a'', 2)])]"

lemma ex_compute: "compute ex_ppr [''a'', ''x''] ex_links None = [(''a'', 21 / 32), (''b'', 11 / 128), (''c'', 33 / 128)]"
  by code_simp

theorem ppr_scores_distribution_witness:
  "sum_list (map snd (compute ex_ppr [''a'', ''x''] ex_links None)) = 1"
proof -
  have "new_ppr (1 / 2) 10 (1 / 10) = Inr ex_ppr" by (simp add: new_ppr_def ex_ppr_def)
  moreover have "distinct [''a'', ''x'']" "good_weights None" by (simp_all add: good_weights_def)
  moreover have "compute ex_ppr [''a'', ''x''] ex_links None \<noteq> []" by (simp add: ex_compute)
  ultimately show ?thesis using ppr_scores_distribution by blast
qed

text \<open>
  The iteration converges geometrically: once \<open>2 d\<^sup>k\<close> is under the tolerance for some \<open>k\<close> below
  the iteration bound, the loop has stopped by convergence, and one more step would move the
  returned scores by less than the tolerance.
\<close>

theorem ppr_converges:
  assumes "new_ppr d iterations tol = Inr p" "distinct seed_ids" "good_weights ws"
    and "compute p seed_ids adj ws \<noteq> []" "2 * d ^ k < tol" "k < iterations"
  shows "l1 (fst (ppr_vectors p seed_ids adj ws) (map snd (compute p seed_ids adj ws)))
    (map snd (compute p seed_ids adj ws)) < tol"
proof -
  from assms(4) obtain es ow vs sv where c: "transitions_ok (length (node_list adj)) (es, ow)"
    "seeds_ok (length (node_list adj)) vs sv" "ppr_vectors p seed_ids adj ws = (ppr_step (damping p) es ow vs sv, sv)"
    "compute p seed_ids adj ws = zip (node_list adj)
       (ppr_iterate (max_iterations p) (ppr_step (damping p) es ow vs sv) (tolerance p) sv)"
    by (rule compute_cases) (use compute_seeds_ok [OF assms(2,3)] in blast)
  let ?n = "length (node_list adj)" and ?step = "ppr_step (damping p) es ow vs sv"
  have p: "damping p = d" "max_iterations p = iterations" "tolerance p = tol" "0 \<le> d" "d \<le> 1"
    using assms(1) by (auto simp: new_ppr_def split: if_splits)
  have start: "distribution ?n sv" using c(2) by (simp add: seeds_ok_def distribution_def)
  have keeps: "distribution ?n (?step v)" if "distribution ?n v" for v
    using ppr_step_distribution [OF c(1,2) that] p by simp
  have "l1 (?step sv) sv * d ^ k \<le> 2 * d ^ k"
    using l1_distributions [OF keeps [OF start] start] p(4) by (intro mult_right_mono) auto
  then have small: "l1 (?step sv) sv * d ^ k < tol" using assms(5) by simp
  have close: "l1 (?step v) (?step w) \<le> d * l1 v w" if "length v = ?n" "length w = ?n" for v w
    using ppr_step_contracts [OF c(1,2) that] p by simp
  have "l1 (?step (ppr_iterate iterations ?step tol sv)) (ppr_iterate iterations ?step tol sv) < tol"
    by (rule ppr_iterate_converges [where n = ?n, OF _ close p(4,5) _ small assms(6)])
      (use start in \<open>simp_all add: distribution_def\<close>)
  moreover have "length (ppr_iterate iterations ?step tol sv) = ?n"
    using ppr_iterate_keeps [of ?n ?step, OF keeps start] by (simp add: distribution_def)
  ultimately show ?thesis by (simp add: c(3,4) p)
qed

theorem ppr_converges_witness:
  "l1 (fst (ppr_vectors ex_ppr [''a'', ''x''] ex_links None) (map snd (compute ex_ppr [''a'', ''x''] ex_links None)))
    (map snd (compute ex_ppr [''a'', ''x''] ex_links None)) < 1 / 10"
proof -
  have "new_ppr (1 / 2) 10 (1 / 10) = Inr ex_ppr" by (simp add: new_ppr_def ex_ppr_def)
  moreover have "distinct [''a'', ''x'']" "good_weights None" by (simp_all add: good_weights_def)
  moreover have "compute ex_ppr [''a'', ''x''] ex_links None \<noteq> []" by (simp add: ex_compute)
  moreover have "2 * (1 / 2) ^ 5 < (1 / 10 :: real)" by (simp add: power_divide)
  moreover have "(5 :: nat) < 10" by simp
  ultimately show ?thesis by (rule ppr_converges)
qed

end
