(* ===== verification/Fusion.thy ===== *)
theory Fusion
  imports TxMonad
begin

text \<open>
  Fusion of the retrieval channels (\<open>retrieval/fusion.py\<close>): reciprocal rank fusion of the ranked
  lists, reranking, epistemic boost, and the \<open>retrieve\<close> pipeline over them.  The channels
  themselves, the cross-encoder and the node look-ups are other services; they enter as
  parameters, an exception of one of them as \<open>Inl\<close>.
\<close>

section \<open>Data\<close>

record ChannelResult =
  channel_name :: string
  ranked_ids :: "string list"
  latency_ms :: real
  error :: "string option"

record FusedResult =
  node_id :: string
  rrf_score :: real
  channel_contributions :: "(string \<times> real) list"
  content :: "string option"
  layer :: "val option"
  confidence :: "val option"
  conflict_status :: "val option"
  created_at :: "int option"
  tags :: "val option"
  properties :: pymap

definition new_fused :: "string \<Rightarrow> real \<Rightarrow> (string \<times> real) list \<Rightarrow> FusedResult" where
  "new_fused i s contribs =
     \<lparr>node_id = i, rrf_score = s, channel_contributions = contribs, content = None, layer = None,
      confidence = None, conflict_status = None, created_at = None, tags = None, properties = Map.empty\<rparr>"

section \<open>Reciprocal rank fusion\<close>

record fusion_state =
  scores :: "(string \<times> real) list"
  contributions :: "(string \<times> (string \<times> real) list) list"

definition score_hit :: "nat \<Rightarrow> string \<Rightarrow> nat \<times> string \<Rightarrow> fusion_state \<Rightarrow> fusion_state" where
  "score_hit k name = (\<lambda>(rank_0, i) st.
     let rank = rank_0 + 1;
         contrib = 1 / real (k + rank)
     in \<lparr>scores = AList.update i (get_default (map_of (scores st)) i 0 + contrib) (scores st),
         contributions = AList.update i
           (AList.update name contrib (get_default (map_of (contributions st)) i []))
           (contributions st)\<rparr>)"

definition active :: "ChannelResult \<Rightarrow> bool" where
  "active c \<longleftrightarrow> error c = None \<and> ranked_ids c \<noteq> []"

definition score_channel :: "nat \<Rightarrow> ChannelResult \<Rightarrow> fusion_state \<Rightarrow> fusion_state" where
  "score_channel k c st =
     (if \<not> active c then st
      else fold (score_hit k (channel_name c)) (enumerate 0 (ranked_ids c)) st)"

definition max_theoretical :: "nat \<Rightarrow> ChannelResult list \<Rightarrow> real" where
  "max_theoretical k cs =
     (let num_active_channels = length (filter active cs)
      in if 0 < num_active_channels then real num_active_channels / real (k + 1) else 1)"

definition fuse_rrf :: "nat \<Rightarrow> ChannelResult list \<Rightarrow> nat \<Rightarrow> FusedResult list" where
  "fuse_rrf k channel_results top_k =
     (let st = fold (score_channel k) channel_results \<lparr>scores = [], contributions = []\<rparr>;
          top = max_theoretical k channel_results;
          fused = map (\<lambda>(i, score). new_fused i (if 0 < top then score / top else score)
                                     (get_default (map_of (contributions st)) i []))
                    (scores st)
      in take top_k (sort_desc rrf_score fused))"

section \<open>Reranking\<close>

definition rerank_one :: "(string \<times> real) list \<Rightarrow> real \<Rightarrow> FusedResult \<Rightarrow> FusedResult" where
  "rerank_one rerank_scores max_rerank f =
     (case map_of rerank_scores (node_id f) of
        None \<Rightarrow> f
      | Some s \<Rightarrow>
          let normalized = (if 0 < max_rerank then s / max_rerank else 0)
          in f\<lparr>channel_contributions := AList.update ''rerank'' s (channel_contributions f),
               rrf_score := rrf_score f * (1 / 2 + 1 / 2 * normalized)\<rparr>)"

text \<open>
  \<open>settings\<close>: whether the cross-encoder is enabled and its \<open>top_k\<close>; \<open>get_content\<close> is the content
  query, \<open>reranker\<close> is \<open>None\<close> when the factory has none, and gives the scores of the documents
  (by node id, later entries of a repeated id win) or an exception.
\<close>

record rerank_env =
  cross_encoder_enabled :: bool
  cross_encoder_top_k :: nat
  get_content :: "string list \<Rightarrow> string + (string \<rightharpoonup> string)"
  reranker :: "(string \<Rightarrow> string list \<Rightarrow> string list \<Rightarrow> string + (string \<times> real) list) option"

definition rerank :: "rerank_env \<Rightarrow> string \<Rightarrow> FusedResult list \<Rightarrow> FusedResult list" where
  "rerank env query fused =
     (if \<not> cross_encoder_enabled env \<or> fused = [] then fused
      else (case reranker env of
          None \<Rightarrow> fused
        | Some rank \<Rightarrow>
            let node_ids = map node_id (take (cross_encoder_top_k env) fused)
            in (case get_content env node_ids of
                Inl _ \<Rightarrow> fused
              | Inr id_to_content \<Rightarrow>
                  let valid_ids = filter (\<lambda>i. get_default id_to_content i [] \<noteq> []) node_ids;
                      documents = map (\<lambda>i. take 2000 (get_default id_to_content i [])) valid_ids
                  in if documents = [] then fused
                     else (case rank query documents valid_ids of
                         Inl _ \<Rightarrow> fused
                       | Inr rerank_results \<Rightarrow>
                           let rerank_scores = dict_of rerank_results;
                               max_rerank = (if rerank_scores = [] then 1 else Max (snd ` set rerank_scores))
                           in sort_desc rrf_score (map (rerank_one rerank_scores max_rerank) fused)))))"

section \<open>Epistemic boost\<close>

text \<open>Python truthiness of a property value, and \<open>... or 0\<close> for a count.\<close>

definition truthy_val :: "val option \<Rightarrow> bool" where
  "truthy_val v = (case v of
       None \<Rightarrow> False | Some (VBool b) \<Rightarrow> b | Some (VInt i) \<Rightarrow> i \<noteq> 0 | Some (VNum x) \<Rightarrow> x \<noteq> 0
     | Some (VStr s) \<Rightarrow> s \<noteq> [] | Some (VTime _) \<Rightarrow> True | Some (VStrs xs) \<Rightarrow> xs \<noteq> []
     | Some (VNums xs) \<Rightarrow> xs \<noteq> [] | Some (VDict xs) \<Rightarrow> xs \<noteq> [])"

definition count_of :: "val option \<Rightarrow> real" where
  "count_of v = (case num_of v of None \<Rightarrow> 0 | Some x \<Rightarrow> x)"

definition boost_one :: "real \<Rightarrow> real \<Rightarrow> real \<Rightarrow> FusedResult \<Rightarrow> FusedResult" where
  "boost_one superseded_penalty corroboration_cap corroboration_step f0 =
     (let f = (if truthy_val (properties f0 ''valid_to'')
               then f0\<lparr>rrf_score := rrf_score f0 * superseded_penalty,
                       channel_contributions := AList.update ''epistemic_superseded'' superseded_penalty
                         (channel_contributions f0)\<rparr> else f0);
          corr = count_of (properties f ''corroboration_count'')
      in if 0 < corr then
           (let corr_multiplier = 1 + corroboration_step * min corr corroboration_cap
            in f\<lparr>rrf_score := rrf_score f * corr_multiplier,
                 channel_contributions := AList.update ''epistemic_corroboration'' corr_multiplier
                   (channel_contributions f)\<rparr>)
         else f)"

definition apply_epistemic_boost :: "FusedResult list \<Rightarrow> FusedResult list" where
  "apply_epistemic_boost fused = sort_desc rrf_score (map (boost_one (3 / 10) 5 (5 / 100)) fused)"

section \<open>The pipeline\<close>

text \<open>
  \<open>channel_config\<close> says which channels are enabled (all by default), \<open>channel name\<close> is what the
  coroutine of a channel gave, \<open>ppr_channel\<close> the graph channel, which gets its seeds from the
  semantic one.
\<close>

definition settle_channel :: "string \<Rightarrow> string + ChannelResult \<Rightarrow> ChannelResult" where
  "settle_channel name raw = (case raw of
       Inl err \<Rightarrow> \<lparr>channel_name = name, ranked_ids = [], latency_ms = 0, error = Some err\<rparr>
     | Inr r \<Rightarrow> r)"

definition semantic_seeds :: "(string \<times> ChannelResult) list \<Rightarrow> string list" where
  "semantic_seeds results = (case map_of results ''semantic'' of
       None \<Rightarrow> [] | Some r \<Rightarrow> if truthy (error r) then [] else take 20 (ranked_ids r))"

text \<open>A node as the graph store returns it.\<close>

record fetched_node =
  fn_type :: string
  fn_content :: string
  fn_created_at :: "int option"
  fn_properties :: pymap

definition or_val :: "val option \<Rightarrow> val \<Rightarrow> val option" where
  "or_val v d = (case v of None \<Rightarrow> Some d | Some x \<Rightarrow> Some x)"

definition with_content :: "(string \<rightharpoonup> fetched_node) \<Rightarrow> FusedResult \<Rightarrow> FusedResult" where
  "with_content nodes_map f = (case nodes_map (node_id f) of
       None \<Rightarrow> f
     | Some n \<Rightarrow>
         let ps = fn_properties n in
         f\<lparr>content := Some (fn_content n),
           layer := or_val (ps ''layer'') (VStr (fn_type n)),
           confidence := or_val (ps ''confidence'') (VNum 0),
           conflict_status := or_val (ps ''conflict_status'') (VStr ''none''),
           created_at := fn_created_at n,
           tags := or_val (ps ''tags'') (VStrs []),
           properties := (ps |` {''valid_to'', ''synthesis_state'', ''superseded_by'', ''supersedes''})
             (''corroboration_count'' := or_val (ps ''corroboration_count'') (VInt 0))\<rparr>)"

definition retrieve ::
  "nat \<Rightarrow> (string \<rightharpoonup> bool) \<Rightarrow> (string \<Rightarrow> string + ChannelResult) \<Rightarrow> (string list \<Rightarrow> string + ChannelResult) \<Rightarrow>
   rerank_env \<Rightarrow> (string list \<Rightarrow> string \<rightharpoonup> fetched_node) \<Rightarrow> string \<Rightarrow> nat \<Rightarrow> bool \<Rightarrow>
   string + FusedResult list" where
  "retrieve k channel_config channel ppr_channel env batch_get_nodes query top_k fetch_content =
     (let fetch_k = top_k * 2;
          enabled = (\<lambda>name. get_default channel_config name True);
          results = map (\<lambda>name. (name, settle_channel name (channel name)))
                      (filter enabled [''semantic'', ''bm25'', ''temporal'', ''grep'']);
          channel_results = map snd results @
            (if enabled ''ppr'' then [settle_channel ''ppr'' (ppr_channel (semantic_seeds results))] else []);
          fused = fuse_rrf k channel_results fetch_k;
          reranked = rerank env query (take 50 fused);
          final_results = take top_k reranked
      in if fetch_content \<and> final_results \<noteq> [] then
           if list_ex (\<lambda>f. \<not> uuid_ok (node_id f)) final_results
           then Inl ''badly formed hexadecimal UUID string''
           else Inr (apply_epistemic_boost
                  (map (with_content (batch_get_nodes (map node_id final_results))) final_results))
         else Inr final_results)"

end
