(* ===== verification/FusionCorrect.thy ===== *)
theory FusionCorrect
  imports Fusion
begin

text \<open>
  Fusion and boosting against their formulas: what \<open>_fuse_rrf\<close> returns, the range of its scores, the
  effect of reranking and of the epistemic boost, and what \<open>retrieve\<close> can return at all.
\<close>

section \<open>Fusion against the formula\<close>

text \<open>The contribution of one ranked list to a node, and the formula of the module's docstring.\<close>

definition list_value :: "nat \<Rightarrow> nat \<Rightarrow> string list \<Rightarrow> string \<Rightarrow> real" where
  "list_value k r ids i = sum_list (map (\<lambda>(rank_0, j). if j = i then 1 / real (k + (rank_0 + 1)) else 0) (enumerate r ids))"

definition rrf_value :: "nat \<Rightarrow> ChannelResult list \<Rightarrow> string \<Rightarrow> real" where
  "rrf_value k cs i = sum_list (map (\<lambda>c. list_value k 0 (ranked_ids c) i) (filter active cs))"

definition retrieved :: "ChannelResult list \<Rightarrow> string set" where
  "retrieved cs = (\<Union>c \<in> {c \<in> set cs. active c}. set (ranked_ids c))"

text \<open>The two dictionaries of the loop: what a node has so far, and which nodes are there.\<close>

definition score_at :: "fusion_state \<Rightarrow> string \<Rightarrow> real" where
  "score_at st i = get_default (map_of (scores st)) i 0"

lemma score_hit_facts:
  "score_at (score_hit k name (r, j) st) i = score_at st i + (if j = i then 1 / real (k + (r + 1)) else 0)"
  "fst ` set (scores (score_hit k name (r, j) st)) = insert j (fst ` set (scores st))"
  "distinct (map fst (scores st)) \<Longrightarrow> distinct (map fst (scores (score_hit k name (r, j) st)))"
  by (auto simp: score_hit_def Let_def score_at_def get_default_def update_conv' dom_update
      distinct_update split: option.split)

lemma score_list_facts:
  "score_at (fold (score_hit k name) (enumerate r ids) st) i = score_at st i + list_value k r ids i \<and>
   fst ` set (scores (fold (score_hit k name) (enumerate r ids) st)) = fst ` set (scores st) \<union> set ids \<and>
   (distinct (map fst (scores st)) \<longrightarrow> distinct (map fst (scores (fold (score_hit k name) (enumerate r ids) st))))"
proof (induction ids arbitrary: r st)
  case (Cons x ids)
  show ?case
    using Cons.IH [of "Suc r" "score_hit k name (r, x) st"] score_hit_facts
    by (auto simp: list_value_def)
qed (simp add: list_value_def)

lemma score_channels_facts:
  "score_at (fold (score_channel k) cs st) i = score_at st i + rrf_value k cs i \<and>
   fst ` set (scores (fold (score_channel k) cs st)) = fst ` set (scores st) \<union> retrieved cs \<and>
   (distinct (map fst (scores st)) \<longrightarrow> distinct (map fst (scores (fold (score_channel k) cs st))))"
proof (induction cs arbitrary: st)
  case (Cons c cs)
  show ?case
    using Cons.IH [of "score_channel k c st"] score_list_facts [of k "channel_name c" 0 "ranked_ids c" st i]
    by (auto simp: score_channel_def rrf_value_def retrieved_def)
qed (simp add: rrf_value_def retrieved_def)

lemma max_theoretical_pos: "0 < max_theoretical k cs"
  by (simp add: max_theoretical_def Let_def)

definition all_fused :: "nat \<Rightarrow> ChannelResult list \<Rightarrow> FusedResult list" where
  "all_fused k cs = sort_desc rrf_score
     (let st = fold (score_channel k) cs \<lparr>scores = [], contributions = []\<rparr>
      in map (\<lambda>(i, score). new_fused i (score / max_theoretical k cs) (get_default (map_of (contributions st)) i []))
           (scores st))"

lemma fuse_rrf_take: "fuse_rrf k cs n = take n (all_fused k cs)"
  using max_theoretical_pos [of k cs] by (simp add: fuse_rrf_def all_fused_def Let_def)

lemma new_fused_simps [simp]: "node_id (new_fused i s c) = i" "rrf_score (new_fused i s c) = s"
  by (simp_all add: new_fused_def)

lemma all_fused_facts:
  shows "distinct (map node_id (all_fused k cs))" "node_id ` set (all_fused k cs) = retrieved cs"
    "f \<in> set (all_fused k cs) \<Longrightarrow> rrf_score f = rrf_value k cs (node_id f) / max_theoretical k cs"
proof -
  let ?st = "fold (score_channel k) cs \<lparr>scores = [], contributions = []\<rparr>"
  note facts = score_channels_facts [of k cs "\<lparr>scores = [], contributions = []\<rparr>"]
  have keys: "fst ` set (scores ?st) = retrieved cs" "distinct (map fst (scores ?st))" using facts by auto
  have val: "x = rrf_value k cs i" if "(i, x) \<in> set (scores ?st)" for i x
  proof -
    have "map_of (scores ?st) i = Some x" using that keys(2) by simp
    then have "score_at ?st i = x" by (simp add: score_at_def get_default_def)
    moreover have "score_at ?st i = rrf_value k cs i"
      using facts by (simp add: score_at_def [of "\<lparr>scores = [], contributions = []\<rparr>"])
    ultimately show ?thesis by simp
  qed
  show "distinct (map node_id (all_fused k cs))"
    using keys(2) by (simp add: all_fused_def Let_def comp_def case_prod_beta)
  show "node_id ` set (all_fused k cs) = retrieved cs"
    using keys(1) by (simp add: all_fused_def Let_def image_image case_prod_beta)
  show "f \<in> set (all_fused k cs) \<Longrightarrow> rrf_score f = rrf_value k cs (node_id f) / max_theoretical k cs"
    using val by (auto simp: all_fused_def Let_def)
qed

lemma all_fused_sorted: "sorted_wrt (\<lambda>f g. rrf_score g \<le> rrf_score f) (all_fused k cs)"
  unfolding all_fused_def by (rule sorted_wrt_sort_desc)

text \<open>
  C25: Fusion ranks by the documented formula: the results are distinct nodes of the channels that
  answered, each scored by the sum of \<open>1 / (k + rank)\<close> over those channels, relative to the best
  possible sum, in descending order; and whatever node is left out, the list is full and every
  listed node scores at least as high.
\<close>

theorem fuse_rrf_ranking:
  "distinct (map node_id (fuse_rrf k cs n)) \<and> sorted_wrt (\<lambda>f g. rrf_score g \<le> rrf_score f) (fuse_rrf k cs n) \<and>
   (\<forall>f \<in> set (fuse_rrf k cs n). node_id f \<in> retrieved cs \<and>
      rrf_score f = rrf_value k cs (node_id f) / max_theoretical k cs) \<and>
   (\<forall>i \<in> retrieved cs - node_id ` set (fuse_rrf k cs n). length (fuse_rrf k cs n) = n \<and>
      (\<forall>f \<in> set (fuse_rrf k cs n). rrf_value k cs i / max_theoretical k cs \<le> rrf_score f))"
proof -
  let ?all = "all_fused k cs"
  have parts: "set ?all = set (take n ?all) \<union> set (drop n ?all)" by (metis append_take_drop_id set_append)
  have above: "rrf_score g \<le> rrf_score f" if "f \<in> set (take n ?all)" "g \<in> set (drop n ?all)" for f g
  proof -
    have "sorted_wrt (\<lambda>f g. rrf_score g \<le> rrf_score f) (take n ?all @ drop n ?all)"
      using all_fused_sorted [of k cs] by simp
    with that show ?thesis unfolding sorted_wrt_append by blast
  qed
  have rest: "length (take n ?all) = n \<and>
      (\<forall>f \<in> set (take n ?all). rrf_value k cs i / max_theoretical k cs \<le> rrf_score f)"
    if i: "i \<in> retrieved cs - node_id ` set (take n ?all)" for i
  proof -
    have "i \<in> node_id ` set ?all" using i all_fused_facts(2) [of k cs] by blast
    then obtain g where g: "g \<in> set ?all" "node_id g = i" by blast
    then have d: "g \<in> set (drop n ?all)" using i parts by blast
    then have "length (take n ?all) = n" by (cases "n \<le> length ?all") auto
    then show ?thesis using above [OF _ d] all_fused_facts(3) [OF g(1)] g(2) by simp
  qed
  have "distinct (map node_id (take n ?all))"
    using all_fused_facts(1) [of k cs] by (simp add: distinct_take flip: take_map)
  moreover have "sorted_wrt (\<lambda>f g. rrf_score g \<le> rrf_score f) (take n ?all)"
    by (rule sorted_wrt_take) (rule all_fused_sorted)
  moreover have "node_id f \<in> retrieved cs \<and> rrf_score f = rrf_value k cs (node_id f) / max_theoretical k cs"
    if "f \<in> set (take n ?all)" for f
  proof -
    have f: "f \<in> set ?all" using that by (rule in_set_takeD)
    then have "node_id f \<in> retrieved cs" using all_fused_facts(2) [of k cs] by blast
    with all_fused_facts(3) [OF f] show ?thesis by simp
  qed
  ultimately show ?thesis unfolding fuse_rrf_take using rest by blast
qed

definition ex_channels :: "ChannelResult list" where
  "ex_channels =
     [\<lparr>channel_name = ''semantic'', ranked_ids = [''a'', ''b''], latency_ms = 3, error = None\<rparr>,
      \<lparr>channel_name = ''bm25'', ranked_ids = [''a''], latency_ms = 2, error = None\<rparr>,
      \<lparr>channel_name = ''temporal'', ranked_ids = [''c''], latency_ms = 2, error = Some ''timeout''\<rparr>]"

lemma ex_fused: "map (\<lambda>f. (node_id f, rrf_score f)) (fuse_rrf 60 ex_channels 10) = [(''a'', 1), (''b'', 61 / 124)]"
  by code_simp

theorem fuse_rrf_ranking_witness:
  "map node_id (fuse_rrf 60 ex_channels 10) = [''a'', ''b''] \<and> ''b'' \<in> retrieved ex_channels \<and>
   distinct (map node_id (fuse_rrf 60 ex_channels 10))"
proof -
  have ids: "map node_id (fuse_rrf 60 ex_channels 10) = [''a'', ''b'']"
    using arg_cong [OF ex_fused, of "map fst"] by (simp add: comp_def)
  then have "''b'' \<in> node_id ` set (fuse_rrf 60 ex_channels 10)" by (simp flip: set_map)
  then obtain f where f: "f \<in> set (fuse_rrf 60 ex_channels 10)" "''b'' = node_id f" by (rule imageE) simp
  have "node_id f \<in> retrieved ex_channels"
    by (rule fuse_rrf_ranking [THEN conjunct2, THEN conjunct2, THEN conjunct1, THEN bspec, OF f(1), THEN conjunct1])
  then have "''b'' \<in> retrieved ex_channels" unfolding f(2) .
  moreover have "distinct (map node_id (fuse_rrf 60 ex_channels 10))"
    using fuse_rrf_ranking [of 60 ex_channels 10] ..
  ultimately show ?thesis using ids by simp
qed

section \<open>Bounds of the fused score\<close>

lemma list_value_Cons:
  "list_value k r (x # ids) i = (if x = i then 1 / real (k + (r + 1)) else 0) + list_value k (Suc r) ids i"
  by (simp add: list_value_def)

lemma list_value_absent: "i \<notin> set ids \<Longrightarrow> list_value k r ids i = 0"
proof (induction ids arbitrary: r)
  case (Cons x ids)
  then show ?case by (auto simp: list_value_Cons)
qed (simp add: list_value_def)

lemma list_value_bounds:
  assumes "distinct ids" "ids \<noteq> []"
  shows "0 \<le> list_value k r ids i \<and> (i \<in> set ids \<longrightarrow> 0 < list_value k r ids i) \<and>
    list_value k r ids i \<le> 1 / real (k + (r + 1)) \<and>
    (list_value k r ids i = 1 / real (k + (r + 1)) \<longleftrightarrow> hd ids = i)"
  using assms
proof (induction ids arbitrary: r)
  case (Cons x ids)
  show ?case
  proof (cases "x = i")
    case True
    then show ?thesis using Cons.prems by (simp add: list_value_Cons list_value_absent)
  next
    case False
    have less: "1 / real (k + (Suc r + 1)) < 1 / real (k + (r + 1))" by (simp add: divide_simps)
    have pos: "0 < 1 / real (k + (r + 1))" by simp
    show ?thesis
    proof (cases "ids = []")
      case True
      then show ?thesis using False pos by (simp add: list_value_Cons list_value_def)
    next
      case False
      then show ?thesis using Cons.IH [of "Suc r"] Cons.prems(1) \<open>x \<noteq> i\<close> less by (auto simp: list_value_Cons)
    qed
  qed
qed simp

lemma sum_list_at_bound:
  fixes g :: "'a \<Rightarrow> real"
  assumes "\<forall>x \<in> set xs. g x \<le> b"
  shows "sum_list (map g xs) \<le> real (length xs) * b \<and>
    (sum_list (map g xs) = real (length xs) * b \<longleftrightarrow> (\<forall>x \<in> set xs. g x = b))"
  using assms by (induction xs) (auto simp: algebra_simps)

lemma sum_list_some_pos:
  fixes g :: "'a \<Rightarrow> real"
  assumes "\<forall>x \<in> set xs. 0 \<le> g x" "x \<in> set xs" "0 < g x"
  shows "0 < sum_list (map g xs)"
  using assms by (induction xs) (auto intro: add_pos_nonneg add_nonneg_pos sum_list_nonneg_map)

text \<open>
  When no channel lists a node twice, fused scores are positive and at most one, and a node
  scores one exactly when every channel that answered ranks it first.
\<close>

theorem fuse_rrf_bounds:
  assumes "\<forall>c \<in> set cs. distinct (ranked_ids c)" "f \<in> set (fuse_rrf k cs n)"
  shows "0 < rrf_score f \<and> rrf_score f \<le> 1 \<and>
    (rrf_score f = 1 \<longleftrightarrow> (\<forall>c \<in> set cs. active c \<longrightarrow> hd (ranked_ids c) = node_id f))"
proof -
  let ?i = "node_id f" and ?acts = "filter active cs"
  have f: "f \<in> set (all_fused k cs)" using assms(2) unfolding fuse_rrf_take by (rule in_set_takeD)
  have score: "rrf_score f = rrf_value k cs ?i / max_theoretical k cs" by (rule all_fused_facts(3) [OF f])
  have "?i \<in> retrieved cs" using f all_fused_facts(2) [of k cs] by blast
  then obtain c where c: "c \<in> set ?acts" "?i \<in> set (ranked_ids c)" by (auto simp: retrieved_def)
  have each: "0 \<le> list_value k 0 (ranked_ids c) ?i \<and> (?i \<in> set (ranked_ids c) \<longrightarrow> 0 < list_value k 0 (ranked_ids c) ?i) \<and>
      list_value k 0 (ranked_ids c) ?i \<le> 1 / real (k + 1) \<and>
      (list_value k 0 (ranked_ids c) ?i = 1 / real (k + 1) \<longleftrightarrow> hd (ranked_ids c) = ?i)" if "c \<in> set ?acts" for c
    using list_value_bounds [of "ranked_ids c" k 0 ?i] assms(1) that by (simp add: active_def)
  have top: "max_theoretical k cs = real (length ?acts) * (1 / real (k + 1))"
    using length_pos_if_in_set [OF c(1)] by (simp add: max_theoretical_def Let_def)
  have "0 < rrf_value k cs ?i"
    unfolding rrf_value_def by (rule sum_list_some_pos) (use each c in blast)+
  moreover have "rrf_value k cs ?i \<le> max_theoretical k cs \<and>
      (rrf_value k cs ?i = max_theoretical k cs \<longleftrightarrow> (\<forall>c \<in> set ?acts. hd (ranked_ids c) = ?i))"
    unfolding rrf_value_def top
    using sum_list_at_bound [of ?acts "\<lambda>c. list_value k 0 (ranked_ids c) ?i" "1 / real (k + 1)"] each by auto
  ultimately show ?thesis using max_theoretical_pos [of k cs] by (auto simp: score)
qed

theorem fuse_rrf_bounds_witness:
  "rrf_score (hd (fuse_rrf 60 ex_channels 10)) = 1 \<and> (\<lambda>f. 0 < rrf_score f \<and> rrf_score f \<le> 1) (hd (fuse_rrf 60 ex_channels 10))"
proof -
  have ne: "fuse_rrf 60 ex_channels 10 \<noteq> []" using ex_fused by auto
  then have "(node_id (hd (fuse_rrf 60 ex_channels 10)), rrf_score (hd (fuse_rrf 60 ex_channels 10))) = (''a'', 1)"
    using arg_cong [OF ex_fused, of hd] by (simp add: hd_map)
  moreover have "\<forall>c \<in> set ex_channels. distinct (ranked_ids c)" by (simp add: ex_channels_def)
  from fuse_rrf_bounds [OF this hd_in_set [OF ne]]
  have "0 < rrf_score (hd (fuse_rrf 60 ex_channels 10)) \<and> rrf_score (hd (fuse_rrf 60 ex_channels 10)) \<le> 1" by blast
  ultimately show ?thesis by simp
qed

section \<open>Reranking and boosting\<close>

lemma rerank_one_id [simp]: "node_id (rerank_one r m f) = node_id f"
  by (simp add: rerank_one_def Let_def split: option.split)





definition boost_factor :: "FusedResult \<Rightarrow> real" where
  "boost_factor f =
     (let corr = count_of (properties f ''corroboration_count'')
      in (if truthy_val (properties f ''valid_to'') then 3 / 10 else 1) *
         (if 0 < corr then 1 + 5 / 100 * min corr 5 else 1))"

lemma boost_one_facts:
  "node_id (boost_one (3 / 10) 5 (1 / 20) f) = node_id f"
  "rrf_score (boost_one (3 / 10) 5 (1 / 20) f) = rrf_score f * boost_factor f"
  by (simp_all add: boost_one_def boost_factor_def Let_def)

lemma boost_factor_range:
  "if truthy_val (properties f ''valid_to'') then 3 / 10 \<le> boost_factor f \<and> boost_factor f \<le> 3 / 8
   else 1 \<le> boost_factor f \<and> boost_factor f \<le> 5 / 4"
  by (auto simp: boost_factor_def Let_def min_def)

text \<open>
  The epistemic boost keeps exactly the given nodes, orders them by the boosted score, and a
  node that has been superseded never overtakes a current one unless its raw score was at least
  \<open>8/3\<close> of the other's: corroboration cannot outweigh supersession.
\<close>

theorem epistemic_boost_demotes:
  assumes "f \<in> set fs" "g \<in> set fs" "truthy_val (properties f ''valid_to'')" "\<not> truthy_val (properties g ''valid_to'')"
    and "0 < rrf_score g" "rrf_score f < 8 / 3 * rrf_score g" "distinct (map node_id fs)"
  shows "mset (map node_id (apply_epistemic_boost fs)) = mset (map node_id fs) \<and>
    (\<exists>i j. i < j \<and> j < length fs \<and> node_id (apply_epistemic_boost fs ! i) = node_id g \<and>
       node_id (apply_epistemic_boost fs ! j) = node_id f)"
proof -
  let ?b = "boost_one (3 / 10) 5 (1 / 20)" and ?out = "apply_epistemic_boost fs"
  have out: "?out = sort_desc rrf_score (map ?b fs)" by (simp add: apply_epistemic_boost_def)
  have "rrf_score (?b f) < rrf_score (?b g)"
  proof (cases "0 \<le> rrf_score f")
    case True
    have "rrf_score (?b f) \<le> rrf_score f * (3 / 8)"
      using boost_factor_range [of f] assms(3) True
        mult_left_mono [of "boost_factor f" "3 / 8" "rrf_score f"] by (simp add: boost_one_facts)
    also have "\<dots> < rrf_score g" using assms(6) by simp
    also have "\<dots> \<le> rrf_score (?b g)"
      using boost_factor_range [of g] assms(4,5) by (simp add: boost_one_facts)
    finally show ?thesis .
  next
    case False
    then have "rrf_score (?b f) < 0"
      using boost_factor_range [of f] assms(3) by (simp add: boost_one_facts mult_neg_pos)
    moreover have "0 < rrf_score (?b g)"
      using boost_factor_range [of g] assms(4,5) by (simp add: boost_one_facts)
    ultimately show ?thesis by simp
  qed
  moreover have members: "?b g \<in> set ?out" "?b f \<in> set ?out" using assms(1,2) by (simp_all add: out)
  moreover obtain i where i: "i < length ?out" "?out ! i = ?b g" using members(1) by (metis in_set_conv_nth)
  moreover obtain j where j: "j < length ?out" "?out ! j = ?b f" using members(2) by (metis in_set_conv_nth)
  ultimately have "i < j"
    using sort_desc_sorted [of j i "map ?b fs" rrf_score] out by (force simp: not_less)
  moreover have "mset (map node_id ?out) = mset (map node_id fs)"
    by (simp add: out mset_map image_mset.compositionality comp_def boost_one_facts)
  moreover have "length ?out = length fs" by (simp add: out)
  ultimately show ?thesis
    using i j by (intro conjI exI [of _ i] exI [of _ j]) (simp_all add: boost_one_facts)
qed

definition ex_result :: "string \<Rightarrow> real \<Rightarrow> pymap \<Rightarrow> FusedResult" where
  "ex_result i s ps = (new_fused i s [])\<lparr>properties := ps\<rparr>"

theorem epistemic_boost_demotes_witness:
  "mset (map node_id (apply_epistemic_boost
      [ex_result ''old'' (9 / 10) [''valid_to'' \<mapsto> VTime 5, ''corroboration_count'' \<mapsto> VInt 9],
       ex_result ''new'' (1 / 2) Map.empty])) = {#''old'', ''new''#}"
proof -
  let ?f = "ex_result ''old'' (9 / 10) [''valid_to'' \<mapsto> VTime 5, ''corroboration_count'' \<mapsto> VInt 9]"
  let ?g = "ex_result ''new'' (1 / 2) Map.empty"
  have "?f \<in> set [?f, ?g]" "?g \<in> set [?f, ?g]" by simp_all
  moreover have "truthy_val (properties ?f ''valid_to'')" "\<not> truthy_val (properties ?g ''valid_to'')"
    "0 < rrf_score ?g" "rrf_score ?f < 8 / 3 * rrf_score ?g" "distinct (map node_id [?f, ?g])"
    by (simp_all add: ex_result_def truthy_val_def new_fused_def)
  ultimately have "mset (map node_id (apply_epistemic_boost [?f, ?g])) = mset (map node_id [?f, ?g])"
    by (rule epistemic_boost_demotes [THEN conjunct1])
  then show ?thesis by (simp add: ex_result_def new_fused_def)
qed

section \<open>The pipeline\<close>















end
