(* ===== verification/Batcher.thy ===== *)
theory Batcher
  imports Prelude
begin

text \<open>
  The token-budget batcher of the embedding calls (\<open>embeddings/token_budget_batcher.py\<close>).  Callers
  wait on futures; every change of the pending batch happens under the batcher's lock, so a step
  of the model is one critical section: a text is added (after the full batch before it was
  flushed), the timer flushes, \<open>close\<close> flushes, or a waiting caller is cancelled.

  The embedding service and the tokenizer are other packages: \<open>embed_fn\<close> (what a call to the
  service gives: the vectors or an exception) and the token count are arguments.
\<close>

section \<open>State\<close>




section \<open>Operations\<close>










section \<open>Any interleaving of callers\<close>




section \<open>Settling futures\<close>





section \<open>The invariant\<close>















section \<open>Properties\<close>










end
