(* ===== verification/RateLimit.thy ===== *)
theory RateLimit
  imports Breaker
begin

text \<open>
  The two rate limiters: \<open>RateLimiter\<close> of the API and the MCP tools (\<open>api/rate_limit.py\<close>) and
  \<open>EmbeddingRateLimiter\<close> of the embedding calls (\<open>embeddings/rate_limit.py\<close>).  Both count requests
  of a one-minute window in Redis through \<open>RedisClient.incr_with_expire\<close> (\<open>stores/redis.py\<close>), a Lua
  script behind the Redis circuit breaker.

  A Redis key \<open>f"{prefix}:{window_start}:{suffix}"\<close> is a triple here.  The tier look-up and the
  settings are arguments.  \<open>redis_call\<close> says what becomes of one guarded Redis call: whether Redis
  answers, and when the breaker is asked and told (on its own monotonic clock).
\<close>

section \<open>The counter\<close>

type_synonym limit_key = "string \<times> int \<times> string"

record redis =
  counters :: "limit_key \<rightharpoonup> nat \<times> int"

record redis_call =
  up :: bool
  check_time :: real
  done_time :: real

definition live :: "redis \<Rightarrow> limit_key \<Rightarrow> int \<Rightarrow> nat" where
  "live r k now = (case counters r k of None \<Rightarrow> 0 | Some (n, expiry) \<Rightarrow> if now < expiry then n else 0)"

definition INCR_EXPIRE_SCRIPT :: "limit_key \<Rightarrow> int \<Rightarrow> int \<Rightarrow> redis \<Rightarrow> nat \<times> redis" where
  "INCR_EXPIRE_SCRIPT k ttl now r =
     (let n = Suc (live r k now);
          expiry = (if n = 1 then now + ttl else snd (the (counters r k)))
      in (n, r\<lparr>counters := (counters r)(k \<mapsto> (n, expiry))\<rparr>))"

definition STORE_REDIS :: string where "STORE_REDIS = ''redis''"

definition incr_with_expire ::
  "redis_call \<Rightarrow> limit_key \<Rightarrow> int \<Rightarrow> int \<Rightarrow> registry \<times> redis \<Rightarrow> nat \<times> registry \<times> redis" where
  "incr_with_expire e k ttl now = (\<lambda>(reg, r).
     let (n, r') = INCR_EXPIRE_SCRIPT k ttl now r;
         is_open_now = fst (fst (check_open (check_time e) (fst (get_storage_cb STORE_REDIS reg))));
         (result, reg') = guard_degrade STORE_REDIS (if up e then Returned n else Raised ''RedisError'' True) 0
                            (check_time e) (done_time e) reg
     in (result, reg', if is_open_now \<or> \<not> up e then r else r'))"

text \<open>A call either counts, or gives 0 and leaves the counters alone.\<close>

lemma incr_with_expire_cases:
  "incr_with_expire e k ttl now (reg, r) = (c, reg', r') \<Longrightarrow>
     (c = 0 \<and> r' = r) \<or> (c = Suc (live r k now) \<and> r' = snd (INCR_EXPIRE_SCRIPT k ttl now r))"
  by (auto simp: incr_with_expire_def guard_degrade_def INCR_EXPIRE_SCRIPT_def Let_def
      split: prod.splits if_splits)

section \<open>The embedding limiter\<close>

definition WINDOW_SECONDS :: int where "WINDOW_SECONDS = 60"

definition get_window_start :: "int \<Rightarrow> int \<Rightarrow> int" where
  "get_window_start window_seconds now = (now div window_seconds) * window_seconds"

definition get_window_key :: "int \<Rightarrow> limit_key \<times> int" where
  "get_window_key now = (let window_start = get_window_start WINDOW_SECONDS now
     in ((''embed_rl'', window_start, ''''), window_start))"

datatype verdict = Admitted | Unmetered | Over nat

definition acquire_attempt ::
  "nat \<Rightarrow> redis_call \<Rightarrow> int \<Rightarrow> registry \<times> redis \<Rightarrow> verdict \<times> registry \<times> redis" where
  "acquire_attempt rpm e now st =
     (let (current, st') = incr_with_expire e (fst (get_window_key now)) (WINDOW_SECONDS + 10) now st
      in (if current = 0 then Unmetered else if current \<le> rpm then Admitted else Over current, st'))"

text \<open>
  One caller's loop: the readings of the clocks at its \<open>i\<close>-th attempt, the wall clock when the key is
  built and when the waiting time is computed, and the monotonic clock.
\<close>

record clocks =
  wall_key :: "nat \<Rightarrow> int"
  wall_wait :: "nat \<Rightarrow> int"
  mono :: "nat \<Rightarrow> real"
  calls :: "nat \<Rightarrow> redis_call"

datatype acquire_result = Acquired | EmbeddingRateLimitExceeded int nat nat

definition sleep_time :: "clocks \<Rightarrow> real \<Rightarrow> nat \<Rightarrow> real" where
  "sleep_time env deadline i =
     min (of_int (snd (get_window_key (wall_key env i)) + WINDOW_SECONDS - wall_wait env i) + 1 / 10)
       (deadline - mono env i)"

fun acquire_loop ::
  "nat \<Rightarrow> clocks \<Rightarrow> real \<Rightarrow> nat \<Rightarrow> nat \<Rightarrow> registry \<times> redis \<Rightarrow> (acquire_result \<times> registry \<times> redis) option" where
  "acquire_loop 0 env deadline rpm i st = None"
| "acquire_loop (Suc fuel) env deadline rpm i st =
     (let (v, st') = acquire_attempt rpm (calls env i) (wall_key env i) st
      in case v of
           Over current \<Rightarrow>
             if deadline \<le> mono env i
             then Some (EmbeddingRateLimitExceeded
                    (snd (get_window_key (wall_key env i)) + WINDOW_SECONDS - wall_wait env i) current rpm, st')
             else acquire_loop fuel env deadline rpm (Suc i) st'
         | _ \<Rightarrow> Some (Acquired, st'))"

definition acquire ::
  "nat \<Rightarrow> clocks \<Rightarrow> real \<Rightarrow> real \<Rightarrow> nat \<Rightarrow> registry \<times> redis \<Rightarrow> (acquire_result \<times> registry \<times> redis) option" where
  "acquire fuel env start timeout rpm st = acquire_loop fuel env (start + timeout) rpm 0 st"

section \<open>The API limiter\<close>

datatype RateLimitCategory = MCP_WRITE | MCP_READ | ADMIN | REST

definition READ_TOOLS :: "string list" where "READ_TOOLS = [''recall'', ''trace'', ''patterns'']"

definition get_tool_category :: "string \<Rightarrow> RateLimitCategory" where
  "get_tool_category tool_name = (if tool_name \<in> set READ_TOOLS then MCP_READ else MCP_WRITE)"

definition category_value :: "RateLimitCategory \<Rightarrow> string" where
  "category_value c = (case c of MCP_WRITE \<Rightarrow> ''mcp_write'' | MCP_READ \<Rightarrow> ''mcp_read''
     | ADMIN \<Rightarrow> ''admin'' | REST \<Rightarrow> ''rest'')"

record RateLimitHeaders =
  limit :: nat
  remaining :: nat
  reset_at :: int
  policy :: string

datatype rate_error = RateLimitExceeded int nat nat string | RedisFailure string

definition build_key :: "RateLimitCategory \<Rightarrow> int \<Rightarrow> string \<Rightarrow> limit_key" where
  "build_key category window_start org_id = (''rl:'' @ category_value category, window_start, org_id)"

text \<open>
  \<open>cached_tier\<close> is the unguarded Redis look-up of the tier (an exception, or a value that may be
  absent), \<open>rpm_of\<close> the configured limits; \<open>later\<close> is the wall clock when the error is built.
\<close>

record limit_settings =
  rate_limit_enabled :: bool
  default_tier :: string
  rpm_of :: "string \<Rightarrow> RateLimitCategory \<Rightarrow> nat"

definition get_tier :: "limit_settings \<Rightarrow> string + string option \<Rightarrow> rate_error + string" where
  "get_tier settings cached_tier = (case cached_tier of
       Inl err \<Rightarrow> Inl (RedisFailure err)
     | Inr cached \<Rightarrow> Inr (if truthy cached then the cached else default_tier settings))"

definition check ::
  "limit_settings \<Rightarrow> string + string option \<Rightarrow> redis_call \<Rightarrow> string \<Rightarrow> RateLimitCategory \<Rightarrow> bool \<Rightarrow> int \<Rightarrow> int \<Rightarrow>
   registry \<times> redis \<Rightarrow> (rate_error + RateLimitHeaders) \<times> registry \<times> redis" where
  "check settings cached_tier e org_id category is_dev now later st =
     (let window_start = get_window_start 60 now in
      if \<not> rate_limit_enabled settings \<or> is_dev then
        (Inr \<lparr>limit = 9999, remaining = 9999, reset_at = window_start + 60,
               policy = ''unlimited/'' @ category_value category\<rparr>, st)
      else (case get_tier settings cached_tier of
          Inl err \<Rightarrow> (Inl err, st)
        | Inr tier \<Rightarrow>
            let rpm_limit = rpm_of settings tier category;
                (current, st') = incr_with_expire e (build_key category window_start org_id) (60 + 10) now st
            in if current = 0 then
                 (Inr \<lparr>limit = rpm_limit, remaining = rpm_limit, reset_at = window_start + 60,
                        policy = tier @ ''/'' @ category_value category\<rparr>, st')
               else if rpm_limit < current then
                 (Inl (RateLimitExceeded (max 1 (window_start + 60 - later)) rpm_limit current
                    (category_value category)), st')
               else
                 (Inr \<lparr>limit = rpm_limit, remaining = rpm_limit - current, reset_at = window_start + 60,
                        policy = tier @ ''/'' @ category_value category\<rparr>, st')))"

definition check_mcp ::
  "limit_settings \<Rightarrow> string + string option \<Rightarrow> redis_call \<Rightarrow> string \<Rightarrow> string \<Rightarrow> bool \<Rightarrow> int \<Rightarrow> int \<Rightarrow>
   registry \<times> redis \<Rightarrow> (rate_error + RateLimitHeaders) \<times> registry \<times> redis" where
  "check_mcp settings cached_tier e org_id tool_name is_dev now later st =
     check settings cached_tier e org_id (get_tool_category tool_name) is_dev now later st"

section \<open>Counting within a window\<close>

text \<open>
  What a limiter needs of its counter: during the time a key is in use its count only moves by the
  calls that return a count, each by one.  \<open>good s t\<close> is the invariant of the counter's state.
\<close>

locale window_counter =
  fixes incr :: "'e \<Rightarrow> 'k \<Rightarrow> int \<Rightarrow> 's \<Rightarrow> nat \<times> 's"
    and current :: "'s \<Rightarrow> 'k \<Rightarrow> int \<Rightarrow> nat"
    and in_use :: "'k \<Rightarrow> int \<Rightarrow> bool"
    and good :: "'s \<Rightarrow> bool"
  assumes good_incr: "good s \<Longrightarrow> in_use k t \<Longrightarrow> good (snd (incr e k t s))"
    and counts: "fst (incr e k t s) \<noteq> 0 \<Longrightarrow> fst (incr e k t s) = Suc (current s k t)"
    and moves: "good s \<Longrightarrow> in_use k t \<Longrightarrow> in_use k' t' \<Longrightarrow> t \<le> t' \<Longrightarrow>
      current (snd (incr e k t s)) k' t' = current s k' t' + (if k' = k \<and> fst (incr e k t s) \<noteq> 0 then 1 else 0)"
    and steady: "good s \<Longrightarrow> in_use k t \<Longrightarrow> in_use k t' \<Longrightarrow> t \<le> t' \<Longrightarrow> current s k t' = current s k t"
begin

text \<open>The keys admitted with a count by a sequence of requests, and the state after it.\<close>

fun admitted :: "('k \<Rightarrow> nat) \<Rightarrow> ('e \<times> 'k \<times> int) list \<Rightarrow> 's \<Rightarrow> 'k list" where
  "admitted cap [] s = []"
| "admitted cap ((e, k, t) # rs) s =
     (let (c, s') = incr e k t s
      in (if c \<noteq> 0 \<and> c \<le> cap k then [k] else []) @ admitted cap rs s')"

lemma admitted_keys: "k \<in> set (admitted cap rs s) \<Longrightarrow> \<exists>e t. (e, k, t) \<in> set rs"
proof (induction rs arbitrary: s)
  case (Cons r rs)
  obtain e k1 t1 where "r = (e, k1, t1)" by (cases r) auto
  with Cons show ?case by (auto simp: Let_def split: prod.splits if_splits) blast+
qed simp

lemma admitted_bounded:
  assumes "good s" "sorted (map (\<lambda>(_, _, t). t) rs)" "\<forall>(_, k, t) \<in> set rs. in_use k t"
    and "in_use k t0" "\<forall>(_, k', t) \<in> set rs. k' = k \<longrightarrow> t \<le> t0"
  shows "length (filter (\<lambda>k'. k' = k) (admitted cap rs s)) \<le> cap k - current s k t0"
  using assms(1-3,5)
proof (induction rs arbitrary: s)
  case (Cons r rs)
  obtain e k1 t1 where r: "r = (e, k1, t1)" by (cases r) auto
  obtain c s' where i: "incr e k1 t1 s = (c, s')" by fastforce
  have use1: "in_use k1 t1" using Cons.prems(3) by (auto simp: r)
  have IH: "length (filter (\<lambda>k'. k' = k) (admitted cap rs s')) \<le> cap k - current s' k t0"
    by (rule Cons.IH) (use Cons.prems good_incr [OF Cons.prems(1) use1, of e] in \<open>auto simp: i r\<close>)
  show ?case
  proof (cases "t1 \<le> t0")
    case le: True
    have cur: "current s' k t0 = current s k t0 + (if k = k1 \<and> c \<noteq> 0 then 1 else 0)"
      using moves [OF Cons.prems(1) use1 assms(4) le, of e] by (simp add: i)
    show ?thesis
    proof (cases "k = k1 \<and> c \<noteq> 0 \<and> c \<le> cap k1")
      case True
      have "c = Suc (current s k1 t1)" using counts [of e k1 t1 s] True by (simp add: i)
      also have "current s k1 t1 = current s k t0"
        using steady [OF Cons.prems(1) use1, of t0] assms(4) le True by simp
      finally show ?thesis using IH cur True by (auto simp: r i Suc_diff_Suc)
    next
      case False
      then show ?thesis using IH cur by (auto simp: r i)
    qed
  next
    case False
    then have "(e', k', t') \<in> set (r # rs) \<Longrightarrow> k' \<noteq> k" for e' k' t'
      using Cons.prems(2,4) by (force simp: r)
    then have "k \<notin> set (admitted cap (r # rs) s)"
      using admitted_keys [of k cap "r # rs" s] by blast
    then have "filter (\<lambda>k'. k' = k) (admitted cap (r # rs) s) = []" by (metis (mono_tags) filter_False)
    then show ?thesis by (simp del: admitted.simps)
  qed
qed simp

end

text \<open>
  The Redis counters: a key of window \<open>w\<close> is used at the times of its window only, and a counter
  created then lives at least ten seconds beyond it.
\<close>

definition in_window_of :: "limit_key \<Rightarrow> int \<Rightarrow> bool" where
  "in_window_of k t \<longleftrightarrow> fst (snd k) = get_window_start 60 t"

definition lasting :: "registry \<times> redis \<Rightarrow> bool" where
  "lasting st \<longleftrightarrow> (\<forall>k n x. counters (snd st) k = Some (n, x) \<longrightarrow> fst (snd k) + 60 < x)"

lemma lastingD: "lasting st \<Longrightarrow> counters (snd st) k = Some p \<Longrightarrow> fst (snd k) + 60 < snd p"
  unfolding lasting_def by (metis prod.collapse)

lemma window_bounds: "in_window_of k t \<Longrightarrow> fst (snd k) \<le> t \<and> t < fst (snd k) + 60"
  unfolding in_window_of_def get_window_start_def
  using div_mult_mod_eq [of t 60] pos_mod_bound [of 60 t] pos_mod_sign [of 60 t] by linarith

lemma live_in_window:
  assumes "lasting st" "in_window_of k t"
  shows "live (snd st) k t = (case counters (snd st) k of None \<Rightarrow> 0 | Some (n, _) \<Rightarrow> n)"
proof (cases "counters (snd st) k")
  case (Some p)
  then have "fst (snd k) + 60 < snd p" by (rule lastingD [OF assms(1)])
  then show ?thesis using window_bounds [OF assms(2)] Some by (auto simp: live_def split: prod.split)
qed (simp add: live_def)

interpretation redis_window: window_counter
  "\<lambda>e k t. incr_with_expire e k 70 t" "\<lambda>st. live (snd st)" in_window_of lasting
proof
  fix st :: "registry \<times> redis" and k k' :: limit_key and t t' :: int and e :: redis_call
  obtain reg r where st: "st = (reg, r)" by (cases st)
  obtain c reg' r' where i: "incr_with_expire e k 70 t (reg, r) = (c, reg', r')" by (metis prod_cases3)
  have res: "(c = 0 \<and> r' = r) \<or> (c = Suc (live r k t) \<and> r' = snd (INCR_EXPIRE_SCRIPT k 70 t r))"
    by (rule incr_with_expire_cases [OF i])
  show "fst (incr_with_expire e k 70 t st) \<noteq> 0 \<Longrightarrow> fst (incr_with_expire e k 70 t st) = Suc (live (snd st) k t)"
    using res by (auto simp: i st)
  assume good: "lasting st" and use: "in_window_of k t"
  have keep: "lasting (reg', r')"
    using res
  proof
    assume counted: "c = Suc (live r k t) \<and> r' = snd (INCR_EXPIRE_SCRIPT k 70 t r)"
    have "fst (snd k) + 60 < (if live r k t = 0 then t + 70 else snd (the (counters r k)))"
      using lastingD [OF good, of k] window_bounds [OF use]
      by (auto simp: st live_def split: option.splits if_splits)
    with counted good show ?thesis by (auto simp: lasting_def INCR_EXPIRE_SCRIPT_def Let_def st)
  qed (use good in \<open>simp add: lasting_def st\<close>)
  then show "lasting (snd (incr_with_expire e k 70 t st))" by (simp add: i st)
  show "live (snd st) k t' = live (snd st) k t" if "in_window_of k t'" "t \<le> t'"
    using live_in_window [OF good use] live_in_window [OF good that(1)] by simp
  show "live (snd (snd (incr_with_expire e k 70 t st))) k' t' =
      live (snd st) k' t' + (if k' = k \<and> fst (incr_with_expire e k 70 t st) \<noteq> 0 then 1 else 0)"
    if "in_window_of k' t'" "t \<le> t'"
    using res live_in_window [OF keep that(1)] live_in_window [OF good that(1)] live_in_window [OF good use]
    by (auto simp: i st INCR_EXPIRE_SCRIPT_def Let_def)
qed

section \<open>The limit holds\<close>

record check_request =
  tier_lookup :: "string + string option"
  redis_event :: redis_call
  org :: string
  category_of :: RateLimitCategory
  dev :: bool
  req_time :: int
  until :: int

fun checks ::
  "limit_settings \<Rightarrow> check_request list \<Rightarrow> registry \<times> redis \<Rightarrow> (check_request \<times> (rate_error + RateLimitHeaders)) list" where
  "checks settings [] st = []"
| "checks settings (q # qs) st =
     (let (result, st') = check settings (tier_lookup q) (redis_event q) (org q) (category_of q) (dev q) (req_time q) (until q) st
      in (q, result) # checks settings qs st')"

definition request_key :: "check_request \<Rightarrow> limit_key" where
  "request_key q = build_key (category_of q) (get_window_start 60 (req_time q)) (org q)"

text \<open>A request was admitted and counted when its headers leave fewer requests than the limit.\<close>

definition counted_for :: "limit_key \<Rightarrow> check_request \<times> (rate_error + RateLimitHeaders) \<Rightarrow> bool" where
  "counted_for k = (\<lambda>(q, result). request_key q = k \<and>
     (case result of Inl _ \<Rightarrow> False | Inr h \<Rightarrow> remaining h < limit h))"

definition reaches_redis :: "limit_settings \<Rightarrow> check_request \<Rightarrow> bool" where
  "reaches_redis settings q \<longleftrightarrow> rate_limit_enabled settings \<and> \<not> dev q \<and>
     (case get_tier settings (tier_lookup q) of Inl _ \<Rightarrow> False | Inr _ \<Rightarrow> True)"

lemma request_key_in_window: "in_window_of (request_key q) (req_time q)"
  by (simp add: in_window_of_def request_key_def build_key_def)

lemma check_skips:
  assumes "\<not> reaches_redis settings q"
    and "check settings (tier_lookup q) (redis_event q) (org q) (category_of q) (dev q) (req_time q) (until q) st = (res, st')"
  shows "st' = st \<and> \<not> counted_for k (q, res)"
  using assms by (auto simp: reaches_redis_def check_def Let_def counted_for_def split: sum.splits if_splits)

lemma check_counts:
  assumes "reaches_redis settings q" "\<And>tier. rpm_of settings tier (category_of q) \<le> cap"
    and "check settings (tier_lookup q) (redis_event q) (org q) (category_of q) (dev q) (req_time q) (until q) st = (res, st')"
    and "incr_with_expire (redis_event q) (request_key q) 70 (req_time q) st = (c, st1)"
  shows "st' = st1 \<and> (counted_for k (q, res) \<longrightarrow> request_key q = k \<and> c \<noteq> 0 \<and> c \<le> cap)"
proof -
  obtain tier where tier: "get_tier settings (tier_lookup q) = Inr tier"
    using assms(1) by (auto simp: reaches_redis_def split: sum.splits)
  show ?thesis
    using assms(1,3,4) tier assms(2) [of tier]
    by (auto simp: reaches_redis_def check_def Let_def counted_for_def request_key_def split: if_splits)
qed

lemma checks_admitted:
  assumes "\<And>tier category. rpm_of settings tier category \<le> cap"
  shows "length (filter (counted_for k) (checks settings qs st)) \<le>
    length (filter (\<lambda>k'. k' = k) (redis_window.admitted (\<lambda>_. cap)
      (map (\<lambda>q. (redis_event q, request_key q, req_time q)) (filter (reaches_redis settings) qs)) st))"
proof (induction qs arbitrary: st)
  case (Cons q qs)
  obtain res st' where ch: "check settings (tier_lookup q) (redis_event q) (org q) (category_of q) (dev q)
      (req_time q) (until q) st = (res, st')" by (metis surj_pair)
  show ?case
  proof (cases "reaches_redis settings q")
    case False
    then show ?thesis using check_skips [OF False ch] Cons.IH [of st] by (simp add: ch)
  next
    case True
    obtain c st1 where i: "incr_with_expire (redis_event q) (request_key q) 70 (req_time q) st = (c, st1)" by (metis surj_pair)
    show ?thesis using check_counts [OF True assms ch i, of k] Cons.IH [of st1] True
      by (auto simp: ch i)
  qed
qed simp

lemma checks_bounded:
  assumes "lasting st" "sorted (map req_time qs)" "\<And>tier category. rpm_of settings tier category \<le> cap"
  shows "length (filter (counted_for (build_key c w org_id)) (checks settings qs st)) \<le> cap"
proof (cases "\<exists>q \<in> set qs. request_key q = build_key c w org_id")
  case True
  let ?k = "build_key c w org_id"
  let ?rs = "map (\<lambda>q. (redis_event q, request_key q, req_time q)) (filter (reaches_redis settings) qs)"
  from True have w: "get_window_start 60 (w + 59) = w"
    by (auto simp: request_key_def build_key_def get_window_start_def)
  have "length (filter (\<lambda>k'. k' = ?k) (redis_window.admitted (\<lambda>_. cap) ?rs st))
      \<le> cap - live (snd st) ?k (w + 59)"
  proof (rule redis_window.admitted_bounded [OF assms(1)])
    show "sorted (map (\<lambda>(_, _, t). t) ?rs)"
      using assms(2) by (simp add: comp_def sorted_map sorted_wrt_filter)
    show "\<forall>(_, k, t) \<in> set ?rs. in_window_of k t" by (auto simp: request_key_in_window)
    show "in_window_of ?k (w + 59)" using w by (simp add: in_window_of_def build_key_def)
    show "\<forall>(_, k', t) \<in> set ?rs. k' = ?k \<longrightarrow> t \<le> w + 59"
    proof -
      have "req_time q \<le> w + 59" if "request_key q = ?k" for q
        using window_bounds [OF request_key_in_window, of q] by (simp add: that build_key_def)
      then show ?thesis by auto
    qed
  qed
  with checks_admitted [of settings cap ?k qs st, OF assms(3)] show ?thesis by linarith
next
  case False
  have "fst ` set (checks settings qs st) \<subseteq> set qs"
    by (induction qs arbitrary: st) (auto simp: Let_def split: prod.splits)
  with False have "filter (counted_for (build_key c w org_id)) (checks settings qs st) = []"
    by (force simp: filter_empty_conv counted_for_def)
  then show ?thesis by simp
qed

text \<open>
  C37: However the requests of all organisations, tools and workers interleave, and whatever Redis and
  its breaker do meanwhile, at most \<open>requests_per_minute\<close> requests of one organisation and category are
  admitted and counted in a one-minute window (when no tier allows more than \<open>cap\<close>, and one clock
  orders the requests).
\<close>

theorem rate_limit_holds:
  assumes "lasting st" "sorted (map req_time qs)" "\<forall>tier category. rpm_of settings tier category \<le> cap"
  shows "length (filter (counted_for (build_key c w org_id)) (checks settings qs st)) \<le> cap"
  using checks_bounded [OF assms(1,2)] assms(3) by blast

definition ex_settings :: limit_settings where
  "ex_settings = \<lparr>rate_limit_enabled = True, default_tier = ''free'', rpm_of = (\<lambda>_ _. 2)\<rparr>"

definition ex_request :: "bool \<Rightarrow> int \<Rightarrow> check_request" where
  "ex_request redis_up t = \<lparr>tier_lookup = Inr None, redis_event = \<lparr>up = redis_up, check_time = of_int t, done_time = of_int t\<rparr>,
     org = ''o'', category_of = MCP_READ, dev = False, req_time = t, until = t\<rparr>"

definition ex_requests :: "check_request list" where
  "ex_requests = [ex_request True 121, ex_request False 130, ex_request True 140, ex_request True 170, ex_request True 185]"

text \<open>Of five requests the fourth is refused; the fifth falls into the next window.\<close>

lemma ex_requests_run:
  "map (\<lambda>(_, r). case r of Inl _ \<Rightarrow> None | Inr h \<Rightarrow> Some (remaining h)) (checks ex_settings ex_requests (Map.empty, \<lparr>counters = Map.empty\<rparr>))
    = [Some 1, Some 2, Some 0, None, Some 1]"
  by code_simp

theorem rate_limit_holds_witness:
  "length (filter (counted_for (build_key MCP_READ 120 ''o''))
     (checks ex_settings ex_requests (Map.empty, \<lparr>counters = Map.empty\<rparr>))) \<le> 2"
  by (rule rate_limit_holds) (simp_all add: lasting_def ex_requests_def ex_request_def ex_settings_def)

section \<open>Waiting for a slot ends\<close>

lemma acquire_loop_ends:
  assumes wall: "\<And>i. wall_wait env i \<le> snd (get_window_key (wall_key env i)) + WINDOW_SECONDS"
    and slept: "\<And>i. mono env i + sleep_time env deadline i \<le> mono env (Suc i)"
    and "deadline - mono env i \<le> real k / 10"
  shows "acquire_loop (Suc k) env deadline rpm i st \<noteq> None"
  using assms(3)
proof (induction k arbitrary: i st)
  case 0
  then show ?case by (simp split: prod.split verdict.split)
next
  case (Suc k)
  have "real_of_int (wall_wait env i) \<le> of_int (snd (get_window_key (wall_key env i)) + WINDOW_SECONDS)"
    using wall [of i] by (simp only: of_int_le_iff)
  then have "min (1 / 10) (deadline - mono env i) \<le> sleep_time env deadline i"
    by (simp add: sleep_time_def)
  then have "deadline - mono env (Suc i) \<le> real k / 10"
    using slept [of i] Suc.prems by (simp add: field_simps min_def split: if_splits)
  then have "acquire_loop (Suc k) env deadline rpm (Suc i) st' \<noteq> None" for st' by (rule Suc.IH)
  then show ?case by (subst acquire_loop.simps) (simp del: acquire_loop.simps split: prod.split verdict.split)
qed

text \<open>
  Waiting for an embedding slot ends: when a sleep lasts at least as long as asked and the wall
  clock is still at the attempt's window when the waiting time is computed, \<open>acquire\<close> with a timeout of
  \<open>k\<close> tenths of a second returns or raises after at most \<open>k + 1\<close> attempts, whatever Redis answers; it
  raises only when more requests than the limit were counted.
\<close>

theorem acquire_terminates:
  assumes "\<forall>i. wall_wait env i \<le> snd (get_window_key (wall_key env i)) + WINDOW_SECONDS"
    and "\<forall>i. mono env i + sleep_time env (start + timeout) i \<le> mono env (Suc i)"
    and "start \<le> mono env 0" "timeout \<le> real k / 10"
  shows "\<exists>st'. acquire (Suc k) env start timeout rpm st = Some (Acquired, st') \<or>
    (\<exists>retry_after current. rpm < current \<and>
       acquire (Suc k) env start timeout rpm st = Some (EmbeddingRateLimitExceeded retry_after current rpm, st'))"
proof -
  have over: "acquire_loop n env d rpm i s = Some (EmbeddingRateLimitExceeded ra current r, s') \<Longrightarrow> rpm < current \<and> r = rpm"
    for n d i s ra current r s'
    by (induction n env d rpm i s rule: acquire_loop.induct)
       (auto simp: acquire_attempt_def Let_def split: prod.splits verdict.splits if_splits)
  have "acquire (Suc k) env start timeout rpm st \<noteq> None"
    unfolding acquire_def by (rule acquire_loop_ends) (use assms in auto)
  then obtain res st' where "acquire (Suc k) env start timeout rpm st = Some (res, st')" by auto
  with over show ?thesis unfolding acquire_def by (cases res) blast+
qed

definition ex_clocks :: clocks where
  "ex_clocks = \<lparr>wall_key = (\<lambda>_. 130), wall_wait = (\<lambda>_. 180), mono = (\<lambda>i. real i / 10),
     calls = (\<lambda>_. \<lparr>up = True, check_time = 0, done_time = 0\<rparr>)\<rparr>"

theorem acquire_terminates_witness:
  "\<exists>st'. acquire 3 ex_clocks 0 (2 / 10) 0 (Map.empty, \<lparr>counters = Map.empty\<rparr>) = Some (Acquired, st') \<or>
    (\<exists>retry_after current. 0 < current \<and> acquire 3 ex_clocks 0 (2 / 10) 0 (Map.empty, \<lparr>counters = Map.empty\<rparr>)
       = Some (EmbeddingRateLimitExceeded retry_after current 0, st'))"
proof -
  have "acquire (Suc 2) ex_clocks 0 (2 / 10) 0 st = acquire 3 ex_clocks 0 (2 / 10) 0 st" for st
    by (simp only: numeral_3_eq_3 numeral_2_eq_2)
  moreover have "\<exists>st'. acquire (Suc 2) ex_clocks 0 (2 / 10) 0 (Map.empty, \<lparr>counters = Map.empty\<rparr>) = Some (Acquired, st') \<or>
    (\<exists>retry_after current. 0 < current \<and> acquire (Suc 2) ex_clocks 0 (2 / 10) 0 (Map.empty, \<lparr>counters = Map.empty\<rparr>)
       = Some (EmbeddingRateLimitExceeded retry_after current 0, st'))"
    by (rule acquire_terminates)
       (simp_all add: ex_clocks_def sleep_time_def min_def get_window_key_def get_window_start_def WINDOW_SECONDS_def)
  ultimately show ?thesis by simp
qed

section \<open>Outages\<close>

text \<open>
  A Redis outage, as the API limiter sees it: a failing or open counter lets the request through
  without a count, with the full limit in its headers, but a failing tier look-up, which nothing guards,
  ends the request with the Redis error before any counting.
\<close>

theorem check_outage:
  assumes "rate_limit_enabled settings"
  shows "check settings (Inl err) e org_id category False now later st = (Inl (RedisFailure err), st) \<and>
    fst (check settings (Inr (Some ''pro'')) \<lparr>up = False, check_time = t1, done_time = t2\<rparr> org_id category False now later st) =
      Inr \<lparr>limit = rpm_of settings ''pro'' category, remaining = rpm_of settings ''pro'' category,
           reset_at = get_window_start 60 now + 60, policy = ''pro/'' @ category_value category\<rparr>"
proof -
  obtain c st' where i: "incr_with_expire \<lparr>up = False, check_time = t1, done_time = t2\<rparr>
      (build_key category (get_window_start 60 now) org_id) 70 now st = (c, st')" by (metis surj_pair)
  then have "c = 0"
    by (cases st) (auto simp: incr_with_expire_def guard_degrade_def Let_def split: prod.splits if_splits)
  with i assms show ?thesis by (simp add: check_def get_tier_def truthy_def Let_def)
qed

theorem check_outage_witness:
  "check ex_settings (Inl ''down'') \<lparr>up = True, check_time = 0, done_time = 0\<rparr> ''o'' REST False 61 61
     (Map.empty, \<lparr>counters = Map.empty\<rparr>) = (Inl (RedisFailure ''down''), (Map.empty, \<lparr>counters = Map.empty\<rparr>))"
  by (rule conjunct1 [OF check_outage]) (simp add: ex_settings_def)

end
