(* ===== verification/Spec2Isabelle.thy ===== *)
theory Spec2Isabelle
  imports TxSystem LifecycleCorrect TxStoreCorrect TxLinkCorrect TxLayerCorrect TxWisdomCorrect
    ConflictToolsCorrect MarkersCorrect PropagationCorrect
    RetentionCorrect ChainStoreCorrect
    TextExtractionCorrect ClaimFilterCorrect ExtractionJobsCorrect CustodianCorrect
    DiffusionCorrect Coherence Ppr FusionCorrect
    Breaker Batcher RateLimit
begin

text \<open>
  Engrammic is a memory service for agents.  What the agents store becomes nodes of a property
  graph, each in the silo of a tenant: memories, claims with evidence, facts (claims that were
  corroborated), beliefs synthesized from facts, and commitments.  This library models the
  program's logic over that graph and the stores beside it, in \<open>src/src/context_service/\<close> (every path
  below is relative to it), and proves what makes it correct.

  \<^bold>\<open>How the parts interact.\<close>  A tool or a service calls a transaction of \<open>sage/transactions.py\<close>.  It reads
  and writes the graph by Cypher statements (\<open>db/queries.py\<close>), each committing on its own, and queues
  reaction events; the workers of \<open>reactions/tasks.py\<close> deliver them later, and call transactions in
  turn (a staleness cascade, the consolidation of a conflict).  Extraction turns documents into
  claims through a filter; the custodian writes findings with their citations; retention and erasure take nodes
  away; recall fuses search channels, drops dominated results, and is told of open markers.
  Circuit breakers, rate limiters and a batcher stand between these parts and the outside.

  \<^bold>\<open>The foundation.\<close>
  \<^item> \<open>Prelude\<close>: Python truthiness, clamping, stable sorting, look-ups with defaults, and the collections
    \<open>effect_intros\<close> and \<open>graph_simps\<close>.
  \<^item> \<open>PropertyGraph\<close>: the graph as Cypher sees it.  Nothing assumes that ids are unique; \<open>null\<close> is an absent key.
  \<^item> \<open>TxMonad\<close>: the state of a transaction (graph, Postgres shadow, vectors, dead letters, events) and its
    errors.  A raise keeps the writes before it.  The outside (clock, uuids, language model, failing
    calls) is an environment indexed by the number of calls made, so every theorem holds
    for every pattern of failures its hypotheses admit.  \<open>wp\<close> is the calculus of weakest preconditions, the locale
    \<open>graph_effect\<close> the interface of a relation that composed transactions keep; it is interpreted
    on equality, on the steps of a silo, and on the frame conditions of the component theories.
  \<^item> \<open>GraphSteps\<close>: the contract of every transaction, the steps \<open>gstep\<close> of one silo, with their
    invariants.  \<open>Schema\<close>, \<open>Queries\<close>: enumerations and statements.  \<open>Examples\<close>: the data of the witnesses.

  \<^bold>\<open>The transactions\<close> (\<open>sage/transactions.py\<close>, \<open>sage/confidence.py\<close>, \<open>sage/epistemology.py\<close>,
  \<open>sage/source_verification.py\<close>).
  \<^item> \<open>TxStore\<close>, \<open>Credibility\<close>: \<open>store_memory\<close>, \<open>store_claim\<close>, contradiction and corroboration checks.
    \<open>TxStoreCorrect\<close>: evidence exists, no two active claims contradict each other (INV1), frames.
  \<^item> \<open>TxLink\<close>, \<open>Propagation\<close>: \<open>supersede\<close>, \<open>link\<close>, confidence propagation.  \<open>TxLinkCorrect\<close>: acyclic types stay
    acyclic (INV4), and the self-loop they admit.  \<open>PropagationCorrect\<close>: bounds and convergence.
  \<^item> \<open>TxLayer\<close>, \<open>TxWisdom\<close>: promotion, demotion, commitments, hypotheses, proposals, beliefs.  Their \<open>Correct\<close>
    theories: what may be promoted, what a proposal needs, that a revision never leaves a belief locked.
  \<^item> \<open>Lifecycle\<close>: \<open>forget\<close>, \<open>cancel_forget\<close>, \<open>hard_delete\<close>, the staleness cascade.  \<open>LifecycleCorrect\<close>:
    the cascade reaches every dependent within its depth, cancelling restores.
  \<^item> \<open>Conflicts\<close> (\<open>sage/consolidation.py\<close>, \<open>engine/conflict_detection.py\<close>, \<open>mcp/tools/conflicts.py\<close>,
    \<open>reactions/tasks.py\<close>): detection, resolvers, the worker, the tools, the tasks.
    \<open>ConflictsCorrect\<close>, \<open>ConflictToolsCorrect\<close>: a readable conflict is settled for one side whichever is
    named first, a detected one is listed until settled, a fact does not outlive the chains it
    rests on; and the defects: linked contradictions are never consolidated, merges are refused.
  \<^item> \<open>TxSystem\<close>: all of the above and the services below as steps of one transition system;
    in every reachable world the graph is well formed, no edge crosses silos, and a step for one
    silo leaves the others as they were.

  \<^bold>\<open>Services.\<close>
  \<^item> \<open>Retention\<close> (\<open>retention/\<close>): sweep, erasure, forgetting on request; \<open>RetentionCorrect\<close>: only what the policy
    allows is marked or deleted.
  \<^item> \<open>ChainStore\<close> (\<open>engine/chain_saga.py\<close>, \<open>engine/postgres_store.py\<close>, \<open>pipelines/\<close>): reasoning chains in two stores,
    the saga, its recovery and reconciliation; \<open>ChainStoreCorrect\<close>: the outcomes of a write under
    failures, and what interleaving with the collection loses.
  \<^item> \<open>TextExtraction\<close>, \<open>ClaimFilter\<close>, \<open>ExtractionJobs\<close> (\<open>extraction/\<close>): from the answer of the language model, any
    JSON object, to typed relationships, filtered claims, the graph and the job record; the \<open>Correct\<close> theories:
    types, reasons and audit of drops, bounded calls in an outage, idempotent claims, jobs that settle.
  \<^item> \<open>Custodian\<close> (\<open>custodian/\<close>, \<open>db/custodian_queries.py\<close>): validation of findings and the write of a visit;
    \<open>CustodianCorrect\<close>: batched and single validation agree, a visit is all or nothing, citations
    are anchored.
  \<^item> \<open>Markers\<close> (\<open>engine/markers.py\<close>, \<open>engine/engagement.py\<close>, \<open>engine/touch_counter.py\<close>, \<open>mcp/tools/dismiss.py\<close>,
    \<open>mcp/tools/recall.py\<close>, \<open>mcp/tools/trust_gate.py\<close>): markers over the graph and an index in Redis;
    \<open>MarkersCorrect\<close>: open ones are shown, settled ones never again, ignored ones escalate.
  \<^item> \<open>Diffusion\<close> (\<open>signals/diffusion.py\<close>), \<open>Coherence\<close>, \<open>Ppr\<close>, \<open>Fusion\<close> (\<open>retrieval/\<close>): heat as the best
    path, contradicted results, PageRank as a distribution, fusion against its formula.
  \<^item> \<open>Breaker\<close>, \<open>Batcher\<close>, \<open>RateLimit\<close> (\<open>extraction/filter/circuit_breaker.py\<close>, \<open>engine/storage_circuit.py\<close>,
    \<open>embeddings/\<close>, \<open>api/rate_limit.py\<close>, \<open>stores/redis.py\<close>): refinement of a window, budgets, bounds.  The
    locale \<open>window_counter\<close> is the contract of the counter in Redis, \<open>domination\<close> that of a strict order of results,
    \<open>marker_effect\<close> and \<open>marker_frame\<close> those of the marker operations.

  \<^bold>\<open>Loops.\<close>  Structural recursion where the code iterates over a list or a constant number of times (the cascade
  over the depth that is left of \<open>MAX_CASCADE_DEPTH\<close>, propagation over its maximal number of rounds, the compensation
  over its retries).  The search of \<open>Diffusion\<close> has a measure from the degree and depth bounds.  The waiting loop of
  the rate limiter takes fuel; it is proved that one more round than the deadline admits suffices.
  Limits of statements (\<open>BATCH_LIMIT\<close>, \<open>MAX_RELATIONSHIPS\<close>) are those of the code.

  \<^bold>\<open>What the models abstract from.\<close>  Floats are reals; times are numbers of seconds, and a timestamp and its ISO text
  are one value where the code compares texts of one format.  Rows come in the order of insertion where
  no order is asked for.  JSON texts are the values they encode.  Case mapping and white space are those of ASCII.
  Hashes, readings of texts as numbers or dates, embeddings, token counts, answers of language models,
  vector searches and the statements of packages outside the repository are arguments.  A method under a lock and a
  statement of a store are atomic; between statements any call may fail.  Metrics and logs are left out.

  \<^bold>\<open>What is not modelled.\<close>  HTTP and MCP schemas, authentication, configuration loading, caches, database drivers, prompts
  and clients of model services, the scheduling of batch pipelines, the agents of the custodian, and the
  reaction tasks for embeddings, extraction, tracing and consensus: wiring and calls to the outside whose logic is
  elsewhere.  The update of a conflict's status is no step of \<open>TxSystem\<close>, because it matches an edge of
  any silo by its id (\<open>dismissal_crosses_silos\<close>).
\<close>

end
